(* ===== verification/Prelude.thy ===== *)
theory Prelude
  imports Main "HOL-Library.Multiset"
begin

text \<open>
  Shared material of the development: the collections its proofs draw on, generic facts about
  lists and options, and the decimal rendering of integers that the program's format strings use.
\<close>

named_theorems model_simps \<open>defining equations of small accessors, safe to unfold everywhere\<close>

section \<open>Options: assertions as values\<close>

text \<open>
  A failed \<open>SLANG_ASSERT\<close> aborts the program. A fallible operation returns \<open>None\<close> there;
  \<open>and_then\<close> sequences such operations, \<open>require\<close> is one assertion.
\<close>

abbreviation and_then :: "'a option \<Rightarrow> ('a \<Rightarrow> 'b option) \<Rightarrow> 'b option" where
  "and_then \<equiv> Option.bind"

definition require :: "bool \<Rightarrow> 'a option \<Rightarrow> 'a option" where
  [model_simps]: "require c x = (if c then x else None)"

lemma require_eq_Some [simp]: "require c x = Some y \<longleftrightarrow> c \<and> x = Some y"
  by (simp add: require_def)

lemma require_True [simp]: "require True x = x"
  by (simp add: require_def)

section \<open>Lists\<close>

text \<open>\<open>std::ranges::find_if\<close> on a vector: the first element that satisfies the predicate.\<close>

lemma find_filter: "List.find P xs = (case filter P xs of [] \<Rightarrow> None | x # _ \<Rightarrow> Some x)"
  by (induction xs) auto

lemma find_SomeD: "List.find P xs = Some x \<Longrightarrow> x \<in> set xs \<and> P x"
  by (induction xs) (auto split: if_splits)

lemma find_NoneD: "List.find P xs = None \<Longrightarrow> x \<in> set xs \<Longrightarrow> \<not> P x"
  by (simp add: find_None_iff)

lemma find_append:
  "List.find P (xs @ ys) = (case List.find P xs of None \<Rightarrow> List.find P ys | Some x \<Rightarrow> Some x)"
  by (induction xs) auto

text \<open>Removing the first occurrence of an element from a list without repetitions.\<close>

lemma remove1_filter_distinct: "distinct xs \<Longrightarrow> remove1 x xs = filter (\<lambda>y. y \<noteq> x) xs"
  by (rule distinct_remove1_removeAll [THEN trans]) (simp_all add: removeAll_filter_not_eq eq_commute)

section \<open>Decimal rendering\<close>

text \<open>The \<open>{}\<close> format specifier applied to an integer: decimal, with a minus sign when negative.\<close>

definition digit_char :: "nat \<Rightarrow> char" where
  "digit_char d = char_of (48 + d)"

fun show_nat :: "nat \<Rightarrow> string" where
  "show_nat n = (if n < 10 then [digit_char n] else show_nat (n div 10) @ [digit_char (n mod 10)])"

declare show_nat.simps [simp del]

definition show_int :: "int \<Rightarrow> string" where
  "show_int i = (if i < 0 then CHR ''-'' # show_nat (nat (- i)) else show_nat (nat i))"

end
