(* ===== verification/BitRange.thy ===== *)
theory BitRange
  imports Prelude
begin

text \<open>
  \<open>DriverBitRange\<close> of \<^verbatim>\<open>include/netlist/DriverBitRange.hpp\<close>: a range over which a symbol is
  driven. It derives from slang's \<open>ConstantRange\<close>, a struct of two \<open>int32_t\<close> bounds that may be
  written in either order. The methods it inherits are code of slang, so they are a parameter of
  the model: a record of operations, with the documented behaviour of each as the laws of a locale.
  Bit positions are \<open>int\<close>; the code keeps them far below \<open>2 ^ 31\<close> (widths of SystemVerilog values).
\<close>

section \<open>The inherited operations\<close>

record bit_range =
  rg_left :: int
  rg_right :: int

record range_lib =
  lower_of :: "bit_range \<Rightarrow> int"
  upper_of :: "bit_range \<Rightarrow> int"
  overlaps_of :: "bit_range \<Rightarrow> bit_range \<Rightarrow> bool"
  contains_of :: "bit_range \<Rightarrow> bit_range \<Rightarrow> bool"
  intersect_of :: "bit_range \<Rightarrow> bit_range \<Rightarrow> bit_range"

text \<open>The constructor \<open>DriverBitRange{a, b}\<close>.\<close>

abbreviation mk_range :: "int \<Rightarrow> int \<Rightarrow> bit_range" where
  "mk_range a b \<equiv> \<lparr>rg_left = a, rg_right = b\<rparr>"

locale constant_range =
  fixes R :: range_lib
  assumes lower_law: "lower_of R r = min (rg_left r) (rg_right r)"
    and upper_law: "upper_of R r = max (rg_left r) (rg_right r)"
    and overlaps_law: "overlaps_of R r s \<longleftrightarrow>
          lower_of R r \<le> upper_of R s \<and> lower_of R s \<le> upper_of R r"
    and contains_law: "contains_of R r s \<longleftrightarrow>
          lower_of R r \<le> lower_of R s \<and> upper_of R s \<le> upper_of R r"
    and intersect_law: "overlaps_of R r s \<Longrightarrow>
          lower_of R (intersect_of R r s) = max (lower_of R r) (lower_of R s) \<and>
          upper_of R (intersect_of R r s) = min (upper_of R r) (upper_of R s)"

text \<open>A concrete instance, for the witnesses.\<close>

definition std_range :: range_lib where
  "std_range =
     \<lparr>lower_of = (\<lambda>r. min (rg_left r) (rg_right r)),
      upper_of = (\<lambda>r. max (rg_left r) (rg_right r)),
      overlaps_of = (\<lambda>r s. min (rg_left r) (rg_right r) \<le> max (rg_left s) (rg_right s) \<and>
                           min (rg_left s) (rg_right s) \<le> max (rg_left r) (rg_right r)),
      contains_of = (\<lambda>r s. min (rg_left r) (rg_right r) \<le> min (rg_left s) (rg_right s) \<and>
                           max (rg_left s) (rg_right s) \<le> max (rg_left r) (rg_right r)),
      intersect_of = (\<lambda>r s. mk_range (max (min (rg_left r) (rg_right r)) (min (rg_left s) (rg_right s)))
                                     (min (max (rg_left r) (rg_right r)) (max (rg_left s) (rg_right s))))\<rparr>"

interpretation std: constant_range std_range
proof unfold_locales
  fix r s
  assume "overlaps_of std_range r s"
  then have "max (lower_of std_range r) (lower_of std_range s)
       \<le> min (upper_of std_range r) (upper_of std_range s)"
    by (simp add: std_range_def min_le_iff_disj le_max_iff_disj)
  then show "lower_of std_range (intersect_of std_range r s)
        = max (lower_of std_range r) (lower_of std_range s) \<and>
      upper_of std_range (intersect_of std_range r s)
        = min (upper_of std_range r) (upper_of std_range s)"
    by (simp add: std_range_def min_absorb1 max_absorb2)
qed (simp_all add: std_range_def)

section \<open>The operations of DriverBitRange\<close>

definition toPair :: "range_lib \<Rightarrow> bit_range \<Rightarrow> int \<times> int" where
  "toPair R r = (lower_of R r, upper_of R r)"

definition isContiguousWith :: "range_lib \<Rightarrow> bit_range \<Rightarrow> bit_range \<Rightarrow> bool" where
  "isContiguousWith R r other \<longleftrightarrow>
     upper_of R r + 1 \<ge> lower_of R other \<and> upper_of R other + 1 \<ge> lower_of R r"

text \<open>\<open>unionWith\<close> asserts that the ranges are contiguous: \<open>None\<close> when they are not.\<close>

definition unionWith :: "range_lib \<Rightarrow> bit_range \<Rightarrow> bit_range \<Rightarrow> bit_range option" where
  "unionWith R r other =
     require (isContiguousWith R r other)
       (Some (mk_range (min (lower_of R r) (lower_of R other))
                       (max (upper_of R r) (upper_of R other))))"

definition intersection :: "range_lib \<Rightarrow> bit_range \<Rightarrow> bit_range \<Rightarrow> bit_range option" where
  "intersection R r other =
     (if \<not> overlaps_of R r other then None
      else Some (mk_range (max (lower_of R r) (lower_of R other))
                          (min (upper_of R r) (upper_of R other))))"

text \<open>\<open>toString\<close>: one bit as \<open>[b]\<close>, a range as \<open>[upper:lower]\<close>.\<close>

definition range_toString :: "range_lib \<Rightarrow> bit_range \<Rightarrow> string" where
  "range_toString R r =
     (if lower_of R r = upper_of R r then ''['' @ show_int (lower_of R r) @ '']''
      else ''['' @ show_int (upper_of R r) @ '':'' @ show_int (lower_of R r) @ '']'')"

section \<open>What they mean on bits\<close>

text \<open>The bits of a range, in either writing order.\<close>

definition bits_of :: "range_lib \<Rightarrow> bit_range \<Rightarrow> int set" where
  "bits_of R r = {lower_of R r .. upper_of R r}"

context constant_range
begin

lemma lower_le_upper [simp]: "lower_of R r \<le> upper_of R r"
  by (simp add: lower_law upper_law)

lemma lower_mk [simp]: "a \<le> b \<Longrightarrow> lower_of R (mk_range a b) = a"
  by (simp add: lower_law)

lemma upper_mk [simp]: "a \<le> b \<Longrightarrow> upper_of R (mk_range a b) = b"
  by (simp add: upper_law)

lemma bits_of_nonempty [simp]: "bits_of R r \<noteq> {}"
  by (simp add: bits_of_def)

lemma overlaps_bits: "overlaps_of R r s \<longleftrightarrow> bits_of R r \<inter> bits_of R s \<noteq> {}"
  by (auto simp: overlaps_law bits_of_def intro: exI [of _ "max (lower_of R r) (lower_of R s)"])

lemma contains_bits: "contains_of R r s \<longleftrightarrow> bits_of R s \<subseteq> bits_of R r"
  by (simp add: contains_law bits_of_def)

lemma intersection_bits: "intersection R r s = Some q \<Longrightarrow> bits_of R q = bits_of R r \<inter> bits_of R s"
  by (auto simp: intersection_def overlaps_law bits_of_def split: if_splits)

lemma intersection_None: "intersection R r s = None \<longleftrightarrow> bits_of R r \<inter> bits_of R s = {}"
  by (auto simp: intersection_def overlaps_bits)

lemma unionWith_bits: "unionWith R r s = Some q \<Longrightarrow> bits_of R q = bits_of R r \<union> bits_of R s"
  using lower_le_upper [of r] lower_le_upper [of s]
  by (auto simp: unionWith_def isContiguousWith_def bits_of_def simp del: lower_le_upper)

end

end
