(* ===== verification/ExternalManager.thy ===== *)
theory ExternalManager
  imports Prelude
begin

text \<open>
  \<open>ExternalManager<T>\<close> of \<^verbatim>\<open>source/ExternalManager.hpp\<close>: objects kept outside an interval map and
  named by trivially copyable handles. A slot holds an object or nothing; a freed slot's index
  goes to the back of a queue and is handed out again from its front. A failed assertion is
  \<open>None\<close>. Handles are \<open>uint32_t\<close> in the code and \<open>nat\<close> here: they agree while fewer than \<open>2 ^ 32\<close>
  objects are live, which is the code's own assumption when it narrows the index.
\<close>

section \<open>State and operations\<close>

record 'a ext_mgr =
  slots :: "'a option list"
  freeList :: "nat list"

definition em_new :: "'a ext_mgr" where
  "em_new = \<lparr>slots = [], freeList = []\<rparr>"

definition em_allocate :: "'a \<Rightarrow> 'a ext_mgr \<Rightarrow> nat \<times> 'a ext_mgr" where
  "em_allocate x m =
     (case freeList m of
        index # rest \<Rightarrow> (index, m\<lparr>freeList := rest, slots := (slots m)[index := Some x]\<rparr>)
      | [] \<Rightarrow> (length (slots m), m\<lparr>slots := slots m @ [Some x]\<rparr>))"

text \<open>Both overloads of \<open>get\<close>: reading the object, and writing through the reference.\<close>

definition em_get :: "nat \<Rightarrow> 'a ext_mgr \<Rightarrow> 'a option" where
  "em_get h m = require (h < length (slots m)) (slots m ! h)"

definition em_put :: "nat \<Rightarrow> 'a \<Rightarrow> 'a ext_mgr \<Rightarrow> 'a ext_mgr option" where
  "em_put h x m =
     and_then (em_get h m) (\<lambda>_. Some (m\<lparr>slots := (slots m)[h := Some x]\<rparr>))"

definition em_erase :: "nat \<Rightarrow> 'a ext_mgr \<Rightarrow> 'a ext_mgr option" where
  "em_erase h m =
     and_then (em_get h m)
       (\<lambda>_. Some (m\<lparr>slots := (slots m)[h := None], freeList := freeList m @ [h]\<rparr>))"

definition em_valid :: "'a ext_mgr \<Rightarrow> nat \<Rightarrow> bool" where
  "em_valid m h \<longleftrightarrow> h < length (slots m) \<and> slots m ! h \<noteq> None"

text \<open>The deep copy, slot by slot, and the swap of two managers.\<close>

definition em_copyFrom :: "'a ext_mgr \<Rightarrow> 'a ext_mgr" where
  "em_copyFrom other =
     \<lparr>slots = map (\<lambda>up. case up of Some x \<Rightarrow> Some x | None \<Rightarrow> None) (slots other),
      freeList = freeList other\<rparr>"

definition em_clone :: "'a ext_mgr \<Rightarrow> 'a ext_mgr" where
  "em_clone m = em_copyFrom m"

definition em_swap :: "'a ext_mgr \<times> 'a ext_mgr \<Rightarrow> 'a ext_mgr \<times> 'a ext_mgr" where
  "em_swap p = (snd p, fst p)"

section \<open>The invariant: the queue holds exactly the free slots\<close>

definition em_inv :: "'a ext_mgr \<Rightarrow> bool" where
  "em_inv m \<longleftrightarrow> distinct (freeList m) \<and>
     (\<forall>i. i \<in> set (freeList m) \<longleftrightarrow> i < length (slots m) \<and> slots m ! i = None)"

lemma em_invI:
  assumes "distinct (freeList m)"
    and "\<forall>i. i \<in> set (freeList m) \<longleftrightarrow> i < length (slots m) \<and> slots m ! i = None"
  shows "em_inv m"
  using assms unfolding em_inv_def by blast

lemma em_valid_get: "em_valid m h \<longleftrightarrow> (\<exists>x. em_get h m = Some x)"
  by (auto simp: em_valid_def em_get_def)

lemma em_inv_new: "em_inv em_new"
  by (simp add: em_inv_def em_new_def)

lemma em_inv_free_slot: "em_inv m \<Longrightarrow> i \<in> set (freeList m) \<Longrightarrow> i < length (slots m) \<and> slots m ! i = None"
  by (simp add: em_inv_def)

lemma em_inv_allocate: "em_inv m \<Longrightarrow> em_inv (snd (em_allocate x m))"
proof (cases "freeList m")
  case Nil
  then show "em_inv m \<Longrightarrow> em_inv (snd (em_allocate x m))"
    by (simp add: em_inv_def em_allocate_def nth_append)
next
  case (Cons j rest)
  assume inv: "em_inv m"
  then have j: "j < length (slots m)" "j \<notin> set rest"
    using Cons by (auto simp: em_inv_def)
  have "i \<in> set rest \<longleftrightarrow> i < length (slots m) \<and> (slots m)[j := Some x] ! i = None" for i
    using inv Cons j by (cases "i = j") (auto simp: em_inv_def)
  then show ?thesis
    using inv Cons by (simp add: em_inv_def em_allocate_def)
qed

lemma em_get_allocate:
  assumes "em_inv m"
  shows "em_get h (snd (em_allocate x m)) = (if h = fst (em_allocate x m) then Some x else em_get h m)"
proof (cases "freeList m")
  case Nil
  then show ?thesis
    by (simp add: em_allocate_def em_get_def require_def nth_append)
next
  case (Cons j rest)
  then have "j < length (slots m)"
    using em_inv_free_slot [OF assms, of j] by simp
  then show ?thesis
    using Cons by (simp add: em_allocate_def em_get_def require_def nth_list_update)
qed

lemma em_allocate_fresh:
  assumes "em_inv m"
  shows "em_get (fst (em_allocate x m)) m = None"
  using em_inv_free_slot [OF assms]
  by (simp add: em_allocate_def em_get_def require_def split: list.split)

lemma em_get_SomeD: "em_get h m = Some x \<Longrightarrow> h < length (slots m) \<and> slots m ! h = Some x"
  by (simp add: em_get_def)

lemma em_putD:
  "em_put h x m = Some m' \<Longrightarrow> h < length (slots m) \<and> slots m ! h \<noteq> None \<and>
     slots m' = (slots m)[h := Some x] \<and> freeList m' = freeList m"
  by (cases m) (auto simp: em_put_def em_get_def bind_eq_Some_conv)

lemma em_eraseD:
  "em_erase h m = Some m' \<Longrightarrow> h < length (slots m) \<and> slots m ! h \<noteq> None \<and>
     slots m' = (slots m)[h := None] \<and> freeList m' = freeList m @ [h]"
  by (cases m) (auto simp: em_erase_def em_get_def bind_eq_Some_conv)

lemma em_inv_put:
  assumes "em_put h x m = Some m'" and "em_inv m"
  shows "em_inv m'"
proof (rule em_invI)
  note put = em_putD [OF assms(1)]
  show "distinct (freeList m')"
    using put assms(2) by (simp add: em_inv_def)
  have "(slots m)[h := Some x] ! i = None \<longleftrightarrow> slots m ! i = None" for i
    using put by (cases "i = h") auto
  then show "\<forall>i. i \<in> set (freeList m') \<longleftrightarrow> i < length (slots m') \<and> slots m' ! i = None"
    using put assms(2) by (simp add: em_inv_def)
qed

lemma em_get_put: "em_put h x m = Some m' \<Longrightarrow> em_get k m' = (if k = h then Some x else em_get k m)"
  using em_putD [of h x m m'] by (auto simp: em_get_def require_def)

lemma em_put_total: "em_get h m = Some y \<Longrightarrow> \<exists>m'. em_put h x m = Some m'"
  by (simp add: em_put_def)

lemma em_inv_erase:
  assumes "em_erase h m = Some m'" and "em_inv m"
  shows "em_inv m'"
proof (rule em_invI)
  note erase = em_eraseD [OF assms(1)]
  show "distinct (freeList m')"
    using erase assms(2) by (simp add: em_inv_def)
  have "i = h \<or> i \<in> set (freeList m) \<longleftrightarrow> i < length (slots m) \<and> (slots m)[h := None] ! i = None" for i
    using erase assms(2) by (cases "i = h") (auto simp: em_inv_def)
  then show "\<forall>i. i \<in> set (freeList m') \<longleftrightarrow> i < length (slots m') \<and> slots m' ! i = None"
    using erase by auto
qed

lemma em_get_erase: "em_erase h m = Some m' \<Longrightarrow> em_get k m' = (if k = h then None else em_get k m)"
  using em_eraseD [of h m m'] by (auto simp: em_get_def require_def)

lemma em_erase_total: "em_get h m = Some y \<Longrightarrow> \<exists>m'. em_erase h m = Some m'"
  by (simp add: em_erase_def)

lemma em_clone_id: "em_clone m = m"
proof -
  have "(\<lambda>up. case up of None \<Rightarrow> None | Some x \<Rightarrow> Some x) = (id :: 'a option \<Rightarrow> _)"
    by (rule ext) (simp split: option.split)
  then show ?thesis by (simp add: em_clone_def em_copyFrom_def)
qed

section \<open>The contract a client relies on\<close>

locale handle_store =
  fixes inv :: "'s \<Rightarrow> bool"
    and alloc :: "'a \<Rightarrow> 's \<Rightarrow> nat \<times> 's"
    and get :: "nat \<Rightarrow> 's \<Rightarrow> 'a option"
    and put :: "nat \<Rightarrow> 'a \<Rightarrow> 's \<Rightarrow> 's option"
    and free :: "nat \<Rightarrow> 's \<Rightarrow> 's option"
  assumes inv_alloc: "inv s \<Longrightarrow> inv (snd (alloc x s))"
    and get_alloc: "inv s \<Longrightarrow> get h (snd (alloc x s)) = (if h = fst (alloc x s) then Some x else get h s)"
    and alloc_fresh: "inv s \<Longrightarrow> get (fst (alloc x s)) s = None"
    and inv_put: "put h x s = Some s' \<Longrightarrow> inv s \<Longrightarrow> inv s'"
    and get_put: "put h x s = Some s' \<Longrightarrow> get k s' = (if k = h then Some x else get k s)"
    and put_total: "get h s = Some y \<Longrightarrow> \<exists>s'. put h x s = Some s'"
    and inv_free: "free h s = Some s' \<Longrightarrow> inv s \<Longrightarrow> inv s'"
    and get_free: "free h s = Some s' \<Longrightarrow> get k s' = (if k = h then None else get k s)"
    and free_total: "get h s = Some y \<Longrightarrow> \<exists>s'. free h s = Some s'"
begin

text \<open>What a client may assume of a live handle when others are allocated or freed.\<close>

lemma live_alloc: "inv s \<Longrightarrow> get h s = Some y \<Longrightarrow> get h (snd (alloc x s)) = Some y"
  using alloc_fresh [of s x] by (auto simp: get_alloc)

lemma alloc_distinct: "inv s \<Longrightarrow> get h s = Some y \<Longrightarrow> fst (alloc x s) \<noteq> h"
  using alloc_fresh [of s x] by auto

lemma free_twice: "free h s = Some s' \<Longrightarrow> get h s' = None"
  by (simp add: get_free)

end

interpretation em: handle_store em_inv em_allocate em_get em_put em_erase
  by unfold_locales
    (rule em_inv_allocate em_get_allocate em_allocate_fresh em_inv_put em_get_put em_put_total
      em_inv_erase em_get_erase em_erase_total; assumption)+

end
