(* ===== verification/IntervalMap.thy ===== *)
theory IntervalMap
  imports Prelude
begin

text \<open>
  slang's \<open>IntervalMap<int32_t, V>\<close>, a B+ tree of closed intervals, is not code of this repository.
  The model takes it as a record of operations; the locale states what its documentation promises
  and the client code relies on. Intervals may overlap and are never merged by \<open>insert\<close>; iteration
  visits the entries by ascending lower bound; \<open>find\<close> visits the entries that overlap a key.
\<close>

type_synonym ivl = "int \<times> int"
type_synonym 'v entry = "ivl \<times> 'v"

record ('m, 'v) imap_ops =
  im_empty :: 'm
  im_insert :: "'m \<Rightarrow> ivl \<Rightarrow> 'v \<Rightarrow> 'm"
  im_erase :: "'m \<Rightarrow> 'v entry \<Rightarrow> 'm"
  im_find :: "'m \<Rightarrow> ivl \<Rightarrow> 'v entry list"
  im_entries :: "'m \<Rightarrow> 'v entry list"
  im_unionWith :: "'m \<Rightarrow> int \<Rightarrow> int \<Rightarrow> 'v \<Rightarrow> 'm"

definition ivl_overlaps :: "ivl \<Rightarrow> 'v entry \<Rightarrow> bool" where
  [model_simps]: "ivl_overlaps k e \<longleftrightarrow> fst (fst e) \<le> snd k \<and> fst k \<le> snd (fst e)"

definition ivl_covers :: "'v entry \<Rightarrow> int \<Rightarrow> bool" where
  [model_simps]: "ivl_covers e b \<longleftrightarrow> fst (fst e) \<le> b \<and> b \<le> snd (fst e)"

definition covered :: "'v entry list \<Rightarrow> int set" where
  "covered es = {b. \<exists>e \<in> set es. ivl_covers e b}"

definition proper :: "'v entry list \<Rightarrow> bool" where
  "proper es \<longleftrightarrow> (\<forall>e \<in> set es. fst (fst e) \<le> snd (fst e))"

locale interval_map =
  fixes I :: "('m, 'v) imap_ops"
  assumes entries_empty: "im_entries I (im_empty I) = []"
    and entries_insert: "fst k \<le> snd k \<Longrightarrow>
          mset (im_entries I (im_insert I m k v)) = add_mset (k, v) (mset (im_entries I m))"
    and entries_erase: "e \<in> set (im_entries I m) \<Longrightarrow>
          mset (im_entries I (im_erase I m e)) = mset (im_entries I m) - {#e#}"
    and find_entries: "im_find I m k = filter (ivl_overlaps k) (im_entries I m)"
    and entries_sorted: "sorted (map (fst \<circ> fst) (im_entries I m))"
    and union_covered: "lo \<le> hi \<Longrightarrow>
          covered (im_entries I (im_unionWith I m lo hi v)) = covered (im_entries I m) \<union> {lo..hi}"
    and union_proper: "lo \<le> hi \<Longrightarrow> proper (im_entries I m) \<Longrightarrow>
          proper (im_entries I (im_unionWith I m lo hi v))"
begin

lemma set_insert [simp]:
  "fst k \<le> snd k \<Longrightarrow> set (im_entries I (im_insert I m k v)) = insert (k, v) (set (im_entries I m))"
  using entries_insert [of k m v] by (metis set_mset_add_mset_insert set_mset_mset)

lemma set_find: "set (im_find I m k) = {e \<in> set (im_entries I m). ivl_overlaps k e}"
  by (auto simp: find_entries)

end

section \<open>A concrete instance: a sorted list of entries\<close>

definition list_insert :: "'v entry list \<Rightarrow> ivl \<Rightarrow> 'v \<Rightarrow> 'v entry list" where
  "list_insert m k v = insort_key (fst \<circ> fst) (k, v) m"

text \<open>The entries that \<open>[lo, hi]\<close> can be merged with, and the merge.\<close>

definition mergeable :: "int \<Rightarrow> int \<Rightarrow> 'v \<Rightarrow> 'v entry \<Rightarrow> bool" where
  "mergeable lo hi v e \<longleftrightarrow> fst (fst e) \<le> hi + 1 \<and> lo \<le> snd (fst e) + 1 \<and> snd e = v \<and>
     fst (fst e) \<le> snd (fst e)"

definition list_union :: "'v entry list \<Rightarrow> int \<Rightarrow> int \<Rightarrow> 'v \<Rightarrow> 'v entry list" where
  "list_union m lo hi v =
     (let es = filter (mergeable lo hi v) m
      in list_insert (filter (\<lambda>e. \<not> mergeable lo hi v e) m)
           (Min (set (lo # map (fst \<circ> fst) es)), Max (set (hi # map (snd \<circ> fst) es))) v)"

definition list_imap :: "('v entry list, 'v) imap_ops" where
  "list_imap =
     \<lparr>im_empty = [], im_insert = list_insert,
      im_erase = (\<lambda>m e. remove1 e m),
      im_find = (\<lambda>m k. filter (ivl_overlaps k) (sort_key (fst \<circ> fst) m)),
      im_entries = sort_key (fst \<circ> fst),
      im_unionWith = list_union\<rparr>"

lemma covered_Un: "covered (xs @ ys) = covered xs \<union> covered ys"
  by (auto simp: covered_def)

lemma covered_cong: "set xs = set ys \<Longrightarrow> covered xs = covered ys"
  by (simp add: covered_def)

lemma covered_insert [simp]: "covered (list_insert m (lo, hi) v) = {lo..hi} \<union> covered m"
  by (auto simp: covered_def list_insert_def ivl_covers_def set_insort_key)

lemma proper_insert [simp]: "proper (list_insert m k v) \<longleftrightarrow> fst k \<le> snd k \<and> proper m"
  by (auto simp: proper_def list_insert_def set_insort_key)

lemma hull_of_merge:
  assumes es: "\<And>e. e \<in> set es \<Longrightarrow> mergeable lo hi v e" and "lo \<le> hi"
  shows "{Min (set (lo # map (fst \<circ> fst) es)) .. Max (set (hi # map (snd \<circ> fst) es))}
       = {lo..hi} \<union> covered es" (is "{?l..?h} = _")
proof (intro set_eqI iffI)
  fix b assume b: "b \<in> {?l..?h}"
  have l: "?l = lo \<or> (\<exists>e \<in> set es. ?l = fst (fst e))"
    using Min_in [of "set (lo # map (fst \<circ> fst) es)"] by auto
  have h: "?h = hi \<or> (\<exists>e \<in> set es. ?h = snd (fst e))"
    using Max_in [of "set (hi # map (snd \<circ> fst) es)"] by auto
  show "b \<in> {lo..hi} \<union> covered es"
  proof (cases "lo \<le> b \<and> b \<le> hi")
    case False
    then consider "b < lo" | "hi < b" by linarith
    then show ?thesis
    proof cases
      case 1
      with l b obtain e where "e \<in> set es" "fst (fst e) \<le> b" by auto
      with es [of e] 1 show ?thesis
        by (auto simp: mergeable_def covered_def ivl_covers_def intro!: bexI [of _ e])
    next
      case 2
      with h b obtain e where "e \<in> set es" "b \<le> snd (fst e)" by auto
      with es [of e] 2 show ?thesis
        by (auto simp: mergeable_def covered_def ivl_covers_def intro!: bexI [of _ e])
    qed
  qed auto
next
  fix b assume "b \<in> {lo..hi} \<union> covered es"
  then consider "lo \<le> b" "b \<le> hi" | e where "e \<in> set es" "fst (fst e) \<le> b" "b \<le> snd (fst e)"
    by (auto simp: covered_def ivl_covers_def)
  then show "b \<in> {?l..?h}"
    by cases (auto intro: Min.coboundedI Max.coboundedI simp: Min_le_iff Max_ge_iff)
qed

lemma list_union_covered: "lo \<le> hi \<Longrightarrow> covered (list_union m lo hi v) = covered m \<union> {lo..hi}"
proof -
  assume le: "lo \<le> hi"
  let ?es = "filter (mergeable lo hi v) m" and ?rest = "filter (\<lambda>e. \<not> mergeable lo hi v e) m"
  have "covered (list_union m lo hi v) = ({lo..hi} \<union> covered ?es) \<union> covered ?rest"
    using hull_of_merge [of ?es lo hi v] le by (simp add: list_union_def Let_def del: list.set)
  moreover have "covered ?es \<union> covered ?rest = covered m"
    unfolding covered_Un [symmetric] by (rule covered_cong) auto
  ultimately show ?thesis by auto
qed

lemma list_union_proper:
  assumes "lo \<le> hi" and "proper m"
  shows "proper (list_union m lo hi v)"
proof -
  have "Min (set (lo # xs)) \<le> lo" "hi \<le> Max (set (hi # ys))" for xs ys :: "int list"
    by simp_all
  then have "Min (set (lo # xs)) \<le> Max (set (hi # ys))" for xs ys :: "int list"
    using assms(1) by (meson order.trans)
  moreover have "proper (filter P m)" for P
    using assms(2) by (simp add: proper_def)
  ultimately show ?thesis
    by (simp add: list_union_def Let_def del: list.set)
qed

lemma list_imap_simps [simp]:
  "im_empty list_imap = []" "im_insert list_imap = list_insert"
  "im_erase list_imap = (\<lambda>m e. remove1 e m)" "im_entries list_imap = sort_key (fst \<circ> fst)"
  "im_find list_imap m k = filter (ivl_overlaps k) (sort_key (fst \<circ> fst) m)"
  "im_unionWith list_imap = list_union"
  by (simp_all add: list_imap_def)

interpretation list_map: interval_map list_imap
proof unfold_locales
  fix lo hi :: int and m :: "'a entry list" and v
  assume "lo \<le> hi"
  then show "covered (im_entries list_imap (im_unionWith list_imap m lo hi v))
      = covered (im_entries list_imap m) \<union> {lo..hi}"
    using list_union_covered [of lo hi m v] covered_cong [of "sort_key (fst \<circ> fst) m" m]
      covered_cong [of "sort_key (fst \<circ> fst) (list_union m lo hi v)" "list_union m lo hi v"] by simp
next
  fix lo hi :: int and m :: "'a entry list" and v
  assume "lo \<le> hi" and "proper (im_entries list_imap m)"
  then show "proper (im_entries list_imap (im_unionWith list_imap m lo hi v))"
    using list_union_proper [of lo hi m v] by (simp add: proper_def)
qed (simp_all add: list_insert_def mset_insort)

end
