(* ===== verification/DriverMap.thy ===== *)
theory DriverMap
  imports BitRange ExternalManager IntervalMap
begin

text \<open>
  \<open>DriverInfo\<close>, \<open>DriverList\<close> and \<open>DriverMap\<close> of \<^verbatim>\<open>source/DriverMap.hpp\<close>: the driven intervals of
  one symbol, each mapped to a handle of a driver list that an external manager owns.

  A driver is a pointer to a netlist node (\<open>None\<close> is null) and the longest static prefix expression
  it comes from. Two drivers are equal when their nodes are, so a driver list, an unordered set, is a
  list without two entries of the same node, and inserting a node it has already changes nothing.
\<close>

section \<open>Driver lists\<close>

record 'x driver_info =
  di_node :: "nat option"
  di_lsp :: "'x option"

definition di_eq :: "'x driver_info \<Rightarrow> 'x driver_info \<Rightarrow> bool" where
  "di_eq d other \<longleftrightarrow> di_node d = di_node other"

type_synonym 'x driver_list = "'x driver_info list"

definition dl_insert :: "'x driver_info \<Rightarrow> 'x driver_list \<Rightarrow> 'x driver_list" where
  "dl_insert d ds = (if \<exists>e \<in> set ds. di_eq e d then ds else ds @ [d])"

definition dl_insert_all :: "'x driver_list \<Rightarrow> 'x driver_list \<Rightarrow> 'x driver_list" where
  "dl_insert_all new ds = fold dl_insert new ds"

definition dl_nodes :: "'x driver_list \<Rightarrow> nat option set" where
  "dl_nodes ds = di_node ` set ds"

lemma dl_nodes_insert [simp]: "dl_nodes (dl_insert d ds) = insert (di_node d) (dl_nodes ds)"
  by (auto simp: dl_nodes_def dl_insert_def di_eq_def intro: rev_image_eqI)

lemma dl_nodes_Nil [simp]: "dl_nodes [] = {}"
  by (simp add: dl_nodes_def)

lemma dl_nodes_Cons [simp]: "dl_nodes (d # ds) = insert (di_node d) (dl_nodes ds)"
  by (simp add: dl_nodes_def)

lemma dl_nodes_insert_all [simp]: "dl_nodes (dl_insert_all new ds) = dl_nodes new \<union> dl_nodes ds"
  by (induction new arbitrary: ds) (simp_all add: dl_insert_all_def)

lemma dl_insert_distinct: "distinct (map di_node ds) \<Longrightarrow> distinct (map di_node (dl_insert d ds))"
  by (auto simp: dl_insert_def di_eq_def)

section \<open>Driver maps\<close>

record ('m, 'x) driver_map =
  driverIntervals :: 'm
  driverLists :: "'x driver_list ext_mgr"

type_synonym 'm ops = "('m, nat) imap_ops"

definition dm_empty :: "'m ops \<Rightarrow> ('m, 'x) driver_map" where
  "dm_empty I = \<lparr>driverIntervals = im_empty I, driverLists = em_new\<rparr>"

text \<open>A clone copies the interval tree and, slot by slot, the driver lists.\<close>

definition dm_clone :: "('m, 'x) driver_map \<Rightarrow> ('m, 'x) driver_map" where
  "dm_clone dm = \<lparr>driverIntervals = driverIntervals dm, driverLists = em_clone (driverLists dm)\<rparr>"

definition newDriverList :: "('m, 'x) driver_map \<Rightarrow> nat \<times> ('m, 'x) driver_map" where
  "newDriverList dm =
     (let r = em_allocate [] (driverLists dm) in (fst r, dm\<lparr>driverLists := snd r\<rparr>))"

definition addDriverList :: "'x driver_list \<Rightarrow> ('m, 'x) driver_map \<Rightarrow> nat \<times> ('m, 'x) driver_map" where
  "addDriverList ds dm =
     (let r = em_allocate ds (driverLists dm) in (fst r, dm\<lparr>driverLists := snd r\<rparr>))"

definition getDriverList :: "nat \<Rightarrow> ('m, 'x) driver_map \<Rightarrow> 'x driver_list option" where
  "getDriverList h dm = em_get h (driverLists dm)"

text \<open>Writing through the reference that the non-const \<open>getDriverList\<close> returns.\<close>

definition putDriverList :: "nat \<Rightarrow> 'x driver_list \<Rightarrow> ('m, 'x) driver_map \<Rightarrow> ('m, 'x) driver_map option" where
  "putDriverList h ds dm =
     map_option (\<lambda>em. dm\<lparr>driverLists := em\<rparr>) (em_put h ds (driverLists dm))"

definition dm_insert :: "range_lib \<Rightarrow> 'm ops \<Rightarrow> bit_range \<Rightarrow> nat \<Rightarrow> ('m, 'x) driver_map \<Rightarrow> ('m, 'x) driver_map" where
  "dm_insert R I bounds h dm =
     dm\<lparr>driverIntervals := im_insert I (driverIntervals dm) (toPair R bounds) h\<rparr>"

definition dm_find :: "range_lib \<Rightarrow> 'm ops \<Rightarrow> bit_range \<Rightarrow> ('m, 'x) driver_map \<Rightarrow> nat entry list" where
  "dm_find R I bounds dm = im_find I (driverIntervals dm) (toPair R bounds)"

definition dm_entries :: "'m ops \<Rightarrow> ('m, 'x) driver_map \<Rightarrow> nat entry list" where
  "dm_entries I dm = im_entries I (driverIntervals dm)"

definition dm_isEmpty :: "'m ops \<Rightarrow> ('m, 'x) driver_map \<Rightarrow> bool" where
  "dm_isEmpty I dm \<longleftrightarrow> dm_entries I dm = []"

definition dm_eraseAt :: "'m ops \<Rightarrow> nat entry \<Rightarrow> ('m, 'x) driver_map \<Rightarrow> ('m, 'x) driver_map" where
  "dm_eraseAt I e dm = dm\<lparr>driverIntervals := im_erase I (driverIntervals dm) e\<rparr>"

definition dm_validHandle :: "('m, 'x) driver_map \<Rightarrow> nat \<Rightarrow> bool" where
  "dm_validHandle dm h = em_valid (driverLists dm) h"

definition dm_eraseHandle :: "nat \<Rightarrow> ('m, 'x) driver_map \<Rightarrow> ('m, 'x) driver_map option" where
  "dm_eraseHandle h dm = map_option (\<lambda>em. dm\<lparr>driverLists := em\<rparr>) (em_erase h (driverLists dm))"

lemmas dm_defs = newDriverList_def addDriverList_def getDriverList_def putDriverList_def
  dm_insert_def dm_find_def dm_entries_def dm_eraseAt_def dm_validHandle_def dm_eraseHandle_def

lemma dm_clone_id: "dm_clone dm = dm"
  by (simp add: dm_clone_def em_clone_id)

section \<open>What the operations do to entries and lists\<close>

definition lists_inv :: "('m, 'x) driver_map \<Rightarrow> bool" where
  "lists_inv dm \<longleftrightarrow> em_inv (driverLists dm)"

lemma addDriverList_entries [simp]: "dm_entries I (snd (addDriverList ds dm)) = dm_entries I dm"
  by (simp add: dm_defs Let_def)

lemma addDriverList_inv: "lists_inv dm \<Longrightarrow> lists_inv (snd (addDriverList ds dm))"
  by (simp add: dm_defs lists_inv_def Let_def em.inv_alloc)

lemma addDriverList_get:
  "lists_inv dm \<Longrightarrow> getDriverList k (snd (addDriverList ds dm)) =
     (if k = fst (addDriverList ds dm) then Some ds else getDriverList k dm)"
  by (simp add: dm_defs lists_inv_def Let_def em.get_alloc)

lemma addDriverList_fresh: "lists_inv dm \<Longrightarrow> getDriverList (fst (addDriverList ds dm)) dm = None"
  by (simp add: dm_defs lists_inv_def Let_def em.alloc_fresh)

lemma putDriverList_entries: "putDriverList h ds dm = Some dm' \<Longrightarrow> dm_entries I dm' = dm_entries I dm"
  by (auto simp: dm_defs)

lemma putDriverList_inv: "putDriverList h ds dm = Some dm' \<Longrightarrow> lists_inv dm \<Longrightarrow> lists_inv dm'"
  using em.inv_put by (fastforce simp: dm_defs lists_inv_def)

lemma putDriverList_get:
  "putDriverList h ds dm = Some dm' \<Longrightarrow> getDriverList k dm' = (if k = h then Some ds else getDriverList k dm)"
  using em.get_put by (fastforce simp: dm_defs)

lemma putDriverList_total: "getDriverList h dm = Some x \<Longrightarrow> \<exists>dm'. putDriverList h ds dm = Some dm'"
  using em.put_total by (fastforce simp: dm_defs)

lemma dm_insert_lists [simp]:
  "getDriverList k (dm_insert R I b h dm) = getDriverList k dm" "lists_inv (dm_insert R I b h dm) = lists_inv dm"
  by (simp_all add: dm_defs lists_inv_def)

lemma dm_eraseAt_lists [simp]:
  "getDriverList k (dm_eraseAt I e dm) = getDriverList k dm" "lists_inv (dm_eraseAt I e dm) = lists_inv dm"
  by (simp_all add: dm_defs lists_inv_def)

lemma dm_eraseHandle_entries: "dm_eraseHandle h dm = Some dm' \<Longrightarrow> dm_entries I dm' = dm_entries I dm"
  by (auto simp: dm_defs)

lemma dm_eraseHandle_inv: "dm_eraseHandle h dm = Some dm' \<Longrightarrow> lists_inv dm \<Longrightarrow> lists_inv dm'"
  using em.inv_free by (fastforce simp: dm_defs lists_inv_def)

lemma dm_eraseHandle_get:
  "dm_eraseHandle h dm = Some dm' \<Longrightarrow> getDriverList k dm' = (if k = h then None else getDriverList k dm)"
  using em.get_free by (fastforce simp: dm_defs)

lemma dm_eraseHandle_total: "getDriverList h dm = Some x \<Longrightarrow> \<exists>dm'. dm_eraseHandle h dm = Some dm'"
  using em.free_total by (fastforce simp: dm_defs)

lemma validHandle_get: "dm_validHandle dm h \<longleftrightarrow> (\<exists>x. getDriverList h dm = Some x)"
  by (simp add: dm_defs em_valid_get)

end
