(* ===== verification/ValueTracker.thy ===== *)
theory ValueTracker
  imports DriverMap
begin

text \<open>
  \<open>ValueTracker\<close> of \<^verbatim>\<open>source/ValueTracker.hpp\<close> and \<^verbatim>\<open>source/ValueTracker.cpp\<close>: the drivers of every
  value symbol. A symbol gets a slot on first use; the slot indexes a vector of driver maps that the
  caller owns. \<open>addDrivers\<close> records drivers for a bit range, replacing or merging with what is there,
  splitting the intervals it cuts. Symbols are of any type \<open>'s\<close>, expressions of any type \<open>'x\<close>.
  Here a call runs as a whole; theory TrackerLocks interleaves concurrent calls at their locks.
\<close>

section \<open>One call on one driver map: the overlap loop\<close>

text \<open>
  What the loop body does with one overlapping interval: it returns from the function, it looks the
  overlaps up again (with what remains of the bounds), or no case applies and it goes on to the next.
\<close>

datatype ('m, 'x) outcome =
  Finished "('m, 'x) driver_map"
| Refind "('m, 'x) driver_map" bit_range
| Skip

abbreviation ivl_range :: "ivl \<Rightarrow> bit_range" where
  "ivl_range k \<equiv> mk_range (fst k) (snd k)"

text \<open>Matching intervals: merge into, or replace, the existing list.\<close>

definition step_match ::
  "bool \<Rightarrow> 'x driver_list \<Rightarrow> ('m, 'x) driver_map \<Rightarrow> nat \<Rightarrow> ('m, 'x) outcome option" where
  "step_match mrg dl dm h =
     and_then (getDriverList h dm) (\<lambda>existing.
       map_option Finished
         (if mrg then putDriverList h (dl_insert_all dl existing) dm
          else putDriverList h (dl_insert_all dl []) dm))"

text \<open>An existing entry completely contains the new bounds: left part, right part, middle part.\<close>

definition step_split ::
  "range_lib \<Rightarrow> 'm ops \<Rightarrow> bool \<Rightarrow> 'x driver_list \<Rightarrow> ('m, 'x) driver_map \<Rightarrow> bit_range \<Rightarrow> nat entry
   \<Rightarrow> ('m, 'x) outcome option" where
  "step_split R I mrg dl dm bounds e =
     (let (k, h) = e;
          dm1 = dm_eraseAt I e dm;
          dm2 = (if fst k < lower_of R bounds
                 then dm_insert R I (mk_range (fst k) (lower_of R bounds - 1)) h dm1 else dm1);
          dm3 = (if snd k > upper_of R bounds
                 then dm_insert R I (mk_range (upper_of R bounds + 1) (snd k)) h dm2 else dm2)
      in if mrg then
           and_then (getDriverList h dm3) (\<lambda>existing.
             let (nh, dm4) = addDriverList existing dm3
             in and_then (putDriverList nh (dl_insert_all dl existing) dm4) (\<lambda>dm5.
                  Some (Finished (dm_insert R I bounds nh dm5))))
         else
           let (nh, dm4) = addDriverList dl dm3
           in Some (Finished (dm_insert R I bounds nh dm4)))"

text \<open>What follows an adjustment \<open>bounds.left = x\<close>: stop when the range is consumed, else look again.\<close>

definition advance :: "('m, 'x) driver_map \<Rightarrow> bit_range \<Rightarrow> int \<Rightarrow> ('m, 'x) outcome" where
  "advance dm bounds x =
     (let bounds' = bounds\<lparr>rg_left := x\<rparr>
      in if rg_left bounds' > rg_right bounds' then Finished dm else Refind dm bounds')"

text \<open>The new bounds completely contain an existing entry.\<close>

definition step_cover ::
  "range_lib \<Rightarrow> 'm ops \<Rightarrow> bool \<Rightarrow> 'x driver_list \<Rightarrow> ('m, 'x) driver_map \<Rightarrow> bit_range \<Rightarrow> nat entry
   \<Rightarrow> ('m, 'x) outcome option" where
  "step_cover R I mrg dl dm bounds e =
     (let (k, h) = e in
      if \<not> mrg then
        let dm1 = dm_eraseAt I e dm
        in if dm_validHandle dm1 h then
             and_then (dm_eraseHandle h dm1) (\<lambda>dm2. Some (Refind dm2 bounds))
           else Some (Refind dm1 bounds)
      else
        and_then (getDriverList h dm) (\<lambda>existing.
        and_then (putDriverList h (dl_insert_all dl existing) dm) (\<lambda>dm1.
          let dm2 = (if fst k > lower_of R bounds
                     then let (nh, dm') = addDriverList dl dm1
                          in dm_insert R I (mk_range (lower_of R bounds) (fst k - 1)) nh dm'
                     else dm1)
          in Some (advance dm2 bounds (snd k + 1)))))"

text \<open>An existing entry overlaps the new bounds on the left.\<close>

definition step_left ::
  "range_lib \<Rightarrow> 'm ops \<Rightarrow> bool \<Rightarrow> 'x driver_list \<Rightarrow> ('m, 'x) driver_map \<Rightarrow> bit_range \<Rightarrow> nat entry
   \<Rightarrow> ('m, 'x) outcome option" where
  "step_left R I mrg dl dm bounds e =
     (let (k, h) = e;
          dm1 = dm_eraseAt I e dm
      in require (fst k < lower_of R bounds)
        (let dm2 = dm_insert R I (mk_range (fst k) (lower_of R bounds - 1)) h dm1
         in and_then
              (if \<not> mrg then
                 let (nh, dm3) = addDriverList dl dm2
                 in Some (dm_insert R I (mk_range (lower_of R bounds) (snd k)) nh dm3)
               else
                 and_then (getDriverList h dm2) (\<lambda>existing.
                   let (nh, dm3) = addDriverList existing dm2
                   in and_then (putDriverList nh (dl_insert_all dl existing) dm3) (\<lambda>dm4.
                        Some (dm_insert R I (mk_range (lower_of R bounds) (snd k)) nh dm4))))
              (\<lambda>dm5. Some (advance dm5 bounds (snd k + 1)))))"

text \<open>An existing entry overlaps the new bounds on the right.\<close>

definition step_right ::
  "range_lib \<Rightarrow> 'm ops \<Rightarrow> bool \<Rightarrow> 'x driver_list \<Rightarrow> ('m, 'x) driver_map \<Rightarrow> bit_range \<Rightarrow> nat entry
   \<Rightarrow> ('m, 'x) outcome option" where
  "step_right R I mrg dl dm bounds e =
     (let (k, h) = e;
          dm1 = dm_eraseAt I e dm;
          (leftHandle, dm2) = addDriverList dl dm1
      in and_then
           (if \<not> mrg then Some (dm_insert R I bounds leftHandle dm2)
            else
              let dm3 = dm_insert R I (mk_range (lower_of R bounds) (fst k - 1)) leftHandle dm2
              in and_then (getDriverList h dm3) (\<lambda>existing.
                   let (nh, dm4) = addDriverList existing dm3
                   in and_then (putDriverList nh (dl_insert_all dl existing) dm4) (\<lambda>dm5.
                        Some (dm_insert R I (mk_range (fst k) (upper_of R bounds)) nh dm5))))
           (\<lambda>dm6. require (snd k > upper_of R bounds)
              (Some (Finished (dm_insert R I (mk_range (upper_of R bounds + 1) (snd k)) h dm6)))))"

text \<open>The cases in the order of the code.\<close>

definition add_step ::
  "range_lib \<Rightarrow> 'm ops \<Rightarrow> bool \<Rightarrow> 'x driver_list \<Rightarrow> ('m, 'x) driver_map \<Rightarrow> bit_range \<Rightarrow> nat entry
   \<Rightarrow> ('m, 'x) outcome option" where
  "add_step R I mrg dl dm bounds e =
     (let (k, h) = e in
      if ivl_range k = bounds then step_match mrg dl dm h
      else if contains_of R (ivl_range k) bounds then step_split R I mrg dl dm bounds e
      else if contains_of R bounds (ivl_range k) then step_cover R I mrg dl dm bounds e
      else if fst k \<le> lower_of R bounds \<and> snd k \<ge> lower_of R bounds
        then step_left R I mrg dl dm bounds e
      else if fst k \<le> upper_of R bounds \<and> snd k \<ge> upper_of R bounds
        then step_right R I mrg dl dm bounds e
      else Some Skip)"

text \<open>
  The loop, and the insertion after it. Every \<open>Refind\<close> spends one unit of fuel; \<open>None\<close> is a failed
  assertion or no fuel left.
\<close>

fun add_loop ::
  "range_lib \<Rightarrow> 'm ops \<Rightarrow> bool \<Rightarrow> 'x driver_list \<Rightarrow> nat \<Rightarrow> ('m, 'x) driver_map \<Rightarrow> bit_range
   \<Rightarrow> nat entry list \<Rightarrow> ('m, 'x) driver_map option" where
  "add_loop R I mrg dl fuel dm bounds [] =
     (let (nh, dm') = addDriverList dl dm in Some (dm_insert R I bounds nh dm'))"
| "add_loop R I mrg dl 0 dm bounds (e # es) = None"
| "add_loop R I mrg dl (Suc fuel) dm bounds (e # es) =
     (case add_step R I mrg dl dm bounds e of
        None \<Rightarrow> None
      | Some (Finished dm') \<Rightarrow> Some dm'
      | Some (Refind dm' bounds') \<Rightarrow> add_loop R I mrg dl fuel dm' bounds' (dm_find R I bounds' dm')
      | Some Skip \<Rightarrow> add_loop R I mrg dl (Suc fuel) dm bounds es)"

text \<open>Fuel for every interval that overlaps the bounds is enough (\<open>driver_store.add_interval_ok\<close>, theory AddDrivers).\<close>

definition add_interval ::
  "range_lib \<Rightarrow> 'm ops \<Rightarrow> bool \<Rightarrow> 'x driver_list \<Rightarrow> ('m, 'x) driver_map \<Rightarrow> bit_range
   \<Rightarrow> ('m, 'x) driver_map option" where
  "add_interval R I mrg dl dm bounds =
     (let bounds' = mk_range (lower_of R bounds) (upper_of R bounds);
          its = dm_find R I bounds' dm
      in add_loop R I mrg dl (length its) dm bounds' its)"

section \<open>Slots and the public operations\<close>

record 's value_tracker =
  valueToSlot :: "'s \<rightharpoonup> nat"
  slotToValue :: "nat \<rightharpoonup> 's"
  nextSlot :: nat
  slotCount :: nat

definition vt_new :: "'s value_tracker" where
  "vt_new = \<lparr>valueToSlot = Map.empty, slotToValue = Map.empty, nextSlot = 0, slotCount = 0\<rparr>"

definition getSymbol :: "'s value_tracker \<Rightarrow> nat \<Rightarrow> 's option" where
  "getSymbol t slot = slotToValue t slot"

definition getSlot :: "'s value_tracker \<Rightarrow> 's \<Rightarrow> nat option" where
  "getSlot t symb = valueToSlot t symb"

text \<open>The concurrent map is visited in an order of its own: \<open>order\<close> gives the order for the slots in use.\<close>

definition visitAll :: "(nat list \<Rightarrow> nat list) \<Rightarrow> ('s \<Rightarrow> nat \<Rightarrow> 'a \<Rightarrow> 'a) \<Rightarrow> 's value_tracker \<Rightarrow> 'a \<Rightarrow> 'a" where
  "visitAll order f t a =
     fold (\<lambda>slot acc. case slotToValue t slot of None \<Rightarrow> acc | Some symb \<Rightarrow> f symb slot acc)
       (order [0 ..< nextSlot t]) a"

definition slotFor :: "'s \<Rightarrow> 's value_tracker \<Rightarrow> nat \<times> 's value_tracker" where
  "slotFor symb t =
     (case valueToSlot t symb of
        Some index \<Rightarrow> (index, t)
      | None \<Rightarrow>
          (let candidate = nextSlot t
           in (candidate, t\<lparr>nextSlot := candidate + 1, valueToSlot := (valueToSlot t)(symb \<mapsto> candidate),
                            slotToValue := (slotToValue t)(candidate \<mapsto> symb)\<rparr>)))"

definition resizeDrivers :: "'m ops \<Rightarrow> nat \<Rightarrow> ('m, 'x) driver_map list \<Rightarrow> ('m, 'x) driver_map list" where
  "resizeDrivers I index drivers =
     (if index \<ge> length drivers
      then drivers @ replicate (index + 1 - length drivers) (dm_empty I) else drivers)"

definition resizeSlots :: "nat \<Rightarrow> 's value_tracker \<Rightarrow> 's value_tracker" where
  "resizeSlots index t = (if index \<ge> slotCount t then t\<lparr>slotCount := index + 1\<rparr> else t)"

definition addDrivers ::
  "range_lib \<Rightarrow> 'm ops \<Rightarrow> 's \<Rightarrow> bit_range \<Rightarrow> 'x driver_list \<Rightarrow> bool
   \<Rightarrow> 's value_tracker \<times> ('m, 'x) driver_map list
   \<Rightarrow> ('s value_tracker \<times> ('m, 'x) driver_map list) option" where
  "addDrivers R I symb bounds dl mrg st =
     (let (index, t1) = slotFor symb (fst st);
          drivers1 = resizeDrivers I index (snd st);
          t2 = resizeSlots index t1
      in map_option (\<lambda>dm. (t2, drivers1[index := dm]))
           (add_interval R I mrg dl (drivers1 ! index) bounds))"

text \<open>\<open>getDrivers\<close> collects the lists of intervals that contain the bounds or lie inside them.\<close>

definition getDrivers ::
  "range_lib \<Rightarrow> 'm ops \<Rightarrow> 's value_tracker \<Rightarrow> ('m, 'x) driver_map list \<Rightarrow> 's \<Rightarrow> bit_range
   \<Rightarrow> 'x driver_list option" where
  "getDrivers R I t drivers symb bounds =
     (case valueToSlot t symb of
        None \<Rightarrow> Some []
      | Some index \<Rightarrow>
          require (index < length drivers)
            (fold (\<lambda>e acc.
                and_then acc (\<lambda>result.
                  if contains_of R (ivl_range (fst e)) bounds \<or> contains_of R bounds (ivl_range (fst e))
                  then map_option (\<lambda>ds. dl_insert_all ds result) (getDriverList (snd e) (drivers ! index))
                  else Some result))
               (dm_find R I bounds (drivers ! index)) (Some [])))"

definition forEachDriverInterval ::
  "range_lib \<Rightarrow> 'm ops \<Rightarrow> 's value_tracker \<Rightarrow> ('m, 'x) driver_map list \<Rightarrow> 's \<Rightarrow> bit_range
   \<Rightarrow> (bit_range \<times> 'x driver_list option) list" where
  "forEachDriverInterval R I t drivers symb bounds =
     (case valueToSlot t symb of
        None \<Rightarrow> []
      | Some index \<Rightarrow>
          (if index \<ge> length drivers then []
           else map (\<lambda>e. (ivl_range (fst e), getDriverList (snd e) (drivers ! index)))
                  (dm_find R I bounds (drivers ! index))))"

definition dumpDrivers ::
  "range_lib \<Rightarrow> 'm ops \<Rightarrow> string \<Rightarrow> ('m, 'x) driver_map \<Rightarrow> string option" where
  "dumpDrivers R I name dm =
     fold (\<lambda>e acc. and_then acc (\<lambda>out. map_option
         (\<lambda>ds. out @ range_toString R (ivl_range (fst e)) @ '' '' @ show_nat (length ds) @ '' drivers'' @ [CHR 0x0A])
         (getDriverList (snd e) dm)))
       (dm_entries I dm) (Some (''Driver map for symbol '' @ name @ '':'' @ [CHR 0x0A]))"

end
