(* ===== verification/IntervalFacts.thy ===== *)
theory IntervalFacts
  imports ValueTracker
begin

text \<open>
  Facts about driver maps that the correctness of \<open>addDrivers\<close> rests on: well-formed maps (disjoint,
  proper intervals with live lists), maps in which no two intervals share a list, the set of drivers
  of a bit, and what each primitive operation does to them.
\<close>

section \<open>Well-formed entry lists\<close>

definition disjoint_entries :: "'v entry list \<Rightarrow> bool" where
  "disjoint_entries es \<longleftrightarrow>
     distinct es \<and> proper es \<and>
     (\<forall>e \<in> set es. \<forall>e' \<in> set es. e \<noteq> e' \<longrightarrow> \<not> ivl_overlaps (fst e) e')"

definition unshared_entries :: "'v entry list \<Rightarrow> bool" where
  "unshared_entries es \<longleftrightarrow> distinct (map snd es)"

lemma ivl_overlaps_sym: "ivl_overlaps (fst e) e' \<longleftrightarrow> ivl_overlaps (fst e') e"
  by (auto simp: ivl_overlaps_def)

lemma disjoint_entries_cong:
  assumes "mset es = mset es'"
  shows "disjoint_entries es \<longleftrightarrow> disjoint_entries es'"
  using mset_eq_setD [OF assms] mset_eq_imp_distinct_iff [OF assms]
  by (simp add: disjoint_entries_def proper_def)

lemma unshared_entries_cong:
  assumes "mset es = mset es'"
  shows "unshared_entries es \<longleftrightarrow> unshared_entries es'"
proof -
  have "mset (map snd es) = mset (map snd es')"
    using assms by simp
  then show ?thesis
    unfolding unshared_entries_def by (rule mset_eq_imp_distinct_iff)
qed

lemma disjoint_entries_Cons:
  "disjoint_entries ((k, v) # es) \<longleftrightarrow>
     fst k \<le> snd k \<and> (\<forall>e \<in> set es. \<not> ivl_overlaps k e) \<and> disjoint_entries es"
  unfolding disjoint_entries_def proper_def
  by (auto simp: ivl_overlaps_def)

lemma disjoint_entries_remove: "disjoint_entries es \<Longrightarrow> disjoint_entries (remove1 e es)"
  by (auto simp: disjoint_entries_def proper_def dest: notin_set_remove1)

lemma unshared_entries_remove:
  "unshared_entries es \<Longrightarrow> unshared_entries (remove1 e es)"
  unfolding unshared_entries_def distinct_map
  by (metis distinct_remove1 inj_on_subset set_remove1_subset)

lemma unshared_entries_Cons:
  "unshared_entries ((k, v) # es) \<longleftrightarrow> v \<notin> snd ` set es \<and> unshared_entries es"
  by (simp add: unshared_entries_def)

section \<open>Well-formed driver maps and the drivers of a bit\<close>

text \<open>
  \<open>dm_wf\<close>: the lists' free queue is right, intervals are proper and disjoint, every handle is live.
  \<open>dm_unshared\<close>: no two intervals hold the same handle.
\<close>

definition dm_wf :: "'m ops \<Rightarrow> ('m, 'x) driver_map \<Rightarrow> bool" where
  "dm_wf I dm \<longleftrightarrow> lists_inv dm \<and> disjoint_entries (dm_entries I dm) \<and>
     (\<forall>e \<in> set (dm_entries I dm). getDriverList (snd e) dm \<noteq> None)"

definition dm_unshared :: "'m ops \<Rightarrow> ('m, 'x) driver_map \<Rightarrow> bool" where
  "dm_unshared I dm \<longleftrightarrow> unshared_entries (dm_entries I dm)"

definition drivers_at :: "'m ops \<Rightarrow> ('m, 'x) driver_map \<Rightarrow> int \<Rightarrow> nat option set" where
  "drivers_at I dm b =
     \<Union> {dl_nodes ds | e ds. e \<in> set (dm_entries I dm) \<and> ivl_covers e b \<and> getDriverList (snd e) dm = Some ds}"

lemma in_drivers_at:
  "x \<in> drivers_at I dm b \<longleftrightarrow> (\<exists>e \<in> set (dm_entries I dm). ivl_covers e b \<and>
     (\<exists>ds. getDriverList (snd e) dm = Some ds \<and> x \<in> dl_nodes ds))"
  unfolding drivers_at_def by blast

lemma drivers_at_cong:
  assumes "\<And>e. ivl_covers e b \<Longrightarrow> e \<in> set (dm_entries I dm') \<longleftrightarrow> e \<in> set (dm_entries I dm)"
    and "\<And>e. ivl_covers e b \<Longrightarrow> e \<in> set (dm_entries I dm) \<Longrightarrow>
          getDriverList (snd e) dm' = getDriverList (snd e) dm"
  shows "drivers_at I dm' b = drivers_at I dm b"
  using assms by (intro set_eqI) (simp add: in_drivers_at, metis)

lemma drivers_at_uncovered:
  "b \<notin> covered (dm_entries I dm) \<Longrightarrow> drivers_at I dm b = {}"
  by (intro set_eqI) (auto simp: in_drivers_at covered_def)

lemma wf_entryD:
  assumes "dm_wf I dm" and "e \<in> set (dm_entries I dm)"
  shows "fst (fst e) \<le> snd (fst e)" and "\<exists>ds. getDriverList (snd e) dm = Some ds"
  using assms by (auto simp: dm_wf_def disjoint_entries_def proper_def)

lemma wf_disjointD:
  assumes "dm_wf I dm" and "e \<in> set (dm_entries I dm)" "e' \<in> set (dm_entries I dm)" "e' \<noteq> e"
  shows "\<not> ivl_overlaps (fst e) e'"
  using assms by (auto simp: dm_wf_def disjoint_entries_def)

lemma wf_coverD:
  assumes "dm_wf I dm" "e \<in> set (dm_entries I dm)" "ivl_covers e b"
    and "e' \<in> set (dm_entries I dm)" "ivl_covers e' b"
  shows "e' = e"
  using wf_disjointD [OF assms(1,2,4)] assms(3,5) by (force simp: ivl_overlaps_def ivl_covers_def)

lemma drivers_at_entry:
  assumes wf: "dm_wf I dm" and e: "e \<in> set (dm_entries I dm)" "ivl_covers e b"
    and ds: "getDriverList (snd e) dm = Some ds"
  shows "drivers_at I dm b = dl_nodes ds"
proof (rule set_eqI)
  fix x
  have "x \<in> drivers_at I dm b \<Longrightarrow> x \<in> dl_nodes ds"
    unfolding in_drivers_at using wf_coverD [OF wf e] ds by fastforce
  moreover have "x \<in> dl_nodes ds \<Longrightarrow> x \<in> drivers_at I dm b"
    unfolding in_drivers_at using e ds by blast
  ultimately show "x \<in> drivers_at I dm b \<longleftrightarrow> x \<in> dl_nodes ds" ..
qed

section \<open>The primitive operations\<close>

text \<open>The two libraries the driver maps are built on, together.\<close>

locale driver_store = constant_range R + interval_map I
  for R :: range_lib and I :: "'m ops"
begin

lemma mset_dm_insert:
  "mset (dm_entries I (dm_insert R I r h dm)) = mset ((toPair R r, h) # dm_entries I dm)"
  using entries_insert [of "toPair R r"] by (simp add: dm_insert_def dm_entries_def toPair_def)

lemma set_dm_insert [simp]:
  "set (dm_entries I (dm_insert R I r h dm)) = insert (toPair R r, h) (set (dm_entries I dm))"
  by (metis list.simps(15) mset_dm_insert set_mset_mset)

lemma mset_dm_eraseAt:
  "e \<in> set (dm_entries I dm) \<Longrightarrow> mset (dm_entries I (dm_eraseAt I e dm)) = mset (remove1 e (dm_entries I dm))"
  using entries_erase [of e "driverIntervals dm"] by (simp add: dm_eraseAt_def dm_entries_def)

lemma set_dm_eraseAt:
  "dm_wf I dm \<Longrightarrow> e \<in> set (dm_entries I dm)
   \<Longrightarrow> set (dm_entries I (dm_eraseAt I e dm)) = set (dm_entries I dm) - {e}"
  by (metis disjoint_entries_def dm_wf_def mset_dm_eraseAt set_mset_mset set_remove1_eq)

subsection \<open>Well-formedness\<close>

lemma wf_insert:
  assumes "dm_wf I dm" "getDriverList h dm \<noteq> None"
    and "\<And>e. e \<in> set (dm_entries I dm) \<Longrightarrow> \<not> ivl_overlaps (toPair R r) e"
  shows "dm_wf I (dm_insert R I r h dm)"
proof -
  have "disjoint_entries ((toPair R r, h) # dm_entries I dm)"
    using assms by (simp add: disjoint_entries_Cons dm_wf_def toPair_def)
  then have "disjoint_entries (dm_entries I (dm_insert R I r h dm))"
    using disjoint_entries_cong [OF mset_dm_insert] by blast
  then show ?thesis
    using assms by (auto simp: dm_wf_def)
qed

lemma wf_erase:
  assumes "dm_wf I dm" "e \<in> set (dm_entries I dm)"
  shows "dm_wf I (dm_eraseAt I e dm)"
  using assms disjoint_entries_cong [OF mset_dm_eraseAt [OF assms(2)]]
  by (auto simp: dm_wf_def disjoint_entries_remove set_dm_eraseAt)

lemma wf_addList: "dm_wf I dm \<Longrightarrow> dm_wf I (snd (addDriverList ds dm))"
  by (auto simp: dm_wf_def addDriverList_inv addDriverList_get)

lemma wf_put:
  assumes "dm_wf I dm" "putDriverList h ds dm = Some dm'"
  shows "dm_wf I dm'"
  using assms
  by (auto simp: dm_wf_def putDriverList_entries putDriverList_inv putDriverList_get)

lemma wf_eraseHandle:
  assumes "dm_wf I dm" "dm_eraseHandle h dm = Some dm'" "h \<notin> snd ` set (dm_entries I dm)"
  shows "dm_wf I dm'"
  using assms
  by (auto simp: dm_wf_def dm_eraseHandle_entries dm_eraseHandle_inv dm_eraseHandle_get image_iff)

subsection \<open>Sharing\<close>

lemma unshared_insert:
  "dm_unshared I (dm_insert R I r h dm) \<longleftrightarrow> h \<notin> snd ` set (dm_entries I dm) \<and> dm_unshared I dm"
  using unshared_entries_cong [OF mset_dm_insert [of r h dm]]
  by (simp add: dm_unshared_def unshared_entries_Cons)

lemma unshared_erase:
  "dm_unshared I dm \<Longrightarrow> e \<in> set (dm_entries I dm) \<Longrightarrow> dm_unshared I (dm_eraseAt I e dm)"
  using unshared_entries_cong [OF mset_dm_eraseAt] by (metis dm_unshared_def unshared_entries_remove)

lemma unsharedD:
  "dm_unshared I dm \<Longrightarrow> e \<in> set (dm_entries I dm) \<Longrightarrow> e' \<in> set (dm_entries I dm) \<Longrightarrow>
   snd e' = snd e \<Longrightarrow> e' = e"
  by (auto simp: dm_unshared_def unshared_entries_def distinct_map inj_on_def)

lemma handle_gone:
  "dm_wf I dm \<Longrightarrow> dm_unshared I dm \<Longrightarrow> e \<in> set (dm_entries I dm) \<Longrightarrow>
   snd e \<notin> snd ` (set (dm_entries I dm) - {e})"
  using unsharedD by blast

lemma fresh_not_used:
  "dm_wf I dm \<Longrightarrow> fst (addDriverList ds dm) \<notin> snd ` set (dm_entries I dm)"
  using addDriverList_fresh [of dm ds] by (auto simp: dm_wf_def)

lemma unshared_addList [simp]: "dm_unshared I (snd (addDriverList ds dm)) = dm_unshared I dm"
  by (simp add: dm_unshared_def)

lemma unshared_put: "putDriverList h ds dm = Some dm' \<Longrightarrow> dm_unshared I dm' = dm_unshared I dm"
  by (simp add: dm_unshared_def putDriverList_entries)

lemma unshared_eraseHandle: "dm_eraseHandle h dm = Some dm' \<Longrightarrow> dm_unshared I dm' = dm_unshared I dm"
  by (simp add: dm_unshared_def dm_eraseHandle_entries)

subsection \<open>The drivers of a bit\<close>

lemma at_insert:
  "getDriverList h dm = Some ds \<Longrightarrow> drivers_at I (dm_insert R I r h dm) b =
     (if b \<in> bits_of R r then dl_nodes ds else {}) \<union> drivers_at I dm b"
  by (intro set_eqI) (auto simp: in_drivers_at ivl_covers_def toPair_def bits_of_def)

lemma at_erase:
  assumes "dm_wf I dm" "e \<in> set (dm_entries I dm)"
  shows "drivers_at I (dm_eraseAt I e dm) b = (if ivl_covers e b then {} else drivers_at I dm b)"
proof (cases "ivl_covers e b")
  case True
  then have "\<not> ivl_covers e' b" if "e' \<in> set (dm_entries I dm) - {e}" for e'
    using wf_coverD [OF assms True] that by blast
  then have "b \<notin> covered (dm_entries I (dm_eraseAt I e dm))"
    by (simp add: covered_def set_dm_eraseAt [OF assms])
  then show ?thesis
    using True drivers_at_uncovered by simp
next
  case False
  then show ?thesis
    by (subst drivers_at_cong [of b I _ dm]) (auto simp: set_dm_eraseAt [OF assms])
qed

lemma at_addList: "dm_wf I dm \<Longrightarrow> drivers_at I (snd (addDriverList ds dm)) b = drivers_at I dm b"
proof -
  assume wf: "dm_wf I dm"
  have "snd e \<noteq> fst (addDriverList ds dm)" if "e \<in> set (dm_entries I dm)" for e
    using that fresh_not_used [OF wf, of ds] by force
  then show ?thesis
    using wf by (intro drivers_at_cong) (simp_all add: addDriverList_get dm_wf_def)
qed

lemma at_put_unused:
  "putDriverList h ds dm = Some dm' \<Longrightarrow> h \<notin> snd ` set (dm_entries I dm) \<Longrightarrow>
   drivers_at I dm' b = drivers_at I dm b"
  by (intro drivers_at_cong) (auto simp: putDriverList_entries putDriverList_get)

lemma at_put:
  assumes "dm_wf I dm" "dm_unshared I dm" "e \<in> set (dm_entries I dm)"
    and put: "putDriverList (snd e) ds dm = Some dm'"
  shows "drivers_at I dm' b = (if ivl_covers e b then dl_nodes ds else drivers_at I dm b)"
proof (cases "ivl_covers e b")
  case True
  then show ?thesis
    using drivers_at_entry [OF wf_put [OF assms(1) put], of e b ds] assms(3)
    by (simp add: putDriverList_entries [OF put] putDriverList_get [OF put])
next
  case False
  then have "snd e' \<noteq> snd e" if "e' \<in> set (dm_entries I dm)" "ivl_covers e' b" for e'
    using unsharedD [OF assms(2,3) that(1)] that by blast
  then have "drivers_at I dm' b = drivers_at I dm b"
    by (intro drivers_at_cong) (simp_all add: putDriverList_entries [OF put] putDriverList_get [OF put])
  then show ?thesis
    by (simp add: False)
qed

lemma at_eraseHandle:
  "dm_eraseHandle h dm = Some dm' \<Longrightarrow> h \<notin> snd ` set (dm_entries I dm) \<Longrightarrow>
   drivers_at I dm' b = drivers_at I dm b"
  by (intro drivers_at_cong) (auto simp: dm_eraseHandle_entries dm_eraseHandle_get)

end

interpretation std_store: driver_store std_range list_imap
  by unfold_locales

end
