(* ===== verification/AddDrivers.thy ===== *)
theory AddDrivers
  imports IntervalFacts
begin

text \<open>
  Correctness of \<open>ValueTracker::addDrivers\<close>: one turn of its overlap loop (one lemma per case), the
  loop, and the properties of the function: on every bit the drivers are the ones asked for, the
  loop ends, no assertion fails; and what goes wrong after an interval was split on both sides.
\<close>

section \<open>What a call should do\<close>

text \<open>
  On the bits of the range the new drivers replace the old ones, or join them when merging; the
  other bits keep theirs.
\<close>

definition upd_drivers ::
  "range_lib \<Rightarrow> bool \<Rightarrow> 'x driver_list \<Rightarrow> bit_range \<Rightarrow> (int \<Rightarrow> nat option set) \<Rightarrow> int \<Rightarrow> nat option set" where
  "upd_drivers R mrg dl bounds D b =
     (if b \<in> bits_of R bounds then dl_nodes dl \<union> (if mrg then D b else {}) else D b)"

text \<open>Some interval sticks out of the range on both sides.\<close>

definition sticks_out :: "range_lib \<Rightarrow> 'm ops \<Rightarrow> ('m, 'x) driver_map \<Rightarrow> bit_range \<Rightarrow> bool" where
  "sticks_out R I dm bounds \<longleftrightarrow>
     (\<exists>e \<in> set (dm_entries I dm). fst (fst e) < lower_of R bounds \<and> upper_of R bounds < snd (fst e))"

fun step_ok ::
  "range_lib \<Rightarrow> 'm ops \<Rightarrow> bool \<Rightarrow> 'x driver_list \<Rightarrow> ('m, 'x) driver_map \<Rightarrow> bit_range
   \<Rightarrow> ('m, 'x) outcome \<Rightarrow> bool" where
  "step_ok R I mrg dl dm bounds (Finished dm') \<longleftrightarrow>
     dm_wf I dm' \<and> (\<not> sticks_out R I dm bounds \<longrightarrow> dm_unshared I dm') \<and>
     (\<forall>b. drivers_at I dm' b = upd_drivers R mrg dl bounds (drivers_at I dm) b)"
| "step_ok R I mrg dl dm bounds (Refind dm' bounds') \<longleftrightarrow>
     dm_wf I dm' \<and> dm_unshared I dm' \<and> \<not> sticks_out R I dm' bounds' \<and>
     rg_left bounds' \<le> rg_right bounds' \<and>
     set (dm_find R I bounds' dm') \<subset> set (dm_find R I bounds dm) \<and>
     (\<forall>b. upd_drivers R mrg dl bounds' (drivers_at I dm') b
        = upd_drivers R mrg dl bounds (drivers_at I dm) b)"
| "step_ok R I mrg dl dm bounds Skip \<longleftrightarrow> False"

section \<open>The cases of the loop body\<close>

context driver_store
begin

abbreviation "cov dm \<equiv> covered (dm_entries I dm)"

lemma bits_mk: "a \<le> b \<Longrightarrow> bits_of R (mk_range a b) = {a..b}"
  by (simp add: bits_of_def)

lemma toPair_mk: "a \<le> b \<Longrightarrow> toPair R (mk_range a b) = (a, b)"
  by (simp add: toPair_def)

lemma cov_insert [simp]: "cov (dm_insert R I r h dm) = bits_of R r \<union> cov dm"
  by (auto simp: covered_def ivl_covers_def toPair_def bits_of_def)

lemma cov_erase:
  assumes "dm_wf I dm" "e \<in> set (dm_entries I dm)"
  shows "cov (dm_eraseAt I e dm) = cov dm - {fst (fst e)..snd (fst e)}"
proof (intro set_eqI)
  fix b
  show "b \<in> cov (dm_eraseAt I e dm) \<longleftrightarrow> b \<in> cov dm - {fst (fst e)..snd (fst e)}"
    using wf_coverD [OF assms, of b] assms
    by (auto simp: covered_def set_dm_eraseAt ivl_covers_def)
qed

lemma not_overlaps_cov:
  assumes "dm_wf I dm" "bits_of R r \<inter> cov dm = {}" "e \<in> set (dm_entries I dm)"
  shows "\<not> ivl_overlaps (toPair R r) e"
proof
  assume o: "ivl_overlaps (toPair R r) e"
  let ?b = "max (lower_of R r) (fst (fst e))"
  have "?b \<in> bits_of R r" "ivl_covers e ?b"
    using o wf_entryD(1) [OF assms(1,3)] by (auto simp: ivl_overlaps_def toPair_def bits_of_def ivl_covers_def)
  then show False
    using assms(2,3) by (auto simp: covered_def)
qed

text \<open>Inserting an interval that points to a live list.\<close>

lemma insert_facts:
  assumes "dm_wf I dm" "getDriverList h dm = Some ds" "bits_of R r \<inter> cov dm = {}"
  shows "dm_wf I (dm_insert R I r h dm)"
    and "drivers_at I (dm_insert R I r h dm) b = (if b \<in> bits_of R r then dl_nodes ds else drivers_at I dm b)"
proof -
  show "dm_wf I (dm_insert R I r h dm)"
    by (rule wf_insert) (use assms not_overlaps_cov [OF assms(1,3)] in simp_all)
  have "b \<in> bits_of R r \<Longrightarrow> drivers_at I dm b = {}"
    using assms(3) by (intro drivers_at_uncovered) blast
  then show "drivers_at I (dm_insert R I r h dm) b = (if b \<in> bits_of R r then dl_nodes ds else drivers_at I dm b)"
    by (simp add: at_insert [OF assms(2)])
qed

text \<open>Adding a new list and an interval for it, as every case of the loop ends.\<close>

definition stored :: "'x driver_list \<Rightarrow> bit_range \<Rightarrow> ('m, 'x) driver_map \<Rightarrow> ('m, 'x) driver_map \<Rightarrow> bool" where
  "stored ds r dm dm' \<longleftrightarrow> dm_wf I dm' \<and> dm_unshared I dm' = dm_unshared I dm \<and>
     (\<exists>h. getDriverList h dm = None \<and>
        set (dm_entries I dm') = insert (toPair R r, h) (set (dm_entries I dm))) \<and>
     cov dm' = bits_of R r \<union> cov dm \<and>
     (\<forall>k x. getDriverList k dm = Some x \<longrightarrow> getDriverList k dm' = Some x) \<and>
     (\<forall>b. drivers_at I dm' b = (if b \<in> bits_of R r then dl_nodes ds else drivers_at I dm b))"

lemma stored_handle:
  assumes "stored ds r dm dm'" "getDriverList h dm = Some x" "h \<notin> snd ` set (dm_entries I dm)"
  shows "h \<notin> snd ` set (dm_entries I dm')"
proof -
  obtain h' where "getDriverList h' dm = None"
    and s: "set (dm_entries I dm') = insert (toPair R r, h') (set (dm_entries I dm))"
    using assms(1) unfolding stored_def by blast
  then have "h \<noteq> h'"
    using assms(2) by auto
  then show ?thesis
    unfolding s using assms(3) by simp
qed

lemma storedD:
  assumes "stored ds r dm dm'"
  shows "dm_wf I dm'" "dm_unshared I dm' = dm_unshared I dm" "cov dm' = bits_of R r \<union> cov dm"
    "getDriverList k dm = Some x \<Longrightarrow> getDriverList k dm' = Some x"
    "drivers_at I dm' b = (if b \<in> bits_of R r then dl_nodes ds else drivers_at I dm b)"
  using assms by (simp_all add: stored_def)

lemma stored_new:
  assumes "dm_wf I dm" "bits_of R r \<inter> cov dm = {}"
  shows "stored ds r dm (dm_insert R I r (fst (addDriverList ds dm)) (snd (addDriverList ds dm)))"
proof -
  let ?h = "fst (addDriverList ds dm)" and ?d = "snd (addDriverList ds dm)"
  have inv: "lists_inv dm"
    using assms(1) by (simp add: dm_wf_def)
  have wf: "dm_wf I ?d"
    by (rule wf_addList [OF assms(1)])
  have get: "getDriverList ?h ?d = Some ds"
    by (simp add: addDriverList_get [OF inv])
  have c: "bits_of R r \<inter> cov ?d = {}"
    using assms(2) by simp
  have fresh: "getDriverList ?h dm = None"
    by (rule addDriverList_fresh [OF inv])
  have unsh: "dm_unshared I (dm_insert R I r ?h ?d) = dm_unshared I dm"
    using fresh_not_used [OF assms(1), of ds] by (simp add: unshared_insert)
  show ?thesis
    unfolding stored_def
    using insert_facts [OF wf get c] fresh unsh
    by (auto simp: at_addList [OF assms(1)] addDriverList_get [OF inv] intro!: exI [of _ ?h])
qed

text \<open>The same with the copy of an existing list, extended.\<close>

lemma stored_copy:
  assumes "dm_wf I dm" "bits_of R r \<inter> cov dm = {}"
  shows "\<exists>d'. putDriverList (fst (addDriverList old dm)) (dl_insert_all dl old) (snd (addDriverList old dm)) = Some d' \<and>
     stored (dl_insert_all dl old) r dm (dm_insert R I r (fst (addDriverList old dm)) d')"
proof -
  let ?h = "fst (addDriverList old dm)" and ?d = "snd (addDriverList old dm)"
  let ?ds = "dl_insert_all dl old"
  have inv: "lists_inv dm"
    using assms(1) by (simp add: dm_wf_def)
  have get0: "getDriverList ?h ?d = Some old"
    by (simp add: addDriverList_get [OF inv])
  then obtain d' where put: "putDriverList ?h ?ds ?d = Some d'"
    using putDriverList_total by blast
  have wf: "dm_wf I d'"
    using wf_put [OF wf_addList [OF assms(1)] put] .
  have ent: "dm_entries I d' = dm_entries I dm"
    by (simp add: putDriverList_entries [OF put])
  have get: "getDriverList ?h d' = Some ?ds"
    by (simp add: putDriverList_get [OF put])
  have c: "bits_of R r \<inter> cov d' = {}"
    using assms(2) by (simp add: ent)
  have fresh: "getDriverList ?h dm = None"
    by (rule addDriverList_fresh [OF inv])
  have unsh: "dm_unshared I (dm_insert R I r ?h d') = dm_unshared I dm"
    using fresh_not_used [OF assms(1), of old] unshared_put [OF put] by (simp add: unshared_insert ent)
  have at: "drivers_at I d' b = drivers_at I dm b" for b
    using at_put_unused [OF put] fresh_not_used [OF assms(1), of old] at_addList [OF assms(1)] by simp
  have "stored ?ds r dm (dm_insert R I r ?h d')"
    unfolding stored_def
    using insert_facts [OF wf get c] fresh unsh
    by (auto simp: at ent putDriverList_get [OF put] addDriverList_get [OF inv] intro!: exI [of _ ?h])
  then show ?thesis
    using put by blast
qed

subsection \<open>Facts every case starts from\<close>

text \<open>
  The bounds are normalised, \<open>e\<close> is the first interval that overlaps them, and the others start
  later: the bits of the bounds below \<open>e\<close> are free.
\<close>

definition ready :: "('m, 'x) driver_map \<Rightarrow> bit_range \<Rightarrow> nat entry \<Rightarrow> 'x driver_list \<Rightarrow> bool" where
  "ready dm bounds e ds \<longleftrightarrow> dm_wf I dm \<and> dm_unshared I dm \<and> rg_left bounds \<le> rg_right bounds \<and>
     e \<in> set (dm_find R I bounds dm) \<and> getDriverList (snd e) dm = Some ds \<and>
     (\<forall>e' \<in> set (dm_find R I bounds dm). fst (fst e) \<le> fst (fst e'))"

lemma set_dm_find:
  "set (dm_find R I bounds dm) = {e \<in> set (dm_entries I dm). ivl_overlaps (toPair R bounds) e}"
  by (simp add: dm_find_def dm_entries_def set_find)

lemma norm_bounds:
  "rg_left bounds \<le> rg_right bounds \<Longrightarrow> lower_of R bounds = rg_left bounds \<and> upper_of R bounds = rg_right bounds"
  by (simp add: lower_law upper_law)

lemma readyD:
  assumes "ready dm bounds e ds"
  shows "dm_wf I dm" "dm_unshared I dm" "rg_left bounds \<le> rg_right bounds"
    "lower_of R bounds = rg_left bounds" "upper_of R bounds = rg_right bounds"
    "e \<in> set (dm_entries I dm)" "getDriverList (snd e) dm = Some ds"
    "fst (fst e) \<le> rg_right bounds" "rg_left bounds \<le> snd (fst e)" "fst (fst e) \<le> snd (fst e)"
proof -
  show wf: "dm_wf I dm" "dm_unshared I dm" and le: "rg_left bounds \<le> rg_right bounds"
    and get: "getDriverList (snd e) dm = Some ds"
    using assms by (simp_all add: ready_def)
  show lu: "lower_of R bounds = rg_left bounds" "upper_of R bounds = rg_right bounds"
    using le norm_bounds by auto
  show e: "e \<in> set (dm_entries I dm)"
    using assms by (simp add: ready_def set_dm_find)
  show "fst (fst e) \<le> rg_right bounds" "rg_left bounds \<le> snd (fst e)"
    using assms by (auto simp: ready_def set_dm_find ivl_overlaps_def toPair_def lu)
  show "fst (fst e) \<le> snd (fst e)"
    by (rule wf_entryD(1) [OF wf(1) e])
qed

lemma ready_gap:
  assumes "ready dm bounds e ds" "rg_left bounds \<le> b" "b < fst (fst e)"
  shows "b \<notin> cov dm"
proof
  assume "b \<in> cov dm"
  then obtain e' where e': "e' \<in> set (dm_entries I dm)" "fst (fst e') \<le> b" "b \<le> snd (fst e')"
    by (auto simp: covered_def ivl_covers_def)
  then have "e' \<in> set (dm_find R I bounds dm)"
    using readyD [OF assms(1)] assms(2,3) by (auto simp: set_dm_find ivl_overlaps_def toPair_def)
  then show False
    using assms e'(2) by (force simp: ready_def)
qed

lemma ready_at:
  "ready dm bounds e ds \<Longrightarrow> fst (fst e) \<le> b \<Longrightarrow> b \<le> snd (fst e) \<Longrightarrow> drivers_at I dm b = dl_nodes ds"
  by (rule drivers_at_entry) (auto dest: readyD simp: ivl_covers_def)

lemma ready_gap_at:
  "ready dm bounds e ds \<Longrightarrow> rg_left bounds \<le> b \<Longrightarrow> b < fst (fst e) \<Longrightarrow> drivers_at I dm b = {}"
  by (rule drivers_at_uncovered) (rule ready_gap)

lemma ready_other:
  assumes "ready dm bounds e ds" "e' \<in> set (dm_entries I dm)" "e' \<noteq> e"
  shows "snd (fst e') < fst (fst e) \<or> snd (fst e) < fst (fst e')"
  using wf_disjointD [OF readyD(1) [OF assms(1)] readyD(6) [OF assms(1)] assms(2,3)] by (auto simp: ivl_overlaps_def)

text \<open>After the first interval is gone.\<close>

lemma ready_erase:
  assumes "ready dm bounds e ds"
  defines "dm1 \<equiv> dm_eraseAt I e dm"
  shows "dm_wf I dm1" "dm_unshared I dm1" "snd e \<notin> snd ` set (dm_entries I dm1)"
    "set (dm_entries I dm1) = set (dm_entries I dm) - {e}"
    "cov dm1 = cov dm - {fst (fst e)..snd (fst e)}"
    "getDriverList (snd e) dm1 = Some ds"
    "drivers_at I dm1 b = (if fst (fst e) \<le> b \<and> b \<le> snd (fst e) then {} else drivers_at I dm b)"
proof -
  note r = readyD [OF assms(1)]
  show "dm_wf I dm1" "dm_unshared I dm1"
    using r by (simp_all add: dm1_def wf_erase unshared_erase)
  show s: "set (dm_entries I dm1) = set (dm_entries I dm) - {e}"
    using r by (simp add: dm1_def set_dm_eraseAt)
  show "snd e \<notin> snd ` set (dm_entries I dm1)"
    unfolding s using handle_gone r by blast
  show "cov dm1 = cov dm - {fst (fst e)..snd (fst e)}"
    using r by (simp add: dm1_def cov_erase)
  show "getDriverList (snd e) dm1 = Some ds"
    using r by (simp add: dm1_def)
  show "drivers_at I dm1 b = (if fst (fst e) \<le> b \<and> b \<le> snd (fst e) then {} else drivers_at I dm b)"
    using at_erase [OF r(1,6)] by (simp add: dm1_def ivl_covers_def)
qed

lemma unshared_insert':
  "dm_unshared I dm \<Longrightarrow> h \<notin> snd ` set (dm_entries I dm) \<Longrightarrow> dm_unshared I (dm_insert R I r h dm)"
  by (simp add: unshared_insert)

subsection \<open>One lemma per case\<close>

lemma bits_norm: "rg_left bounds \<le> rg_right bounds \<Longrightarrow> bits_of R bounds = {rg_left bounds..rg_right bounds}"
  by (simp add: bits_of_def norm_bounds)

lemma match_ok:
  assumes "ready dm bounds e ds" "ivl_range (fst e) = bounds"
  shows "\<exists>out. step_match mrg dl dm (snd e) = Some out \<and> step_ok R I mrg dl dm bounds out"
proof -
  note r = readyD [OF assms(1)]
  let ?new = "if mrg then dl_insert_all dl ds else dl_insert_all dl []"
  obtain dm' where put: "putDriverList (snd e) ?new dm = Some dm'"
    using putDriverList_total [OF r(7)] by blast
  have b: "fst (fst e) = rg_left bounds" "snd (fst e) = rg_right bounds"
    using assms(2) by auto
  have "drivers_at I dm' b = upd_drivers R mrg dl bounds (drivers_at I dm) b" for b
    using at_put [OF r(1,2,6) put] ready_at [OF assms(1), of b] r(3)
    by (auto simp: upd_drivers_def bits_norm ivl_covers_def b)
  then have "step_ok R I mrg dl dm bounds (Finished dm')"
    using wf_put [OF r(1) put] unshared_put [OF put] r(2) by simp
  moreover have "step_match mrg dl dm (snd e) = Some (Finished dm')"
    using put by (cases mrg) (simp_all add: step_match_def r(7))
  ultimately show ?thesis by blast
qed

text \<open>What remains after the part of the bounds up to the end of \<open>e\<close> is settled.\<close>

lemma advance_ok:
  assumes "ready dm bounds e ds" "snd (fst e) \<le> rg_right bounds"
    and wf: "dm_wf I dm'" and un: "dm_unshared I dm'"
    and ent: "\<And>e'. e' \<in> set (dm_entries I dm') \<Longrightarrow>
          snd (fst e') \<le> snd (fst e) \<or> e' \<in> set (dm_entries I dm) - {e}"
    and at: "\<And>b. drivers_at I dm' b =
          (if rg_left bounds \<le> b \<and> b \<le> snd (fst e)
           then dl_nodes dl \<union> (if mrg then drivers_at I dm b else {}) else drivers_at I dm b)"
  shows "step_ok R I mrg dl dm bounds (advance dm' bounds (snd (fst e) + 1))"
proof -
  note r = readyD [OF assms(1)]
  show ?thesis
  proof (cases "snd (fst e) = rg_right bounds")
    case True
    then show ?thesis
      using wf un at r(3) by (simp add: advance_def upd_drivers_def bits_norm)
  next
    case False
    let ?b = "bounds\<lparr>rg_left := snd (fst e) + 1\<rparr>"
    have le: "rg_left ?b \<le> rg_right ?b"
      using False assms(2) by simp
    have find: "e' \<in> set (dm_find R I ?b dm') \<Longrightarrow> e' \<in> set (dm_find R I bounds dm) - {e}" for e'
      using ent [of e'] r(3,9) norm_bounds [OF le] norm_bounds [OF r(3)]
      by (auto simp: set_dm_find ivl_overlaps_def toPair_def)
    have e: "e \<in> set (dm_find R I bounds dm)"
      using assms(1) by (simp add: ready_def)
    have out: "\<not> sticks_out R I dm' ?b"
      unfolding sticks_out_def norm_bounds [OF le, THEN conjunct1] norm_bounds [OF le, THEN conjunct2]
      using ent ready_other [OF assms(1)] assms(2) r(10) by fastforce
    have "upd_drivers R mrg dl ?b (drivers_at I dm') b = upd_drivers R mrg dl bounds (drivers_at I dm) b" for b
      using r(3,9) assms(2) le by (auto simp: upd_drivers_def bits_norm at)
    moreover have "set (dm_find R I ?b dm') \<subset> set (dm_find R I bounds dm)"
      using find e by blast
    ultimately have "step_ok R I mrg dl dm bounds (Refind dm' ?b)"
      using wf un out le by simp
    then show ?thesis
      using False assms(2) by (simp add: advance_def)
  qed
qed

lemma cover_ok:
  assumes "ready dm bounds e ds" "contains_of R bounds (ivl_range (fst e))"
  shows "\<exists>out. step_cover R I mrg dl dm bounds e = Some out \<and> step_ok R I mrg dl dm bounds out"
proof (cases mrg)
  case False
  note r = readyD [OF assms(1)] and d = ready_erase [OF assms(1)]
  let ?dm1 = "dm_eraseAt I e dm"
  obtain dm2 where er: "dm_eraseHandle (snd e) ?dm1 = Some dm2"
    using dm_eraseHandle_total [OF d(6)] by blast
  have in_e: "rg_left bounds \<le> fst (fst e)" "snd (fst e) \<le> rg_right bounds"
    using assms(2) r by (auto simp: contains_law)
  have ent: "set (dm_entries I dm2) = set (dm_entries I dm) - {e}"
    by (simp add: dm_eraseHandle_entries [OF er] d(4))
  have find: "set (dm_find R I bounds dm2) \<subset> set (dm_find R I bounds dm)"
    using assms(1) by (auto simp: set_dm_find ent ready_def)
  have out: "\<not> sticks_out R I dm2 bounds"
    unfolding sticks_out_def ent r(4,5) using ready_other [OF assms(1)] in_e r(10) by fastforce
  have "upd_drivers R mrg dl bounds (drivers_at I dm2) b
      = upd_drivers R mrg dl bounds (drivers_at I dm) b" for b
    using at_eraseHandle [OF er d(3)] d(7) in_e r(3) False by (auto simp: upd_drivers_def bits_norm)
  then have "step_ok R I mrg dl dm bounds (Refind dm2 bounds)"
    using wf_eraseHandle [OF d(1) er d(3)] unshared_eraseHandle [OF er] d(2) find out r(3) by simp
  then show ?thesis
    using er False d(6) by (auto simp: step_cover_def validHandle_get split_beta)
next
  case True
  note r = readyD [OF assms(1)]
  obtain dm1 where put: "putDriverList (snd e) (dl_insert_all dl ds) dm = Some dm1"
    using putDriverList_total [OF r(7)] by blast
  have in_e: "rg_left bounds \<le> fst (fst e)" "snd (fst e) \<le> rg_right bounds"
    using assms(2) r by (auto simp: contains_law)
  have wf1: "dm_wf I dm1" and un1: "dm_unshared I dm1" and ent1: "dm_entries I dm1 = dm_entries I dm"
    using wf_put [OF r(1) put] unshared_put [OF put] r(2) putDriverList_entries [OF put] by auto
  have at1: "drivers_at I dm1 b =
      (if fst (fst e) \<le> b \<and> b \<le> snd (fst e) then dl_nodes dl \<union> drivers_at I dm b else drivers_at I dm b)" for b
    using at_put [OF r(1,2,6) put] ready_at [OF assms(1)] by (auto simp: ivl_covers_def)
  show ?thesis
  proof (cases "fst (fst e) > rg_left bounds")
    case False
    have "step_ok R I mrg dl dm bounds (advance dm1 bounds (snd (fst e) + 1))"
      using in_e False r(10) True
      by (intro advance_ok [OF assms(1) in_e(2) wf1 un1]) (auto simp: ent1 at1)
    then show ?thesis
      using put False True by (auto simp: step_cover_def split_beta r(4,7))
  next
    case gap: True
    let ?r = "mk_range (rg_left bounds) (fst (fst e) - 1)"
    let ?dm2 = "dm_insert R I ?r (fst (addDriverList dl dm1)) (snd (addDriverList dl dm1))"
    have br: "bits_of R ?r = {rg_left bounds..fst (fst e) - 1}" and pr: "toPair R ?r = (rg_left bounds, fst (fst e) - 1)"
      using gap by (simp_all add: bits_mk toPair_mk)
    have "bits_of R ?r \<inter> cov dm1 = {}"
      using ready_gap [OF assms(1)] by (auto simp: br ent1)
    from stored_new [OF wf1 this, of dl] have st: "stored dl ?r dm1 ?dm2" .
    have "step_ok R I mrg dl dm bounds (advance ?dm2 bounds (snd (fst e) + 1))"
    proof (rule advance_ok [OF assms(1) in_e(2)])
      show "dm_wf I ?dm2" "dm_unshared I ?dm2"
        using st un1 by (simp_all add: stored_def)
      show "e' \<in> set (dm_entries I ?dm2) \<Longrightarrow>
          snd (fst e') \<le> snd (fst e) \<or> e' \<in> set (dm_entries I dm) - {e}" for e'
        using st r(10) by (auto simp: stored_def pr ent1)
      show "drivers_at I ?dm2 b =
          (if rg_left bounds \<le> b \<and> b \<le> snd (fst e)
           then dl_nodes dl \<union> (if mrg then drivers_at I dm b else {}) else drivers_at I dm b)" for b
        using st gap r(10) True ready_gap_at [OF assms(1), of b] by (auto simp: stored_def br at1)
    qed
    then show ?thesis
      using put gap True by (auto simp: step_cover_def split_beta r(4,7))
  qed
qed

text \<open>The list the new interval gets in the overlapping part: the new drivers, with the old ones when merging.\<close>

lemma left_ok:
  assumes "ready dm bounds e ds" and e: "fst (fst e) < rg_left bounds" "snd (fst e) \<le> rg_right bounds"
  shows "\<exists>out. step_left R I mrg dl dm bounds e = Some out \<and> step_ok R I mrg dl dm bounds out"
proof -
  note r = readyD [OF assms(1)] and d = ready_erase [OF assms(1)]
  let ?l = "mk_range (fst (fst e)) (rg_left bounds - 1)" and ?r = "mk_range (rg_left bounds) (snd (fst e))"
  let ?dm2 = "dm_insert R I ?l (snd e) (dm_eraseAt I e dm)"
  have bl: "bits_of R ?l = {fst (fst e)..rg_left bounds - 1}" and br: "bits_of R ?r = {rg_left bounds..snd (fst e)}"
    and pl: "toPair R ?l = (fst (fst e), rg_left bounds - 1)" and pr: "toPair R ?r = (rg_left bounds, snd (fst e))"
    using e r(9) by (simp_all add: bits_mk toPair_mk)
  have "bits_of R ?l \<inter> cov (dm_eraseAt I e dm) = {}"
    using r(9) by (auto simp: bl d(5))
  note i = insert_facts [OF d(1,6) this]
  have un2: "dm_unshared I ?dm2"
    using unshared_insert' [OF d(2,3)] .
  have c: "bits_of R ?r \<inter> cov ?dm2 = {}"
    using e by (auto simp: bl br d(5))
  have ok: "step_ok R I mrg dl dm bounds (advance dm' bounds (snd (fst e) + 1))"
    if st: "stored new ?r ?dm2 dm'" and new: "dl_nodes new = dl_nodes dl \<union> (if mrg then dl_nodes ds else {})" for dm' new
  proof (rule advance_ok [OF assms(1) e(2)])
    show "dm_wf I dm'" "dm_unshared I dm'"
      using st un2 by (simp_all add: stored_def)
    show "e' \<in> set (dm_entries I dm') \<Longrightarrow> snd (fst e') \<le> snd (fst e) \<or> e' \<in> set (dm_entries I dm) - {e}" for e'
      using st r(9) by (auto simp: stored_def pr pl d(4))
    show "drivers_at I dm' b = (if rg_left bounds \<le> b \<and> b \<le> snd (fst e)
           then dl_nodes dl \<union> (if mrg then drivers_at I dm b else {}) else drivers_at I dm b)" for b
      unfolding storedD(5) [OF st] i(2) d(7) br bl using e new ready_at [OF assms(1), of b] r(9,10)
      by auto
  qed
  show ?thesis
  proof (cases mrg)
    case True
    then show ?thesis
      using stored_copy [OF i(1) c, of ds dl] ok e(1)
      by (auto simp: step_left_def split_beta r(4,7) Let_def)
  next
    case False
    then show ?thesis
      using ok [OF stored_new [OF i(1) c, of dl]] e(1)
      by (auto simp: step_left_def split_beta r(4) Let_def)
  qed
qed

lemma right_only:
  assumes "ready dm bounds e ds" "rg_right bounds \<le> snd (fst e)"
  shows "\<not> sticks_out R I dm bounds \<or> fst (fst e) < rg_left bounds"
  using ready_other [OF assms(1)] readyD [OF assms(1)] by (fastforce simp: sticks_out_def)

lemma right_ok:
  assumes "ready dm bounds e ds" and e: "rg_left bounds < fst (fst e)" "rg_right bounds < snd (fst e)"
  shows "\<exists>out. step_right R I mrg dl dm bounds e = Some out \<and> step_ok R I mrg dl dm bounds out"
proof -
  note r = readyD [OF assms(1)] and d = ready_erase [OF assms(1)]
  let ?l = "mk_range (rg_left bounds) (fst (fst e) - 1)" and ?m = "mk_range (fst (fst e)) (rg_right bounds)"
    and ?r = "mk_range (rg_right bounds + 1) (snd (fst e))" and ?dm1 = "dm_eraseAt I e dm"
  have bl: "bits_of R ?l = {rg_left bounds..fst (fst e) - 1}" and bm: "bits_of R ?m = {fst (fst e)..rg_right bounds}"
    and br: "bits_of R ?r = {rg_right bounds + 1..snd (fst e)}"
    and pm: "toPair R ?m = (fst (fst e), rg_right bounds)" and pl: "toPair R ?l = (rg_left bounds, fst (fst e) - 1)"
    using e r(8) by (simp_all add: bits_mk toPair_mk)
  have gap: "b \<notin> cov dm \<and> drivers_at I dm b = {}" if "rg_left bounds \<le> b" "b < fst (fst e)" for b
    using ready_gap [OF assms(1) that] ready_gap_at [OF assms(1) that] by simp
  have no_rest: "b \<notin> cov ?dm1" if "rg_left bounds \<le> b" "b \<le> snd (fst e)" for b
    using gap that by (fastforce simp: d(5))
  have ok: "step_ok R I mrg dl dm bounds (Finished (dm_insert R I ?r (snd e) dm'))"
    if wf: "dm_wf I dm'" and un: "dm_unshared I dm'" and h: "snd e \<notin> snd ` set (dm_entries I dm')"
      and get: "getDriverList (snd e) dm' = Some ds" and c: "cov dm' = {rg_left bounds..rg_right bounds} \<union> cov ?dm1"
      and at: "\<And>b. drivers_at I dm' b = (if rg_left bounds \<le> b \<and> b \<le> rg_right bounds
           then dl_nodes dl \<union> (if mrg then drivers_at I dm b else {}) else drivers_at I ?dm1 b)" for dm'
  proof -
    have "bits_of R ?r \<inter> cov dm' = {}"
      using no_rest r(3) by (auto simp: br c)
    note i = insert_facts [OF wf get this]
    have "drivers_at I (dm_insert R I ?r (snd e) dm') b = upd_drivers R mrg dl bounds (drivers_at I dm) b" for b
      using ready_at [OF assms(1), of b] e r(3,8) by (auto simp: upd_drivers_def bits_norm br i(2) at d(7))
    then show ?thesis
      using i(1) unshared_insert' [OF un h] by simp
  qed
  have live: "h \<noteq> snd e" if "getDriverList h dm' = None" "getDriverList (snd e) dm' \<noteq> None"
    for h and dm' :: "('m, 'x) driver_map"
    using that by auto
  show ?thesis
  proof (cases mrg)
    case False
    have "bits_of R bounds \<inter> cov ?dm1 = {}"
      using no_rest e r(3) by (auto simp: bits_norm)
    from stored_new [OF d(1) this, of dl]
    have st: "stored dl bounds ?dm1 (dm_insert R I bounds (fst (addDriverList dl ?dm1)) (snd (addDriverList dl ?dm1)))"
      (is "stored _ _ _ ?dm2") .
    have "step_ok R I mrg dl dm bounds (Finished (dm_insert R I ?r (snd e) ?dm2))"
    proof (rule ok)
      show "snd e \<notin> snd ` set (dm_entries I ?dm2)"
        by (rule stored_handle [OF st d(6,3)])
    qed (simp_all only: storedD [OF st] d(2,6) bits_norm [OF r(3)] False atLeastAtMost_iff simp_thms if_False Un_empty_right)
    then show ?thesis
      using False e by (auto simp: step_right_def split_beta r(5) Let_def)
  next
    case True
    have "bits_of R ?l \<inter> cov ?dm1 = {}"
      using no_rest e r(10) by (auto simp: bl)
    from stored_new [OF d(1) this, of dl]
    have st: "stored dl ?l ?dm1 (dm_insert R I ?l (fst (addDriverList dl ?dm1)) (snd (addDriverList dl ?dm1)))"
      (is "stored _ _ _ ?dm2") .
    have wf2: "dm_wf I ?dm2" and c2: "cov ?dm2 = bits_of R ?l \<union> cov ?dm1" and g2: "getDriverList (snd e) ?dm2 = Some ds"
      and h2: "snd e \<notin> snd ` set (dm_entries I ?dm2)"
      using storedD [OF st] d(6) stored_handle [OF st d(6,3)] by blast+
    have "bits_of R ?m \<inter> cov ?dm2 = {}"
      using no_rest e r(8) unfolding c2 by (auto simp: bl bm)
    from stored_copy [OF wf2 this, of ds dl] obtain d' where
      put: "putDriverList (fst (addDriverList ds ?dm2)) (dl_insert_all dl ds) (snd (addDriverList ds ?dm2)) = Some d'"
      and st': "stored (dl_insert_all dl ds) ?m ?dm2 (dm_insert R I ?m (fst (addDriverList ds ?dm2)) d')"
        (is "stored _ _ _ ?dm3") by blast
    have "step_ok R I mrg dl dm bounds (Finished (dm_insert R I ?r (snd e) ?dm3))"
    proof (rule ok)
      show "dm_wf I ?dm3" "dm_unshared I ?dm3" "getDriverList (snd e) ?dm3 = Some ds"
        "snd e \<notin> snd ` set (dm_entries I ?dm3)"
        using storedD [OF st'] storedD(2) [OF st] d(2) g2 stored_handle [OF st' g2 h2] by blast+
      show "cov ?dm3 = {rg_left bounds..rg_right bounds} \<union> cov ?dm1"
        unfolding storedD(3) [OF st'] c2 bl bm using e(1) r(8) by auto
      show "drivers_at I ?dm3 b = (if rg_left bounds \<le> b \<and> b \<le> rg_right bounds
           then dl_nodes dl \<union> (if mrg then drivers_at I dm b else {}) else drivers_at I ?dm1 b)" for b
      proof -
        have "drivers_at I ?dm3 b = (if b \<in> bits_of R ?m then dl_nodes dl \<union> dl_nodes ds
            else if b \<in> bits_of R ?l then dl_nodes dl else drivers_at I ?dm1 b)"
          by (simp only: storedD(5) [OF st'] storedD(5) [OF st] dl_nodes_insert_all)
        then show ?thesis
          using True gap [of b] ready_at [OF assms(1), of b] e r(8) by (auto simp: bl bm)
      qed
    qed
    then show ?thesis
      using True e put g2 by (auto simp: step_right_def split_beta r(4,5) Let_def g2 [simplified])
  qed
qed

text \<open>
  The two outer parts keep the handle of the interval that is split. When both exist they share it:
  the map stays well-formed and right on every bit, but it is no longer free of sharing.
\<close>

definition outer_parts :: "('m, 'x) driver_map \<Rightarrow> bit_range \<Rightarrow> nat entry \<Rightarrow> ('m, 'x) driver_map" where
  "outer_parts dm bounds e =
     (let dm1 = dm_eraseAt I e dm;
          dm2 = (if fst (fst e) < rg_left bounds
                 then dm_insert R I (mk_range (fst (fst e)) (rg_left bounds - 1)) (snd e) dm1 else dm1)
      in if snd (fst e) > rg_right bounds
         then dm_insert R I (mk_range (rg_right bounds + 1) (snd (fst e))) (snd e) dm2 else dm2)"

lemma outer_parts_facts:
  assumes "ready dm bounds e ds" and e: "fst (fst e) \<le> rg_left bounds" "rg_right bounds \<le> snd (fst e)"
  defines "dm3 \<equiv> outer_parts dm bounds e"
  shows "dm_wf I dm3" "cov dm3 = cov dm - {rg_left bounds..rg_right bounds}"
    "getDriverList (snd e) dm3 = Some ds"
    "drivers_at I dm3 b = (if rg_left bounds \<le> b \<and> b \<le> rg_right bounds then {} else drivers_at I dm b)"
    "\<not> sticks_out R I dm bounds \<Longrightarrow> dm_unshared I dm3"
proof -
  note r = readyD [OF assms(1)] and d = ready_erase [OF assms(1)]
  let ?L = "fst (fst e) < rg_left bounds" and ?H = "snd (fst e) > rg_right bounds"
  let ?dm1 = "dm_eraseAt I e dm"
  let ?l = "mk_range (fst (fst e)) (rg_left bounds - 1)" and ?r = "mk_range (rg_right bounds + 1) (snd (fst e))"
  let ?dm2 = "if ?L then dm_insert R I ?l (snd e) ?dm1 else ?dm1"
  have bl: "?L \<Longrightarrow> bits_of R ?l = {fst (fst e)..rg_left bounds - 1}"
    and br: "?H \<Longrightarrow> bits_of R ?r = {rg_right bounds + 1..snd (fst e)}"
    by (simp_all add: bits_mk)
  have e_cov: "{fst (fst e)..snd (fst e)} \<subseteq> cov dm"
    using r(6) by (auto simp: covered_def ivl_covers_def)
  have "bits_of R ?l \<inter> cov ?dm1 = {}" if ?L
    using bl [OF that] e r(3) by (auto simp: d(5))
  note i1 = insert_facts [OF d(1,6) this]
  have 2: "dm_wf I ?dm2" "getDriverList (snd e) ?dm2 = Some ds"
    "cov ?dm2 = cov dm - {rg_left bounds..snd (fst e)}"
    "drivers_at I ?dm2 b = (if rg_left bounds \<le> b \<and> b \<le> snd (fst e) then {} else drivers_at I dm b)" for b
    using i1 d bl e_cov e r(3) ready_at [OF assms(1), of b] by (auto simp: r(7))
  have 3: "dm3 = (if ?H then dm_insert R I ?r (snd e) ?dm2 else ?dm2)"
    by (simp add: dm3_def outer_parts_def Let_def)
  have "bits_of R ?r \<inter> cov ?dm2 = {}" if ?H
    using br [OF that] r(3) unfolding 2(3) by auto
  note i2 = insert_facts [OF 2(1,2) this]
  show "dm_wf I dm3"
    unfolding 3 using i2(1) 2(1) by (cases ?H) simp_all
  show "getDriverList (snd e) dm3 = Some ds"
    unfolding 3 using 2(2) by (cases ?H) simp_all
  show "cov dm3 = cov dm - {rg_left bounds..rg_right bounds}"
  proof (cases ?H)
    case True
    then have "cov dm3 = bits_of R ?r \<union> cov ?dm2"
      by (simp add: 3)
    then show ?thesis
      unfolding 2(3) using br [OF True] e_cov e r(3) True by auto
  qed (use 2(3) e in \<open>simp add: 3\<close>)
  show "drivers_at I dm3 b = (if rg_left bounds \<le> b \<and> b \<le> rg_right bounds then {} else drivers_at I dm b)"
  proof (cases ?H)
    case True
    then have "drivers_at I dm3 b = (if b \<in> bits_of R ?r then dl_nodes ds else drivers_at I ?dm2 b)"
      using i2(2) by (simp add: 3)
    then show ?thesis
      unfolding 2(4) using br [OF True] ready_at [OF assms(1), of b] e r(3) by auto
  qed (use 2(4) e in \<open>simp add: 3\<close>)
  show "dm_unshared I dm3" if "\<not> sticks_out R I dm bounds"
  proof -
    have "\<not> ?L \<or> \<not> ?H"
      using that r by (auto simp: sticks_out_def)
    then show ?thesis
      unfolding 3 using unshared_insert' [OF d(2,3)] d(2) by auto
  qed
qed

lemma split_ok:
  assumes "ready dm bounds e ds" "contains_of R (ivl_range (fst e)) bounds"
  shows "\<exists>out. step_split R I mrg dl dm bounds e = Some out \<and> step_ok R I mrg dl dm bounds out"
proof -
  note r = readyD [OF assms(1)]
  have e: "fst (fst e) \<le> rg_left bounds" "rg_right bounds \<le> snd (fst e)"
    using assms(2) r by (auto simp: contains_law)
  let ?dm3 = "outer_parts dm bounds e"
  note o = outer_parts_facts [OF assms(1) e]
  have step: "step_split R I mrg dl dm bounds e =
      (if mrg then and_then (putDriverList (fst (addDriverList ds ?dm3)) (dl_insert_all dl ds) (snd (addDriverList ds ?dm3)))
              (\<lambda>d'. Some (Finished (dm_insert R I bounds (fst (addDriverList ds ?dm3)) d')))
       else Some (Finished (dm_insert R I bounds (fst (addDriverList dl ?dm3)) (snd (addDriverList dl ?dm3)))))"
    by (simp add: step_split_def outer_parts_def Let_def split_beta r(4,5,7))
  have c: "bits_of R bounds \<inter> cov ?dm3 = {}"
    by (auto simp: bits_norm [OF r(3)] o(2))
  have ok: "step_ok R I mrg dl dm bounds (Finished dm')"
    if st: "stored new bounds ?dm3 dm'" and new: "dl_nodes new = dl_nodes dl \<union> (if mrg then dl_nodes ds else {})" for dm' new
    using o(4,5) e ready_at [OF assms(1)]
    by (auto simp: storedD [OF st] new upd_drivers_def bits_norm [OF r(3)])
  show ?thesis
  proof (cases mrg)
    case True
    then show ?thesis
      unfolding step using stored_copy [OF o(1) c, of ds dl] ok by auto
  next
    case False
    then show ?thesis
      unfolding step using ok [OF stored_new [OF o(1) c, of dl]] by auto
  qed
qed

section \<open>The loop\<close>

lemma step_correct:
  assumes "ready dm bounds e ds"
  shows "\<exists>out. add_step R I mrg dl dm bounds e = Some out \<and> step_ok R I mrg dl dm bounds out"
proof -
  note r = readyD [OF assms]
  have contains: "contains_of R (ivl_range (fst e)) bounds \<longleftrightarrow>
      fst (fst e) \<le> rg_left bounds \<and> rg_right bounds \<le> snd (fst e)"
    "contains_of R bounds (ivl_range (fst e)) \<longleftrightarrow>
      rg_left bounds \<le> fst (fst e) \<and> snd (fst e) \<le> rg_right bounds"
    using r by (simp_all add: contains_law)
  consider "ivl_range (fst e) = bounds"
    | "ivl_range (fst e) \<noteq> bounds" "contains_of R (ivl_range (fst e)) bounds"
    | "ivl_range (fst e) \<noteq> bounds" "\<not> contains_of R (ivl_range (fst e)) bounds" "contains_of R bounds (ivl_range (fst e))"
    | "ivl_range (fst e) \<noteq> bounds" "\<not> contains_of R (ivl_range (fst e)) bounds" "\<not> contains_of R bounds (ivl_range (fst e))"
      "fst (fst e) < rg_left bounds" "snd (fst e) \<le> rg_right bounds"
    | "ivl_range (fst e) \<noteq> bounds" "\<not> contains_of R (ivl_range (fst e)) bounds" "\<not> contains_of R bounds (ivl_range (fst e))"
      "rg_left bounds < fst (fst e)" "rg_right bounds < snd (fst e)"
    using contains by fastforce
  then show ?thesis
  proof cases
    case 1
    with match_ok [OF assms 1] show ?thesis by (simp add: add_step_def split_beta)
  next
    case 2
    with split_ok [OF assms 2(2)] show ?thesis by (simp add: add_step_def split_beta)
  next
    case 3
    with cover_ok [OF assms 3(3)] show ?thesis by (simp add: add_step_def split_beta)
  next
    case 4
    with left_ok [OF assms 4(4,5)] r show ?thesis by (simp add: add_step_def split_beta)
  next
    case 5
    with right_ok [OF assms 5(4,5)] r show ?thesis by (simp add: add_step_def split_beta)
  qed
qed

lemma find_ready:
  assumes "dm_wf I dm" "dm_unshared I dm" "rg_left bounds \<le> rg_right bounds"
    and find: "dm_find R I bounds dm = e # es"
  shows "\<exists>ds. ready dm bounds e ds"
proof -
  have "sorted (map (fst \<circ> fst) (dm_find R I bounds dm))"
    unfolding dm_find_def find_entries by (rule sorted_filter) (rule entries_sorted)
  moreover have "e \<in> set (dm_entries I dm)"
    using set_dm_find [of bounds dm] find by auto
  ultimately show ?thesis
    using assms wf_entryD(2) [of I dm e] by (auto simp: ready_def)
qed

lemma find_empty:
  assumes "dm_wf I dm" "dm_find R I bounds dm = []"
  shows "bits_of R bounds \<inter> cov dm = {}"
proof -
  have "\<not> ivl_overlaps (toPair R bounds) e" if "e \<in> set (dm_entries I dm)" for e
    using that set_dm_find [of bounds dm] assms(2) by (metis (mono_tags) empty_iff list.set(1) mem_Collect_eq)
  then show ?thesis
    by (force simp: covered_def ivl_covers_def ivl_overlaps_def toPair_def bits_of_def)
qed

lemma find_distinct: "dm_wf I dm \<Longrightarrow> distinct (dm_find R I bounds dm)"
  by (simp add: dm_wf_def disjoint_entries_def dm_find_def dm_entries_def find_entries)

lemma find_shrinks:
  assumes "dm_wf I dm" "dm_wf I dm'" "set (dm_find R I b' dm') \<subset> set (dm_find R I b dm)"
  shows "length (dm_find R I b' dm') < length (dm_find R I b dm)"
  using psubset_card_mono [OF _ assms(3)] find_distinct [OF assms(1)] find_distinct [OF assms(2)]
  by (simp add: distinct_card)

lemma loop_correct:
  assumes "dm_wf I dm" "dm_unshared I dm" "rg_left bounds \<le> rg_right bounds"
    and "length (dm_find R I bounds dm) \<le> fuel"
  shows "\<exists>dm'. add_loop R I mrg dl fuel dm bounds (dm_find R I bounds dm) = Some dm' \<and>
     step_ok R I mrg dl dm bounds (Finished dm')"
  using assms
proof (induction fuel arbitrary: dm bounds)
  case (0 dm bounds)
  then show ?case
    using stored_new [OF 0(1) find_empty [OF 0(1)], of bounds dl] drivers_at_uncovered [of _ I dm]
      find_empty [OF 0(1), of bounds]
    by (auto simp: stored_def upd_drivers_def split_beta)
next
  case (Suc fuel dm bounds)
  show ?case
  proof (cases "dm_find R I bounds dm")
    case Nil
    then show ?thesis
      using stored_new [OF Suc(2) find_empty [OF Suc(2)], of bounds dl] drivers_at_uncovered [of _ I dm]
        find_empty [OF Suc(2), of bounds] Suc(3)
      by (auto simp: stored_def upd_drivers_def split_beta)
  next
    case (Cons e es)
    from find_ready [OF Suc(2-4) Cons] obtain ds where "ready dm bounds e ds" by blast
    from step_correct [OF this, of mrg dl] obtain out where
      step: "add_step R I mrg dl dm bounds e = Some out" and ok: "step_ok R I mrg dl dm bounds out"
      by blast
    show ?thesis
    proof (cases out)
      case (Finished dm')
      then show ?thesis
        using step ok by (simp add: Cons)
    next
      case (Refind dm' bounds')
      then have ok': "dm_wf I dm'" "dm_unshared I dm'" "rg_left bounds' \<le> rg_right bounds'"
        "\<not> sticks_out R I dm' bounds'"
        "set (dm_find R I bounds' dm') \<subset> set (dm_find R I bounds dm)"
        "\<And>b. upd_drivers R mrg dl bounds' (drivers_at I dm') b = upd_drivers R mrg dl bounds (drivers_at I dm) b"
        using ok by simp_all
      then have "length (dm_find R I bounds' dm') \<le> fuel"
        using find_shrinks [OF Suc(2) ok'(1,5)] Suc(5) by simp
      from Suc.IH [OF ok'(1-3) this] show ?thesis
        using ok'(4,6) step by (auto simp: Cons Refind)
    qed (use ok in simp)
  qed
qed

lemma add_interval_ok:
  assumes "dm_wf I dm" "dm_unshared I dm"
  shows "\<exists>dm'. add_interval R I mrg dl dm bounds = Some dm' \<and> dm_wf I dm' \<and>
     (\<not> sticks_out R I dm bounds \<longrightarrow> dm_unshared I dm') \<and>
     (\<forall>b. drivers_at I dm' b = upd_drivers R mrg dl bounds (drivers_at I dm) b)"
proof -
  let ?b = "mk_range (lower_of R bounds) (upper_of R bounds)"
  have "lower_of R ?b = lower_of R bounds" "upper_of R ?b = upper_of R bounds"
    by simp_all
  then have "bits_of R ?b = bits_of R bounds" "sticks_out R I dm ?b = sticks_out R I dm bounds"
    by (simp_all only: bits_of_def sticks_out_def)
  then show ?thesis
    using loop_correct [OF assms, of ?b _ mrg dl] by (simp add: add_interval_def Let_def upd_drivers_def)
qed

end

end
