(* ===== verification/Tracker.thy ===== *)
theory Tracker
  imports AddDrivers
begin

text \<open>
  The public operations of \<open>ValueTracker\<close>: their invariant, what \<open>addDrivers\<close> and \<open>getDrivers\<close> do on
  every bit of every symbol, and the runs in which two intervals share one driver list.
\<close>

section \<open>The invariant\<close>

definition tracker_ok :: "'m ops \<Rightarrow> 's value_tracker \<times> ('m, 'x) driver_map list \<Rightarrow> bool" where
  "tracker_ok I st \<longleftrightarrow>
     (\<forall>s i. valueToSlot (fst st) s = Some i \<longleftrightarrow> slotToValue (fst st) i = Some s) \<and>
     (\<forall>s i. valueToSlot (fst st) s = Some i \<longrightarrow> i < nextSlot (fst st)) \<and>
     length (snd st) \<le> nextSlot (fst st) \<and>
     (\<forall>dm \<in> set (snd st). dm_wf I dm \<and> dm_unshared I dm)"

text \<open>The drivers of one bit of a symbol.\<close>

definition bit_drivers ::
  "'m ops \<Rightarrow> 's value_tracker \<times> ('m, 'x) driver_map list \<Rightarrow> 's \<Rightarrow> int \<Rightarrow> nat option set" where
  "bit_drivers I st symb b =
     (case getSlot (fst st) symb of
        None \<Rightarrow> {}
      | Some i \<Rightarrow> if i < length (snd st) then drivers_at I (snd st ! i) b else {})"

text \<open>The call cuts no recorded interval of the symbol on both sides.\<close>

definition cuts_once ::
  "range_lib \<Rightarrow> 'm ops \<Rightarrow> 's value_tracker \<times> ('m, 'x) driver_map list \<Rightarrow> 's \<Rightarrow> bit_range \<Rightarrow> bool" where
  "cuts_once R I st symb bounds \<longleftrightarrow>
     (\<forall>i < length (snd st). getSlot (fst st) symb = Some i \<longrightarrow> \<not> sticks_out R I (snd st ! i) bounds)"

definition slots_ok :: "'s value_tracker \<Rightarrow> bool" where
  "slots_ok t \<longleftrightarrow> (\<forall>s i. valueToSlot t s = Some i \<longleftrightarrow> slotToValue t i = Some s) \<and>
     (\<forall>s i. valueToSlot t s = Some i \<longrightarrow> i < nextSlot t)"

lemma tracker_ok_slots:
  "tracker_ok I st \<longleftrightarrow> slots_ok (fst st) \<and> length (snd st) \<le> nextSlot (fst st) \<and> (\<forall>dm \<in> set (snd st). dm_wf I dm \<and> dm_unshared I dm)"
  by (auto simp: tracker_ok_def slots_ok_def)

lemma slots_ok_new: "slots_ok vt_new"
  by (simp add: slots_ok_def vt_new_def)

lemma slotFor_old: "valueToSlot t symb = Some i \<Longrightarrow> slotFor symb t = (i, t)"
  by (simp add: slotFor_def)

lemma slotFor_new: "valueToSlot t symb = None \<Longrightarrow> slotFor symb t =
    (nextSlot t, t\<lparr>nextSlot := nextSlot t + 1, valueToSlot := (valueToSlot t)(symb \<mapsto> nextSlot t),
                   slotToValue := (slotToValue t)(nextSlot t \<mapsto> symb)\<rparr>)"
  by (simp add: slotFor_def Let_def)

lemma slots_ok_fresh: "slots_ok t \<Longrightarrow> valueToSlot t s \<noteq> Some (nextSlot t)"
  by (auto simp: slots_ok_def)

lemma slotFor_facts:
  assumes "slots_ok t"
  shows "slots_ok (snd (slotFor symb t))"
    and "getSlot (snd (slotFor symb t)) s = (if s = symb then Some (fst (slotFor symb t)) else getSlot t s)"
    and "getSlot t s = Some i \<Longrightarrow> s \<noteq> symb \<Longrightarrow> i \<noteq> fst (slotFor symb t)"
    and "getSlot t symb = None \<Longrightarrow> fst (slotFor symb t) = nextSlot t"
    and "nextSlot t \<le> nextSlot (snd (slotFor symb t))"
    and "fst (slotFor symb t) < nextSlot (snd (slotFor symb t))"
proof -
  have fresh: "valueToSlot t s \<noteq> Some (nextSlot t)" for s
    by (rule slots_ok_fresh [OF assms])
  show "getSlot t symb = None \<Longrightarrow> fst (slotFor symb t) = nextSlot t"
    by (simp add: slotFor_new getSlot_def)
  show "getSlot (snd (slotFor symb t)) s = (if s = symb then Some (fst (slotFor symb t)) else getSlot t s)"
    by (cases "valueToSlot t symb") (simp_all add: slotFor_new slotFor_old getSlot_def)
  show "getSlot t s = Some i \<Longrightarrow> s \<noteq> symb \<Longrightarrow> i \<noteq> fst (slotFor symb t)"
    using fresh [of s] assms
    by (cases "valueToSlot t symb") (auto simp: slotFor_new slotFor_old getSlot_def slots_ok_def)
  show "nextSlot t \<le> nextSlot (snd (slotFor symb t))" "fst (slotFor symb t) < nextSlot (snd (slotFor symb t))"
    using assms
    by (cases "valueToSlot t symb"; simp add: slotFor_new slotFor_old slots_ok_def)+
  show "slots_ok (snd (slotFor symb t))"
  proof (cases "valueToSlot t symb")
    case None
    have bwd: "slotToValue t (nextSlot t) = None"
      by (cases "slotToValue t (nextSlot t)") (use assms in \<open>auto simp: slots_ok_def\<close>)
    have none: "slotToValue t i \<noteq> Some symb" for i
      using assms None unfolding slots_ok_def by (metis option.distinct(1))
    then show ?thesis
      using assms fresh none unfolding slots_ok_def slotFor_new [OF None] by (auto simp: bwd less_Suc_eq)
  qed (simp add: slotFor_old assms)
qed

lemma resizeSlots_slots [simp]:
  "slots_ok (resizeSlots i t) = slots_ok t" "getSlot (resizeSlots i t) s = getSlot t s"
  "nextSlot (resizeSlots i t) = nextSlot t"
  by (simp_all add: resizeSlots_def slots_ok_def getSlot_def)

lemma resizeDrivers_length: "i < length (resizeDrivers I i ds)" "length ds \<le> length (resizeDrivers I i ds)"
  by (simp_all add: resizeDrivers_def)

lemma resizeDrivers_nth:
  "k < length (resizeDrivers I i ds) \<Longrightarrow>
   resizeDrivers I i ds ! k = (if k < length ds then ds ! k else dm_empty I)"
  by (auto simp: resizeDrivers_def nth_append)

lemma resizeDrivers_set: "set (resizeDrivers I i ds) \<subseteq> insert (dm_empty I) (set ds)"
  by (auto simp: resizeDrivers_def)

context driver_store
begin

lemma empty_ok: "dm_wf I (dm_empty I)" "dm_unshared I (dm_empty I)" "drivers_at I (dm_empty I) b = {}"
  "dm_entries I (dm_empty I) = []"
proof -
  show e: "dm_entries I (dm_empty I) = []"
    by (simp add: dm_entries_def dm_empty_def entries_empty)
  show "dm_wf I (dm_empty I)"
    unfolding dm_wf_def e by (simp add: lists_inv_def dm_empty_def em_inv_new disjoint_entries_def proper_def)
  show "dm_unshared I (dm_empty I)" "drivers_at I (dm_empty I) b = {}"
    by (simp_all add: dm_unshared_def unshared_entries_def drivers_at_def e)
qed

lemma addDrivers_ok:
  assumes ok: "tracker_ok I st"
  shows "\<exists>st'. addDrivers R I symb bounds dl mrg st = Some st' \<and>
     (cuts_once R I st symb bounds \<longrightarrow> tracker_ok I st') \<and>
     (\<forall>s b. bit_drivers I st' s b =
        (if s = symb then upd_drivers R mrg dl bounds (bit_drivers I st symb) b else bit_drivers I st s b))"
proof -
  define i where "i = fst (slotFor symb (fst st))"
  define t where "t = resizeSlots i (snd (slotFor symb (fst st)))"
  define ds where "ds = resizeDrivers I i (snd st)"
  have slots: "slots_ok (fst st)"
    using ok by (simp add: tracker_ok_slots)
  note sf = slotFor_facts [OF slots, where symb = symb]
  have len: "i < length ds"
    by (simp add: ds_def resizeDrivers_length)
  have all: "dm_wf I dm \<and> dm_unshared I dm" if "dm \<in> set ds" for dm
    using that ok resizeDrivers_set [of I i "snd st"] empty_ok(1,2)
    by (auto simp: ds_def tracker_ok_slots)
  then have i: "dm_wf I (ds ! i)" "dm_unshared I (ds ! i)"
    using len nth_mem by blast+
  from add_interval_ok [OF i, of mrg dl bounds] obtain dm' where
    add: "add_interval R I mrg dl (ds ! i) bounds = Some dm'" and wf: "dm_wf I dm'"
    and un: "\<not> sticks_out R I (ds ! i) bounds \<longrightarrow> dm_unshared I dm'"
    and at: "\<And>b. drivers_at I dm' b = upd_drivers R mrg dl bounds (drivers_at I (ds ! i)) b" by blast
  have run: "addDrivers R I symb bounds dl mrg st = Some (t, ds[i := dm'])"
    using add by (simp add: addDrivers_def split_beta Let_def i_def t_def ds_def)
  have t: "slots_ok t" "getSlot t s = (if s = symb then Some i else getSlot (fst st) s)" for s
    using sf by (simp_all add: t_def i_def)
  have slot: "getSlot (fst st) symb = Some k \<Longrightarrow> i = k" for k
    by (simp add: i_def slotFor_def getSlot_def)
  have new_slot: "\<not> i < length (snd st) \<Longrightarrow> ds ! i = dm_empty I" and old_slot: "i < length (snd st) \<Longrightarrow> ds ! i = snd st ! i"
    using len by (simp_all add: ds_def resizeDrivers_nth)
  have other: "getSlot (fst st) s = Some k \<Longrightarrow> s \<noteq> symb \<Longrightarrow> k \<noteq> i" for s k
    using sf(3) by (simp add: i_def)
  have before: "drivers_at I (ds ! i) b = bit_drivers I st symb b" for b
  proof (cases "getSlot (fst st) symb")
    case None
    then have "\<not> i < length (snd st)"
      using sf(4) ok by (simp add: i_def tracker_ok_slots)
    then show ?thesis
      by (simp add: bit_drivers_def None new_slot empty_ok(3))
  next
    case (Some k)
    then have "k = i"
      using slot by simp
    then show ?thesis
      using new_slot old_slot by (simp add: bit_drivers_def Some empty_ok(3))
  qed
  have lenk: "k < length ds \<Longrightarrow> k \<noteq> i \<Longrightarrow> drivers_at I (ds ! k) b = (if k < length (snd st) then drivers_at I (snd st ! k) b else {})" for k b
    by (simp add: ds_def resizeDrivers_nth empty_ok(3))
  have "bit_drivers I (t, ds[i := dm']) s b =
      (if s = symb then upd_drivers R mrg dl bounds (bit_drivers I st symb) b else bit_drivers I st s b)" for s b
  proof (cases "s = symb")
    case True
    then show ?thesis
      using len by (simp add: bit_drivers_def t at before [abs_def] upd_drivers_def)
  next
    case False
    then show ?thesis
      using other [of s] lenk resizeDrivers_length(2) [of "snd st" I i]
      by (auto simp: bit_drivers_def t ds_def split: option.splits)
  qed
  moreover have "tracker_ok I (t, ds[i := dm'])" if c: "cuts_once R I st symb bounds"
  proof -
    have "\<not> sticks_out R I (ds ! i) bounds"
    proof (cases "i < length (snd st)")
      case True
      then have "getSlot (fst st) symb = Some i"
        using sf(4) ok slot
        by (cases "getSlot (fst st) symb") (simp_all add: tracker_ok_slots i_def [symmetric])
      then show ?thesis
        using c True old_slot by (simp add: cuts_once_def)
    qed (simp add: new_slot sticks_out_def empty_ok(4))
    then have "\<forall>dm \<in> set (ds[i := dm']). dm_wf I dm \<and> dm_unshared I dm"
      using all wf un set_update_subset_insert [of ds i dm'] by blast
    moreover have "length ds \<le> nextSlot t"
      using sf(5,6) ok by (auto simp: ds_def t_def i_def resizeDrivers_def tracker_ok_slots)
    ultimately show ?thesis
      using t(1) by (simp add: tracker_ok_slots)
  qed
  ultimately show ?thesis
    using run by blast
qed

section \<open>Looking drivers up\<close>

lemma getDrivers_fold:
  assumes "\<And>e. e \<in> set es \<Longrightarrow> \<exists>ds. getDriverList (snd e) dm = Some ds"
  shows "\<exists>res. fold (\<lambda>e acc. and_then acc (\<lambda>result.
           if P e then map_option (\<lambda>ds. dl_insert_all ds result) (getDriverList (snd e) dm)
           else Some result)) es (Some acc) = Some res \<and>
         dl_nodes res = dl_nodes acc \<union>
           (\<Union>e \<in> {e \<in> set es. P e}. \<Union> (dl_nodes ` set_option (getDriverList (snd e) dm)))"
  using assms
proof (induction es arbitrary: acc)
  case (Cons e es)
  obtain ds where ds: "getDriverList (snd e) dm = Some ds"
    using Cons.prems by (metis list.set_intros(1))
  let ?acc = "if P e then dl_insert_all ds acc else acc"
  have set: "{e' \<in> set (e # es). P e'} = {e' \<in> set es. P e'} \<union> (if P e then {e} else {})"
    by auto
  from Cons.IH [of ?acc] Cons.prems obtain res where
    "fold (\<lambda>e acc. and_then acc (\<lambda>result.
           if P e then map_option (\<lambda>ds. dl_insert_all ds result) (getDriverList (snd e) dm)
           else Some result)) es (Some ?acc) = Some res"
    and "dl_nodes res = dl_nodes ?acc \<union>
           (\<Union>e \<in> {e \<in> set es. P e}. \<Union> (dl_nodes ` set_option (getDriverList (snd e) dm)))"
    by (metis (no_types, lifting) list.set_intros(2))
  then show ?case
    unfolding set using ds by (cases "P e") auto
qed simp

lemma getDrivers_ok:
  assumes ok: "tracker_ok I st"
    and whole: "\<And>i e. getSlot (fst st) symb = Some i \<Longrightarrow> i < length (snd st) \<Longrightarrow>
        e \<in> set (dm_entries I (snd st ! i)) \<Longrightarrow> overlaps_of R (ivl_range (fst e)) bounds \<Longrightarrow>
        contains_of R (ivl_range (fst e)) bounds \<or> contains_of R bounds (ivl_range (fst e))"
    and len: "\<And>i. getSlot (fst st) symb = Some i \<Longrightarrow> i < length (snd st)"
  shows "\<exists>res. getDrivers R I (fst st) (snd st) symb bounds = Some res \<and>
     dl_nodes res = (\<Union>b \<in> bits_of R bounds. bit_drivers I st symb b)"
proof (cases "valueToSlot (fst st) symb")
  case None
  then show ?thesis
    by (simp add: getDrivers_def bit_drivers_def getSlot_def)
next
  case (Some i)
  let ?dm = "snd st ! i"
  have i: "i < length (snd st)" and slot: "getSlot (fst st) symb = Some i"
    using len Some by (simp_all add: getSlot_def)
  then have wf: "dm_wf I ?dm"
    using ok by (simp add: tracker_ok_slots)
  define es where "es = dm_find R I bounds ?dm"
  let ?P = "\<lambda>e. contains_of R (ivl_range (fst e)) bounds \<or> contains_of R bounds (ivl_range (fst e))"
  have es: "e \<in> set es \<longleftrightarrow> e \<in> set (dm_entries I ?dm) \<and> (\<exists>b \<in> bits_of R bounds. ivl_covers e b)" for e
  proof -
    have "e \<in> set (dm_entries I ?dm) \<Longrightarrow>
        ivl_overlaps (toPair R bounds) e \<longleftrightarrow> (\<exists>b \<in> bits_of R bounds. ivl_covers e b)"
      using wf_entryD(1) [OF wf, of e] lower_le_upper [of bounds]
      by (auto simp: ivl_overlaps_def toPair_def bits_of_def ivl_covers_def Bex_def
          intro!: exI [of _ "max (lower_of R bounds) (fst (fst e))"])
    then show ?thesis
      by (auto simp: es_def set_dm_find)
  qed
  have live: "\<exists>ds. getDriverList (snd e) ?dm = Some ds" if "e \<in> set es" for e
    using that es wf_entryD(2) [OF wf] by blast
  have P: "?P e" if "e \<in> set es" for e
  proof (rule whole [OF slot i])
    show "e \<in> set (dm_entries I ?dm)"
      using that es by blast
    with that show "overlaps_of R (ivl_range (fst e)) bounds"
      using wf_entryD(1) [OF wf, of e] by (auto simp: es overlaps_law bits_of_def ivl_covers_def)
  qed
  from getDrivers_fold [OF live, of es ?P "[]"] obtain res where
    res: "getDrivers R I (fst st) (snd st) symb bounds = Some res"
    and "dl_nodes res = (\<Union>e \<in> {e \<in> set es. ?P e}. \<Union> (dl_nodes ` set_option (getDriverList (snd e) ?dm)))"
    using Some i by (auto simp: getDrivers_def es_def)
  then have "dl_nodes res = (\<Union>e \<in> set es. \<Union> (dl_nodes ` set_option (getDriverList (snd e) ?dm)))"
    using P by (metis (mono_tags, lifting) Collect_cong Collect_mem_eq)
  also have "\<dots> = (\<Union>b \<in> bits_of R bounds. bit_drivers I st symb b)"
  proof (intro set_eqI)
    fix x
    have bd: "x \<in> bit_drivers I st symb b \<longleftrightarrow> (\<exists>e \<in> set (dm_entries I ?dm). ivl_covers e b \<and>
        (\<exists>ds. getDriverList (snd e) ?dm = Some ds \<and> x \<in> dl_nodes ds))" for b
      by (simp add: bit_drivers_def slot i in_drivers_at)
    have opt: "x \<in> \<Union> (dl_nodes ` set_option o') \<longleftrightarrow> (\<exists>ds. o' = Some ds \<and> x \<in> dl_nodes ds)" for o' :: "'b driver_list option"
      by (cases o') auto
    show "x \<in> (\<Union>e \<in> set es. \<Union> (dl_nodes ` set_option (getDriverList (snd e) ?dm)))
        \<longleftrightarrow> x \<in> (\<Union>b \<in> bits_of R bounds. bit_drivers I st symb b)"
      unfolding UN_iff bd opt using es by blast
  qed
  finally show ?thesis
    using res by blast
qed

end

section \<open>Shared lists\<close>

context driver_store
begin

lemma find_single:
  assumes wf: "dm_wf I dm" and e: "e \<in> set (dm_entries I dm)"
    and inside: "fst (fst e) \<le> lower_of R bounds" "upper_of R bounds \<le> snd (fst e)"
  shows "dm_find R I bounds dm = [e]"
proof -
  have here: "ivl_overlaps (toPair R bounds) e"
    using inside lower_le_upper [of bounds] by (simp add: ivl_overlaps_def toPair_def del: lower_le_upper)
  have "e' = e" if "e' \<in> set (dm_entries I dm)" "ivl_overlaps (toPair R bounds) e'" for e'
  proof -
    have "ivl_overlaps (fst e) e'"
      using that(2) inside by (simp add: ivl_overlaps_def toPair_def)
    then show ?thesis using wf_disjointD [OF wf e that(1)] by blast
  qed
  then have "set (dm_find R I bounds dm) = {e}"
    using e here unfolding set_dm_find by blast
  moreover have "xs = [e]" if "distinct xs" "set xs = {e}" for xs
    using that by (cases xs) (auto simp: subset_singleton_iff)
  ultimately show ?thesis
    using find_distinct [OF wf] by blast
qed

lemma split_parts:
  assumes "step_split R I mrg dl dm bounds e = Some (Finished dm')" "fst (fst e) < lower_of R bounds" "upper_of R bounds < snd (fst e)"
  shows "((fst (fst e), lower_of R bounds - 1), snd e) \<in> set (dm_entries I dm')"
    "((upper_of R bounds + 1, snd (fst e)), snd e) \<in> set (dm_entries I dm')"
  using assms
  by (auto simp: step_split_def Let_def split_beta bind_eq_Some_conv putDriverList_entries toPair_mk split: if_splits)

lemma add_interval_split:
  assumes wf: "dm_wf I dm" "dm_unshared I dm" and e: "(k, h) \<in> set (dm_entries I dm)"
    and out: "fst k < lower_of R bounds" "upper_of R bounds < snd k"
  shows "\<exists>dm'. add_interval R I mrg dl dm bounds = Some dm' \<and>
     ((fst k, lower_of R bounds - 1), h) \<in> set (dm_entries I dm') \<and> ((upper_of R bounds + 1, snd k), h) \<in> set (dm_entries I dm')"
proof -
  let ?b = "mk_range (lower_of R bounds) (upper_of R bounds)"
  have b: "lower_of R ?b = lower_of R bounds" "upper_of R ?b = upper_of R bounds" "rg_left ?b \<le> rg_right ?b"
    using lower_le_upper [of bounds] by (simp_all add: lower_law upper_law)
  have find: "dm_find R I ?b dm = [(k, h)]"
    by (rule find_single [OF wf(1) e]) (use out b in simp_all)
  from find_ready [OF wf b(3) find] obtain ds where r: "ready dm ?b (k, h) ds" ..
  have c: "contains_of R (ivl_range k) ?b" "ivl_range k \<noteq> ?b"
    using out lower_le_upper [of bounds] by (auto simp: contains_law lower_law [of "ivl_range k"] upper_law [of "ivl_range k"])
  from split_ok [OF r, of mrg dl] c obtain out where s: "step_split R I mrg dl dm ?b (k, h) = Some out"
    by auto
  moreover obtain dm' where "out = Finished dm'"
    using s by (auto simp: step_split_def Let_def split_beta bind_eq_Some_conv split: if_splits)
  ultimately show ?thesis
    using split_parts [of mrg dl dm ?b "(k, h)" dm'] out b c find
    by (simp add: add_interval_def Let_def add_step_def)
qed

lemma add_interval_match:
  assumes wf: "dm_wf I dm" and e: "(p, h) \<in> set (dm_entries I dm)" "(q, h) \<in> set (dm_entries I dm)"
  shows "\<exists>dm'. add_interval R I mrg dl dm (ivl_range p) = Some dm' \<and>
     (\<forall>b. fst q \<le> b \<and> b \<le> snd q \<longrightarrow> drivers_at I dm' b = dl_nodes dl \<union> (if mrg then drivers_at I dm b else {}))"
proof -
  note p = wf_entryD [OF wf e(1), simplified]
  then obtain ds where ds: "getDriverList h dm = Some ds" by blast
  have b: "lower_of R (ivl_range p) = fst p" "upper_of R (ivl_range p) = snd p"
    using p(1) by (simp_all add: lower_law upper_law)
  have find: "dm_find R I (ivl_range p) dm = [(p, h)]"
    by (rule find_single [OF wf e(1)]) (simp_all add: b)
  obtain dm' where put: "putDriverList h (if mrg then dl_insert_all dl ds else dl_insert_all dl []) dm = Some dm'"
    using putDriverList_total [OF ds] by blast
  have run: "add_interval R I mrg dl dm (ivl_range p) = Some dm'"
    using put by (simp add: add_interval_def Let_def b find add_step_def step_match_def ds split: if_splits)
  have "drivers_at I dm' x = dl_nodes dl \<union> (if mrg then drivers_at I dm x else {})" if "fst q \<le> x" "x \<le> snd q" for x
  proof -
    have "drivers_at I dm x = dl_nodes ds"
      by (rule drivers_at_entry [OF wf e(2)]) (use that ds in \<open>simp_all add: ivl_covers_def\<close>)
    moreover have "drivers_at I dm' x = dl_nodes (if mrg then dl_insert_all dl ds else dl_insert_all dl [])"
      by (rule drivers_at_entry [OF wf_put [OF wf put], of "(q, h)"])
        (use that e(2) in \<open>simp_all add: ivl_covers_def putDriverList_entries [OF put] putDriverList_get [OF put]\<close>)
    ultimately show ?thesis by auto
  qed
  with run show ?thesis by blast
qed

lemma addDrivers_at:
  assumes "getSlot (fst st) symb = Some i" "i < length (snd st)"
  shows "addDrivers R I symb bounds dl mrg st =
     map_option (\<lambda>dm. (resizeSlots i (fst st), (snd st)[i := dm])) (add_interval R I mrg dl (snd st ! i) bounds)"
  using assms by (simp add: addDrivers_def slotFor_old getSlot_def resizeDrivers_def Let_def)

end

section \<open>Properties\<close>

lemmas store_intro = driver_store.intro

text \<open>
  C1. \<open>addDrivers\<close> always returns (its overlap loop ends within the fuel and no assertion fails), for
  any state that satisfies the tracker's invariant. Afterwards every bit of the symbol inside the
  range has the new drivers (with the old ones too when merging), every other bit of every symbol
  has the drivers it had; and the invariant holds again when no recorded interval of the symbol sticks
  out of the range on both sides.
\<close>

theorem addDrivers_correct:
  assumes "constant_range R" and "interval_map I" and "tracker_ok I st"
  shows "\<exists>st'. addDrivers R I symb bounds dl mrg st = Some st' \<and>
     (cuts_once R I st symb bounds \<longrightarrow> tracker_ok I st') \<and>
     (\<forall>s b. bit_drivers I st' s b =
        (if s = symb \<and> b \<in> bits_of R bounds
         then dl_nodes dl \<union> (if mrg then bit_drivers I st symb b else {})
         else bit_drivers I st s b))"
  using driver_store.addDrivers_ok [OF store_intro [OF assms(1,2)] assms(3), of symb bounds dl mrg]
  by (auto simp: upd_drivers_def)

definition driver_of_node :: "nat \<Rightarrow> unit driver_list" where
  "driver_of_node n = [\<lparr>di_node = Some n, di_lsp = None\<rparr>]"

definition no_drivers :: "nat value_tracker \<times> (nat entry list, unit) driver_map list" where
  "no_drivers = (vt_new, [])"

lemma tracker_ok_start: "tracker_ok I no_drivers"
  by (simp add: no_drivers_def tracker_ok_slots slots_ok_new)

lemma bits_of_std: "a \<le> b \<Longrightarrow> bits_of std_range (mk_range b a) = {a..b}"
  by (simp add: bits_of_def std_range_def)

theorem addDrivers_correct_witness:
  "\<exists>st'. addDrivers std_range list_imap (0::nat) (mk_range 7 0) (driver_of_node 4) False no_drivers = Some st' \<and>
     bit_drivers list_imap st' 0 3 = {Some 4} \<and> bit_drivers list_imap st' 0 8 = {}"
proof -
  have none: "bit_drivers list_imap no_drivers s b = {}" for s :: nat and b
    by (simp add: no_drivers_def bit_drivers_def vt_new_def getSlot_def)
  obtain st' where
    run: "addDrivers std_range list_imap (0::nat) (mk_range 7 0) (driver_of_node 4) False no_drivers = Some st'"
    and at: "\<forall>s b. bit_drivers list_imap st' s b =
        (if s = 0 \<and> b \<in> bits_of std_range (mk_range 7 0)
         then dl_nodes (driver_of_node 4) \<union> (if False then bit_drivers list_imap no_drivers 0 b else {})
         else bit_drivers list_imap no_drivers s b)"
    using addDrivers_correct [OF std.constant_range_axioms list_map.interval_map_axioms tracker_ok_start,
        of 0 "mk_range 7 0" "driver_of_node 4" False] by blast
  have "bit_drivers list_imap st' 0 b = (if b \<in> {0..7} then {Some 4} else {})" for b
    using at by (simp add: bits_of_std none driver_of_node_def)
  then show ?thesis
    using run by (intro exI [of _ st']) simp
qed

text \<open>
  \<open>getDrivers\<close> returns exactly the drivers of the bits in the range, when every recorded interval
  that overlaps the range contains it or lies inside it (the code leaves partial overlaps out).
\<close>

theorem getDrivers_correct:
  assumes "constant_range R" and "interval_map I" and "tracker_ok I st"
    and "\<forall>i. getSlot (fst st) symb = Some i \<longrightarrow> i < length (snd st) \<and>
           (\<forall>e \<in> set (dm_entries I (snd st ! i)). overlaps_of R (ivl_range (fst e)) bounds \<longrightarrow>
              contains_of R (ivl_range (fst e)) bounds \<or> contains_of R bounds (ivl_range (fst e)))"
  shows "\<exists>res. getDrivers R I (fst st) (snd st) symb bounds = Some res \<and>
     dl_nodes res = (\<Union>b \<in> bits_of R bounds. bit_drivers I st symb b)"
  by (rule driver_store.getDrivers_ok [OF store_intro [OF assms(1,2)] assms(3)])
    (use assms(4) in blast)+

definition tracked_run ::
  "(bit_range \<times> nat) list \<Rightarrow> (nat value_tracker \<times> (nat entry list, unit) driver_map list) option" where
  "tracked_run calls =
     fold (\<lambda>(r, n) st. and_then st (addDrivers std_range list_imap 0 r (driver_of_node n) False))
       calls (Some no_drivers)"

definition one_driver :: "nat value_tracker \<times> (nat entry list, unit) driver_map list" where
  "one_driver = the (tracked_run [(mk_range 7 0, 1)])"

lemma one_driver_ok: "tracker_ok list_imap one_driver"
proof -
  have "cuts_once std_range list_imap no_drivers 0 (mk_range 7 0)"
    by (simp add: cuts_once_def no_drivers_def)
  then obtain st' where "addDrivers std_range list_imap 0 (mk_range 7 0) (driver_of_node 1) False no_drivers = Some st'"
    and "tracker_ok list_imap st'"
    using driver_store.addDrivers_ok [OF std_store.driver_store_axioms tracker_ok_start,
        of 0 "mk_range 7 0" "driver_of_node 1" False] by blast
  then show ?thesis
    by (simp add: one_driver_def tracked_run_def)
qed

lemma one_driver_runs:
  "getSlot (fst one_driver) 0 = Some 0 \<and> length (snd one_driver) = 1 \<and>
   dm_entries list_imap (snd one_driver ! 0) = [((0, 7), 0)]"
  by code_simp

theorem getDrivers_correct_witness:
  "\<exists>res. getDrivers std_range list_imap (fst one_driver) (snd one_driver) 0 (mk_range 5 2) = Some res \<and>
     dl_nodes res = (\<Union>b \<in> bits_of std_range (mk_range 5 2). bit_drivers list_imap one_driver 0 b)"
  by (rule getDrivers_correct [OF std.constant_range_axioms list_map.interval_map_axioms one_driver_ok])
    (simp add: one_driver_runs std_range_def)


text \<open>
  After \<open>[7:0]\<close> (driver 1), \<open>[3:3]\<close> (driver 2) and \<open>[2:0]\<close> (driver 3), the bits \<open>[7:4]\<close>, which the last two
  calls do not touch, are reported as driven by 3 and not by 1. The same happens with a last call for \<open>[3:0]\<close>, which
  frees the shared list and reuses its handle.
\<close>

lemma split_shares_list_runs:
  "(case tracked_run [(mk_range 7 0, 1), (mk_range 3 3, 2)] of
      None \<Rightarrow> False
    | Some st \<Rightarrow> getDrivers std_range list_imap (fst st) (snd st) 0 (mk_range 7 4) = Some (driver_of_node 1)) \<and>
   (case tracked_run [(mk_range 7 0, 1), (mk_range 3 3, 2), (mk_range 2 0, 3)] of
      None \<Rightarrow> False
    | Some st \<Rightarrow> getDrivers std_range list_imap (fst st) (snd st) 0 (mk_range 7 4) = Some (driver_of_node 3)) \<and>
   (case tracked_run [(mk_range 7 0, 1), (mk_range 3 3, 2), (mk_range 3 0, 3)] of
      None \<Rightarrow> False
    | Some st \<Rightarrow> getDrivers std_range list_imap (fst st) (snd st) 0 (mk_range 7 4) = Some (driver_of_node 3))"
  by code_simp


end
