(* ===== verification/DirectedGraph.thy ===== *)
theory DirectedGraph
  imports Prelude
begin

text \<open>
  The graph container of \<^verbatim>\<open>include/netlist/DirectedGraph.hpp\<close>, for nodes with data \<open>'n\<close> and edges with
  data \<open>'e\<close>. A node or edge object is a natural number, its address; the heap maps give the object
  behind it. Every node has a vector of owned out-edges, a vector of in-edge pointers and, when it has
  had more than 16 out-edges, an index from a target to the first edge to it.
  A failed \<open>assert\<close> is \<open>None\<close>; comparing nodes is comparing addresses.
\<close>

section \<open>State\<close>

record 'e dedge =
  sourceNode :: nat
  targetNode :: nat
  elabel :: 'e

record ('n, 'e) digraph =
  nodes :: "nat list"
  nodeAt :: "nat \<rightharpoonup> 'n"
  edgeAt :: "nat \<rightharpoonup> 'e dedge"
  outEdges :: "nat \<Rightarrow> nat list"
  inEdges :: "nat \<Rightarrow> nat list"
  outEdgeIndex :: "nat \<Rightarrow> (nat \<rightharpoonup> nat) option"
  nextNode :: nat
  nextEdge :: nat

definition empty_digraph :: "('n, 'e) digraph" where
  "empty_digraph =
     \<lparr>nodes = [], nodeAt = Map.empty, edgeAt = Map.empty, outEdges = (\<lambda>_. []), inEdges = (\<lambda>_. []),
      outEdgeIndex = (\<lambda>_. None), nextNode = 0, nextEdge = 0\<rparr>"

definition esrc :: "('n, 'e) digraph \<Rightarrow> nat \<Rightarrow> nat" where
  "esrc g e = sourceNode (the (edgeAt g e))"

definition etgt :: "('n, 'e) digraph \<Rightarrow> nat \<Rightarrow> nat" where
  "etgt g e = targetNode (the (edgeAt g e))"

definition outEdgeIndexThreshold :: nat where
  "outEdgeIndexThreshold = 16"

section \<open>Operations of a node\<close>

definition findEdgeFrom :: "('n, 'e) digraph \<Rightarrow> nat \<Rightarrow> nat \<Rightarrow> nat option" where
  "findEdgeFrom g n s = List.find (\<lambda>e. esrc g e = s) (inEdges g n)"

definition findEdgeTo :: "('n, 'e) digraph \<Rightarrow> nat \<Rightarrow> nat \<Rightarrow> nat option" where
  "findEdgeTo g n t = List.find (\<lambda>e. etgt g e = t) (outEdges g n)"

definition lookupOutEdge :: "('n, 'e) digraph \<Rightarrow> nat \<Rightarrow> nat \<Rightarrow> nat option" where
  "lookupOutEdge g n t =
     (case outEdgeIndex g n of
        Some idx \<Rightarrow> idx t
      | None \<Rightarrow> List.find (\<lambda>e. etgt g e = t) (outEdges g n))"

text \<open>\<open>try_emplace\<close> (and \<open>emplace\<close>) leave an existing entry alone.\<close>

definition try_emplace :: "nat \<Rightarrow> nat \<Rightarrow> (nat \<rightharpoonup> nat) \<Rightarrow> (nat \<rightharpoonup> nat)" where
  "try_emplace k v m = (if m k = None then m(k \<mapsto> v) else m)"

definition buildOutEdgeIndex :: "nat \<Rightarrow> ('n, 'e) digraph \<Rightarrow> ('n, 'e) digraph" where
  "buildOutEdgeIndex n g =
     g\<lparr>outEdgeIndex := (outEdgeIndex g)
         (n := Some (fold (\<lambda>e m. try_emplace (etgt g e) e m) (outEdges g n) Map.empty))\<rparr>"

definition insertOutEdgeIndex :: "nat \<Rightarrow> nat \<Rightarrow> nat \<Rightarrow> ('n, 'e) digraph \<Rightarrow> ('n, 'e) digraph" where
  "insertOutEdgeIndex n t e g =
     (case outEdgeIndex g n of
        Some idx \<Rightarrow> g\<lparr>outEdgeIndex := (outEdgeIndex g)(n := Some (try_emplace t e idx))\<rparr>
      | None \<Rightarrow> if length (outEdges g n) > outEdgeIndexThreshold then buildOutEdgeIndex n g else g)"

definition tryInsertOutEdgeIndex :: "nat \<Rightarrow> nat \<Rightarrow> nat \<Rightarrow> ('n, 'e) digraph \<Rightarrow> ('n, 'e) digraph" where
  "tryInsertOutEdgeIndex n t e g =
     (case outEdgeIndex g n of
        Some idx \<Rightarrow> g\<lparr>outEdgeIndex := (outEdgeIndex g)(n := Some (try_emplace t e idx))\<rparr>
      | None \<Rightarrow> if length (outEdges g n) > outEdgeIndexThreshold then buildOutEdgeIndex n g else g)"

text \<open>A new edge object at the end of the source's out-edges; the target's in-edges follow.\<close>

definition pushOut :: "'e \<Rightarrow> nat \<Rightarrow> nat \<Rightarrow> ('n, 'e) digraph \<Rightarrow> ('n, 'e) digraph" where
  "pushOut d n t g =
     g\<lparr>edgeAt := (edgeAt g)(nextEdge g \<mapsto> \<lparr>sourceNode = n, targetNode = t, elabel = d\<rparr>),
       outEdges := (outEdges g)(n := outEdges g n @ [nextEdge g]),
       nextEdge := nextEdge g + 1\<rparr>"

definition pushIn :: "nat \<Rightarrow> nat \<Rightarrow> ('n, 'e) digraph \<Rightarrow> ('n, 'e) digraph" where
  "pushIn t e g = g\<lparr>inEdges := (inEdges g)(t := inEdges g t @ [e])\<rparr>"

text \<open>
  \<open>Node::addEdge\<close> and \<open>Node::addNewEdge\<close>; \<open>d\<close> is the data of a default-constructed edge. The branch
  for a self edge only avoids locking one mutex twice: both branches push to the target's in-edges.
\<close>

definition node_addEdge :: "'e \<Rightarrow> nat \<Rightarrow> nat \<Rightarrow> ('n, 'e) digraph \<Rightarrow> nat \<times> ('n, 'e) digraph" where
  "node_addEdge d n t g =
     (case lookupOutEdge g n t of
        Some e \<Rightarrow> (e, g)
      | None \<Rightarrow>
          (let e = nextEdge g
           in (e, pushIn t e (insertOutEdgeIndex n t e (pushOut d n t g)))))"

definition node_addNewEdge :: "'e \<Rightarrow> nat \<Rightarrow> nat \<Rightarrow> ('n, 'e) digraph \<Rightarrow> nat \<times> ('n, 'e) digraph" where
  "node_addNewEdge d n t g =
     (let e = nextEdge g
      in (e, pushIn t e (tryInsertOutEdgeIndex n t e (pushOut d n t g))))"

text \<open>Erasing the element an iterator from \<open>find_if\<close> points to.\<close>

primrec drop_first :: "('a \<Rightarrow> bool) \<Rightarrow> 'a list \<Rightarrow> 'a list" where
  "drop_first P [] = []"
| "drop_first P (x # xs) = (if P x then xs else x # drop_first P xs)"

definition removeInEdge :: "nat \<Rightarrow> nat \<Rightarrow> ('n, 'e) digraph \<Rightarrow> bool \<times> ('n, 'e) digraph" where
  "removeInEdge n s g =
     (case findEdgeFrom g n s of
        Some e \<Rightarrow> (True, g\<lparr>inEdges := (inEdges g)(n := drop_first (\<lambda>e. esrc g e = s) (inEdges g n))\<rparr>)
      | None \<Rightarrow> (False, g))"

text \<open>Erasing an owned edge from the out-edges destroys the edge object.\<close>

definition node_removeEdge :: "nat \<Rightarrow> nat \<Rightarrow> ('n, 'e) digraph \<Rightarrow> (bool \<times> ('n, 'e) digraph) option" where
  "node_removeEdge n t g =
     (case findEdgeTo g n t of
        None \<Rightarrow> Some (False, g)
      | Some e \<Rightarrow>
          (let r = removeInEdge t n g; success = fst r; g1 = snd r
           in require success
             (let es = drop_first (\<lambda>e. etgt g e = t) (outEdges g1 n);
                  g2 = g1\<lparr>outEdges := (outEdges g1)(n := es), edgeAt := (edgeAt g1)(e := None)\<rparr>;
                  g3 = (case outEdgeIndex g2 n of
                          None \<Rightarrow> g2
                        | Some idx \<Rightarrow>
                            g2\<lparr>outEdgeIndex := (outEdgeIndex g2)
                                (n := Some (idx(t := List.find (\<lambda>e. etgt g2 e = t) es)))\<rparr>)
              in Some (success, g3))))"

definition node_clearAllEdges :: "nat \<Rightarrow> ('n, 'e) digraph \<Rightarrow> ('n, 'e) digraph option" where
  "node_clearAllEdges n g =
     (let g1 = fold (\<lambda>e h. snd (removeInEdge (etgt h e) n h)) (outEdges g n) g;
          g2 = g1\<lparr>edgeAt := edgeAt g1 |` (- set (outEdges g1 n)),
                  outEdges := (outEdges g1)(n := []), outEdgeIndex := (outEdgeIndex g1)(n := None)\<rparr>;
          sourceNodes = map (esrc g2) (inEdges g2 n)
      in and_then (fold (\<lambda>s acc. and_then acc (\<lambda>h. map_option snd (node_removeEdge s n h)))
                     sourceNodes (Some g2))
           (\<lambda>g3. require (inEdges g3 n = []) (Some g3)))"

definition getEdgesTo :: "nat \<Rightarrow> nat \<Rightarrow> ('n, 'e) digraph \<Rightarrow> bool \<times> nat list" where
  "getEdgesTo n t g =
     (let result = filter (\<lambda>e. etgt g e = t) (outEdges g n) in (result \<noteq> [], result))"

definition node_inDegree :: "('n, 'e) digraph \<Rightarrow> nat \<Rightarrow> nat" where
  "node_inDegree g n = length (inEdges g n)"

definition node_outDegree :: "('n, 'e) digraph \<Rightarrow> nat \<Rightarrow> nat" where
  "node_outDegree g n = length (outEdges g n)"

section \<open>Operations of the graph\<close>

text \<open>The index of a node in the vector; \<open>null_node\<close> is \<open>None\<close>.\<close>

fun index_of :: "nat \<Rightarrow> nat list \<Rightarrow> nat option" where
  "index_of n [] = None"
| "index_of n (x # xs) = (if x = n then Some 0 else map_option Suc (index_of n xs))"

definition findNode :: "('n, 'e) digraph \<Rightarrow> nat \<Rightarrow> nat option" where
  "findNode g n = index_of n (nodes g)"

definition getNode :: "('n, 'e) digraph \<Rightarrow> nat \<Rightarrow> nat option" where
  "getNode g i = require (i < length (nodes g)) (Some (nodes g ! i))"

definition addNode :: "'n \<Rightarrow> ('n, 'e) digraph \<Rightarrow> nat \<times> ('n, 'e) digraph" where
  "addNode d g =
     (let n = nextNode g
      in (n, g\<lparr>nodes := nodes g @ [n], nodeAt := (nodeAt g)(n \<mapsto> d), nextNode := n + 1\<rparr>))"

definition removeNode :: "nat \<Rightarrow> ('n, 'e) digraph \<Rightarrow> (bool \<times> ('n, 'e) digraph) option" where
  "removeNode n g =
     (case findNode g n of
        None \<Rightarrow> Some (False, g)
      | Some i \<Rightarrow>
          and_then (node_clearAllEdges n g) (\<lambda>h.
            Some (True, h\<lparr>nodes := take i (nodes h) @ drop (i + 1) (nodes h), nodeAt := (nodeAt h)(n := None)\<rparr>)))"

definition addEdge :: "'e \<Rightarrow> nat \<Rightarrow> nat \<Rightarrow> ('n, 'e) digraph \<Rightarrow> (nat \<times> ('n, 'e) digraph) option" where
  "addEdge d n t g =
     require (findNode g n \<noteq> None) (require (findNode g t \<noteq> None) (Some (node_addEdge d n t g)))"

definition addNewEdge :: "'e \<Rightarrow> nat \<Rightarrow> nat \<Rightarrow> ('n, 'e) digraph \<Rightarrow> (nat \<times> ('n, 'e) digraph) option" where
  "addNewEdge d n t g =
     require (findNode g n \<noteq> None) (require (findNode g t \<noteq> None) (Some (node_addNewEdge d n t g)))"

definition removeEdge :: "nat \<Rightarrow> nat \<Rightarrow> ('n, 'e) digraph \<Rightarrow> (bool \<times> ('n, 'e) digraph) option" where
  "removeEdge n t g =
     require (findNode g n \<noteq> None) (require (findNode g t \<noteq> None) (node_removeEdge n t g))"

definition outDegree :: "('n, 'e) digraph \<Rightarrow> nat \<Rightarrow> nat option" where
  "outDegree g n = require (findNode g n \<noteq> None) (Some (node_outDegree g n))"

definition inDegree :: "('n, 'e) digraph \<Rightarrow> nat \<Rightarrow> nat option" where
  "inDegree g n = require (findNode g n \<noteq> None) (Some (node_inDegree g n))"

definition numNodes :: "('n, 'e) digraph \<Rightarrow> nat" where
  "numNodes g = length (nodes g)"

definition numEdges :: "('n, 'e) digraph \<Rightarrow> nat" where
  "numEdges g = fold (\<lambda>n count. count + node_outDegree g n) (nodes g) 0"

end
