(* ===== verification/GraphInv.thy ===== *)
theory GraphInv
  imports DirectedGraph
begin

text \<open>
  The invariant of the graph container and its preservation by every operation; what \<open>addEdge\<close>,
  \<open>addNewEdge\<close>, \<open>removeEdge\<close> and \<open>removeNode\<close> do to the set of edges.
\<close>

section \<open>The invariant\<close>

text \<open>
  Out- and in-edge vectors list exactly the live edges of the node, once; edges join nodes of the graph;
  the edges from \<open>s\<close> to \<open>t\<close> stand in the same order in both vectors; the index, where it exists, maps
  every target to the first edge to it, and exists above the threshold.
\<close>

definition edges_ok :: "('n, 'e) digraph \<Rightarrow> bool" where
  "edges_ok g \<longleftrightarrow>
     (\<forall>n. distinct (outEdges g n)) \<and> (\<forall>n. distinct (inEdges g n)) \<and>
     (\<forall>n e. e \<in> set (outEdges g n) \<longleftrightarrow> edgeAt g e \<noteq> None \<and> esrc g e = n) \<and>
     (\<forall>n e. e \<in> set (inEdges g n) \<longleftrightarrow> edgeAt g e \<noteq> None \<and> etgt g e = n) \<and>
     (\<forall>s t. filter (\<lambda>e. etgt g e = t) (outEdges g s) = filter (\<lambda>e. esrc g e = s) (inEdges g t)) \<and>
     (\<forall>e. edgeAt g e \<noteq> None \<longrightarrow> e < nextEdge g)"

definition index_ok :: "('n, 'e) digraph \<Rightarrow> bool" where
  "index_ok g \<longleftrightarrow>
     (\<forall>n idx t. outEdgeIndex g n = Some idx \<longrightarrow> idx t = List.find (\<lambda>e. etgt g e = t) (outEdges g n)) \<and>
     (\<forall>n. length (outEdges g n) > outEdgeIndexThreshold \<longrightarrow> outEdgeIndex g n \<noteq> None)"

definition nodes_ok :: "('n, 'e) digraph \<Rightarrow> bool" where
  "nodes_ok g \<longleftrightarrow> distinct (nodes g) \<and> (\<forall>n. n \<in> set (nodes g) \<longleftrightarrow> nodeAt g n \<noteq> None) \<and>
     (\<forall>n \<in> set (nodes g). n < nextNode g) \<and>
     (\<forall>e. edgeAt g e \<noteq> None \<longrightarrow> esrc g e \<in> set (nodes g) \<and> etgt g e \<in> set (nodes g))"

definition graph_ok :: "('n, 'e) digraph \<Rightarrow> bool" where
  "graph_ok g \<longleftrightarrow> edges_ok g \<and> index_ok g \<and> nodes_ok g"

lemma graph_ok_empty: "graph_ok empty_digraph"
  by (simp add: graph_ok_def edges_ok_def index_ok_def nodes_ok_def empty_digraph_def)

lemma edges_okD:
  assumes "edges_ok g"
  shows "distinct (outEdges g n)" "distinct (inEdges g n)"
    "e \<in> set (outEdges g n) \<longleftrightarrow> edgeAt g e \<noteq> None \<and> esrc g e = n"
    "e \<in> set (inEdges g n) \<longleftrightarrow> edgeAt g e \<noteq> None \<and> etgt g e = n"
    "filter (\<lambda>e. etgt g e = t) (outEdges g s) = filter (\<lambda>e. esrc g e = s) (inEdges g t)"
    "edgeAt g e \<noteq> None \<Longrightarrow> e < nextEdge g"
  using assms unfolding edges_ok_def by blast+

lemma no_next_edge:
  assumes "edges_ok g"
  shows "edgeAt g (nextEdge g) = None" "nextEdge g \<notin> set (outEdges g n)" "nextEdge g \<notin> set (inEdges g n)"
proof -
  show "edgeAt g (nextEdge g) = None"
    using edges_okD(6) [OF assms, of "nextEdge g"] by (cases "edgeAt g (nextEdge g)") auto
  then show "nextEdge g \<notin> set (outEdges g n)" "nextEdge g \<notin> set (inEdges g n)"
    by (simp_all add: edges_okD(3,4) [OF assms])
qed

section \<open>Finding edges\<close>

lemma index_of_None: "index_of n xs = None \<longleftrightarrow> n \<notin> set xs"
  by (induction xs) auto

lemma index_of_Some: "index_of n xs = Some i \<Longrightarrow> i < length xs \<and> xs ! i = n \<and> n \<notin> set (take i xs)"
  by (induction xs arbitrary: i) (auto split: if_splits)

lemma lookup_is_scan:
  assumes "index_ok g"
  shows "lookupOutEdge g n t = findEdgeTo g n t"
  using assms by (auto simp: lookupOutEdge_def findEdgeTo_def index_ok_def split: option.splits)

lemma findEdgeTo_None:
  assumes "edges_ok g"
  shows "findEdgeTo g s t = None \<longleftrightarrow> (\<forall>e. edgeAt g e \<noteq> None \<longrightarrow> \<not> (esrc g e = s \<and> etgt g e = t))"
  using edges_okD(3) [OF assms] by (auto simp: findEdgeTo_def find_None_iff)

lemma findEdgeTo_Some:
  assumes "edges_ok g" "findEdgeTo g s t = Some e"
  shows "edgeAt g e \<noteq> None \<and> esrc g e = s \<and> etgt g e = t"
  using assms(2) find_SomeD edges_okD(3) [OF assms(1), of e s] unfolding findEdgeTo_def by fast

text \<open>The in-edges hold the same first edge.\<close>

lemma findEdgeFrom_eq:
  assumes "edges_ok g"
  shows "findEdgeFrom g t s = findEdgeTo g s t"
  using edges_okD(5) [OF assms, of t s] by (simp add: findEdgeFrom_def findEdgeTo_def find_filter)

section \<open>Adding\<close>

lemma fold_try_emplace:
  "fold (\<lambda>e m. try_emplace (f e) e m) es m t
     = (case m t of None \<Rightarrow> List.find (\<lambda>e. f e = t) es | Some e \<Rightarrow> Some e)"
  by (induction es arbitrary: m) (auto simp: try_emplace_def split: option.splits)

lemma esrc_pushOut: "esrc (pushOut d n t g) e = (if e = nextEdge g then n else esrc g e)"
  by (simp add: esrc_def pushOut_def)

lemma etgt_pushOut: "etgt (pushOut d n t g) e = (if e = nextEdge g then t else etgt g e)"
  by (simp add: etgt_def pushOut_def)

lemma insertOutEdgeIndex_same [simp]:
  "insertOutEdgeIndex n t e g = tryInsertOutEdgeIndex n t e g"
  by (simp add: insertOutEdgeIndex_def tryInsertOutEdgeIndex_def)

lemma tryInsert_fields [simp]:
  "nodes (tryInsertOutEdgeIndex n t e g) = nodes g"
  "nodeAt (tryInsertOutEdgeIndex n t e g) = nodeAt g"
  "edgeAt (tryInsertOutEdgeIndex n t e g) = edgeAt g"
  "outEdges (tryInsertOutEdgeIndex n t e g) = outEdges g"
  "inEdges (tryInsertOutEdgeIndex n t e g) = inEdges g"
  "nextNode (tryInsertOutEdgeIndex n t e g) = nextNode g"
  "nextEdge (tryInsertOutEdgeIndex n t e g) = nextEdge g"
  "esrc (tryInsertOutEdgeIndex n t e g) = esrc g"
  "etgt (tryInsertOutEdgeIndex n t e g) = etgt g"
  by (auto simp: tryInsertOutEdgeIndex_def buildOutEdgeIndex_def esrc_def etgt_def fun_eq_iff split: option.splits)

lemma tryInsert_index:
  "outEdgeIndex (tryInsertOutEdgeIndex s t e g) n =
     (if n \<noteq> s then outEdgeIndex g n
      else case outEdgeIndex g s of
             Some i \<Rightarrow> Some (try_emplace t e i)
           | None \<Rightarrow> if length (outEdges g s) > outEdgeIndexThreshold
               then Some (\<lambda>u. List.find (\<lambda>e. etgt g e = u) (outEdges g s)) else None)"
  by (auto simp: tryInsertOutEdgeIndex_def buildOutEdgeIndex_def fold_try_emplace fun_eq_iff split: option.splits)

lemma pushIn_fields [simp]:
  "nodes (pushIn t e g) = nodes g" "nodeAt (pushIn t e g) = nodeAt g" "edgeAt (pushIn t e g) = edgeAt g"
  "outEdges (pushIn t e g) = outEdges g" "outEdgeIndex (pushIn t e g) = outEdgeIndex g"
  "nextNode (pushIn t e g) = nextNode g" "nextEdge (pushIn t e g) = nextEdge g"
  "esrc (pushIn t e g) = esrc g" "etgt (pushIn t e g) = etgt g"
  "inEdges (pushIn t e g) m = (if m = t then inEdges g t @ [e] else inEdges g m)"
  by (auto simp: pushIn_def esrc_def etgt_def fun_eq_iff)

lemma pushOut_fields [simp]:
  "nodes (pushOut d n t g) = nodes g" "nodeAt (pushOut d n t g) = nodeAt g"
  "edgeAt (pushOut d n t g) e =
     (if e = nextEdge g then Some \<lparr>sourceNode = n, targetNode = t, elabel = d\<rparr> else edgeAt g e)"
  "outEdges (pushOut d n t g) m = (if m = n then outEdges g n @ [nextEdge g] else outEdges g m)"
  "inEdges (pushOut d n t g) = inEdges g" "outEdgeIndex (pushOut d n t g) = outEdgeIndex g"
  "nextNode (pushOut d n t g) = nextNode g" "nextEdge (pushOut d n t g) = nextEdge g + 1"
  by (auto simp: pushOut_def)

text \<open>The graph after a new edge \<open>s\<close> to \<open>t\<close>, however its index is kept.\<close>

definition with_edge :: "'e \<Rightarrow> nat \<Rightarrow> nat \<Rightarrow> ('n, 'e) digraph \<Rightarrow> ('n, 'e) digraph" where
  "with_edge d s t g = pushIn t (nextEdge g) (tryInsertOutEdgeIndex s t (nextEdge g) (pushOut d s t g))"

lemma node_addEdge_eq:
  "node_addEdge d s t g =
     (case lookupOutEdge g s t of Some e \<Rightarrow> (e, g) | None \<Rightarrow> (nextEdge g, with_edge d s t g))"
  by (simp add: node_addEdge_def with_edge_def Let_def split: option.splits)

lemma node_addNewEdge_eq: "node_addNewEdge d s t g = (nextEdge g, with_edge d s t g)"
  by (simp add: node_addNewEdge_def with_edge_def Let_def)

lemma with_edge_edges:
  assumes "edges_ok g"
  shows "edges_ok (with_edge d s t g)"
proof -
  note fresh = no_next_edge [OF assms]
  have filters: "filter (\<lambda>e. (if e = nextEdge g then b else P e)) (outEdges g n) = filter P (outEdges g n)"
    "filter (\<lambda>e. (if e = nextEdge g then b else P e)) (inEdges g n) = filter P (inEdges g n)" for b P n
    using fresh by (auto intro!: filter_cong)
  have split: "(if c then a else x) = y \<longleftrightarrow> (if c then a = y else x = y)" for c :: bool and a x y :: nat
    by simp
  show ?thesis
    unfolding edges_ok_def with_edge_def
    using assms fresh edges_okD(6) [OF assms]
    by (auto simp: less_Suc_eq esrc_pushOut etgt_pushOut edges_okD [OF assms] filters split if_distrib [of "\<lambda>x. x = _"])
qed

lemma with_edge_index:
  assumes e: "edges_ok g" and "index_ok g"
  shows "index_ok (with_edge d s t g)"
proof -
  have fresh: "nextEdge g \<notin> set (outEdges g n)" for n
    by (rule no_next_edge [OF e])
  have idx: "outEdgeIndex g n = Some i \<Longrightarrow> i u = List.find (\<lambda>e. etgt g e = u) (outEdges g n)" for n i u
    using assms(2) by (simp add: index_ok_def)
  have old: "List.find (\<lambda>e. (if e = nextEdge g then t else etgt g e) = u) (outEdges g n)
      = List.find (\<lambda>e. etgt g e = u) (outEdges g n)" for n u
    using fresh [of n] by (intro find_cong) auto
  let ?g = "with_edge d s t g"
  have tgt: "etgt ?g e = (if e = nextEdge g then t else etgt g e)" for e
    by (simp add: with_edge_def etgt_pushOut)
  have out: "outEdges ?g n = (if n = s then outEdges g s @ [nextEdge g] else outEdges g n)" for n
    by (simp add: with_edge_def)
  have new: "outEdgeIndex ?g n =
      (if n \<noteq> s then outEdgeIndex g n
       else case outEdgeIndex g s of
              Some i \<Rightarrow> Some (try_emplace t (nextEdge g) i)
            | None \<Rightarrow> if length (outEdges g s @ [nextEdge g]) > outEdgeIndexThreshold
                then Some (\<lambda>u. List.find (\<lambda>e. etgt ?g e = u) (outEdges g s @ [nextEdge g])) else None)" for n
    by (simp add: with_edge_def tryInsert_index split: option.split)
  show ?thesis
    unfolding index_ok_def
  proof (intro conjI allI impI)
    fix n i u assume i: "outEdgeIndex ?g n = Some i"
    show "i u = List.find (\<lambda>e. etgt ?g e = u) (outEdges ?g n)"
      using i idx by (auto simp: new out tgt find_append old try_emplace_def split: if_splits option.splits)
  next
    fix n assume "outEdgeIndexThreshold < length (outEdges ?g n)"
    then show "outEdgeIndex ?g n \<noteq> None"
      using assms(2) by (auto simp: new out index_ok_def split: if_splits option.splits)
  qed
qed

lemma with_edge_nodes:
  "nodes_ok g \<Longrightarrow> s \<in> set (nodes g) \<Longrightarrow> t \<in> set (nodes g) \<Longrightarrow> nodes_ok (with_edge d s t g)"
  by (auto simp: nodes_ok_def with_edge_def esrc_pushOut etgt_pushOut)

lemma with_edge_ok:
  "graph_ok g \<Longrightarrow> s \<in> set (nodes g) \<Longrightarrow> t \<in> set (nodes g) \<Longrightarrow> graph_ok (with_edge d s t g)"
  by (simp add: graph_ok_def with_edge_edges with_edge_index with_edge_nodes)

lemma with_edge_edgeAt:
  "edgeAt (with_edge d s t g) = (edgeAt g)(nextEdge g \<mapsto> \<lparr>sourceNode = s, targetNode = t, elabel = d\<rparr>)"
  by (simp add: with_edge_def fun_eq_iff)

lemma addNode_ok: "graph_ok g \<Longrightarrow> graph_ok (snd (addNode d g))"
proof -
  assume g: "graph_ok g"
  have e: "esrc (snd (addNode d g)) = esrc g" "etgt (snd (addNode d g)) = etgt g"
    by (simp_all add: addNode_def Let_def esrc_def etgt_def fun_eq_iff)
  have new: "nextNode g \<notin> set (nodes g)"
    using g by (auto simp: graph_ok_def nodes_ok_def)
  show ?thesis
    using g new unfolding graph_ok_def edges_ok_def index_ok_def nodes_ok_def e
    by (auto simp: addNode_def Let_def less_Suc_eq)
qed

section \<open>Removing one edge\<close>

lemma set_drop_first: "set (drop_first P xs) \<subseteq> set xs"
  by (induction xs) auto

lemma distinct_drop_first: "distinct xs \<Longrightarrow> distinct (drop_first P xs)"
  using set_drop_first by (induction xs) fastforce+

lemma drop_first_found:
  assumes "distinct xs" "List.find P xs = Some e"
  shows "drop_first P xs = filter (\<lambda>x. x \<noteq> e) xs"
  using assms
proof (induction xs)
  case (Cons x xs)
  show ?case
  proof (cases "P x")
    case True
    then have "e = x" using Cons.prems by simp
    moreover have "filter (\<lambda>y. y \<noteq> x) xs = xs"
      using Cons.prems(1) by (auto intro!: filter_True)
    ultimately show ?thesis using True by simp
  next
    case False
    moreover have "x \<noteq> e"
      using False Cons.prems find_SomeD by fastforce
    ultimately show ?thesis using Cons by simp
  qed
qed simp

text \<open>The graph without one edge, and what \<open>removeEdge\<close> makes of it.\<close>

definition without_edge :: "nat \<Rightarrow> ('n, 'e) digraph \<Rightarrow> ('n, 'e) digraph" where
  "without_edge e g =
     (let s = esrc g e; t = etgt g e; es = filter (\<lambda>x. x \<noteq> e) (outEdges g s)
      in g\<lparr>edgeAt := (edgeAt g)(e := None), outEdges := (outEdges g)(s := es),
           inEdges := (inEdges g)(t := filter (\<lambda>x. x \<noteq> e) (inEdges g t)),
           outEdgeIndex := (outEdgeIndex g)(s := map_option (\<lambda>idx. idx(t := List.find (\<lambda>x. etgt g x = t) es)) (outEdgeIndex g s))\<rparr>)"

lemma without_edge_fields [simp]:
  "nodes (without_edge e g) = nodes g" "nodeAt (without_edge e g) = nodeAt g"
  "nextNode (without_edge e g) = nextNode g" "nextEdge (without_edge e g) = nextEdge g"
  "edgeAt (without_edge e g) = (edgeAt g)(e := None)"
  by (simp_all add: without_edge_def Let_def)

lemma esrc_without: "x \<noteq> e \<Longrightarrow> esrc (without_edge e g) x = esrc g x"
  and etgt_without: "x \<noteq> e \<Longrightarrow> etgt (without_edge e g) x = etgt g x"
  by (simp_all add: esrc_def etgt_def)

lemma out_without: "edges_ok g \<Longrightarrow> outEdges (without_edge e g) n = filter (\<lambda>x. x \<noteq> e) (outEdges g n)"
proof -
  assume g: "edges_ok g"
  have "e \<notin> set (outEdges g n)" if "n \<noteq> esrc g e"
    using edges_okD(3) [OF g] that by simp
  then have "n \<noteq> esrc g e \<Longrightarrow> filter (\<lambda>x. x \<noteq> e) (outEdges g n) = outEdges g n"
    by (auto intro!: filter_True)
  then show ?thesis
    by (auto simp: without_edge_def Let_def)
qed

lemma in_without: "edges_ok g \<Longrightarrow> inEdges (without_edge e g) n = filter (\<lambda>x. x \<noteq> e) (inEdges g n)"
proof -
  assume g: "edges_ok g"
  have "e \<notin> set (inEdges g n)" if "n \<noteq> etgt g e"
    using edges_okD(4) [OF g] that by simp
  then have "n \<noteq> etgt g e \<Longrightarrow> filter (\<lambda>x. x \<noteq> e) (inEdges g n) = inEdges g n"
    by (auto intro!: filter_True)
  then show ?thesis
    by (auto simp: without_edge_def Let_def)
qed

lemma without_edge_edges:
  assumes g: "edges_ok g"
  shows "edges_ok (without_edge e g)"
proof -
  let ?g = "without_edge e g"
  have tgt: "filter (\<lambda>x. etgt ?g x = t) (filter (\<lambda>x. x \<noteq> e) xs) = filter (\<lambda>x. x \<noteq> e) (filter (\<lambda>x. etgt g x = t) xs)"
    and src: "filter (\<lambda>x. esrc ?g x = t) (filter (\<lambda>x. x \<noteq> e) xs) = filter (\<lambda>x. x \<noteq> e) (filter (\<lambda>x. esrc g x = t) xs)"
    for t xs
    by (auto simp: esrc_without etgt_without intro!: filter_cong)
  show ?thesis
    unfolding edges_ok_def out_without [OF g] in_without [OF g] tgt src
    using edges_okD(1,2,5) [OF g]
    by (auto simp: edges_okD(3,4) [OF g] esrc_without etgt_without edges_okD(6) [OF g])
qed

lemma without_edge_index:
  assumes e: "edges_ok g" and i: "index_ok g"
  shows "index_ok (without_edge e g)"
proof -
  let ?g = "without_edge e g"
  have find: "List.find (\<lambda>x. etgt ?g x = u) (filter (\<lambda>x. x \<noteq> e) xs) = List.find (\<lambda>x. etgt g x = u) (filter (\<lambda>x. x \<noteq> e) xs)" for u xs
    by (intro find_cong) (auto simp: etgt_without)
  have other: "List.find (\<lambda>x. etgt g x = u) (filter (\<lambda>x. x \<noteq> e) xs) = List.find (\<lambda>x. etgt g x = u) xs"
    if "u \<noteq> etgt g e" for u xs
    using that by (induction xs) auto
  have "idx u = List.find (\<lambda>x. etgt ?g x = u) (outEdges ?g n)" if some: "outEdgeIndex ?g n = Some idx" for n idx u
  proof (cases "n = esrc g e")
    case True
    then obtain idx0 where "outEdgeIndex g n = Some idx0"
      and "idx = idx0(etgt g e := List.find (\<lambda>x. etgt g x = etgt g e) (filter (\<lambda>x. x \<noteq> e) (outEdges g n)))"
      using some by (auto simp: without_edge_def Let_def)
    then show ?thesis
      using i other unfolding out_without [OF e] find by (simp add: index_ok_def)
  next
    case False
    then have "e \<notin> set (outEdges g n)"
      using edges_okD(3) [OF e] by simp
    then have "filter (\<lambda>x. x \<noteq> e) (outEdges g n) = outEdges g n"
      by (auto intro!: filter_True)
    then show ?thesis
      using that i False unfolding out_without [OF e] find by (simp add: index_ok_def without_edge_def Let_def)
  qed
  moreover have "outEdgeIndex ?g n \<noteq> None" if "outEdgeIndexThreshold < length (outEdges ?g n)" for n
  proof -
    have "outEdgeIndexThreshold < length (outEdges g n)"
      using that length_filter_le [of "\<lambda>x. x \<noteq> e" "outEdges g n"] unfolding out_without [OF e] by linarith
    then have "outEdgeIndex g n \<noteq> None"
      using i by (simp add: index_ok_def)
    then show ?thesis
      by (auto simp: without_edge_def Let_def)
  qed
  ultimately show ?thesis
    by (simp add: index_ok_def)
qed

lemma without_edge_nodes: "nodes_ok g \<Longrightarrow> nodes_ok (without_edge e g)"
  by (auto simp: nodes_ok_def esrc_without etgt_without)

lemma node_removeEdge_eq:
  assumes g: "edges_ok g"
  shows "node_removeEdge s t g =
     (case findEdgeTo g s t of None \<Rightarrow> Some (False, g) | Some e \<Rightarrow> Some (True, without_edge e g))"
proof (cases "findEdgeTo g s t")
  case None
  then show ?thesis by (simp add: node_removeEdge_def)
next
  case (Some e)
  then have e: "edgeAt g e \<noteq> None" "esrc g e = s" "etgt g e = t"
    using findEdgeTo_Some [OF g] by blast+
  have from_edge: "findEdgeFrom g t s = Some e"
    using Some findEdgeFrom_eq [OF g] by simp
  have in_drop: "drop_first (\<lambda>e. esrc g e = s) (inEdges g t) = filter (\<lambda>x. x \<noteq> e) (inEdges g t)"
    using drop_first_found [OF edges_okD(2) [OF g]] from_edge unfolding findEdgeFrom_def by blast
  have out_drop: "drop_first (\<lambda>e. etgt g e = t) (outEdges g s) = filter (\<lambda>x. x \<noteq> e) (outEdges g s)"
    using drop_first_found [OF edges_okD(1) [OF g]] Some unfolding findEdgeTo_def by blast
  have find: "List.find (\<lambda>x. (x = e \<longrightarrow> b) \<and> (x \<noteq> e \<longrightarrow> P x)) (filter (\<lambda>x. x \<noteq> e) xs)
      = List.find P (filter (\<lambda>x. x \<noteq> e) xs)" for xs b P
    by (intro find_cong) auto
  have upd: "f(x := y) = f" if "f x = y" for f :: "nat \<Rightarrow> (nat \<rightharpoonup> nat) option" and x y
    using that by auto
  have rm: "removeInEdge t s g = (True, g\<lparr>inEdges := (inEdges g)(t := filter (\<lambda>x. x \<noteq> e) (inEdges g t))\<rparr>)"
    by (simp add: removeInEdge_def from_edge in_drop)
  have tgt_same: "etgt (g\<lparr>inEdges := x\<rparr>) = etgt g" for x
    by (simp add: etgt_def fun_eq_iff)
  show ?thesis
    using e(2,3)
    by (cases "outEdgeIndex g s")
      (simp_all add: node_removeEdge_def Some rm without_edge_def Let_def out_drop find etgt_def [of "g\<lparr>inEdges := _, edgeAt := _, outEdges := _\<rparr>"]
        upd out_drop [unfolded etgt_def] etgt_def esrc_def)
qed

section \<open>Removing a node\<close>

lemma drop_first_none: "List.find P xs = None \<Longrightarrow> drop_first P xs = xs"
  by (induction xs) (auto split: if_splits)

lemma drop_first_pow: "(drop_first P ^^ length (filter P xs)) xs = filter (\<lambda>x. \<not> P x) xs"
proof (induction xs)
  case (Cons x xs)
  have "\<not> P x \<Longrightarrow> (drop_first P ^^ k) (x # ys) = x # (drop_first P ^^ k) ys" for k ys
    by (induction k arbitrary: ys) (simp_all add: funpow_swap1)
  then show ?case
    using Cons by (simp add: funpow_swap1)
qed simp

lemma removeInEdge_snd:
  "snd (removeInEdge t n h) = h\<lparr>inEdges := (inEdges h)(t := drop_first (\<lambda>e. esrc h e = n) (inEdges h t))\<rparr>"
  using drop_first_none [of "\<lambda>e. esrc h e = n" "inEdges h t"]
  by (cases h) (auto simp: removeInEdge_def findEdgeFrom_def fun_upd_idem split: option.splits)

lemma inEdges_upd [simp]:
  "esrc (g\<lparr>inEdges := i\<rparr>) = esrc g" "etgt (g\<lparr>inEdges := i\<rparr>) = etgt g"
  by (simp_all add: esrc_def etgt_def fun_eq_iff)

lemma clear_in:
  "fold (\<lambda>e h. snd (removeInEdge (etgt h e) n h)) es (g\<lparr>inEdges := i\<rparr>)
     = g\<lparr>inEdges := (\<lambda>t. (drop_first (\<lambda>e. esrc g e = n) ^^ length (filter (\<lambda>e. etgt g e = t) es)) (i t))\<rparr>"
proof (induction es arbitrary: i)
  case (Cons e es)
  show ?case
    using Cons.IH [of "i(etgt g e := drop_first (\<lambda>x. esrc g x = n) (i (etgt g e)))"]
    by (simp add: removeInEdge_snd funpow_swap1 fun_upd_def if_distrib cong: if_cong)
      (simp add: fun_eq_iff funpow_swap1)
qed simp

text \<open>The graph without the edges that leave a node.\<close>

definition without_out :: "nat \<Rightarrow> ('n, 'e) digraph \<Rightarrow> ('n, 'e) digraph" where
  "without_out n g =
     g\<lparr>inEdges := (\<lambda>t. filter (\<lambda>e. esrc g e \<noteq> n) (inEdges g t)),
       edgeAt := edgeAt g |` (- set (outEdges g n)),
       outEdges := (outEdges g)(n := []), outEdgeIndex := (outEdgeIndex g)(n := None)\<rparr>"

lemma clear_phase1:
  assumes g: "edges_ok g"
  shows "fold (\<lambda>e h. snd (removeInEdge (etgt h e) n h)) (outEdges g n) g
     = g\<lparr>inEdges := (\<lambda>t. filter (\<lambda>e. esrc g e \<noteq> n) (inEdges g t))\<rparr>"
proof -
  have "(drop_first (\<lambda>e. esrc g e = n) ^^ length (filter (\<lambda>e. etgt g e = t) (outEdges g n))) (inEdges g t)
      = filter (\<lambda>e. esrc g e \<noteq> n) (inEdges g t)" for t
    using drop_first_pow [of "\<lambda>e. esrc g e = n" "inEdges g t"] by (simp add: edges_okD(5) [OF g])
  then show ?thesis
    using clear_in [where n = n and es = "outEdges g n" and g = g and i = "inEdges g"] by simp
qed

lemma without_out_ok:
  assumes "graph_ok g"
  shows "graph_ok (without_out n g)"
proof -
  let ?g = "without_out n g"
  have e: "edges_ok g" and i: "index_ok g" and nd: "nodes_ok g"
    using assms by (simp_all add: graph_ok_def)
  note d = edges_okD [OF e]
  have at: "edgeAt ?g x = (if edgeAt g x \<noteq> None \<and> esrc g x = n then None else edgeAt g x)" for x
    by (simp add: without_out_def restrict_map_def d(3))
  have st: "edgeAt ?g x \<noteq> None \<Longrightarrow> esrc ?g x = esrc g x \<and> etgt ?g x = etgt g x" for x
    by (auto simp: esrc_def etgt_def at split: if_splits)
  have out: "outEdges ?g m = (if m = n then [] else outEdges g m)"
    and inn: "inEdges ?g m = filter (\<lambda>e. esrc g e \<noteq> n) (inEdges g m)"
    and idx: "outEdgeIndex ?g m = (if m = n then None else outEdgeIndex g m)" for m
    by (simp_all add: without_out_def)
  have next_edge: "nextEdge ?g = nextEdge g"
    by (simp add: without_out_def)
  have live: "x \<in> set (outEdges ?g m) \<Longrightarrow> edgeAt ?g x \<noteq> None" "x \<in> set (inEdges ?g m) \<Longrightarrow> edgeAt ?g x \<noteq> None" for x m
    by (auto simp: at out inn d(3,4) split: if_splits)
  have "edges_ok ?g"
    unfolding edges_ok_def
  proof (intro conjI allI impI)
    fix m x s t
    show "distinct (outEdges ?g m)" "distinct (inEdges ?g m)"
      using d(1,2) by (simp_all add: out inn)
    show "x \<in> set (outEdges ?g m) \<longleftrightarrow> edgeAt ?g x \<noteq> None \<and> esrc ?g x = m"
      using st [of x] by (auto simp: out at d(3))
    show "x \<in> set (inEdges ?g m) \<longleftrightarrow> edgeAt ?g x \<noteq> None \<and> etgt ?g x = m"
      using st [of x] by (auto simp: inn at d(4))
    show "edgeAt ?g x \<noteq> None \<Longrightarrow> x < nextEdge ?g"
      using d(6) [of x] next_edge by (auto simp: at split: if_splits)
    have "filter (\<lambda>e. etgt ?g e = t) (outEdges ?g s) = filter (\<lambda>e. etgt g e = t) (outEdges ?g s)"
      using st live(1) by (auto intro!: filter_cong)
    also have "\<dots> = (if s = n then [] else filter (\<lambda>e. esrc g e = s) (inEdges g t))"
      using d(5) by (simp add: out)
    also have "\<dots> = filter (\<lambda>e. esrc g e = s) (inEdges ?g t)"
      by (auto simp: inn filter_empty_conv intro: filter_cong)
    also have "\<dots> = filter (\<lambda>e. esrc ?g e = s) (inEdges ?g t)"
      using st live(2) by (auto intro!: filter_cong)
    finally show "filter (\<lambda>e. etgt ?g e = t) (outEdges ?g s) = filter (\<lambda>e. esrc ?g e = s) (inEdges ?g t)" .
  qed
  moreover have "index_ok ?g"
  proof -
    have "List.find (\<lambda>x. etgt ?g x = t) (outEdges ?g m) = List.find (\<lambda>x. etgt g x = t) (outEdges ?g m)" for t m
      using st live(1) by (intro find_cong) auto
    then show ?thesis
      using i by (auto simp: index_ok_def idx out)
  qed
  moreover have "nodes_ok ?g"
  proof -
    have "nodes ?g = nodes g" "nodeAt ?g = nodeAt g" "nextNode ?g = nextNode g"
      by (simp_all add: without_out_def)
    moreover have "edgeAt ?g x \<noteq> None \<Longrightarrow> edgeAt g x \<noteq> None" for x
      by (auto simp: at split: if_splits)
    ultimately show ?thesis
      using nd st unfolding nodes_ok_def by metis
  qed
  ultimately show ?thesis
    by (simp add: graph_ok_def)
qed

text \<open>Removing the remaining in-edges one by one, each through its source.\<close>

definition same_but :: "nat \<Rightarrow> ('n, 'e) digraph \<Rightarrow> ('n, 'e) digraph \<Rightarrow> bool" where
  "same_but n g h \<longleftrightarrow> nodes h = nodes g \<and> nodeAt h = nodeAt g \<and> nextNode h = nextNode g \<and> nextEdge h = nextEdge g \<and>
     (\<forall>e. edgeAt g e \<noteq> None \<longrightarrow> etgt g e \<noteq> n \<longrightarrow> edgeAt h e = edgeAt g e) \<and>
     (\<forall>e. edgeAt h e \<noteq> None \<longrightarrow> edgeAt h e = edgeAt g e)"

lemma clear_phase2:
  assumes "graph_ok h" "outEdges h n = []"
  shows "\<exists>h'. fold (\<lambda>s acc. and_then acc (\<lambda>h. map_option snd (node_removeEdge s n h)))
            (map (esrc h) (inEdges h n)) (Some h) = Some h' \<and>
     graph_ok h' \<and> inEdges h' n = [] \<and> outEdges h' n = [] \<and> same_but n h h'"
  using assms
proof (induction "inEdges h n" arbitrary: h)
  case Nil
  then show ?case by (auto simp: same_but_def)
next
  case (Cons e es)
  have ok: "edges_ok h" and i: "index_ok h" and nd: "nodes_ok h"
    using Cons.prems by (simp_all add: graph_ok_def)
  note d = edges_okD [OF ok] and ies = Cons.hyps(2) [symmetric]
  have e: "edgeAt h e \<noteq> None" "etgt h e = n" "e \<notin> set es"
    using d(4) [of e n] d(2) [of n] by (simp_all add: ies)
  have first: "findEdgeTo h (esrc h e) n = Some e"
    using findEdgeFrom_eq [OF ok, of n "esrc h e"] by (simp add: findEdgeFrom_def ies)
  let ?h = "without_edge e h"
  have step: "node_removeEdge (esrc h e) n h = Some (True, ?h)"
    using node_removeEdge_eq [OF ok] first by simp
  have in_h: "inEdges ?h n = es"
    using in_without [OF ok, of e n] e(3) by (auto simp: ies filter_id_conv)
  have ok_h: "graph_ok ?h"
    using without_edge_edges [OF ok] without_edge_index [OF ok i] without_edge_nodes [OF nd] by (simp add: graph_ok_def)
  have out_h: "outEdges ?h n = []"
    using out_without [OF ok] Cons.prems(2) by simp
  have srcs: "map (esrc h) es = map (esrc ?h) (inEdges ?h n)"
    unfolding in_h using e(3) by (auto intro!: map_cong [OF refl] esrc_without [symmetric])
  from Cons.hyps(1) [OF in_h [symmetric] ok_h out_h] obtain h' where
    run: "fold (\<lambda>s acc. and_then acc (\<lambda>h. map_option snd (node_removeEdge s n h))) (map (esrc ?h) (inEdges ?h n)) (Some ?h) = Some h'"
    and h': "graph_ok h'" "inEdges h' n = []" "outEdges h' n = []" "same_but n ?h h'" by blast
  have "same_but n h h'"
    unfolding same_but_def
  proof (intro conjI allI impI)
    note s = h'(4) [unfolded same_but_def]
    show "nodes h' = nodes h" "nodeAt h' = nodeAt h" "nextNode h' = nextNode h" "nextEdge h' = nextEdge h"
      using s by simp_all
    show "edgeAt h' x = edgeAt h x" if "edgeAt h x \<noteq> None" "etgt h x \<noteq> n" for x
    proof -
      have "x \<noteq> e" using that(2) e(2) by auto
      then show ?thesis
        using s that etgt_without [of x e h] by simp
    qed
    show "edgeAt h' x = edgeAt h x" if x: "edgeAt h' x \<noteq> None" for x
    proof -
      have "edgeAt h' x = edgeAt ?h x" using s x by blast
      then show ?thesis using x by (simp split: if_splits)
    qed
  qed
  then show ?case
    using run h'(1-3) by (simp add: ies step srcs)
qed

text \<open>\<open>removeNode\<close>: exactly the edges at the node disappear with it.\<close>

lemma clearAllEdges_ok:
  assumes g: "graph_ok g"
  shows "\<exists>h. node_clearAllEdges n g = Some h \<and> graph_ok h \<and> nodes h = nodes g \<and> nodeAt h = nodeAt g \<and>
     nextNode h = nextNode g \<and> nextEdge h = nextEdge g \<and>
     (\<forall>e. edgeAt h e = (if edgeAt g e \<noteq> None \<and> (esrc g e = n \<or> etgt g e = n) then None else edgeAt g e))"
proof -
  let ?g2 = "without_out n g"
  have e: "edges_ok g" using g by (simp add: graph_ok_def)
  note d = edges_okD [OF e]
  have ok2: "graph_ok ?g2" "outEdges ?g2 n = []"
    using without_out_ok [OF g] by (simp_all add: without_out_def)
  from clear_phase2 [OF ok2] obtain h where
    run: "fold (\<lambda>s acc. and_then acc (\<lambda>h. map_option snd (node_removeEdge s n h)))
            (map (esrc ?g2) (inEdges ?g2 n)) (Some ?g2) = Some h"
    and h: "graph_ok h" "inEdges h n = []" "same_but n ?g2 h" by blast
  have clear: "node_clearAllEdges n g = Some h"
  proof -
    have "node_clearAllEdges n g =
        and_then (fold (\<lambda>s acc. and_then acc (\<lambda>h. map_option snd (node_removeEdge s n h)))
            (map (esrc ?g2) (inEdges ?g2 n)) (Some ?g2)) (\<lambda>g3. require (inEdges g3 n = []) (Some g3))"
      unfolding node_clearAllEdges_def Let_def clear_phase1 [OF e] without_out_def by simp
    then show ?thesis
      unfolding run using h(2) by simp
  qed
  have at2: "edgeAt ?g2 x = (if edgeAt g x \<noteq> None \<and> esrc g x = n then None else edgeAt g x)" for x
    by (simp add: without_out_def restrict_map_def d(3))
  have no_in: "edgeAt h x = None" if "edgeAt g x \<noteq> None" "etgt g x = n" for x
  proof (rule ccontr)
    assume alive: "edgeAt h x \<noteq> None"
    then have "edgeAt h x = edgeAt ?g2 x"
      using h(3) unfolding same_but_def by blast
    then have "edgeAt h x = edgeAt g x"
      using alive by (auto simp: at2 split: if_splits)
    then have "etgt h x = n"
      using that(2) by (simp add: etgt_def)
    then show False
      using edges_okD(4) [of h x n] h(1,2) alive by (simp add: graph_ok_def)
  qed
  have "edgeAt h x = (if edgeAt g x \<noteq> None \<and> (esrc g x = n \<or> etgt g x = n) then None else edgeAt g x)" for x
  proof (cases "edgeAt g x \<noteq> None \<and> etgt g x = n")
    case True
    then show ?thesis using no_in by simp
  next
    case False
    have "edgeAt h x = edgeAt ?g2 x"
    proof (cases "edgeAt ?g2 x")
      case None
      then show ?thesis using h(3) unfolding same_but_def by metis
    next
      case (Some y)
      then have "etgt ?g2 x \<noteq> n"
        using False by (auto simp: etgt_def at2 split: if_splits)
      then show ?thesis using h(3) Some unfolding same_but_def by blast
    qed
    then show ?thesis using False by (auto simp: at2)
  qed
  then show ?thesis
    using clear h(1,3) by (auto simp: same_but_def without_out_def)
qed

lemma take_drop_remove: "i < length xs \<Longrightarrow> distinct xs \<Longrightarrow> xs ! i = n \<Longrightarrow>
    take i xs @ drop (i + 1) xs = filter (\<lambda>x. x \<noteq> n) xs"
proof (induction xs arbitrary: i)
  case (Cons x xs)
  show ?case
  proof (cases i)
    case 0
    then show ?thesis using Cons.prems by (auto intro!: filter_True [symmetric])
  next
    case (Suc j)
    then have "xs ! j = n" "j < length xs" "x \<noteq> n"
      using Cons.prems by (auto dest: nth_mem)
    then show ?thesis
      using Cons.IH [of j] Cons.prems(2) Suc by simp
  qed
qed simp

lemma removeNode_spec:
  assumes g: "graph_ok g" and n: "n \<in> set (nodes g)"
  shows "\<exists>h. removeNode n g = Some (True, h) \<and> graph_ok h \<and> nodes h = filter (\<lambda>m. m \<noteq> n) (nodes g) \<and>
     nodeAt h = (nodeAt g)(n := None) \<and>
     (\<forall>e. edgeAt h e = (if edgeAt g e \<noteq> None \<and> (esrc g e = n \<or> etgt g e = n) then None else edgeAt g e))"
proof -
  obtain i where i: "index_of n (nodes g) = Some i"
    using n index_of_None by fastforce
  from clearAllEdges_ok [OF g, of n] obtain h where
    clear: "node_clearAllEdges n g = Some h" and ok: "graph_ok h" and same: "nodes h = nodes g" "nodeAt h = nodeAt g"
      "nextNode h = nextNode g"
    and at: "\<And>e. edgeAt h e = (if edgeAt g e \<noteq> None \<and> (esrc g e = n \<or> etgt g e = n) then None else edgeAt g e)"
    by blast
  have dist: "distinct (nodes g)"
    using g by (simp add: graph_ok_def nodes_ok_def)
  let ?h = "h\<lparr>nodes := filter (\<lambda>m. m \<noteq> n) (nodes g), nodeAt := (nodeAt g)(n := None)\<rparr>"
  have rem: "removeNode n g = Some (True, ?h)"
    using take_drop_remove [OF _ dist] index_of_Some [OF i]
    by (simp add: removeNode_def findNode_def i clear same)
  have st: "esrc ?h = esrc h" "etgt ?h = etgt h"
    by (simp_all add: esrc_def etgt_def fun_eq_iff)
  have live: "edgeAt h e \<noteq> None \<Longrightarrow> esrc h e \<noteq> n \<and> etgt h e \<noteq> n" for e
    by (auto simp: at esrc_def etgt_def split: if_splits)
  have "graph_ok ?h"
    using ok live same by (auto simp: graph_ok_def edges_ok_def index_ok_def nodes_ok_def st)
  then show ?thesis
    using rem at by auto
qed

section \<open>Graphs that the operations build\<close>

inductive graph_built :: "'e \<Rightarrow> ('n, 'e) digraph \<Rightarrow> bool" for d :: 'e where
  built_empty: "graph_built d empty_digraph"
| built_node: "graph_built d g \<Longrightarrow> graph_built d (snd (addNode x g))"
| built_edge: "graph_built d g \<Longrightarrow> addEdge d s t g = Some (e, g') \<Longrightarrow> graph_built d g'"
| built_new_edge: "graph_built d g \<Longrightarrow> addNewEdge d s t g = Some (e, g') \<Longrightarrow> graph_built d g'"
| built_remove_edge: "graph_built d g \<Longrightarrow> removeEdge s t g = Some (r, g') \<Longrightarrow> graph_built d g'"
| built_remove_node: "graph_built d g \<Longrightarrow> removeNode n g = Some (r, g') \<Longrightarrow> graph_built d g'"

lemma findNode_in: "findNode g n \<noteq> None \<longleftrightarrow> n \<in> set (nodes g)"
  using index_of_None by (auto simp: findNode_def)

lemma findNode_ex [simp]: "(\<exists>y. findNode g n = Some y) \<longleftrightarrow> n \<in> set (nodes g)"
  using findNode_in [of g n] by simp

lemma graph_okD: "graph_ok g \<Longrightarrow> edges_ok g" "graph_ok g \<Longrightarrow> index_ok g" "graph_ok g \<Longrightarrow> nodes_ok g"
  by (simp_all add: graph_ok_def)

lemma addEdge_ok: "graph_ok g \<Longrightarrow> addEdge d s t g = Some (e, g') \<Longrightarrow> graph_ok g'"
  using with_edge_ok by (auto simp: addEdge_def node_addEdge_eq findNode_in split: option.splits)

lemma addNewEdge_ok: "graph_ok g \<Longrightarrow> addNewEdge d s t g = Some (e, g') \<Longrightarrow> graph_ok g'"
  using with_edge_ok by (auto simp: addNewEdge_def node_addNewEdge_eq findNode_in)

lemma without_edge_ok: "graph_ok g \<Longrightarrow> graph_ok (without_edge e g)"
  by (simp add: graph_ok_def without_edge_edges without_edge_index without_edge_nodes)

lemma removeEdge_ok: "graph_ok g \<Longrightarrow> removeEdge s t g = Some (r, g') \<Longrightarrow> graph_ok g'"
  using node_removeEdge_eq [OF graph_okD(1), of g s t] without_edge_ok
  by (auto simp: removeEdge_def split: option.splits)

lemma removeNode_ok: "graph_ok g \<Longrightarrow> removeNode n g = Some (r, g') \<Longrightarrow> graph_ok g'"
proof -
  assume g: "graph_ok g" and r: "removeNode n g = Some (r, g')"
  show "graph_ok g'"
  proof (cases "n \<in> set (nodes g)")
    case True
    then show ?thesis
      using removeNode_spec [OF g True] r by auto
  next
    case False
    then show ?thesis
      using r g index_of_None [of n "nodes g"] by (simp add: removeNode_def findNode_def)
  qed
qed

lemma built_ok: "graph_built d g \<Longrightarrow> graph_ok g"
proof (induction rule: graph_built.induct)
  case built_empty then show ?case by (rule graph_ok_empty)
next
  case built_node then show ?case by (simp add: addNode_ok)
next
  case built_edge show ?case by (rule addEdge_ok [OF built_edge.IH built_edge.hyps(2)])
next
  case built_new_edge show ?case by (rule addNewEdge_ok [OF built_new_edge.IH built_new_edge.hyps(2)])
next
  case built_remove_edge show ?case by (rule removeEdge_ok [OF built_remove_edge.IH built_remove_edge.hyps(2)])
next
  case built_remove_node show ?case by (rule removeNode_ok [OF built_remove_node.IH built_remove_node.hyps(2)])
qed

lemma numEdges_sum: "fold (\<lambda>n count. count + f n) ns (c::nat) = c + sum_list (map f ns)"
  by (induction ns arbitrary: c) simp_all

lemma numEdges_card:
  assumes "graph_ok g"
  shows "numEdges g = card {e. edgeAt g e \<noteq> None}"
proof -
  note e = graph_okD(1) [OF assms] and n = graph_okD(3) [OF assms]
  have "card {e. edgeAt g e \<noteq> None} = card (\<Union>n \<in> set (nodes g). set (outEdges g n))"
    using n by (intro arg_cong [where f = card]) (auto simp: edges_okD(3) [OF e] nodes_ok_def)
  also have "\<dots> = (\<Sum>n \<in> set (nodes g). card (set (outEdges g n)))"
    by (intro card_UN_disjoint) (auto simp: edges_okD(3) [OF e])
  also have "\<dots> = (\<Sum>n \<in> set (nodes g). length (outEdges g n))"
    by (simp add: distinct_card edges_okD(1) [OF e])
  also have "\<dots> = sum_list (map (\<lambda>n. length (outEdges g n)) (nodes g))"
    using n by (simp add: nodes_ok_def sum.distinct_set_conv_list)
  finally show ?thesis
    using numEdges_sum [of "node_outDegree g" "nodes g" 0] by (simp add: numEdges_def node_outDegree_def [abs_def])
qed

section \<open>Properties\<close>

text \<open>
  C16. In every graph that the operations build, the lookup through the target index finds exactly the
  edge a linear scan of the out-edges finds, on both sides of the index threshold; the in-edges of the target
  agree; and \<open>numEdges\<close> counts the live edge objects.
\<close>

theorem built_graph_lookup:
  assumes "graph_built d g"
  shows "lookupOutEdge g s t = List.find (\<lambda>e. etgt g e = t) (outEdges g s) \<and>
     findEdgeFrom g t s = lookupOutEdge g s t \<and> numEdges g = card {e. edgeAt g e \<noteq> None}"
  using lookup_is_scan [OF graph_okD(2)] findEdgeFrom_eq [OF graph_okD(1)] numEdges_card built_ok [OF assms]
  by (metis findEdgeTo_def)

definition two_nodes :: "(unit, unit) digraph" where
  "two_nodes = snd (addNode () (snd (addNode () empty_digraph)))"

lemma two_nodes_built: "graph_built () two_nodes"
  unfolding two_nodes_def by (intro graph_built.intros)

theorem built_graph_lookup_witness:
  "lookupOutEdge two_nodes 0 1 = None \<and> numEdges two_nodes = card {e. edgeAt two_nodes e \<noteq> None}"
  using built_graph_lookup [OF two_nodes_built, of 0 1]
  by (simp add: two_nodes_def addNode_def empty_digraph_def)

text \<open>
  \<open>addEdge\<close> returns an edge from the source to the target and keeps the invariant. If an edge from
  the source to the target exists it returns the first one and changes nothing; otherwise the graph gains
  exactly the returned edge. \<open>addNewEdge\<close> always adds one.
\<close>

theorem addEdge_dedupes:
  assumes "graph_ok g" and "s \<in> set (nodes g)" and "t \<in> set (nodes g)"
  shows "\<exists>e g'. addEdge d s t g = Some (e, g') \<and> graph_ok g' \<and>
     edgeAt g' e \<noteq> None \<and> esrc g' e = s \<and> etgt g' e = t \<and>
     (if \<exists>x. edgeAt g x \<noteq> None \<and> esrc g x = s \<and> etgt g x = t
      then g' = g \<and> List.find (\<lambda>x. etgt g x = t) (outEdges g s) = Some e
      else edgeAt g e = None \<and> edgeAt g' = (edgeAt g)(e \<mapsto> \<lparr>sourceNode = s, targetNode = t, elabel = d\<rparr>)) \<and>
     (\<exists>x h. addNewEdge d s t g = Some (x, h) \<and> graph_ok h \<and> edgeAt g x = None \<and>
        edgeAt h = (edgeAt g)(x \<mapsto> \<lparr>sourceNode = s, targetNode = t, elabel = d\<rparr>))"
proof -
  note e = graph_okD(1) [OF assms(1)]
  have in_g: "findNode g s \<noteq> None" "findNode g t \<noteq> None"
    using assms by (simp_all add: findNode_in)
  let ?h = "with_edge d s t g"
  have new: "edgeAt g (nextEdge g) = None" "graph_ok ?h"
    "edgeAt ?h = (edgeAt g)(nextEdge g \<mapsto> \<lparr>sourceNode = s, targetNode = t, elabel = d\<rparr>)"
    using no_next_edge(1) [OF e] with_edge_ok [OF assms] with_edge_edgeAt by simp_all
  have ends: "esrc ?h (nextEdge g) = s" "etgt ?h (nextEdge g) = t"
    by (simp_all add: esrc_def etgt_def new(3))
  have addNew: "addNewEdge d s t g = Some (nextEdge g, ?h)"
    using in_g by (simp add: addNewEdge_def node_addNewEdge_eq)
  have look: "lookupOutEdge g s t = findEdgeTo g s t"
    by (rule lookup_is_scan [OF graph_okD(2) [OF assms(1)]])
  have add: "addEdge d s t g = Some (case findEdgeTo g s t of Some x \<Rightarrow> (x, g) | None \<Rightarrow> (nextEdge g, ?h))"
    using in_g by (simp add: addEdge_def node_addEdge_eq look)
  show ?thesis
  proof (cases "findEdgeTo g s t")
    case None
    then have "\<not> (\<exists>x. edgeAt g x \<noteq> None \<and> esrc g x = s \<and> etgt g x = t)"
      using findEdgeTo_None [OF e] by blast
    then show ?thesis
      using None add addNew new by (intro exI [of _ "nextEdge g"] exI [of _ ?h]) (auto simp: ends)
  next
    case (Some x)
    then have x: "edgeAt g x \<noteq> None \<and> esrc g x = s \<and> etgt g x = t"
      by (rule findEdgeTo_Some [OF e])
    then have "\<exists>x. edgeAt g x \<noteq> None \<and> esrc g x = s \<and> etgt g x = t" by blast
    then show ?thesis
      using Some x add addNew new assms(1) by (intro exI [of _ x] exI [of _ g]) (simp add: findEdgeTo_def)
  qed
qed

theorem addEdge_dedupes_witness:
  "\<exists>e g'. addEdge () 0 1 two_nodes = Some (e, g') \<and> esrc g' e = 0 \<and> etgt g' e = 1"
  using addEdge_dedupes [OF built_ok [OF two_nodes_built], of 0 1 "()"]
  by (auto simp: two_nodes_def addNode_def empty_digraph_def)

text \<open>
  \<open>removeNode\<close> of a node of the graph succeeds (its assertions hold), the node disappears, together
  with exactly the edges that start or end at it, and no pointer to a destroyed edge is left in any
  edge vector (the invariant holds). A node that is not in the graph changes nothing.
\<close>

theorem removeNode_removes_incident_edges:
  assumes "graph_ok g"
  shows "(if n \<in> set (nodes g) then
       \<exists>h. removeNode n g = Some (True, h) \<and> graph_ok h \<and> nodes h = filter (\<lambda>m. m \<noteq> n) (nodes g) \<and>
         (\<forall>e. edgeAt h e = (if edgeAt g e \<noteq> None \<and> (esrc g e = n \<or> etgt g e = n) then None else edgeAt g e))
     else removeNode n g = Some (False, g))"
  using removeNode_spec [OF assms, of n] index_of_None [of n "nodes g"]
  by (auto simp: removeNode_def findNode_def)

definition loop_graph :: "(unit, unit) digraph" where
  "loop_graph = snd (the (addNewEdge () 1 0 (snd (the (addNewEdge () 0 0 (snd (the (addNewEdge () 0 1 two_nodes))))))))"

lemma loop_graph_ok: "graph_ok loop_graph"
proof -
  have n: "0 \<in> set (nodes two_nodes)" "1 \<in> set (nodes two_nodes)" and ok: "graph_ok two_nodes"
    using built_ok [OF two_nodes_built] by (simp_all add: two_nodes_def addNode_def empty_digraph_def)
  have step: "\<exists>h. addNewEdge () s t g = Some (nextEdge g, h) \<and> graph_ok h \<and> nodes h = nodes g"
    if "graph_ok g" "s \<in> set (nodes g)" "t \<in> set (nodes g)" for g :: "(unit, unit) digraph" and s t
    using that with_edge_ok [OF that] by (auto simp: addNewEdge_def node_addNewEdge_eq findNode_in with_edge_def)
  obtain g1 where g1: "addNewEdge () 0 1 two_nodes = Some (nextEdge two_nodes, g1)" "graph_ok g1" "nodes g1 = nodes two_nodes"
    using step [OF ok n] by blast
  obtain g2 where g2: "addNewEdge () 0 0 g1 = Some (nextEdge g1, g2)" "graph_ok g2" "nodes g2 = nodes two_nodes"
    using step [OF g1(2), of 0 0] n g1(3) by auto
  obtain g3 where g3: "addNewEdge () 1 0 g2 = Some (nextEdge g2, g3)" "graph_ok g3"
    using step [OF g2(2), of 1 0] n g2(3) by auto
  show ?thesis
    unfolding loop_graph_def g1(1) option.sel snd_conv g2(1) g3(1) by (rule g3(2))
qed

theorem removeNode_removes_incident_edges_witness:
  "\<exists>h. removeNode 0 loop_graph = Some (True, h) \<and> nodes h = [1] \<and> graph_ok h"
proof -
  have "nodes loop_graph = [0, 1]"
    by code_simp
  then show ?thesis
    using removeNode_removes_incident_edges [OF loop_graph_ok, of 0] by auto
qed

end
