(* ===== verification/NetlistTypes.thy ===== *)
theory NetlistTypes
  imports BitRange GraphInv
begin

text \<open>
  The data of a netlist: locations and the file table (\<^verbatim>\<open>include/netlist/TextLocation.hpp\<close>), symbol
  references and their table (\<^verbatim>\<open>SymbolReference.hpp\<close>), nodes (\<^verbatim>\<open>NetlistNode.hpp\<close>) and edges
  (\<^verbatim>\<open>NetlistEdge.hpp\<close>), the graph object that owns them (\<^verbatim>\<open>NetlistGraph.hpp\<close>).
  A constant's value is of any type \<open>'c\<close> (slang's \<open>ConstantValue\<close>).
\<close>

section \<open>File table and locations\<close>

text \<open>The sentinel \<open>NoFile\<close> is \<open>None\<close>. The double lookup of \<open>addFile\<close> only serves its lock.\<close>

record file_table =
  ft_indexMap :: "string \<rightharpoonup> nat"
  filenames :: "string list"

definition ft_new :: file_table where
  "ft_new = \<lparr>ft_indexMap = Map.empty, filenames = []\<rparr>"

definition addFile :: "string \<Rightarrow> file_table \<Rightarrow> nat \<times> file_table" where
  "addFile name t =
     (case ft_indexMap t name of
        Some i \<Rightarrow> (i, t)
      | None \<Rightarrow>
          (let i = length (filenames t)
           in (i, t\<lparr>filenames := filenames t @ [name], ft_indexMap := (ft_indexMap t)(name \<mapsto> i)\<rparr>)))"

text \<open>\<open>getFilename\<close>: \<open>deque::at\<close> throws out of range.\<close>

definition getFilename :: "file_table \<Rightarrow> nat option \<Rightarrow> string option" where
  "getFilename t i =
     (case i of None \<Rightarrow> Some [] | Some k \<Rightarrow> require (k < length (filenames t)) (Some (filenames t ! k)))"

definition ft_size :: "file_table \<Rightarrow> nat" where
  "ft_size t = length (filenames t)"

record text_location =
  fileIndex :: "nat option"
  line :: nat
  column :: nat

definition no_location :: text_location where
  "no_location = \<lparr>fileIndex = None, line = 0, column = 0\<rparr>"

definition location_toString :: "file_table \<Rightarrow> text_location \<Rightarrow> string option" where
  "location_toString t loc =
     (if fileIndex loc = None then Some ''?''
      else map_option (\<lambda>f. f @ '':'' @ show_nat (line loc) @ '':'' @ show_nat (column loc))
             (getFilename t (fileIndex loc)))"

definition location_empty :: "text_location \<Rightarrow> bool" where
  "location_empty loc = (fileIndex loc = None)"

definition ft_ok :: "file_table \<Rightarrow> bool" where
  "ft_ok t \<longleftrightarrow> distinct (filenames t) \<and>
     (\<forall>name i. ft_indexMap t name = Some i \<longleftrightarrow> i < length (filenames t) \<and> filenames t ! i = name)"

lemma ft_ok_new: "ft_ok ft_new"
  by (simp add: ft_ok_def ft_new_def)

lemma ft_ok_not_in: "ft_ok t \<Longrightarrow> ft_indexMap t name = None \<longleftrightarrow> name \<notin> set (filenames t)"
  unfolding ft_ok_def in_set_conv_nth by (metis not_Some_eq)

lemma addFile_ok: "ft_ok t \<Longrightarrow> ft_ok (snd (addFile name t))"
proof -
  assume t: "ft_ok t"
  show "ft_ok (snd (addFile name t))"
  proof (cases "ft_indexMap t name")
    case None
    then have new: "name \<notin> set (filenames t)"
      using ft_ok_not_in [OF t] by simp
    then have "i < length (filenames t) \<Longrightarrow> filenames t ! i \<noteq> name" for i
      using nth_mem by force
    then show ?thesis
      using t new None by (auto simp: addFile_def Let_def ft_ok_def nth_append less_Suc_eq)
  qed (simp add: addFile_def t)
qed

lemma ft_okD: "ft_ok t \<Longrightarrow> ft_indexMap t name = Some i \<Longrightarrow> i < length (filenames t) \<and> filenames t ! i = name"
  by (simp add: ft_ok_def)

lemma addFile_get:
  assumes "ft_ok t"
  shows "getFilename (snd (addFile name t)) (Some (fst (addFile name t))) = Some name"
    and "getFilename t (Some i) = Some f \<Longrightarrow> getFilename (snd (addFile name t)) (Some i) = Some f"
    and "fst (addFile name (snd (addFile name t))) = fst (addFile name t)"
  using ft_okD [OF assms, of name] by (auto simp: addFile_def Let_def getFilename_def nth_append split: option.splits)

section \<open>Symbol references\<close>

record symbol_reference =
  sr_name :: string
  sr_hierarchicalPath :: string
  sr_location :: text_location

text \<open>A pointer into the table is the index of the entry.\<close>

record symbol_table =
  st_entries :: "symbol_reference list"
  st_indexMap :: "string \<rightharpoonup> nat"

definition st_new :: symbol_table where
  "st_new = \<lparr>st_entries = [], st_indexMap = Map.empty\<rparr>"

definition intern :: "string \<Rightarrow> string \<Rightarrow> text_location \<Rightarrow> symbol_table \<Rightarrow> nat \<times> symbol_table" where
  "intern name path loc t =
     (case st_indexMap t path of
        Some p \<Rightarrow> (p, t)
      | None \<Rightarrow>
          (let p = length (st_entries t)
           in (p, t\<lparr>st_entries := st_entries t @ [\<lparr>sr_name = name, sr_hierarchicalPath = path, sr_location = loc\<rparr>],
                    st_indexMap := (st_indexMap t)(path \<mapsto> p)\<rparr>)))"

definition intern_ref :: "symbol_reference \<Rightarrow> symbol_table \<Rightarrow> nat \<times> symbol_table" where
  "intern_ref r t = intern (sr_name r) (sr_hierarchicalPath r) (sr_location r) t"

definition st_size :: "symbol_table \<Rightarrow> nat" where
  "st_size t = length (st_entries t)"

definition st_ok :: "symbol_table \<Rightarrow> bool" where
  "st_ok t \<longleftrightarrow> distinct (map sr_hierarchicalPath (st_entries t)) \<and>
     (\<forall>path p. st_indexMap t path = Some p \<longleftrightarrow>
        p < length (st_entries t) \<and> sr_hierarchicalPath (st_entries t ! p) = path)"

lemma st_ok_new: "st_ok st_new"
  by (simp add: st_ok_def st_new_def)

lemma intern_ok: "st_ok t \<Longrightarrow> st_ok (snd (intern name path loc t))"
proof -
  assume t: "st_ok t"
  show "st_ok (snd (intern name path loc t))"
  proof (cases "st_indexMap t path")
    case None
    then have old: "i < length (st_entries t) \<Longrightarrow> sr_hierarchicalPath (st_entries t ! i) \<noteq> path" for i
      using t unfolding st_ok_def by (metis option.distinct(1))
    then have "path \<notin> set (map sr_hierarchicalPath (st_entries t))"
      by (metis in_set_conv_nth length_map nth_map)
    then show ?thesis
      using t old None by (auto simp: intern_def Let_def st_ok_def nth_append less_Suc_eq)
  qed (simp add: intern_def t)
qed

lemma intern_path:
  assumes "st_ok t"
  shows "fst (intern name path loc t) < length (st_entries (snd (intern name path loc t)))"
    and "sr_hierarchicalPath (st_entries (snd (intern name path loc t)) ! fst (intern name path loc t)) = path"
    and "p < length (st_entries t) \<Longrightarrow> st_entries (snd (intern name path loc t)) ! p = st_entries t ! p"
    and "length (st_entries t) \<le> length (st_entries (snd (intern name path loc t)))"
  using assms by (auto simp: intern_def Let_def st_ok_def nth_append split: option.splits)

section \<open>Nodes\<close>

datatype node_kind = KNone | KPort | KVariable | KAssignment | KConditional | KCase | KMerge | KState | KConstant

fun kind_toString :: "node_kind \<Rightarrow> string" where
  "kind_toString KNone = ''none''"
| "kind_toString KPort = ''port''"
| "kind_toString KVariable = ''variable''"
| "kind_toString KAssignment = ''assignment''"
| "kind_toString KConditional = ''conditional''"
| "kind_toString KCase = ''case''"
| "kind_toString KMerge = ''merge''"
| "kind_toString KState = ''state''"
| "kind_toString KConstant = ''constant''"

text \<open>slang's \<open>ArgumentDirection\<close> and \<open>EdgeKind\<close>, by the names the code uses.\<close>

datatype arg_direction = DirIn | DirOut | DirInOut | DirRef
datatype edge_kind = EdgeNone | PosEdge | NegEdge | BothEdges

text \<open>The subclasses of \<open>NetlistNode\<close> with their members, and a plain node of kind \<open>None\<close>.\<close>

datatype 'c node_data =
  Port (nd_name: string) (nd_path: string) (nd_loc: text_location) (nd_dir: arg_direction) (nd_bounds: bit_range)
| Variable (nd_name: string) (nd_path: string) (nd_loc: text_location) (nd_bounds: bit_range)
| State (nd_name: string) (nd_path: string) (nd_loc: text_location) (nd_bounds: bit_range)
| Assignment (nd_loc: text_location)
| Conditional (nd_loc: text_location)
| Case (nd_loc: text_location)
| Merge
| Constant (nd_value: 'c) (nd_width: nat) (nd_loc: text_location)
| NoneNode

record 'c netlist_node =
  ID :: nat
  node_data :: "'c node_data"

fun data_kind :: "'c node_data \<Rightarrow> node_kind" where
  "data_kind (Port _ _ _ _ _) = KPort"
| "data_kind (Variable _ _ _ _) = KVariable"
| "data_kind (State _ _ _ _) = KState"
| "data_kind (Assignment _) = KAssignment"
| "data_kind (Conditional _) = KConditional"
| "data_kind (Case _) = KCase"
| "data_kind Merge = KMerge"
| "data_kind (Constant _ _ _) = KConstant"
| "data_kind NoneNode = KNone"

definition node_kind_of :: "'c netlist_node \<Rightarrow> node_kind" where
  "node_kind_of n = data_kind (node_data n)"

fun getHierarchicalPath :: "'c node_data \<Rightarrow> string option" where
  "getHierarchicalPath (Port _ p _ _ _) = Some p"
| "getHierarchicalPath (Variable _ p _ _) = Some p"
| "getHierarchicalPath (State _ p _ _) = Some p"
| "getHierarchicalPath _ = None"

fun getBounds :: "'c node_data \<Rightarrow> bit_range option" where
  "getBounds (Port _ _ _ _ b) = Some b"
| "getBounds (Variable _ _ _ b) = Some b"
| "getBounds (State _ _ _ b) = Some b"
| "getBounds _ = None"

fun getLocation :: "'c node_data \<Rightarrow> text_location option" where
  "getLocation (Port _ _ l _ _) = Some l"
| "getLocation (Variable _ _ l _) = Some l"
| "getLocation (State _ _ l _) = Some l"
| "getLocation (Assignment l) = Some l"
| "getLocation (Conditional l) = Some l"
| "getLocation (Case l) = Some l"
| "getLocation Merge = None"
| "getLocation (Constant _ _ l) = Some l"
| "getLocation NoneNode = None"

fun isInput :: "'c node_data \<Rightarrow> bool" where
  "isInput (Port _ _ _ d _) = (d = DirIn)"
| "isInput _ = False"

fun isOutput :: "'c node_data \<Rightarrow> bool" where
  "isOutput (Port _ _ _ d _) = (d = DirOut)"
| "isOutput _ = False"

section \<open>Edges\<close>

datatype dependency_role = Data | Control | Index | Address | Event | Clock | Reset | PortConnection | RoleUnknown
datatype dependency_precision = Exact | Range | Signal | PrecisionUnknown

fun role_toString :: "dependency_role \<Rightarrow> string" where
  "role_toString Data = ''data''"
| "role_toString Control = ''control''"
| "role_toString Index = ''index''"
| "role_toString Address = ''address''"
| "role_toString Event = ''event''"
| "role_toString Clock = ''clock''"
| "role_toString Reset = ''reset''"
| "role_toString PortConnection = ''port_connection''"
| "role_toString RoleUnknown = ''unknown''"

fun precision_toString :: "dependency_precision \<Rightarrow> string" where
  "precision_toString Exact = ''exact''"
| "precision_toString Range = ''range''"
| "precision_toString Signal = ''signal''"
| "precision_toString PrecisionUnknown = ''unknown''"

text \<open>What a \<open>NetlistEdge\<close> adds to its end points; the symbol is a pointer into the symbol table.\<close>

record edge_info =
  edgeKind :: edge_kind
  role :: dependency_role
  precision :: dependency_precision
  symbol :: "nat option"
  bounds :: bit_range
  disabled :: bool

definition new_edge :: edge_info where
  "new_edge =
     \<lparr>edgeKind = EdgeNone, role = Data, precision = Range, symbol = None, bounds = mk_range 0 0, disabled = False\<rparr>"

definition setEdgeKind :: "edge_kind \<Rightarrow> edge_info \<Rightarrow> edge_info" where
  "setEdgeKind k e = e\<lparr>edgeKind := k\<rparr>"

definition setSemantics :: "dependency_role \<Rightarrow> dependency_precision \<Rightarrow> edge_info \<Rightarrow> edge_info" where
  "setSemantics r p e = e\<lparr>role := r, precision := p\<rparr>"

definition setVariable :: "range_lib \<Rightarrow> nat option \<Rightarrow> bit_range \<Rightarrow> edge_info \<Rightarrow> (bool \<times> edge_info) option" where
  "setVariable R s newBounds e =
     (if symbol e \<noteq> None \<and> symbol e = s then
        if isContiguousWith R (bounds e) newBounds
        then map_option (\<lambda>u. (True, e\<lparr>bounds := u\<rparr>)) (unionWith R (bounds e) newBounds)
        else Some (False, e)
      else Some (True, e\<lparr>symbol := s, bounds := newBounds\<rparr>))"

definition hasSymbol :: "edge_info \<Rightarrow> bool" where
  "hasSymbol e = (symbol e \<noteq> None)"

definition disable :: "edge_info \<Rightarrow> edge_info" where
  "disable e = e\<lparr>disabled := True\<rparr>"

section \<open>The graph object\<close>

type_synonym 'c ngraph = "('c netlist_node, edge_info) digraph"

record 'c netlist =
  dg :: "'c ngraph"
  fileTable :: file_table
  symbolTable :: symbol_table
  blackBoxPaths :: "string list"
  nodeIndex :: "(string \<times> nat list) list option"
  artifactId :: string

text \<open>Members of the node and edge objects behind a pointer.\<close>

definition ndata :: "'c ngraph \<Rightarrow> nat \<Rightarrow> 'c node_data" where
  "ndata g n = node_data (the (nodeAt g n))"

definition nID :: "'c ngraph \<Rightarrow> nat \<Rightarrow> nat" where
  "nID g n = ID (the (nodeAt g n))"

definition nkind :: "'c ngraph \<Rightarrow> nat \<Rightarrow> node_kind" where
  "nkind g n = data_kind (ndata g n)"

definition einfo :: "('n, edge_info) digraph \<Rightarrow> nat \<Rightarrow> edge_info" where
  "einfo g e = elabel (the (edgeAt g e))"

definition set_einfo :: "nat \<Rightarrow> edge_info \<Rightarrow> ('n, edge_info) digraph \<Rightarrow> ('n, edge_info) digraph" where
  "set_einfo e i g =
     (case edgeAt g e of None \<Rightarrow> g | Some d \<Rightarrow> g\<lparr>edgeAt := (edgeAt g)(e \<mapsto> d\<lparr>elabel := i\<rparr>)\<rparr>)"

definition symbol_path :: "'c netlist \<Rightarrow> nat \<Rightarrow> string option" where
  "symbol_path N e =
     map_option (\<lambda>p. sr_hierarchicalPath (st_entries (symbolTable N) ! p)) (symbol (einfo (dg N) e))"

text \<open>\<open>Port::isDriven\<close>.\<close>

definition isDriven :: "'c ngraph \<Rightarrow> nat \<Rightarrow> bool" where
  "isDriven g n = (node_inDegree g n > 0)"

definition netlist_addEdge :: "nat \<Rightarrow> nat \<Rightarrow> 'c netlist \<Rightarrow> nat \<times> 'c netlist" where
  "netlist_addEdge s t N = (let r = node_addEdge new_edge s t (dg N) in (fst r, N\<lparr>dg := snd r\<rparr>))"

definition addBlackBoxPath :: "string \<Rightarrow> 'c netlist \<Rightarrow> 'c netlist" where
  "addBlackBoxPath p N = N\<lparr>blackBoxPaths := blackBoxPaths N @ [p]\<rparr>"

definition setArtifactId :: "string \<Rightarrow> 'c netlist \<Rightarrow> 'c netlist" where
  "setArtifactId i N = N\<lparr>artifactId := i\<rparr>"

section \<open>Properties\<close>

text \<open>
  \<open>setVariable\<close> on an edge that carries the same symbol widens its range to the union when the two
  ranges touch or overlap, and otherwise fails and leaves the edge alone; on an edge with no symbol or
  another one it replaces the annotation. It never fails its own assertion.
\<close>

theorem setVariable_widens:
  assumes "constant_range R"
  shows "\<exists>ok e'. setVariable R (Some s) nb e = Some (ok, e') \<and>
     (if symbol e \<noteq> Some s then ok \<and> e' = e\<lparr>symbol := Some s, bounds := nb\<rparr>
      else if isContiguousWith R (bounds e) nb
      then ok \<and> symbol e' = Some s \<and> bits_of R (bounds e') = bits_of R (bounds e) \<union> bits_of R nb
      else \<not> ok \<and> e' = e)"
proof (cases "symbol e = Some s \<and> isContiguousWith R (bounds e) nb")
  case True
  then obtain u where u: "unionWith R (bounds e) nb = Some u"
    by (simp add: unionWith_def)
  then show ?thesis
    using True constant_range.unionWith_bits [OF assms u]
    by (intro exI [of _ True] exI [of _ "e\<lparr>bounds := u\<rparr>"]) (simp add: setVariable_def)
qed (auto simp: setVariable_def)

theorem setVariable_widens_witness:
  "\<exists>e'. setVariable std_range (Some 3) (mk_range 7 4) (new_edge\<lparr>symbol := Some 3, bounds := mk_range 3 0\<rparr>) = Some (True, e') \<and>
     bits_of std_range (bounds e') = {0..7}"
proof -
  have "isContiguousWith std_range (mk_range 3 0) (mk_range 7 4)"
    by (simp add: isContiguousWith_def std_range_def)
  moreover have "bits_of std_range (mk_range 3 0) \<union> bits_of std_range (mk_range 7 4) = {0..7}"
    by (auto simp: bits_of_def std_range_def)
  ultimately show ?thesis
    using setVariable_widens [OF std.constant_range_axioms, of 3 "mk_range 7 4" "new_edge\<lparr>symbol := Some 3, bounds := mk_range 3 0\<rparr>"]
    by auto
qed

text \<open>
  Interning is by path: the file table returns the same index for the same name, that index reads the
  name back, earlier indices keep their names, and no name is stored twice; likewise the symbol table with
  hierarchical paths.
\<close>

theorem tables_intern:
  assumes "ft_ok ft" and "st_ok sy"
  shows "ft_ok (snd (addFile name ft)) \<and>
     getFilename (snd (addFile name ft)) (Some (fst (addFile name ft))) = Some name \<and>
     fst (addFile name (snd (addFile name ft))) = fst (addFile name ft) \<and>
     st_ok (snd (intern nm path loc sy)) \<and>
     sr_hierarchicalPath (st_entries (snd (intern nm path loc sy)) ! fst (intern nm path loc sy)) = path \<and>
     fst (intern nm' path loc' (snd (intern nm path loc sy))) = fst (intern nm path loc sy)"
  using addFile_ok [OF assms(1)] addFile_get [OF assms(1)] intern_ok [OF assms(2)] intern_path [OF assms(2)]
  by (auto simp: intern_def Let_def split: option.splits)

theorem tables_intern_witness:
  "fst (intern ''b'' ''top.a'' no_location (snd (intern ''a'' ''top.a'' no_location st_new)))
     = fst (intern ''a'' ''top.a'' no_location st_new)"
  using tables_intern [OF ft_ok_new st_ok_new, of "''f''" "''a''" "''top.a''" no_location "''b''" no_location] by simp

end
