(* ===== verification/BitSlices.thy ===== *)
theory BitSlices
  imports Prelude
begin

text \<open>
  Bit slices, \<^verbatim>\<open>source/BitSlice.hpp\<close>, \<^verbatim>\<open>source/BitSliceList.cpp/.hpp\<close> and \<^verbatim>\<open>source/CutRegistry.hpp\<close>: an
  expression is decomposed into a list of slices, each with the sources of its bits, and two lists of the same
  width are aligned on common cut points.

  Expressions are slang's. The model takes an expression as the tree the code walks, each node with the answers of
  the accessors the code calls there: the selectable width and the flags of its type, and what its evaluation
  gives (an integer with its bit width, if it is constant). A value path is given by its root symbol and its bounds.
  Bit offsets are \<open>uint64_t\<close> in the code; widths of SystemVerilog values stay far below \<open>2 ^ 64\<close>, so they are \<open>nat\<close>.
\<close>

section \<open>Expressions\<close>

record 'v expr_info =
  x_id :: nat
  x_width :: nat
  x_integral :: bool
  x_signed :: bool
  x_const :: "('v \<times> nat) option"

record value_path =
  vp_expr :: nat
  rootSymbol :: "nat option"
  lspBounds :: "nat \<times> nat"

record cond_entry =
  cond_expr :: nat
  has_pattern :: bool

text \<open>
  The kinds that \<open>buildInto\<close> tells apart: the five kinds of static prefixes, concatenation (operands most
  significant first), replication (with the count if it evaluates to an integer), conversion, the conditional
  operator, and the rest.
\<close>

datatype 'v expr =
  LspExpr "'v expr_info" value_path
| Concatenation "'v expr_info" "'v expr list"
| Replication "'v expr_info" "int option" "'v expr"
| Conversion "'v expr_info" "'v expr"
| ConditionalOp "'v expr_info" "cond_entry list" "'v expr" "'v expr"
| OtherExpr "'v expr_info"

fun info :: "'v expr \<Rightarrow> 'v expr_info" where
  "info (LspExpr i _) = i"
| "info (Concatenation i _) = i"
| "info (Replication i _ _) = i"
| "info (Conversion i _) = i"
| "info (ConditionalOp i _ _ _) = i"
| "info (OtherExpr i) = i"

definition exprWidth :: "'v expr \<Rightarrow> nat" where
  "exprWidth e = x_width (info e)"

section \<open>Sources and slices\<close>

datatype source_kind = SrcLsp | SrcPadding | SrcOpaque | SrcPortNode | SrcConstant

record 'v bit_slice_source =
  src_kind :: source_kind
  src_path :: "value_path option"
  opaqueExpr :: "nat option"
  portNode :: "nat option"
  padIsSignExtension :: bool
  constantValue :: "'v option"
  constantExpr :: "nat option"
  srcLo :: nat
  srcHi :: nat

definition new_source :: "'v bit_slice_source" where
  "new_source = \<lparr>src_kind = SrcOpaque, src_path = None, opaqueExpr = None, portNode = None,
     padIsSignExtension = False, constantValue = None, constantExpr = None, srcLo = 0, srcHi = 0\<rparr>"

definition makeLsp :: "value_path \<Rightarrow> nat \<Rightarrow> nat \<Rightarrow> 'v bit_slice_source" where
  "makeLsp p lo hi = new_source\<lparr>src_kind := SrcLsp, src_path := Some p, srcLo := lo, srcHi := hi\<rparr>"

definition makeOpaque :: "nat \<Rightarrow> 'v bit_slice_source" where
  "makeOpaque e = new_source\<lparr>src_kind := SrcOpaque, opaqueExpr := Some e\<rparr>"

definition makePadding :: "bool \<Rightarrow> 'v bit_slice_source" where
  "makePadding signExt = new_source\<lparr>src_kind := SrcPadding, padIsSignExtension := signExt\<rparr>"

definition makePortNode :: "nat \<Rightarrow> nat \<Rightarrow> nat \<Rightarrow> 'v bit_slice_source" where
  "makePortNode n lo hi = new_source\<lparr>src_kind := SrcPortNode, portNode := Some n, srcLo := lo, srcHi := hi\<rparr>"

definition makeConstant :: "'v \<Rightarrow> nat \<Rightarrow> nat \<Rightarrow> nat option \<Rightarrow> 'v bit_slice_source" where
  "makeConstant v lo hi e =
     new_source\<lparr>src_kind := SrcConstant, constantValue := Some v, srcLo := lo, srcHi := hi, constantExpr := e\<rparr>"

record 'v bit_slice =
  concatLo :: nat
  concatHi :: nat
  sources :: "'v bit_slice_source list"

type_synonym 'v slice_list = "'v bit_slice list"

section \<open>The cut registry\<close>

text \<open>
  Cut points per symbol, strictly increasing. \<open>std::sort\<close>, \<open>std::unique\<close> and \<open>erase\<close> give the sorted list
  without adjacent repetitions. The symbol's width is slang's.
\<close>

type_synonym cut_registry = "nat \<rightharpoonup> nat list"

definition sort_unique :: "nat list \<Rightarrow> nat list" where
  "sort_unique xs = remdups_adj (sort xs)"

definition cuts_of :: "cut_registry \<Rightarrow> nat \<Rightarrow> nat list" where
  "cuts_of reg s = (case reg s of None \<Rightarrow> [] | Some l \<Rightarrow> l)"

definition addCuts :: "(nat \<Rightarrow> nat) \<Rightarrow> nat \<Rightarrow> nat list \<Rightarrow> cut_registry \<Rightarrow> cut_registry" where
  "addCuts symbolWidth s cuts reg =
     (if cuts = [] then reg
      else reg(s \<mapsto> sort_unique (cuts_of reg s @ filter (\<lambda>c. c > 0 \<and> c < symbolWidth s) cuts)))"

definition cutsFor :: "cut_registry \<Rightarrow> nat \<Rightarrow> nat list option" where
  "cutsFor reg s = reg s"

section \<open>Building a list\<close>

definition slices_width :: "'v slice_list \<Rightarrow> nat" where
  "slices_width l = (if l = [] then 0 else concatHi (last l))"

definition pushOpaque :: "'v expr \<Rightarrow> 'v slice_list \<Rightarrow> 'v slice_list" where
  "pushOpaque e l =
     (let w = exprWidth e; lo = slices_width l
      in if w = 0 then l
         else l @ [\<lparr>concatLo = lo, concatHi = lo + w, sources = [makeOpaque (x_id (info e))]\<rparr>])"

text \<open>The slices between consecutive cut points, the last one up to the end of the path's bounds.\<close>

fun lsp_pieces :: "value_path \<Rightarrow> nat \<Rightarrow> nat \<Rightarrow> nat \<Rightarrow> nat list \<Rightarrow> 'v slice_list" where
  "lsp_pieces p lo lspLo prev [] = []"
| "lsp_pieces p lo lspLo prev (c # cs) =
     \<lparr>concatLo = lo + (prev - lspLo), concatHi = lo + (c - lspLo),
      sources = [makeLsp p lo (lo + (snd (lspBounds p) + 1 - lspLo))]\<rparr> # lsp_pieces p lo lspLo c cs"

text \<open>
  \<open>std::upper_bound\<close> and \<open>std::lower_bound\<close> on the sorted hints: the hints strictly between the bounds.
\<close>

definition hints_between :: "nat \<Rightarrow> nat \<Rightarrow> nat list \<Rightarrow> nat list" where
  "hints_between lo hi hints = takeWhile (\<lambda>c. c < hi) (dropWhile (\<lambda>c. c \<le> lo) hints)"

definition pushLsp :: "cut_registry option \<Rightarrow> 'v expr \<Rightarrow> value_path \<Rightarrow> 'v slice_list \<Rightarrow> 'v slice_list" where
  "pushLsp cuts e p l =
     (let w = exprWidth e; lo = slices_width l;
          hints = (case cuts of None \<Rightarrow> None | Some reg \<Rightarrow> Option.bind (rootSymbol p) (cutsFor reg));
          lspLo = fst (lspBounds p); lspHi = snd (lspBounds p) + 1;
          inside = (case hints of None \<Rightarrow> [] | Some h \<Rightarrow> hints_between lspLo lspHi h)
      in if w = 0 then l
         else if inside \<noteq> [] then l @ lsp_pieces p lo lspLo lspLo (inside @ [lspHi])
         else l @ [\<lparr>concatLo = lo, concatHi = lo + w, sources = [makeLsp p lo (lo + w)]\<rparr>])"

definition pushPaddingSlice :: "'v bit_slice \<Rightarrow> 'v slice_list \<Rightarrow> 'v slice_list" where
  "pushPaddingSlice s l = l @ [s]"

definition pushConstant :: "'v \<Rightarrow> 'v expr \<Rightarrow> 'v slice_list \<Rightarrow> 'v slice_list" where
  "pushConstant v e l =
     (let w = exprWidth e; lo = slices_width l
      in if w = 0 then l
         else l @ [\<lparr>concatLo = lo, concatHi = lo + w, sources = [makeConstant v lo (lo + w) (Some (x_id (info e)))]\<rparr>])"

section \<open>Cut points\<close>

definition collectCuts :: "'v slice_list \<Rightarrow> nat list" where
  "collectCuts l = 0 # map concatHi l"

definition mergeCuts :: "nat list \<Rightarrow> nat list \<Rightarrow> nat list" where
  "mergeCuts a b = sort_unique (a @ b)"

definition findSliceContaining :: "'v slice_list \<Rightarrow> nat \<Rightarrow> 'v bit_slice option" where
  "findSliceContaining l b = List.find (\<lambda>s. b \<ge> concatLo s \<and> b < concatHi s) l"

definition sources_at :: "'v slice_list \<Rightarrow> nat \<Rightarrow> 'v bit_slice_source list" where
  "sources_at l b = (case findSliceContaining l b of None \<Rightarrow> [] | Some s \<Rightarrow> sources s)"

text \<open>Consecutive pairs of a list, the segments of a cut grid.\<close>

fun grid :: "nat list \<Rightarrow> (nat \<times> nat) list" where
  "grid (a # b # cs) = (a, b) # grid (b # cs)"
| "grid _ = []"

section \<open>Decomposition\<close>

text \<open>The value of a constant expression when it is usable as a slice: of integral type and of the expression's width.\<close>

definition folded :: "'v expr \<Rightarrow> 'v option" where
  "folded e =
     (if x_integral (info e)
      then (case x_const (info e) of None \<Rightarrow> None | Some (v, bw) \<Rightarrow> if bw = exprWidth e then Some v else None)
      else None)"

definition translate :: "nat \<Rightarrow> 'v bit_slice_source \<Rightarrow> 'v bit_slice_source" where
  "translate base s =
     (if src_kind s = SrcLsp \<or> src_kind s = SrcPortNode \<or> src_kind s = SrcConstant
      then s\<lparr>srcLo := srcLo s + base, srcHi := srcHi s + base\<rparr> else s)"

definition unify_arms :: "'v slice_list \<Rightarrow> 'v slice_list \<Rightarrow> nat \<Rightarrow> 'v slice_list \<Rightarrow> 'v slice_list" where
  "unify_arms l r condExpr out =
     (let base = slices_width out
      in fold (\<lambda>(a, b). pushPaddingSlice
             \<lparr>concatLo = base + a, concatHi = base + b,
              sources = map (translate base) (sources_at l a) @ map (translate base) (sources_at r a) @ [makeOpaque condExpr]\<rparr>)
           (grid (mergeCuts (collectCuts l) (collectCuts r))) out)"

definition pad_slice :: "(nat \<Rightarrow> 'v) \<Rightarrow> bool \<Rightarrow> nat \<Rightarrow> nat \<Rightarrow> 'v bit_slice" where
  "pad_slice zero signExt lo padWidth =
     \<lparr>concatLo = lo, concatHi = lo + padWidth,
      sources = [if signExt then makePadding signExt else makeConstant (zero padWidth) lo (lo + padWidth) None]\<rparr>"

text \<open>A replication count that does not evaluate to an integer, or to one that does not fit \<open>int64_t\<close>.\<close>

definition count_of :: "int option \<Rightarrow> int option" where
  "count_of c = (case c of None \<Rightarrow> None | Some n \<Rightarrow> if - (2 ^ 63) \<le> n \<and> n < 2 ^ 63 then Some n else None)"

text \<open>The zero of a given bit width is slang's \<open>SVInt\<close>, a parameter.\<close>

fun buildInto :: "(nat \<Rightarrow> 'v) \<Rightarrow> cut_registry option \<Rightarrow> 'v expr \<Rightarrow> 'v slice_list \<Rightarrow> 'v slice_list" where
  "buildInto zero cuts (LspExpr i p) out = pushLsp cuts (LspExpr i p) p out"
| "buildInto zero cuts (Concatenation i es) out = fold (\<lambda>e. buildInto zero cuts e) (rev es) out"
| "buildInto zero cuts (Replication i c e) out =
     (case count_of c of
        None \<Rightarrow> pushOpaque (Replication i c e) out
      | Some n \<Rightarrow> if n \<le> 0 then out else (buildInto zero cuts e ^^ nat n) out)"
| "buildInto zero cuts (Conversion i e) out =
     (let outer = x_width i; inner = exprWidth e
      in case folded (Conversion i e) of
           Some v \<Rightarrow> pushConstant v (Conversion i e) out
         | None \<Rightarrow>
             if outer = inner then buildInto zero cuts e out
             else if outer > inner
             then (let out' = buildInto zero cuts e out
                   in pushPaddingSlice
                        (pad_slice zero (x_signed (info e) \<and> x_signed i) (slices_width out') (outer - inner)) out')
             else pushOpaque (Conversion i e) out)"
| "buildInto zero cuts (ConditionalOp i conds l r) out =
     (if exprWidth l \<noteq> exprWidth r \<or> exprWidth l \<noteq> x_width i then pushOpaque (ConditionalOp i conds l r) out
      else case conds of
             [c] \<Rightarrow>
               if has_pattern c then pushOpaque (ConditionalOp i conds l r) out
               else (let ls = buildInto zero cuts l []; rs = buildInto zero cuts r []
                     in if slices_width ls \<noteq> slices_width rs then pushOpaque (ConditionalOp i conds l r) out
                        else unify_arms ls rs (cond_expr c) out)
           | _ \<Rightarrow> pushOpaque (ConditionalOp i conds l r) out)"
| "buildInto zero cuts (OtherExpr i) out =
     (case folded (OtherExpr i) of
        Some v \<Rightarrow> pushConstant v (OtherExpr i) out
      | None \<Rightarrow> pushOpaque (OtherExpr i) out)"

definition build :: "(nat \<Rightarrow> 'v) \<Rightarrow> bool \<Rightarrow> cut_registry option \<Rightarrow> 'v expr \<Rightarrow> 'v slice_list" where
  "build zero enabled cuts e = (if \<not> enabled then pushOpaque e [] else buildInto zero cuts e [])"

section \<open>Aligning two lists\<close>

record 'v segment =
  seg_lo :: nat
  seg_hi :: nat
  lhsSources :: "'v bit_slice_source list"
  rhsSources :: "'v bit_slice_source list"

definition segment_width :: "'v segment \<Rightarrow> nat" where
  "segment_width s = seg_hi s - seg_lo s"

text \<open>The lists must have the same width: the assertion.\<close>

definition alignSegments :: "'v slice_list \<Rightarrow> 'v slice_list \<Rightarrow> 'v segment list option" where
  "alignSegments lhs rhs =
     require (slices_width lhs = slices_width rhs)
       (Some (map (\<lambda>(a, b). \<lparr>seg_lo = a, seg_hi = b, lhsSources = sources_at lhs a, rhsSources = sources_at rhs a\<rparr>)
          (grid (mergeCuts (collectCuts lhs) (collectCuts rhs)))))"

end
