(* ===== verification/Wildcard.thy ===== *)
theory Wildcard
  imports Prelude
begin

text \<open>
  Glob matching of hierarchical names, \<^verbatim>\<open>include/common/Wildcard.hpp\<close>. The C strings of the code are
  character lists; reading the terminating NUL is reaching the end of the list. The reference is a
  declarative one: a pattern is parsed into tokens and each token has a language.
\<close>

section \<open>Model\<close>

text \<open>The three scanning loops, each calling the matcher \<open>m\<close> on the rest of the pattern.\<close>

primrec scan_boundary :: "(string \<Rightarrow> bool) \<Rightarrow> string \<Rightarrow> bool" where
  "scan_boundary m [] = False"
| "scan_boundary m (c # cs) = ((c = CHR ''.'' \<and> m cs) \<or> scan_boundary m cs)"

primrec scan_any :: "(string \<Rightarrow> bool) \<Rightarrow> string \<Rightarrow> bool" where
  "scan_any m [] = m []"
| "scan_any m (c # cs) = (m (c # cs) \<or> scan_any m cs)"

primrec scan_segment :: "(string \<Rightarrow> bool) \<Rightarrow> string \<Rightarrow> bool" where
  "scan_segment m [] = m []"
| "scan_segment m (c # cs) = (m (c # cs) \<or> (c \<noteq> CHR ''.'' \<and> scan_segment m cs))"

text \<open>Length of the recursive wildcard that starts here: 2 for \<open>**\<close>, 3 for \<open>...\<close>, else 0.\<close>

definition recur_len :: "string \<Rightarrow> nat" where
  "recur_len p = (if take 2 p = ''**'' then 2 else if take 3 p = ''...'' then 3 else 0)"

definition starts_dot :: "string \<Rightarrow> bool" where
  "starts_dot s = (take 1 s = ''.'')"

definition has_lead :: "string \<Rightarrow> bool" where
  "has_lead pattern = (starts_dot pattern \<and> recur_len (tl pattern) \<noteq> 0)"

definition after_recur :: "string \<Rightarrow> string" where
  "after_recur pattern =
     (let p = (if has_lead pattern then tl pattern else pattern) in drop (recur_len p) p)"

definition rest_of :: "string \<Rightarrow> string" where
  "rest_of pattern =
     (let after = after_recur pattern in if starts_dot after then tl after else after)"

definition is_recursive :: "string \<Rightarrow> bool" where
  "is_recursive pattern = (has_lead pattern \<or> recur_len pattern \<noteq> 0)"

lemma scan_cong [fundef_cong]:
  "text = text' \<Longrightarrow> (\<And>s. m s = m' s) \<Longrightarrow> scan_boundary m text = scan_boundary m' text'"
  "text = text' \<Longrightarrow> (\<And>s. m s = m' s) \<Longrightarrow> scan_any m text = scan_any m' text'"
  "text = text' \<Longrightarrow> (\<And>s. m s = m' s) \<Longrightarrow> scan_segment m text = scan_segment m' text'"
  by (simp_all add: ext [of m m'])

lemma rest_of_shorter: "is_recursive pattern \<Longrightarrow> length (rest_of pattern) < length pattern"
  by (cases pattern)
    (auto simp: is_recursive_def rest_of_def after_recur_def has_lead_def recur_len_def starts_dot_def Let_def
      split: if_splits)

lemma rest_of_Cons: "is_recursive (c # cs) \<Longrightarrow> length (rest_of (c # cs)) < Suc (length cs)"
  using rest_of_shorter by fastforce

function wildcardMatch :: "string \<Rightarrow> string \<Rightarrow> bool" where
  "wildcardMatch text [] = (text = [])"
| "wildcardMatch text (c # cs) =
     (if is_recursive (c # cs) then
        let rest = rest_of (c # cs);
            hasLead = has_lead (c # cs);
            hasTrail = starts_dot (after_recur (c # cs))
        in if hasLead \<and> hasTrail then
             starts_dot text \<and>
               (wildcardMatch (tl text) rest \<or> scan_boundary (\<lambda>s. wildcardMatch s rest) (tl text))
           else if hasLead then
             wildcardMatch text rest \<or>
               (starts_dot text \<and> scan_any (\<lambda>s. wildcardMatch s rest) (tl text))
           else if hasTrail then
             wildcardMatch text rest \<or> scan_boundary (\<lambda>s. wildcardMatch s rest) text
           else scan_any (\<lambda>s. wildcardMatch s rest) text
      else if c = CHR ''*'' then scan_segment (\<lambda>s. wildcardMatch s cs) text
      else if c = CHR ''?'' then
        text \<noteq> [] \<and> hd text \<noteq> CHR ''.'' \<and> wildcardMatch (tl text) cs
      else text \<noteq> [] \<and> hd text = c \<and> wildcardMatch (tl text) cs)"
  by pat_completeness auto
termination
  by (relation "measure (\<lambda>(text, pattern). length pattern)") (auto simp: rest_of_Cons)

declare wildcardMatch.simps(2) [simp del]

definition pathInScope :: "string \<Rightarrow> string \<Rightarrow> bool" where
  "pathInScope path scope =
     (if length path < length scope \<or> take (length scope) path \<noteq> scope then False
      else length path = length scope \<or> path ! length scope = CHR ''.'')"

section \<open>Reference: tokens and their languages\<close>

text \<open>In order: \<open>.**.\<close>, \<open>.**\<close>, \<open>**.\<close>, \<open>**\<close> (or \<open>...\<close> in its place), \<open>*\<close>, \<open>?\<close>, any other character.\<close>

datatype glob = Boundary | BelowHere | AboveHere | Anything | InSegment | OneChar | Literal char

function globs :: "string \<Rightarrow> glob list" where
  "globs [] = []"
| "globs (c # cs) =
     (if is_recursive (c # cs) then
        (if has_lead (c # cs) then if starts_dot (after_recur (c # cs)) then Boundary else BelowHere
         else if starts_dot (after_recur (c # cs)) then AboveHere else Anything)
        # globs (rest_of (c # cs))
      else (if c = CHR ''*'' then InSegment else if c = CHR ''?'' then OneChar else Literal c) # globs cs)"
  by pat_completeness auto
termination
  by (relation "measure length") (auto simp: rest_of_Cons)

fun glob_lang :: "glob \<Rightarrow> string set" where
  "glob_lang Boundary = {''.''} \<union> {''.'' @ x @ ''.'' | x. True}"
| "glob_lang BelowHere = {''''} \<union> {''.'' @ x | x. True}"
| "glob_lang AboveHere = {''''} \<union> {x @ ''.'' | x. True}"
| "glob_lang Anything = UNIV"
| "glob_lang InSegment = {x. CHR ''.'' \<notin> set x}"
| "glob_lang OneChar = {[c] | c. c \<noteq> CHR ''.''}"
| "glob_lang (Literal c) = {[c]}"

fun lang :: "glob list \<Rightarrow> string set" where
  "lang [] = {[]}"
| "lang (g # gs) = {u @ v | u v. u \<in> glob_lang g \<and> v \<in> lang gs}"

section \<open>The matcher decides the reference\<close>

lemma scan_boundary_iff: "scan_boundary m text \<longleftrightarrow> (\<exists>u v. text = u @ CHR ''.'' # v \<and> m v)"
  by (induction "text") (auto simp: Cons_eq_append_conv)

lemma scan_any_iff: "scan_any m text \<longleftrightarrow> (\<exists>u v. text = u @ v \<and> m v)"
  by (induction "text") (auto simp: Cons_eq_append_conv)

lemma scan_segment_iff: "scan_segment m text \<longleftrightarrow> (\<exists>u v. text = u @ v \<and> CHR ''.'' \<notin> set u \<and> m v)"
proof (induction "text")
  case (Cons c cs)
  show ?case
    unfolding scan_segment.simps Cons.IH
  proof
    assume "m (c # cs) \<or> (c \<noteq> CHR ''.'' \<and> (\<exists>u v. cs = u @ v \<and> CHR ''.'' \<notin> set u \<and> m v))"
    then show "\<exists>u v. c # cs = u @ v \<and> CHR ''.'' \<notin> set u \<and> m v"
    proof
      assume "m (c # cs)"
      then show ?thesis by (intro exI [of _ "[]"] exI [of _ "c # cs"]) simp
    next
      assume "c \<noteq> CHR ''.'' \<and> (\<exists>u v. cs = u @ v \<and> CHR ''.'' \<notin> set u \<and> m v)"
      then obtain u v where "c \<noteq> CHR ''.''" "cs = u @ v" "CHR ''.'' \<notin> set u" "m v" by blast
      then show ?thesis by (intro exI [of _ "c # u"] exI [of _ v]) auto
    qed
  next
    assume "\<exists>u v. c # cs = u @ v \<and> CHR ''.'' \<notin> set u \<and> m v"
    then obtain u v where "c # cs = u @ v" "CHR ''.'' \<notin> set u" "m v" by blast
    then show "m (c # cs) \<or> (c \<noteq> CHR ''.'' \<and> (\<exists>u v. cs = u @ v \<and> CHR ''.'' \<notin> set u \<and> m v))"
      by (cases u) auto
  qed
qed simp

lemma langI: "u \<in> glob_lang g \<Longrightarrow> v \<in> lang gs \<Longrightarrow> w = u @ v \<Longrightarrow> w \<in> lang (g # gs)"
  by auto

lemma lang_Boundary: "w \<in> lang (Boundary # gs) \<longleftrightarrow>
    (\<exists>t. w = CHR ''.'' # t \<and> (t \<in> lang gs \<or> (\<exists>u v. t = u @ CHR ''.'' # v \<and> v \<in> lang gs)))"
proof
  assume "\<exists>t. w = CHR ''.'' # t \<and> (t \<in> lang gs \<or> (\<exists>u v. t = u @ CHR ''.'' # v \<and> v \<in> lang gs))"
  then consider t where "w = ''.'' @ t" "t \<in> lang gs"
    | u v where "w = (''.'' @ u @ ''.'') @ v" "v \<in> lang gs" by auto
  then show "w \<in> lang (Boundary # gs)"
  proof cases
    case (1 t) then show ?thesis by (intro langI [of "''.''" _ t]) simp_all
  next
    case (2 u v) then show ?thesis by (intro langI [of "''.'' @ u @ ''.''" _ v]) auto
  qed
qed auto

lemma lang_BelowHere: "w \<in> lang (BelowHere # gs) \<longleftrightarrow>
    w \<in> lang gs \<or> (\<exists>u v. w = CHR ''.'' # u @ v \<and> v \<in> lang gs)"
proof
  assume "w \<in> lang gs \<or> (\<exists>u v. w = CHR ''.'' # u @ v \<and> v \<in> lang gs)"
  then show "w \<in> lang (BelowHere # gs)"
  proof (elim disjE exE conjE)
    assume "w \<in> lang gs" then show ?thesis by (intro langI [of "[]" _ w]) simp_all
  next
    fix u v assume "w = CHR ''.'' # u @ v" "v \<in> lang gs"
    then show ?thesis by (intro langI [of "''.'' @ u" _ v]) auto
  qed
qed auto

lemma lang_AboveHere: "w \<in> lang (AboveHere # gs) \<longleftrightarrow>
    w \<in> lang gs \<or> (\<exists>u v. w = u @ CHR ''.'' # v \<and> v \<in> lang gs)"
proof
  assume "w \<in> lang gs \<or> (\<exists>u v. w = u @ CHR ''.'' # v \<and> v \<in> lang gs)"
  then show "w \<in> lang (AboveHere # gs)"
  proof (elim disjE exE conjE)
    assume "w \<in> lang gs" then show ?thesis by (intro langI [of "[]" _ w]) simp_all
  next
    fix u v assume "w = u @ CHR ''.'' # v" "v \<in> lang gs"
    then show ?thesis by (intro langI [of "u @ ''.''" _ v]) auto
  qed
qed auto

lemma lang_OneChar: "w \<in> lang (OneChar # gs) \<longleftrightarrow> w \<noteq> [] \<and> hd w \<noteq> CHR ''.'' \<and> tl w \<in> lang gs"
proof
  assume "w \<noteq> [] \<and> hd w \<noteq> CHR ''.'' \<and> tl w \<in> lang gs"
  then show "w \<in> lang (OneChar # gs)"
    by (intro langI [of "[hd w]" _ "tl w"]) auto
qed auto

lemma starts_dot_iff: "starts_dot s \<longleftrightarrow> (\<exists>t. s = CHR ''.'' # t)"
  by (cases s) (auto simp: starts_dot_def)

lemma match_lang: "wildcardMatch text pattern \<longleftrightarrow> text \<in> lang (globs pattern)"
proof (induction "text" pattern rule: wildcardMatch.induct)
  case (2 "text" c cs)
  note IH = 2
  note step = wildcardMatch.simps(2) [of "text" c cs] globs.simps(2) [of c cs]
  show ?case
  proof (cases "is_recursive (c # cs)")
    case True
    let ?rest = "rest_of (c # cs)"
    consider "has_lead (c # cs)" "starts_dot (after_recur (c # cs))"
      | "has_lead (c # cs)" "\<not> starts_dot (after_recur (c # cs))"
      | "\<not> has_lead (c # cs)" "starts_dot (after_recur (c # cs))"
      | "\<not> has_lead (c # cs)" "\<not> starts_dot (after_recur (c # cs))" by blast
    then show ?thesis
    proof cases
      case 1
      with True IH(1,2) [OF True refl refl refl] show ?thesis
        by (auto simp: step Let_def scan_boundary_iff starts_dot_iff lang_Boundary simp del: lang.simps)
    next
      case 2
      with True IH(3,4) [OF True refl refl refl] show ?thesis
        by (simp add: step Let_def scan_any_iff starts_dot_iff lang_BelowHere del: lang.simps) (metis list.sel(3))
    next
      case 3
      with True IH(5,6) [OF True refl refl refl] show ?thesis
        by (auto simp: step Let_def scan_boundary_iff lang_AboveHere simp del: lang.simps)
    next
      case 4
      with True IH(7) [OF True refl refl refl] show ?thesis
        by (auto simp: step Let_def scan_any_iff)
    qed
  next
    case False
    note plain = wildcardMatch.simps(2) globs.simps(2)
    consider "c = CHR ''*''" | "c = CHR ''?''" | "c \<noteq> CHR ''*''" "c \<noteq> CHR ''?''" by blast
    then show ?thesis
    proof cases
      case 1
      with False IH(8) [OF False] show ?thesis
        by (auto simp: plain scan_segment_iff)
    next
      case 2
      with False IH(9) [OF False] show ?thesis
        by (cases "text") (simp_all add: plain lang_OneChar del: lang.simps)
    next
      case 3
      with False IH(10) [OF False] show ?thesis
        by (cases "text") (auto simp: plain)
    qed
  qed
qed simp

section \<open>Properties\<close>

text \<open>
  C3. \<open>wildcardMatch\<close> accepts exactly the texts in the language of the pattern: \<open>*\<close> stands for any
  characters but \<open>.\<close>, \<open>?\<close> for one of them, \<open>**\<close> (or \<open>...\<close>) for anything, a recursive wildcard between
  two dots for one or more dots with anything between the first and the last, after a dot for nothing or
  the dot and anything, before a dot for nothing or anything up to a dot; other characters for themselves.
  Where a recursive wildcard starts and which of its two spellings it has is read as the code reads it; how the
  pieces are scanned and retried is not.
\<close>

theorem wildcardMatch_decides: "wildcardMatch t pattern \<longleftrightarrow> t \<in> lang (globs pattern)"
  by (rule match_lang)

text \<open>
  The doc comment's examples: \<open>a.**.b\<close> matches \<open>a.b\<close> and \<open>a.x.y.b\<close>, \<open>*\<close> does not cross a \<open>.\<close> and
  \<open>...\<close> does.
\<close>

theorem wildcardMatch_examples:
  "wildcardMatch ''a.b'' ''a.**.b'' \<and> wildcardMatch ''a.x.y.b'' ''a.**.b'' \<and>
   \<not> wildcardMatch ''axb'' ''a.**.b'' \<and> \<not> wildcardMatch ''a.b'' ''*'' \<and> wildcardMatch ''a.b'' ''...'' \<and>
   wildcardMatch ''top.a.b'' ''top...b'' \<and> \<not> wildcardMatch ''a.b'' ''a?b''"
  by code_simp

text \<open>
  \<open>pathInScope\<close> holds exactly when the path is the scope or the scope followed by a dot and more.
\<close>

theorem pathInScope_iff:
  "pathInScope path scope \<longleftrightarrow> path = scope \<or> (\<exists>rest. path = scope @ CHR ''.'' # rest)"
proof
  assume "pathInScope path scope"
  then have pre: "take (length scope) path = scope"
    and next_char: "length path = length scope \<or> (length scope < length path \<and> path ! length scope = CHR ''.'')"
    by (auto simp: pathInScope_def split: if_splits)
  have path: "path = scope @ drop (length scope) path"
    using pre by (metis append_take_drop_id)
  show "path = scope \<or> (\<exists>rest. path = scope @ CHR ''.'' # rest)"
  proof (cases "length path = length scope")
    case True
    then show ?thesis using path by simp
  next
    case False
    then have "drop (length scope) path = CHR ''.'' # drop (Suc (length scope)) path"
      using next_char by (metis Cons_nth_drop_Suc)
    then show ?thesis using path by metis
  qed
qed (auto simp: pathInScope_def)

end
