(* ===== verification/Builder.thy ===== *)
theory Builder
  imports ValueTracker NetlistTypes BitSlices Wildcard
begin

text \<open>
  The builder's state and helpers, \<^verbatim>\<open>source/NetlistBuilder.cpp/.hpp\<close> without its visitors, with
  \<^verbatim>\<open>VariableTracker.hpp\<close>, \<^verbatim>\<open>NodeFactory.cpp\<close>, \<^verbatim>\<open>PendingRValue.hpp\<close> and \<^verbatim>\<open>PendingRvalueQueue.cpp\<close>.

  Symbols and expressions of slang's syntax tree are named by numbers; what the code asks of them is a member of the
  environment. A reference to a netlist node is its number in the graph. An operation that can fail an assertion
  (inside \<open>setVariable\<close> or \<open>addDrivers\<close>) returns an option. An unordered set of drivers is iterated in the order of
  its list; the properties hold for every such list.
\<close>

section \<open>The environment\<close>

datatype symbol_kind = SymModportPort | SymVariable | SymOther

text \<open>A source location: none, or the file name, line and column that the source manager gives.\<close>

type_synonym source_location = "(string \<times> nat \<times> nat) option"

text \<open>
  A path that \<open>expandIndirectRefs\<close> reaches: its longest static prefix (none if the path is empty or has none), its
  root symbol, its bounds, and the paths that the prefix expands to in turn.
\<close>

datatype conn_path =
  ConnPath (cp_lsp: "nat option") (cp_root: "nat option") (cp_bounds: bit_range) (cp_next: "conn_path list")

text \<open>
  The elements of a value path: a name; a select with its selector, and whether it selects from an unpacked array; a
  range select; a member access, with its value if the member is a static class property; anything else.
\<close>

datatype path_elem =
  NamedElem
| ElementSelect nat bool
| RangeSelect nat nat
| MemberAccess "nat option"
| OtherElem nat

text \<open>The end of a value path: its longest static prefix (none if the path is empty or has none), its root and bounds.\<close>

record ref_path =
  rp_lsp :: "nat option"
  rp_root :: "nat option"
  rp_bounds :: bit_range

record slang_driver =
  sd_bounds :: "nat \<times> nat"
  isInputPort :: bool

record ('m, 'c) env =
  rlib :: range_lib
  imap :: "'m ops"
  slot_order :: "nat list \<Rightarrow> nat list"
  sym_kind :: "nat \<Rightarrow> symbol_kind"
  sym_name :: "nat \<Rightarrow> string"
  sym_path :: "nat \<Rightarrow> string"
  sym_location :: "nat \<Rightarrow> source_location"
  sym_width :: "nat \<Rightarrow> nat"
  portBackrefs :: "nat \<Rightarrow> nat list"
  expr_location :: "nat \<Rightarrow> source_location"
  conn_paths :: "nat \<Rightarrow> conn_path list"
  evaluates :: "nat \<Rightarrow> bool"
  is_automatic :: "nat \<Rightarrow> bool"
  path_elems :: "nat \<Rightarrow> path_elem list"
  path_ref :: "nat \<Rightarrow> ref_path"
  visited_paths :: "nat \<Rightarrow> ref_path list"
  const_zero :: "nat \<Rightarrow> 'c"
  const_width :: "'c \<Rightarrow> nat option"
  const_slice :: "'c \<Rightarrow> int \<Rightarrow> int \<Rightarrow> 'c"
  resolveAssignBits :: bool
  propCutsAcrossPorts :: bool
  parallel :: bool
  parallelRValueThreshold :: nat
  blackBoxes :: "string list"

section \<open>The state\<close>

record pending_rvalue =
  pr_symbol :: nat
  pr_bounds :: bit_range
  pr_lsp :: nat
  pr_node :: "nat option"
  pr_edgeKind :: edge_kind
  pr_role :: dependency_role
  pr_precision :: dependency_precision

record ('m, 'c) builder =
  bgraph :: "'c netlist"
  nextID :: nat
  symbolRefCache :: "nat \<rightharpoonup> nat"
  driverMap :: "nat value_tracker"
  drivers :: "('m, nat) driver_map list"
  variables :: "nat \<rightharpoonup> 'm"
  cutRegistry :: cut_registry
  queue :: "pending_rvalue list"
  taskBuffer :: "pending_rvalue list option"

text \<open>The constructor resets the counter of node identifiers.\<close>

definition new_builder :: "'c netlist \<Rightarrow> ('m, 'c) builder" where
  "new_builder N =
     \<lparr>bgraph = N, nextID = 1, symbolRefCache = Map.empty, driverMap = vt_new, drivers = [],
      variables = Map.empty, cutRegistry = Map.empty, queue = [], taskBuffer = None\<rparr>"

abbreviation gr :: "('m, 'c) builder \<Rightarrow> 'c ngraph" where
  "gr B \<equiv> dg (bgraph B)"

definition set_gr :: "'c ngraph \<Rightarrow> ('m, 'c) builder \<Rightarrow> ('m, 'c) builder" where
  [model_simps]: "set_gr g B = B\<lparr>bgraph := (bgraph B)\<lparr>dg := g\<rparr>\<rparr>"

text \<open>A loop whose body can fail.\<close>

primrec fold_opt :: "('a \<Rightarrow> 's \<Rightarrow> 's option) \<Rightarrow> 'a list \<Rightarrow> 's \<Rightarrow> 's option" where
  "fold_opt f [] s = Some s"
| "fold_opt f (x # xs) s = and_then (f x s) (fold_opt f xs)"

definition clearThreadLocalSymbolRefCache :: "('m, 'c) builder \<Rightarrow> ('m, 'c) builder" where
  "clearThreadLocalSymbolRefCache B = B\<lparr>symbolRefCache := Map.empty\<rparr>"

definition toTextLocation :: "source_location \<Rightarrow> ('m, 'c) builder \<Rightarrow> text_location \<times> ('m, 'c) builder" where
  "toTextLocation loc B =
     (case loc of
        None \<Rightarrow> (no_location, B)
      | Some (file, ln, col) \<Rightarrow>
          (let r = addFile file (fileTable (bgraph B))
           in (\<lparr>fileIndex = Some (fst r), line = ln, column = col\<rparr>, B\<lparr>bgraph := (bgraph B)\<lparr>fileTable := snd r\<rparr>\<rparr>)))"

definition toSymbolRef :: "('m, 'c) env \<Rightarrow> nat \<Rightarrow> ('m, 'c) builder \<Rightarrow> nat \<times> ('m, 'c) builder" where
  "toSymbolRef E sy B =
     (case symbolRefCache B sy of
        Some ref \<Rightarrow> (ref, B)
      | None \<Rightarrow>
          (let (loc, B1) = toTextLocation (sym_location E sy) B;
               r = intern (sym_name E sy) (sym_path E sy) loc (symbolTable (bgraph B1))
           in (fst r, B1\<lparr>bgraph := (bgraph B1)\<lparr>symbolTable := snd r\<rparr>,
                         symbolRefCache := (symbolRefCache B1)(sy \<mapsto> fst r)\<rparr>)))"

definition symbol_at :: "('m, 'c) builder \<Rightarrow> nat \<Rightarrow> symbol_reference" where
  "symbol_at B ref = st_entries (symbolTable (bgraph B)) ! ref"

section \<open>VariableTracker\<close>

definition variables_insert ::
  "('m, 'c) env \<Rightarrow> nat \<Rightarrow> bit_range \<Rightarrow> nat \<Rightarrow> ('m, 'c) builder \<Rightarrow> ('m, 'c) builder" where
  "variables_insert E sy bnds n B =
     B\<lparr>variables := (variables B)(sy \<mapsto>
         im_insert (imap E) (case variables B sy of None \<Rightarrow> im_empty (imap E) | Some m \<Rightarrow> m) (toPair (rlib E) bnds) n)\<rparr>"

text \<open>The node of exactly these bounds, the first one found.\<close>

definition getVariable :: "('m, 'c) env \<Rightarrow> nat \<Rightarrow> bit_range \<Rightarrow> ('m, 'c) builder \<Rightarrow> nat option" where
  "getVariable E sy bnds B =
     (case variables B sy of
        None \<Rightarrow> None
      | Some m \<Rightarrow> map_option snd (List.find (\<lambda>e. ivl_range (fst e) = bnds) (im_find (imap E) m (toPair (rlib E) bnds))))"

definition getVariables :: "('m, 'c) env \<Rightarrow> nat \<Rightarrow> ('m, 'c) builder \<Rightarrow> nat list" where
  "getVariables E sy B = (case variables B sy of None \<Rightarrow> [] | Some m \<Rightarrow> map snd (im_entries (imap E) m))"

section \<open>NodeFactory\<close>

text \<open>The constructor of a node takes the next identifier; \<open>addNode\<close> takes the node.\<close>

definition new_node :: "'c node_data \<Rightarrow> ('m, 'c) builder \<Rightarrow> nat \<times> ('m, 'c) builder" where
  "new_node d B =
     (let r = addNode \<lparr>ID = nextID B, node_data = d\<rparr> (gr B)
      in (fst r, set_gr (snd r) (B\<lparr>nextID := nextID B + 1\<rparr>)))"

definition createAssignment :: "('m, 'c) env \<Rightarrow> nat \<Rightarrow> ('m, 'c) builder \<Rightarrow> nat \<times> ('m, 'c) builder" where
  "createAssignment E expr B =
     (let (loc, B1) = toTextLocation (expr_location E expr) B in new_node (Assignment loc) B1)"

definition createConditional :: "('m, 'c) env \<Rightarrow> nat \<Rightarrow> ('m, 'c) builder \<Rightarrow> nat \<times> ('m, 'c) builder" where
  "createConditional E stmt B =
     (let (loc, B1) = toTextLocation (expr_location E stmt) B in new_node (Conditional loc) B1)"

definition createCase :: "('m, 'c) env \<Rightarrow> nat \<Rightarrow> ('m, 'c) builder \<Rightarrow> nat \<times> ('m, 'c) builder" where
  "createCase E stmt B =
     (let (loc, B1) = toTextLocation (expr_location E stmt) B in new_node (Case loc) B1)"

definition createConstant :: "'c \<Rightarrow> nat \<Rightarrow> text_location \<Rightarrow> ('m, 'c) builder \<Rightarrow> nat \<times> ('m, 'c) builder" where
  "createConstant v w loc B = new_node (Constant v w loc) B"

text \<open>
  The source must be a constant. Its value is sliced down to the segment when it is an integer of another width;
  offsets are \<open>uint64_t\<close>, and a segment of two aligned lists lies inside its sources, so the difference is not
  negative.
\<close>

definition createConstantForSegment ::
  "('m, 'c) env \<Rightarrow> 'c bit_slice_source \<Rightarrow> 'c segment \<Rightarrow> text_location \<Rightarrow> ('m, 'c) builder
   \<Rightarrow> (nat \<times> ('m, 'c) builder) option" where
  "createConstantForSegment E src seg fallbackLoc B =
     require (src_kind src = SrcConstant)
       (case constantValue src of
          None \<Rightarrow> None
        | Some value \<Rightarrow>
            (let offset = seg_lo seg - srcLo src; segWidth = segment_width seg;
                 sliced = (case const_width E value of
                             None \<Rightarrow> value
                           | Some w \<Rightarrow> if w \<noteq> segWidth
                               then const_slice E value (int (offset + segWidth) - 1) (int offset) else value);
                 (loc, B1) = (case constantExpr src of
                                None \<Rightarrow> (fallbackLoc, B)
                              | Some e \<Rightarrow> toTextLocation (expr_location E e) B)
             in Some (createConstant sliced segWidth loc B1)))"

text \<open>\<open>createPort\<close> takes the port's internal symbol, which it asserts to exist, and the port's direction.\<close>

definition createPort ::
  "('m, 'c) env \<Rightarrow> nat \<Rightarrow> nat option \<Rightarrow> arg_direction \<Rightarrow> bit_range \<Rightarrow> ('m, 'c) builder
   \<Rightarrow> (nat \<times> ('m, 'c) builder) option" where
  "createPort E port internalSymbol dir bnds B =
     (case internalSymbol of
        None \<Rightarrow> None
      | Some isym \<Rightarrow>
          (let (ref, B1) = toSymbolRef E isym B; s = symbol_at B1 ref;
               (n, B2) = new_node (Port (sr_name s) (sr_hierarchicalPath s) (sr_location s) dir bnds) B1
           in Some (n, variables_insert E port bnds n B2)))"

definition createVariable ::
  "('m, 'c) env \<Rightarrow> nat \<Rightarrow> bit_range \<Rightarrow> ('m, 'c) builder \<Rightarrow> nat \<times> ('m, 'c) builder" where
  "createVariable E sy bnds B =
     (let (ref, B1) = toSymbolRef E sy B; s = symbol_at B1 ref;
          (n, B2) = new_node (Variable (sr_name s) (sr_hierarchicalPath s) (sr_location s) bnds) B1
      in (n, variables_insert E sy bnds n B2))"

definition createState ::
  "('m, 'c) env \<Rightarrow> nat \<Rightarrow> bit_range \<Rightarrow> ('m, 'c) builder \<Rightarrow> nat \<times> ('m, 'c) builder" where
  "createState E sy bnds B =
     (let (ref, B1) = toSymbolRef E sy B; s = symbol_at B1 ref;
          (n, B2) = new_node (State (sr_name s) (sr_hierarchicalPath s) (sr_location s) bnds) B1
      in (n, variables_insert E sy bnds n B2))"

section \<open>Dependencies\<close>

definition update_edge :: "nat \<Rightarrow> (edge_info \<Rightarrow> edge_info) \<Rightarrow> 'c ngraph \<Rightarrow> 'c ngraph" where
  "update_edge e f g = set_einfo e (f (einfo g e)) g"

text \<open>Without a symbol: only the semantics of the edge is set.\<close>

definition addPlainDependency ::
  "nat \<Rightarrow> nat \<Rightarrow> dependency_role \<Rightarrow> dependency_precision \<Rightarrow> ('m, 'c) builder \<Rightarrow> ('m, 'c) builder" where
  "addPlainDependency source target ro pr B =
     (let (e, g) = node_addEdge new_edge source target (gr B)
      in set_gr (update_edge e (setSemantics ro pr) g) B)"

text \<open>The range on the edge: the requested one, cut down to the bounds of the source if it has any and they overlap.\<close>

definition edge_bounds :: "range_lib \<Rightarrow> 'c ngraph \<Rightarrow> nat \<Rightarrow> bit_range \<Rightarrow> bit_range" where
  "edge_bounds R g source bnds =
     (case getBounds (ndata g source) of
        None \<Rightarrow> bnds
      | Some nb \<Rightarrow>
          if overlaps_of R bnds nb
          then (let r = intersect_of R bnds nb in mk_range (lower_of R r) (upper_of R r)) else bnds)"

definition addDependency ::
  "('m, 'c) env \<Rightarrow> nat \<Rightarrow> nat \<Rightarrow> nat option \<Rightarrow> bit_range \<Rightarrow> edge_kind \<Rightarrow> dependency_role \<Rightarrow> dependency_precision
   \<Rightarrow> ('m, 'c) builder \<Rightarrow> ('m, 'c) builder option" where
  "addDependency E source target symb bnds kind ro pr B =
     (let R = rlib E;
          ro' = (if kind \<noteq> EdgeNone \<and> ro = Data then Event else ro);
          eb = edge_bounds R (gr B) source bnds;
          (e, g) = node_addEdge new_edge source target (gr B)
      in and_then (setVariable R symb eb (einfo g e)) (\<lambda>(ok, i).
           if \<not> ok then
             (let (e2, g2) = node_addNewEdge new_edge source target (set_einfo e i g)
              in and_then (setVariable R symb eb (einfo g2 e2)) (\<lambda>(_, i2).
                   Some (set_gr (set_einfo e2 (setSemantics ro' pr (setEdgeKind kind i2)) g2) B)))
           else Some (set_gr (set_einfo e (setSemantics ro' pr (setEdgeKind kind i)) g) B)))"

definition addDriversToNode ::
  "('m, 'c) env \<Rightarrow> nat driver_list \<Rightarrow> nat \<Rightarrow> nat option \<Rightarrow> bit_range \<Rightarrow> edge_kind \<Rightarrow> dependency_role \<Rightarrow> dependency_precision
   \<Rightarrow> ('m, 'c) builder \<Rightarrow> ('m, 'c) builder option" where
  "addDriversToNode E ds n symb bnds kind ro pr =
     fold_opt (\<lambda>d B. case di_node d of
         None \<Rightarrow> Some B
       | Some source \<Rightarrow> addDependency E source n symb bnds kind ro pr B) ds"

definition merge_nodes :: "nat \<Rightarrow> nat \<Rightarrow> ('m, 'c) builder \<Rightarrow> nat \<times> ('m, 'c) builder" where
  "merge_nodes a b B =
     (if nID (gr B) a = nID (gr B) b then (a, B)
      else (let (n, B1) = new_node Merge B
            in (n, addPlainDependency b n Data Exact (addPlainDependency a n Data Exact B1))))"

section \<open>Interface references\<close>

text \<open>The interface variables and bounds that a modport reference stands for, nested modports followed.\<close>

fun resolve_path :: "(nat \<Rightarrow> symbol_kind) \<Rightarrow> conn_path \<Rightarrow> (nat \<times> bit_range) list" where
  "resolve_path kind (ConnPath lsp root bnds nxt) =
     (case (lsp, root) of
        (Some l, Some s) \<Rightarrow>
          (case kind s of
             SymVariable \<Rightarrow> [(s, bnds)]
           | SymModportPort \<Rightarrow> concat (map (resolve_path kind) nxt)
           | SymOther \<Rightarrow> [])
      | _ \<Rightarrow> [])"

definition resolveInterfaceRef :: "('m, 'c) env \<Rightarrow> nat \<Rightarrow> (nat \<times> bit_range) list" where
  "resolveInterfaceRef E lsp = concat (map (resolve_path (sym_kind E)) (conn_paths E lsp))"

section \<open>Pending R-values\<close>

definition enqueue :: "pending_rvalue \<Rightarrow> ('m, 'c) builder \<Rightarrow> ('m, 'c) builder" where
  "enqueue p B =
     (case taskBuffer B of
        Some buf \<Rightarrow> B\<lparr>taskBuffer := Some (buf @ [p])\<rparr>
      | None \<Rightarrow> B\<lparr>queue := queue B @ [p]\<rparr>)"

definition setTaskBuffer :: "pending_rvalue list option \<Rightarrow> ('m, 'c) builder \<Rightarrow> ('m, 'c) builder" where
  "setTaskBuffer buf B = B\<lparr>taskBuffer := buf\<rparr>"

definition drain :: "pending_rvalue list list \<Rightarrow> ('m, 'c) builder \<Rightarrow> ('m, 'c) builder" where
  "drain allWork B = B\<lparr>queue := fold (\<lambda>work q. q @ work) allWork (queue B)\<rparr>"

definition addRvalue ::
  "('m, 'c) env \<Rightarrow> nat \<Rightarrow> nat \<Rightarrow> bit_range \<Rightarrow> nat option \<Rightarrow> dependency_role \<Rightarrow> dependency_precision
   \<Rightarrow> ('m, 'c) builder \<Rightarrow> ('m, 'c) builder option" where
  "addRvalue E symb lsp bnds nd ro pr B =
     (case nd of
        Some n \<Rightarrow>
          if sym_kind E symb = SymModportPort then
            fold_opt (\<lambda>(v, vb) B.
                case getVariable E v vb B of
                  None \<Rightarrow> Some B
                | Some varNode \<Rightarrow>
                    (let (ref, B1) = toSymbolRef E symb B
                     in addDependency E varNode n (Some ref) bnds EdgeNone ro pr B1))
              (resolveInterfaceRef E lsp) B
          else Some (enqueue \<lparr>pr_symbol = symb, pr_bounds = bnds, pr_lsp = lsp, pr_node = nd, pr_edgeKind = EdgeNone,
                              pr_role = ro, pr_precision = pr\<rparr> B)
      | None \<Rightarrow> Some (enqueue \<lparr>pr_symbol = symb, pr_bounds = bnds, pr_lsp = lsp, pr_node = nd, pr_edgeKind = EdgeNone,
                              pr_role = ro, pr_precision = pr\<rparr> B))"

text \<open>
  One pending R-value: an edge from the variable or state node of exactly its bounds, or else from every driver of an
  interval that overlaps its bounds, with the common bits.
\<close>

definition emitEdgesFor :: "('m, 'c) env \<Rightarrow> pending_rvalue \<Rightarrow> ('m, 'c) builder \<Rightarrow> ('m, 'c) builder option" where
  "emitEdgesFor E p B =
     (case pr_node p of
        None \<Rightarrow> Some B
      | Some n \<Rightarrow>
          (let (ref, B1) = toSymbolRef E (pr_symbol p) B
           in case getVariable E (pr_symbol p) (pr_bounds p) B1 of
                Some stateNode \<Rightarrow>
                  addDependency E stateNode n (Some ref) (pr_bounds p) (pr_edgeKind p) (pr_role p) (pr_precision p) B1
              | None \<Rightarrow>
                  fold_opt (\<lambda>(interval, ds) B.
                      case intersection (rlib E) interval (pr_bounds p) of
                        None \<Rightarrow> Some B
                      | Some eb \<Rightarrow>
                          and_then ds (\<lambda>ds.
                            addDriversToNode E ds n (Some ref) eb (pr_edgeKind p) (pr_role p) (pr_precision p) B))
                    (forEachDriverInterval (rlib E) (imap E) (driverMap B1) (drivers B1) (pr_symbol p) (pr_bounds p)) B1))"

definition resolveSequential :: "('m, 'c) env \<Rightarrow> ('m, 'c) builder \<Rightarrow> ('m, 'c) builder option" where
  "resolveSequential E B =
     map_option (\<lambda>B. B\<lparr>queue := []\<rparr>) (fold_opt (emitEdgesFor E) (queue B) B)"

text \<open>
  The parallel path: the queue sorted by target (null first; any order of equal targets), the entries without a target
  skipped, and the rest cut into runs of one target. A run is processed by one thread, in order; which thread takes
  which runs, and in which order, is the scheduler's.
\<close>

definition node_key :: "pending_rvalue \<Rightarrow> nat" where
  "node_key p = (case pr_node p of None \<Rightarrow> 0 | Some n \<Rightarrow> Suc n)"

definition runStarts :: "pending_rvalue list \<Rightarrow> nat list" where
  "runStarts q =
     (let firstReal = length (takeWhile (\<lambda>p. pr_node p = None) q)
      in if firstReal < length q
         then firstReal # filter (\<lambda>i. pr_node (q ! i) \<noteq> pr_node (q ! (i - 1))) [firstReal + 1 ..< length q] @ [length q]
         else [])"

definition run_at :: "pending_rvalue list \<Rightarrow> nat \<Rightarrow> nat \<Rightarrow> pending_rvalue list" where
  "run_at q a b = map (\<lambda>i. q ! i) [a ..< b]"

definition runs_of :: "pending_rvalue list \<Rightarrow> pending_rvalue list list" where
  "runs_of q = map (\<lambda>(a, b). run_at q a b) (grid (runStarts q))"

text \<open>The choice of \<open>resolve\<close>: \<open>None\<close> for no thread pool.\<close>

definition resolves_in_parallel :: "('m, 'c) env \<Rightarrow> bool \<Rightarrow> ('m, 'c) builder \<Rightarrow> bool" where
  "resolves_in_parallel E has_pool B \<longleftrightarrow>
     \<not> (\<not> parallel E \<or> \<not> has_pool \<or> length (queue B) < parallelRValueThreshold E)"

section \<open>Registering drivers\<close>

definition add_drivers ::
  "('m, 'c) env \<Rightarrow> nat \<Rightarrow> bit_range \<Rightarrow> nat driver_list \<Rightarrow> bool \<Rightarrow> ('m, 'c) builder \<Rightarrow> ('m, 'c) builder option" where
  "add_drivers E symb bnds ds mrg B =
     map_option (\<lambda>st. B\<lparr>driverMap := fst st, drivers := snd st\<rparr>)
       (addDrivers (rlib E) (imap E) symb bnds ds mrg (driverMap B, drivers B))"

text \<open>\<open>addDriver\<close> replaces, \<open>mergeDrivers\<close> of one symbol merges.\<close>

definition addDriver ::
  "('m, 'c) env \<Rightarrow> nat \<Rightarrow> nat option \<Rightarrow> bit_range \<Rightarrow> nat \<Rightarrow> ('m, 'c) builder \<Rightarrow> ('m, 'c) builder option" where
  "addDriver E symb lsp bnds n B = add_drivers E symb bnds [\<lparr>di_node = Some n, di_lsp = lsp\<rparr>] False B"

definition mergeSymbolDrivers ::
  "('m, 'c) env \<Rightarrow> nat \<Rightarrow> bit_range \<Rightarrow> nat driver_list \<Rightarrow> ('m, 'c) builder \<Rightarrow> ('m, 'c) builder option" where
  "mergeSymbolDrivers E symb bnds ds B = add_drivers E symb bnds ds True B"

text \<open>
  The port node that an output of these bounds goes to: the one of exactly the bounds, or the first one that contains
  them.
\<close>

definition output_port_node :: "('m, 'c) env \<Rightarrow> nat \<Rightarrow> bit_range \<Rightarrow> ('m, 'c) builder \<Rightarrow> nat option" where
  "output_port_node E port bnds B =
     (case getVariable E port bnds B of
        Some n \<Rightarrow> Some n
      | None \<Rightarrow> List.find (\<lambda>n. case getBounds (ndata (gr B) n) of None \<Rightarrow> False | Some nb \<Rightarrow> contains_of (rlib E) nb bnds)
                  (getVariables E port B))"

definition hookupOutputPort ::
  "('m, 'c) env \<Rightarrow> nat \<Rightarrow> bit_range \<Rightarrow> nat driver_list \<Rightarrow> ('m, 'c) builder \<Rightarrow> ('m, 'c) builder option" where
  "hookupOutputPort E symb bnds ds B =
     (case portBackrefs E symb of
        [port] \<Rightarrow>
          (case output_port_node E port bnds B of
             None \<Rightarrow> Some B
           | Some pnode \<Rightarrow>
               (let (ref, B1) = toSymbolRef E symb B
                in addDriversToNode E ds pnode (Some ref) bnds EdgeNone PortConnection Range B1))
      | _ \<Rightarrow> Some B)"

record sensitivity_entry =
  se_signal :: nat
  se_lsp :: nat
  se_edgeKind :: edge_kind

text \<open>
  One driven interval of a procedural block. Without a sensitivity its drivers become drivers of the symbol; with one, a
  state node is created, driven by them, and clocked by every signal of the list (through the pending R-values).
\<close>

definition clock_rvalue :: "('m, 'c) env \<Rightarrow> nat \<Rightarrow> sensitivity_entry \<Rightarrow> ('m, 'c) builder \<Rightarrow> ('m, 'c) builder" where
  "clock_rvalue E stateNode entry B =
     (let width = sym_width E (se_signal entry)
      in if width = 0 then B
         else enqueue \<lparr>pr_symbol = se_signal entry, pr_bounds = mk_range 0 (int width - 1), pr_lsp = se_lsp entry,
                       pr_node = Some stateNode, pr_edgeKind = se_edgeKind entry, pr_role = Data, pr_precision = Range\<rparr> B)"

definition merge_interval ::
  "('m, 'c) env \<Rightarrow> sensitivity_entry list \<Rightarrow> nat \<Rightarrow> bit_range \<Rightarrow> nat driver_list \<Rightarrow> ('m, 'c) builder \<Rightarrow> ('m, 'c) builder option" where
  "merge_interval E sens symb bnds ds B =
     (if sens = [] then
        and_then (mergeSymbolDrivers E symb bnds ds B) (hookupOutputPort E symb bnds ds)
      else
        (let (stateNode, B1) = createState E symb bnds B;
             (ref, B2) = toSymbolRef E symb B1
         in and_then (addDriversToNode E ds stateNode (Some ref) bnds EdgeNone Data Range B2) (\<lambda>B3.
              hookupOutputPort E symb bnds [\<lparr>di_node = Some stateNode, di_lsp = None\<rparr>]
                (fold (clock_rvalue E stateNode) sens B3))))"

text \<open>
  Then every driver is connected to the interface variables behind a modport port, or to the node of the variable and
  these bounds.
\<close>

definition connect_driver ::
  "('m, 'c) env \<Rightarrow> nat \<Rightarrow> nat \<Rightarrow> bit_range \<Rightarrow> nat driver_info \<Rightarrow> ('m, 'c) builder \<Rightarrow> ('m, 'c) builder option" where
  "connect_driver E symb ref bnds d B =
     (case di_node d of
        None \<Rightarrow> Some B
      | Some source \<Rightarrow>
          (case sym_kind E symb of
             SymModportPort \<Rightarrow>
               (case di_lsp d of
                  None \<Rightarrow> None
                | Some lsp \<Rightarrow>
                    fold_opt (\<lambda>(v, vb) B.
                        case getVariable E v vb B of
                          None \<Rightarrow> Some B
                        | Some varNode \<Rightarrow> addDependency E source varNode (Some ref) vb EdgeNone Data Range B)
                      (resolveInterfaceRef E lsp) B)
           | SymVariable \<Rightarrow>
               (case getVariable E symb bnds B of
                  None \<Rightarrow> Some B
                | Some varNode \<Rightarrow>
                    (case getBounds (ndata (gr B) varNode) of
                       None \<Rightarrow> None
                     | Some vb \<Rightarrow> addDependency E source varNode (Some ref) vb EdgeNone Data Range B))
           | SymOther \<Rightarrow> Some B))"

definition merge_entry ::
  "('m, 'c) env \<Rightarrow> sensitivity_entry list \<Rightarrow> nat \<Rightarrow> ('m, nat) driver_map \<Rightarrow> nat entry \<Rightarrow> ('m, 'c) builder \<Rightarrow> ('m, 'c) builder option" where
  "merge_entry E sens symb dm e B =
     (let bnds = ivl_range (fst e)
      in and_then (getDriverList (snd e) dm) (\<lambda>ds.
         and_then (merge_interval E sens symb bnds ds B) (\<lambda>B1.
           let (ref, B2) = toSymbolRef E symb B1
           in fold_opt (connect_driver E symb ref bnds) ds B2)))"

text \<open>The slots of the block's tracker come in the order of its concurrent map, \<open>slot_order\<close> of the environment.\<close>

definition mergeDrivers ::
  "('m, 'c) env \<Rightarrow> nat value_tracker \<Rightarrow> ('m, nat) driver_map list \<Rightarrow> sensitivity_entry list
   \<Rightarrow> ('m, 'c) builder \<Rightarrow> ('m, 'c) builder option" where
  "mergeDrivers E vt vds sens B =
     visitAll (slot_order E) (\<lambda>symb index acc. and_then acc (\<lambda>B.
         if index \<ge> length vds then Some B
         else if dm_isEmpty (imap E) (vds ! index) then Some B
         else fold_opt (merge_entry E sens symb (vds ! index)) (dm_entries (imap E) (vds ! index)) B)) vt (Some B)"

section \<open>Sensitivity of a procedural block\<close>

text \<open>The parts of a procedural block that the code looks at.\<close>

record signal_event =
  ev_edge :: edge_kind
  ev_signal :: "(nat \<times> nat) option"

datatype timing_control = SignalEvent signal_event | EventList "signal_event list" | OtherTiming
datatype proc_body = SequentialAssertion | Timed timing_control | OtherBody
datatype procedure_kind = AlwaysFF | Always | OtherProcedure

definition recordEvent :: "signal_event \<Rightarrow> sensitivity_entry list \<times> bool \<Rightarrow> sensitivity_entry list \<times> bool" where
  "recordEvent ev st =
     (let (result, sawCombEvent) = st
      in if ev_edge ev = EdgeNone then (result, True)
         else case ev_signal ev of
                None \<Rightarrow> (result, sawCombEvent)
              | Some (s, lsp) \<Rightarrow> (result @ [\<lparr>se_signal = s, se_lsp = lsp, se_edgeKind = ev_edge ev\<rparr>], sawCombEvent))"

definition collectSensitivity :: "procedure_kind \<Rightarrow> proc_body \<Rightarrow> sensitivity_entry list" where
  "collectSensitivity kind body =
     (if kind = OtherProcedure then []
      else case body of
             Timed timing \<Rightarrow>
               (let (result, sawCombEvent) =
                      (case timing of
                         SignalEvent ev \<Rightarrow> recordEvent ev ([], False)
                       | EventList evs \<Rightarrow> fold recordEvent evs ([], False)
                       | OtherTiming \<Rightarrow> ([], False))
                in if sawCombEvent then [] else result)
           | _ \<Rightarrow> [])"

section \<open>Black boxes and interface variables\<close>

definition isBlackBoxInstance :: "('m, 'c) env \<Rightarrow> string \<Rightarrow> string \<Rightarrow> bool" where
  "isBlackBoxInstance E defName path =
     (if blackBoxes E = [] then False
      else list_ex (wildcardMatch defName) (blackBoxes E) \<or> list_ex (wildcardMatch path) (blackBoxes E))"

text \<open>A variable of an interface instance gets one node for every driver of its canonical symbol.\<close>

definition handleVariable ::
  "('m, 'c) env \<Rightarrow> bool \<Rightarrow> slang_driver list \<Rightarrow> nat \<Rightarrow> ('m, 'c) builder \<Rightarrow> ('m, 'c) builder" where
  "handleVariable E in_interface ds symb B =
     (if in_interface
      then fold (\<lambda>d B. snd (createVariable E symb
             (mk_range (int (fst (sd_bounds d))) (int (snd (sd_bounds d)))) B)) ds B
      else B)"

end
