(* ===== verification/IntervalDiff.thy ===== *)
theory IntervalDiff
  imports IntervalFacts
begin

text \<open>
  \<open>IntervalMapUtils\<close> of \<^verbatim>\<open>source/IntervalMapUtils.hpp\<close>: the difference of two interval maps, as the
  data-flow analysis uses it to find the parts of a range that have no driver yet. The exact set of
  positions the result covers, which is not always the difference.
\<close>

section \<open>Model\<close>

text \<open>
  The loop over the second map's entries, from the position \<open>current\<close>; it stops when \<open>current\<close> has
  reached \<open>fin\<close>, the end of the interval.
\<close>

fun subtract_loop ::
  "('m, 'v) imap_ops \<Rightarrow> 'v \<Rightarrow> int \<Rightarrow> 'v entry list \<Rightarrow> 'm \<Rightarrow> int \<Rightarrow> 'm \<times> int" where
  "subtract_loop I v fin [] result current = (result, current)"
| "subtract_loop I v fin (r # rs) result current =
     (if snd (fst r) < current then subtract_loop I v fin rs result current
      else if fst (fst r) > fin then subtract_loop I v fin rs result current
      else
        let result' = (if fst (fst r) > current
                       then im_unionWith I result current (min fin (fst (fst r) - 1)) v else result);
            current' = max current (snd (fst r) + 1)
        in if current' \<ge> fin then (result', current')
           else subtract_loop I v fin rs result' current')"

definition subtractSingle :: "('m, 'v) imap_ops \<Rightarrow> 'm \<Rightarrow> ivl \<Rightarrow> 'v \<Rightarrow> 'm \<Rightarrow> 'm" where
  "subtractSingle I result interval v second =
     (let r = subtract_loop I v (snd interval) (im_entries I second) result (fst interval)
      in if snd r \<le> snd interval then im_unionWith I (fst r) (snd r) (snd interval) v else fst r)"

definition difference :: "('m, 'v) imap_ops \<Rightarrow> 'm \<Rightarrow> 'm \<Rightarrow> 'm" where
  "difference I first second =
     (if im_entries I second = [] then first
      else fold (\<lambda>e result. subtractSingle I result (fst e) (snd e) second) (im_entries I first) (im_empty I))"

section \<open>What the result covers\<close>

text \<open>
  The positions kept of \<open>[lo, hi]\<close>: those not covered by the second map, and \<open>hi\<close> itself when an entry
  of the second map that reaches into the interval ends just before \<open>hi\<close>.
\<close>

definition kept :: "'v entry list \<Rightarrow> int \<Rightarrow> int \<Rightarrow> int set" where
  "kept es lo hi = ({lo..hi} - covered es) \<union>
     (if \<exists>e \<in> set es. snd (fst e) = hi - 1 \<and> lo \<le> snd (fst e) then {hi} else {})"

text \<open>Entries in order, without overlap.\<close>

definition chained :: "'v entry list \<Rightarrow> bool" where
  "chained es \<longleftrightarrow> sorted_wrt (\<lambda>a b. snd (fst a) < fst (fst b)) es \<and> proper es"

lemma chained_Cons:
  "chained (r # rs) \<longleftrightarrow> fst (fst r) \<le> snd (fst r) \<and> (\<forall>e \<in> set rs. snd (fst r) < fst (fst e)) \<and> chained rs"
  by (auto simp: chained_def proper_def)

lemma covered_Cons: "covered (r # rs) = {fst (fst r)..snd (fst r)} \<union> covered rs"
  by (auto simp: covered_def ivl_covers_def)

lemma covered_Nil [simp]: "covered [] = {}"
  by (simp add: covered_def)

lemma chained_covered: "chained es \<Longrightarrow> b \<in> covered es \<Longrightarrow> \<exists>e \<in> set es. fst (fst e) \<le> b \<and> b \<le> snd (fst e)"
  by (simp add: covered_def ivl_covers_def)

lemma chained_of_disjoint:
  assumes "sorted (map (fst \<circ> fst) es)" "disjoint_entries es"
  shows "chained es"
  using assms
proof (induction es)
  case (Cons e es)
  have d: "fst (fst e) \<le> snd (fst e) \<and> (\<forall>e' \<in> set es. \<not> ivl_overlaps (fst e) e') \<and> disjoint_entries es"
    using Cons.prems(2) disjoint_entries_Cons [of "fst e" "snd e" es] by simp
  have "snd (fst e) < fst (fst e')" if e': "e' \<in> set es" for e'
  proof -
    have "fst (fst e) \<le> fst (fst e')"
      using Cons.prems(1) e' by simp
    moreover have "fst (fst e') \<le> snd (fst e')"
      using d e' by (simp add: disjoint_entries_def proper_def)
    ultimately show ?thesis
      using d e' by (force simp: ivl_overlaps_def)
  qed
  then show ?case
    using Cons d by (simp add: chained_Cons)
qed (simp add: chained_def proper_def)

lemma kept_skip_before:
  "snd (fst r) < cur \<Longrightarrow> kept (r # rs) cur fin = kept rs cur fin"
  by (auto simp: kept_def covered_Cons)

lemma kept_skip_after:
  "fin < fst (fst r) \<Longrightarrow> fst (fst r) \<le> snd (fst r) \<Longrightarrow> kept (r # rs) cur fin = kept rs cur fin"
  by (auto simp: kept_def covered_Cons)

lemma chained_later:
  "chained (r # rs) \<Longrightarrow> b \<le> snd (fst r) \<Longrightarrow> b \<notin> covered rs"
  by (force simp: chained_Cons covered_def ivl_covers_def)

lemma chained_ends_later:
  "chained (r # rs) \<Longrightarrow> e \<in> set rs \<Longrightarrow> snd (fst r) < snd (fst e)"
  by (force simp: chained_Cons chained_def proper_def)

text \<open>The entry reaches the end of the interval: the loop stops.\<close>

lemma kept_stop:
  assumes "chained (r # rs)" "cur \<le> snd (fst r)" "fst (fst r) \<le> fin" "fin \<le> snd (fst r) + 1"
  shows "kept (r # rs) cur fin = {cur..min fin (fst (fst r) - 1)} \<union> {max cur (snd (fst r) + 1)..fin}"
proof -
  have later: "\<not> snd (fst e) = fin - 1" if "e \<in> set rs" for e
    using chained_ends_later [OF assms(1) that] assms(4) by simp
  show ?thesis
  proof (cases "snd (fst r) = fin - 1")
    case True
    then show ?thesis
      using assms chained_later [OF assms(1)] by (auto simp: kept_def covered_Cons)
  next
    case False
    then have "fin \<le> snd (fst r)"
      using assms(4) by simp
    then show ?thesis
      using False later assms chained_later [OF assms(1)] by (auto simp: kept_def covered_Cons)
  qed
qed

text \<open>It does not: the loop goes on behind it.\<close>

lemma kept_step:
  assumes "chained (r # rs)" "cur \<le> snd (fst r)" "snd (fst r) + 1 < fin"
  shows "kept (r # rs) cur fin = {cur..fst (fst r) - 1} \<union> kept rs (snd (fst r) + 1) fin"
proof -
  have "(\<exists>e \<in> set (r # rs). snd (fst e) = fin - 1 \<and> cur \<le> snd (fst e)) \<longleftrightarrow>
      (\<exists>e \<in> set rs. snd (fst e) = fin - 1 \<and> snd (fst r) + 1 \<le> snd (fst e))"
    using assms by auto
  moreover have "{cur..fin} - covered (r # rs) =
      {cur..fst (fst r) - 1} \<union> ({snd (fst r) + 1..fin} - covered rs)"
    using assms chained_later [OF assms(1)] by (auto simp: covered_Cons chained_Cons)
  ultimately show ?thesis
    unfolding kept_def by auto
qed

context interval_map
begin

lemma subtract_loop_covers:
  assumes "chained es"
  shows "covered (im_entries I (fst (subtract_loop I v fin es res cur)))
           \<union> {snd (subtract_loop I v fin es res cur)..fin}
       = covered (im_entries I res) \<union> kept es cur fin"
  using assms
proof (induction es arbitrary: res cur)
  case Nil
  then show ?case by (simp add: kept_def)
next
  case (Cons e es)
  have es: "chained es" and le: "fst (fst e) \<le> snd (fst e)"
    using Cons.prems by (simp_all add: chained_Cons)
  consider "snd (fst e) < cur" | "fin < fst (fst e)" "cur \<le> snd (fst e)"
    | "cur \<le> snd (fst e)" "fst (fst e) \<le> fin" by linarith
  then show ?case
  proof cases
    case 1
    then show ?thesis
      using Cons.IH [OF es, of res cur] by (simp add: kept_skip_before)
  next
    case 2
    then show ?thesis
      using Cons.IH [OF es, of res cur] le by (simp add: kept_skip_after)
  next
    case 3
    let ?res = "if fst (fst e) > cur then im_unionWith I res cur (min fin (fst (fst e) - 1)) v else res"
    have cov: "covered (im_entries I ?res) = covered (im_entries I res) \<union> {cur..min fin (fst (fst e) - 1)}"
      using 3 by (auto simp: union_covered)
    show ?thesis
    proof (cases "fin \<le> snd (fst e) + 1")
      case True
      then have "subtract_loop I v fin (e # es) res cur = (?res, max cur (snd (fst e) + 1))"
        using 3 by (auto simp: Let_def)
      then show ?thesis
        using cov kept_stop [OF Cons.prems 3 True] by auto
    next
      case False
      then have "subtract_loop I v fin (e # es) res cur = subtract_loop I v fin es ?res (snd (fst e) + 1)"
        using 3 by (auto simp: Let_def max_absorb2)
      then show ?thesis
        using Cons.IH [OF es, of ?res "snd (fst e) + 1"] cov kept_step [OF Cons.prems 3(1)] False le by auto
    qed
  qed
qed

lemma subtractSingle_covers:
  assumes "chained (im_entries I second)"
  shows "covered (im_entries I (subtractSingle I res k v second))
       = covered (im_entries I res) \<union> kept (im_entries I second) (fst k) (snd k)"
  using subtract_loop_covers [OF assms, of v "snd k" res "fst k"]
  by (auto simp: subtractSingle_def Let_def union_covered)

lemma difference_fold_covers:
  assumes "chained (im_entries I second)"
  shows "covered (im_entries I (fold (\<lambda>e result. subtractSingle I result (fst e) (snd e) second) es res))
       = covered (im_entries I res) \<union> (\<Union>e \<in> set es. kept (im_entries I second) (fst (fst e)) (snd (fst e)))"
  by (induction es arbitrary: res) (auto simp: subtractSingle_covers [OF assms])

lemma difference_covers:
  assumes "disjoint_entries (im_entries I second)"
  shows "covered (im_entries I (difference I first second))
       = (covered (im_entries I first) - covered (im_entries I second)) \<union>
         {snd (fst e) | e e'. e \<in> set (im_entries I first) \<and> e' \<in> set (im_entries I second) \<and>
            snd (fst e') = snd (fst e) - 1 \<and> fst (fst e) \<le> snd (fst e')}"
proof (cases "im_entries I second = []")
  case True
  then show ?thesis by (simp add: difference_def)
next
  case False
  have "chained (im_entries I second)"
    using chained_of_disjoint entries_sorted assms by blast
  from difference_fold_covers [OF this] False
  have "covered (im_entries I (difference I first second))
      = (\<Union>e \<in> set (im_entries I first). kept (im_entries I second) (fst (fst e)) (snd (fst e)))"
    by (simp add: difference_def entries_empty)
  also have "\<dots> = (covered (im_entries I first) - covered (im_entries I second)) \<union>
         {snd (fst e) | e e'. e \<in> set (im_entries I first) \<and> e' \<in> set (im_entries I second) \<and>
            snd (fst e') = snd (fst e) - 1 \<and> fst (fst e) \<le> snd (fst e')}"
  proof (intro set_eqI)
    fix b
    have "b \<in> kept (im_entries I second) lo hi \<longleftrightarrow> (lo \<le> b \<and> b \<le> hi \<and> b \<notin> covered (im_entries I second)) \<or>
        (b = hi \<and> (\<exists>e \<in> set (im_entries I second). snd (fst e) = hi - 1 \<and> lo \<le> snd (fst e)))" for lo hi
      unfolding kept_def by auto
    then show "b \<in> (\<Union>e \<in> set (im_entries I first). kept (im_entries I second) (fst (fst e)) (snd (fst e))) \<longleftrightarrow>
        b \<in> (covered (im_entries I first) - covered (im_entries I second)) \<union>
          {snd (fst e) | e e'. e \<in> set (im_entries I first) \<and> e' \<in> set (im_entries I second) \<and>
            snd (fst e') = snd (fst e) - 1 \<and> fst (fst e) \<le> snd (fst e')}"
      by (simp only: UN_iff Un_iff Diff_iff covered_def [of "im_entries I first"] mem_Collect_eq ivl_covers_def) blast
  qed
  finally show ?thesis .
qed

end

lemma proper_Nil [simp]: "proper []"
  by (simp add: proper_def)

context interval_map
begin

lemma subtract_loop_proper:
  "proper (im_entries I res) \<Longrightarrow> proper (im_entries I (fst (subtract_loop I v fin es res cur)))"
  by (induction es arbitrary: res cur) (simp_all add: Let_def union_proper)

lemma difference_proper:
  "proper (im_entries I first) \<Longrightarrow> proper (im_entries I (difference I first second))"
proof -
  have "proper (im_entries I (fold (\<lambda>e result. subtractSingle I result (fst e) (snd e) second) es res))"
    if "proper (im_entries I res)" for es res
    using that by (induction es arbitrary: res) (simp_all add: subtractSingle_def Let_def subtract_loop_proper union_proper)
  then show "proper (im_entries I first) \<Longrightarrow> proper (im_entries I (difference I first second))"
    by (simp add: difference_def entries_empty)
qed

end

section \<open>Properties\<close>

text \<open>
  C2. The difference of two interval maps (the second without overlaps) covers the positions of the
  first that the second does not cover, and besides only last positions of the first map's intervals:
  exactly those where an interval of the second map that reaches into the interval ends one position
  before. There the loop stops too early and an interval of the second map that starts at the last
  position is not subtracted.
\<close>

theorem difference_covers_exactly:
  assumes "interval_map I" and "disjoint_entries (im_entries I second)"
  shows "covered (im_entries I (difference I first second))
       = (covered (im_entries I first) - covered (im_entries I second)) \<union>
         {snd (fst e) | e e'. e \<in> set (im_entries I first) \<and> e' \<in> set (im_entries I second) \<and>
            snd (fst e') = snd (fst e) - 1 \<and> fst (fst e) \<le> snd (fst e')}"
  by (rule interval_map.difference_covers [OF assms])

theorem difference_covers_exactly_witness:
  "covered (im_entries list_imap (difference list_imap [((0, 7), ())] [((2, 3), ())]))
     = {0..7} - {2..3}"
proof -
  have "disjoint_entries (im_entries list_imap [((2, 3), ())])"
    by (simp add: disjoint_entries_def proper_def)
  from difference_covers_exactly [OF list_map.interval_map_axioms this, of "[((0, 7), ())]"]
  show ?thesis
    by (simp add: covered_Cons) auto
qed

text \<open>
  The difference of \<open>[7:0]\<close> and a map that holds \<open>[6:0]\<close> and \<open>[7:7]\<close>, which covers it all, is not
  empty: it is \<open>[7:7]\<close>.
\<close>

theorem difference_leaves_last_position:
  "difference list_imap [((0, 7), ())] [((0, 6), ()), ((7, 7), ())] = [((7, 7), ())]"
  by code_simp

end
