(* ===== verification/Flow.thy ===== *)
theory Flow
  imports Builder IntervalDiff
begin

text \<open>
  The data-flow analysis of a procedural block or a continuous assignment, \<^verbatim>\<open>source/DataFlowAnalysis.cpp/.hpp\<close>. The
  traversal of statements and expressions is slang's \<open>AbstractFlowAnalysis\<close>, a parameter \<open>visit\<close> (it calls back into
  the handlers); what the handlers do to the analysis state, the value tracker and the builder is modelled.
\<close>

section \<open>State\<close>

record 'm analysis_state =
  valueDrivers :: "('m, nat) driver_map list"
  cur_node :: "nat option"
  cur_condition :: "nat option"
  reachable :: bool

definition topState :: "'m analysis_state" where
  "topState = \<lparr>valueDrivers = [], cur_node = None, cur_condition = None, reachable = True\<rparr>"

definition unreachableState :: "'m analysis_state" where
  "unreachableState = topState\<lparr>reachable := False\<rparr>"

text \<open>A copy clones the driver map of every symbol.\<close>

definition copyState :: "'m analysis_state \<Rightarrow> 'm analysis_state" where
  "copyState source =
     \<lparr>valueDrivers = map dm_clone (valueDrivers source), cur_node = cur_node source,
      cur_condition = cur_condition source, reachable = reachable source\<rparr>"

record ('m, 'c) dfa =
  flow :: "'m analysis_state"
  valueTracker :: "nat value_tracker"
  isLValue :: bool
  isBlocking :: bool
  prohibitLValue :: bool
  dependencyRole :: dependency_role
  dependencyPrecision :: dependency_precision
  bld :: "('m, 'c) builder"
  externalNode :: "nat option"
  pendingLValues :: "pending_rvalue list"
  keptStates :: "nat \<rightharpoonup> 'm analysis_state"

definition new_dfa :: "nat option \<Rightarrow> ('m, 'c) builder \<Rightarrow> ('m, 'c) dfa" where
  "new_dfa ext B =
     \<lparr>flow = topState, valueTracker = vt_new, isLValue = False, isBlocking = False, prohibitLValue = False,
      dependencyRole = Data, dependencyPrecision = Range, bld = B, externalNode = ext, pendingLValues = [],
      keptStates = Map.empty\<rparr>"

definition set_bld :: "('m, 'c) dfa \<Rightarrow> ('m, 'c) builder \<Rightarrow> ('m, 'c) dfa" where
  [model_simps]: "set_bld D B = D\<lparr>bld := B\<rparr>"

section \<open>L-values\<close>

definition note_drivers ::
  "('m, 'c) env \<Rightarrow> nat \<Rightarrow> bit_range \<Rightarrow> nat driver_list \<Rightarrow> ('m, 'c) dfa \<Rightarrow> ('m, 'c) dfa option" where
  "note_drivers E symb bnds ds D =
     map_option (\<lambda>st. D\<lparr>valueTracker := fst st, flow := (flow D)\<lparr>valueDrivers := snd st\<rparr>\<rparr>)
       (addDrivers (rlib E) (imap E) symb bnds ds False (valueTracker D, valueDrivers (flow D)))"

definition addNonBlockingLvalue :: "nat \<Rightarrow> nat \<Rightarrow> bit_range \<Rightarrow> nat option \<Rightarrow> ('m, 'c) dfa \<Rightarrow> ('m, 'c) dfa" where
  "addNonBlockingLvalue symb lsp bnds n D =
     D\<lparr>pendingLValues := pendingLValues D @
        [\<lparr>pr_symbol = symb, pr_bounds = bnds, pr_lsp = lsp, pr_node = n, pr_edgeKind = EdgeNone, pr_role = Data,
          pr_precision = Range\<rparr>]\<rparr>"

definition processNonBlockingLvalues :: "('m, 'c) env \<Rightarrow> ('m, 'c) dfa \<Rightarrow> ('m, 'c) dfa option" where
  "processNonBlockingLvalues E D =
     map_option (\<lambda>D. D\<lparr>pendingLValues := []\<rparr>)
       (fold_opt (\<lambda>p. note_drivers E (pr_symbol p) (pr_bounds p) [\<lparr>di_node = pr_node p, di_lsp = Some (pr_lsp p)\<rparr>])
          (pendingLValues D) D)"

definition dfa_finalize :: "('m, 'c) env \<Rightarrow> ('m, 'c) dfa \<Rightarrow> ('m, 'c) dfa option" where
  "dfa_finalize E D = processNonBlockingLvalues E D"

definition handleLvalue :: "('m, 'c) env \<Rightarrow> nat \<Rightarrow> nat \<Rightarrow> bit_range \<Rightarrow> ('m, 'c) dfa \<Rightarrow> ('m, 'c) dfa option" where
  "handleLvalue E symb lsp bnds D =
     (if \<not> isBlocking D then Some (addNonBlockingLvalue symb lsp bnds (cur_node (flow D)) D)
      else note_drivers E symb bnds [\<lparr>di_node = cur_node (flow D), di_lsp = Some lsp\<rparr>] D)"

section \<open>R-values\<close>

text \<open>
  The loop over the definitions that overlap the R-value: the flag tells that one of them contains it, when the
  function returns.
\<close>

fun rvalue_loop ::
  "('m, 'c) env \<Rightarrow> ('m, nat) driver_map \<Rightarrow> nat \<Rightarrow> nat \<Rightarrow> bit_range \<Rightarrow> dependency_role \<Rightarrow> dependency_precision
   \<Rightarrow> nat entry list \<Rightarrow> ('m, 'c) builder \<Rightarrow> (bool \<times> ('m, 'c) builder) option" where
  "rvalue_loop E defs n ref bnds ro pr [] B = Some (False, B)"
| "rvalue_loop E defs n ref bnds ro pr (e # es) B =
     and_then (getDriverList (snd e) defs) (\<lambda>ds.
       if contains_of (rlib E) (ivl_range (fst e)) bnds then
         map_option (Pair True) (addDriversToNode E ds n (Some ref) bnds EdgeNone ro pr B)
       else if contains_of (rlib E) bnds (ivl_range (fst e)) then
         and_then (addDriversToNode E ds n (Some ref) bnds EdgeNone ro pr B) (rvalue_loop E defs n ref bnds ro pr es)
       else rvalue_loop E defs n ref bnds ro pr es B)"

text \<open>The part of the R-value that no definition covers becomes pending, interval by interval.\<close>

definition outside_parts :: "('m, 'c) env \<Rightarrow> ('m, nat) driver_map \<Rightarrow> bit_range \<Rightarrow> bit_range list" where
  "outside_parts E defs bnds =
     (let (h, dm) = newDriverList (dm_empty (imap E) :: ('m, nat) driver_map);
          rvalueMap = dm_insert (rlib E) (imap E) bnds h dm
      in map (\<lambda>e. ivl_range (fst e))
           (im_entries (imap E) (difference (imap E) (driverIntervals rvalueMap) (driverIntervals defs))))"

definition handleRvalue :: "('m, 'c) env \<Rightarrow> nat \<Rightarrow> nat \<Rightarrow> bit_range \<Rightarrow> ('m, 'c) dfa \<Rightarrow> ('m, 'c) dfa option" where
  "handleRvalue E symb lsp bnds D =
     (let ro = dependencyRole D; pr = dependencyPrecision D;
          pending = (\<lambda>b nd B. addRvalue E symb lsp b nd ro pr B);
          nd = (case cur_node (flow D) of Some n \<Rightarrow> Some n | None \<Rightarrow> externalNode D)
      in case getSlot (valueTracker D) symb of
           None \<Rightarrow> map_option (set_bld D) (pending bnds nd (bld D))
         | Some slot \<Rightarrow>
             if slot \<ge> length (valueDrivers (flow D)) then map_option (set_bld D) (pending bnds nd (bld D))
             else
               (let defs = valueDrivers (flow D) ! slot
                in case cur_node (flow D) of
                     None \<Rightarrow> map_option (set_bld D) (pending bnds (externalNode D) (bld D))
                   | Some n \<Rightarrow>
                       (let (ref, B1) = toSymbolRef E symb (bld D)
                        in and_then (rvalue_loop E defs n ref bnds ro pr (dm_find (rlib E) (imap E) bnds defs) B1)
                             (\<lambda>(covered, B2).
                               map_option (set_bld D)
                                 (if covered then Some B2
                                  else fold_opt (\<lambda>b. pending b (Some n)) (outside_parts E defs bnds) B2)))))"

text \<open>A reference is noted unless it is unreachable, has no root, or is an automatic variable.\<close>

definition noteReference :: "('m, 'c) env \<Rightarrow> ref_path \<Rightarrow> ('m, 'c) dfa \<Rightarrow> ('m, 'c) dfa option" where
  "noteReference E path D =
     (if \<not> reachable (flow D) then Some D
      else case (rp_lsp path, rp_root path) of
             (Some lsp, Some symb) \<Rightarrow>
               if is_automatic E symb then Some D
               else if isLValue D then handleLvalue E symb lsp (rp_bounds path) D
               else handleRvalue E symb lsp (rp_bounds path) D
           | _ \<Rightarrow> Some D)"

section \<open>Handlers\<close>

type_synonym ('m, 'c) visitor = "nat \<Rightarrow> ('m, 'c) dfa \<Rightarrow> ('m, 'c) dfa option"

definition without_lvalue :: "(('m, 'c) dfa \<Rightarrow> ('m, 'c) dfa option) \<Rightarrow> ('m, 'c) dfa \<Rightarrow> ('m, 'c) dfa option" where
  "without_lvalue f D = map_option (\<lambda>D'. D'\<lparr>isLValue := isLValue D\<rparr>) (f (D\<lparr>isLValue := False\<rparr>))"

definition visit_element :: "('m, 'c) visitor \<Rightarrow> path_elem \<Rightarrow> ('m, 'c) dfa \<Rightarrow> ('m, 'c) dfa option" where
  "visit_element visit elem D =
     (case elem of
        NamedElem \<Rightarrow> Some D
      | ElementSelect selector _ \<Rightarrow> without_lvalue (visit selector) D
      | RangeSelect l r \<Rightarrow> without_lvalue (\<lambda>D. and_then (visit l D) (visit r)) D
      | MemberAccess None \<Rightarrow> Some D
      | MemberAccess (Some v) \<Rightarrow> without_lvalue (visit v) D
      | OtherElem e \<Rightarrow> without_lvalue (visit e) D)"

definition handleSelect :: "('m, 'c) env \<Rightarrow> ('m, 'c) visitor \<Rightarrow> nat \<Rightarrow> ('m, 'c) dfa \<Rightarrow> ('m, 'c) dfa option" where
  "handleSelect E visit expr D =
     and_then (fold_opt (visit_element visit) (path_elems E expr) D) (noteReference E (path_ref E expr))"

text \<open>Moving to a new node: a control edge from the pending condition, which the node replaces if it is a condition.\<close>

definition updateNode :: "nat \<Rightarrow> bool \<Rightarrow> ('m, 'c) dfa \<Rightarrow> ('m, 'c) dfa" where
  "updateNode n conditional D =
     (let D1 = (case cur_condition (flow D) of
                  None \<Rightarrow> D
                | Some c \<Rightarrow> D\<lparr>bld := addPlainDependency c n Control Signal (bld D)\<rparr>)
      in D1\<lparr>flow := (flow D1)\<lparr>cur_condition := (if conditional then Some n else None), cur_node := Some n\<rparr>\<rparr>)"

definition handleProceduralAssign :: "('m, 'c) visitor \<Rightarrow> nat \<Rightarrow> bool \<Rightarrow> ('m, 'c) dfa \<Rightarrow> ('m, 'c) dfa option" where
  "handleProceduralAssign visit stmt isForce D =
     (if isForce
      then map_option (\<lambda>D. D\<lparr>prohibitLValue := False\<rparr>) (visit stmt (D\<lparr>prohibitLValue := True\<rparr>))
      else visit stmt D)"

record 'c assignment_expr =
  as_expr :: nat
  as_left :: "'c expr"
  as_right :: "'c expr"
  as_blocking :: bool
  as_isLValueArg :: bool

definition handleAssignmentLegacy ::
  "('m, 'c) env \<Rightarrow> ('m, 'c) visitor \<Rightarrow> 'c assignment_expr \<Rightarrow> ('m, 'c) dfa \<Rightarrow> ('m, 'c) dfa option" where
  "handleAssignmentLegacy E visit expr D =
     (let (n, B) = createAssignment E (as_expr expr) (bld D);
          D1 = updateNode n False (set_bld D B);
          left = x_id (info (as_left expr)); right = x_id (info (as_right expr))
      in and_then
           (if \<not> prohibitLValue D1
            then require (\<not> isLValue D1)
                   (map_option (\<lambda>D. D\<lparr>isLValue := False\<rparr>)
                     (visit left (D1\<lparr>isLValue := True, isBlocking := as_blocking expr\<rparr>)))
            else visit left D1)
           (\<lambda>D2. if \<not> as_isLValueArg expr then visit right D2 else Some D2))"

text \<open>The part of a path that a segment reads or writes.\<close>

definition segment_bounds :: "value_path \<Rightarrow> 'c bit_slice_source \<Rightarrow> 'c segment \<Rightarrow> bit_range" where
  "segment_bounds path src seg =
     (let offset = seg_lo seg - srcLo src; width = segment_width seg
      in mk_range (int (fst (lspBounds path) + offset)) (int (fst (lspBounds path) + offset + width) - 1))"

text \<open>Both assert that the source is a path and that the segment does not start before it.\<close>

definition driveLhsLspSegment ::
  "('m, 'c) env \<Rightarrow> 'c bit_slice_source \<Rightarrow> 'c segment \<Rightarrow> ('m, 'c) dfa \<Rightarrow> ('m, 'c) dfa option" where
  "driveLhsLspSegment E src seg D =
     require (src_kind src = SrcLsp \<and> seg_lo seg \<ge> srcLo src)
       (and_then (src_path src) (\<lambda>path.
        and_then (rootSymbol path) (\<lambda>symb.
          handleLvalue E symb (vp_expr path) (segment_bounds path src seg) D)))"

text \<open>
  A selector that does not evaluate is read with its own role and exact precision; the value itself is then read with
  signal precision.
\<close>

definition visitSelector ::
  "('m, 'c) env \<Rightarrow> ('m, 'c) visitor \<Rightarrow> nat \<Rightarrow> dependency_role \<Rightarrow> bool \<times> ('m, 'c) dfa \<Rightarrow> (bool \<times> ('m, 'c) dfa) option" where
  "visitSelector E visit selector ro st =
     (let (dynamicSelection, D) = st
      in if evaluates E selector then Some st
         else map_option (\<lambda>D'. (True, D'\<lparr>dependencyRole := dependencyRole D, dependencyPrecision := dependencyPrecision D\<rparr>))
                (visit selector (D\<lparr>dependencyRole := ro, dependencyPrecision := Exact\<rparr>)))"

definition visit_selectors ::
  "('m, 'c) env \<Rightarrow> ('m, 'c) visitor \<Rightarrow> path_elem \<Rightarrow> bool \<times> ('m, 'c) dfa \<Rightarrow> (bool \<times> ('m, 'c) dfa) option" where
  "visit_selectors E visit elem st =
     (case elem of
        ElementSelect selector unpacked \<Rightarrow> visitSelector E visit selector (if unpacked then Address else Index) st
      | RangeSelect l r \<Rightarrow> and_then (visitSelector E visit l Index st) (visitSelector E visit r Index)
      | _ \<Rightarrow> Some st)"

definition driveRhsLspSegment ::
  "('m, 'c) env \<Rightarrow> ('m, 'c) visitor \<Rightarrow> 'c bit_slice_source \<Rightarrow> 'c segment \<Rightarrow> ('m, 'c) dfa \<Rightarrow> ('m, 'c) dfa option" where
  "driveRhsLspSegment E visit src seg D =
     require (src_kind src = SrcLsp \<and> seg_lo seg \<ge> srcLo src)
       (and_then (src_path src) (\<lambda>path.
        and_then (rootSymbol path) (\<lambda>symb.
        and_then (fold_opt (visit_selectors E visit) (path_elems E (vp_expr path)) (False, D)) (\<lambda>(dynamicSelection, D1).
        and_then (handleRvalue E symb (vp_expr path) (segment_bounds path src seg)
                    (if dynamicSelection then D1\<lparr>dependencyPrecision := Signal\<rparr> else D1)) (\<lambda>D2.
          Some (D2\<lparr>dependencyPrecision := dependencyPrecision D1\<rparr>))))))"

text \<open>The sources of one segment of an aligned assignment.\<close>

definition drive_lhs_source ::
  "('m, 'c) env \<Rightarrow> 'c segment \<Rightarrow> 'c bit_slice_source \<Rightarrow> ('m, 'c) dfa \<Rightarrow> ('m, 'c) dfa option" where
  "drive_lhs_source E seg src D = (if src_kind src = SrcLsp then driveLhsLspSegment E src seg D else Some D)"

definition drive_rhs_source ::
  "('m, 'c) env \<Rightarrow> ('m, 'c) visitor \<Rightarrow> 'c assignment_expr \<Rightarrow> 'c segment \<Rightarrow> 'c bit_slice_source
   \<Rightarrow> ('m, 'c) dfa \<Rightarrow> ('m, 'c) dfa option" where
  "drive_rhs_source E visit expr seg src D =
     (case src_kind src of
        SrcLsp \<Rightarrow> driveRhsLspSegment E visit src seg D
      | SrcOpaque \<Rightarrow> and_then (opaqueExpr src) (\<lambda>e. without_lvalue (visit e) D)
      | SrcPadding \<Rightarrow> Some D
      | SrcConstant \<Rightarrow>
          (case cur_node (flow D) of
             None \<Rightarrow> Some D
           | Some n \<Rightarrow>
               (let (loc, B) = toTextLocation (expr_location E (as_expr expr)) (bld D)
                in map_option (\<lambda>(c, B'). set_bld D (addPlainDependency c n Data Exact B'))
                     (createConstantForSegment E src seg loc B)))
      | SrcPortNode \<Rightarrow> None)"

definition drive_segment ::
  "('m, 'c) env \<Rightarrow> ('m, 'c) visitor \<Rightarrow> 'c assignment_expr \<Rightarrow> nat option \<Rightarrow> nat option \<Rightarrow> 'c segment
   \<Rightarrow> ('m, 'c) dfa \<Rightarrow> ('m, 'c) dfa option" where
  "drive_segment E visit expr savedNode savedCondition seg D =
     (let D1 = D\<lparr>flow := (flow D)\<lparr>cur_node := savedNode, cur_condition := savedCondition\<rparr>\<rparr>;
          (n, B) = createAssignment E (as_expr expr) (bld D1);
          D2 = updateNode n False (set_bld D1 B)
      in and_then
           (if prohibitLValue D2 then Some D2
            else require (\<not> isLValue D2)
                   (map_option (\<lambda>D. D\<lparr>isLValue := False\<rparr>)
                     (fold_opt (drive_lhs_source E seg) (lhsSources seg) (D2\<lparr>isLValue := True\<rparr>))))
           (\<lambda>D3. if as_isLValueArg expr then Some D3
                 else fold_opt (drive_rhs_source E visit expr seg) (rhsSources seg) D3))"

text \<open>
  An assignment: the whole-expression walk when bit resolution is off, when a side is not integral, or when the widths
  of the two slice lists differ; otherwise one assignment node per aligned segment.
\<close>

definition handleAssignment ::
  "('m, 'c) env \<Rightarrow> ('m, 'c) visitor \<Rightarrow> 'c assignment_expr \<Rightarrow> ('m, 'c) dfa \<Rightarrow> ('m, 'c) dfa option" where
  "handleAssignment E visit expr D =
     (let cuts = (if propCutsAcrossPorts E then Some (cutRegistry (bld D)) else None);
          lhsList = build (const_zero E) True cuts (as_left expr);
          rhsList = build (const_zero E) True cuts (as_right expr)
      in if \<not> resolveAssignBits E then handleAssignmentLegacy E visit expr D
         else if \<not> x_integral (info (as_left expr)) \<or> \<not> x_integral (info (as_right expr))
         then handleAssignmentLegacy E visit expr D
         else if slices_width lhsList \<noteq> slices_width rhsList then handleAssignmentLegacy E visit expr D
         else and_then (alignSegments lhsList rhsList) (\<lambda>segs.
                fold_opt (drive_segment E visit expr (cur_node (flow D)) (cur_condition (flow D))) segs
                  (D\<lparr>isBlocking := as_blocking expr\<rparr>)))"

text \<open>A conditional statement whose conditions are all constant gets no node of its own.\<close>

definition handleConditional ::
  "('m, 'c) env \<Rightarrow> ('m, 'c) visitor \<Rightarrow> nat \<Rightarrow> nat list \<Rightarrow> ('m, 'c) dfa \<Rightarrow> ('m, 'c) dfa option" where
  "handleConditional E visitStmt stmt conditions D =
     (if list_all (evaluates E) conditions then visitStmt stmt D
      else (let (n, B) = createConditional E stmt (bld D) in visitStmt stmt (updateNode n True (set_bld D B))))"

definition handleCase :: "('m, 'c) env \<Rightarrow> ('m, 'c) visitor \<Rightarrow> nat \<Rightarrow> ('m, 'c) dfa \<Rightarrow> ('m, 'c) dfa option" where
  "handleCase E visitStmt stmt D =
     (let (n, B) = createCase E stmt (bld D) in visitStmt stmt (updateNode n True (set_bld D B)))"

section \<open>Joining states\<close>

text \<open>Two different nodes are merged; of one node and none the node is kept; two equal nodes give none.\<close>

definition merge_optional :: "nat option \<Rightarrow> nat option \<Rightarrow> ('m, 'c) builder \<Rightarrow> nat option \<times> ('m, 'c) builder" where
  "merge_optional a b B =
     (case (a, b) of
        (Some x, Some y) \<Rightarrow> if x \<noteq> y then (let (n, B') = merge_nodes x y B in (Some n, B')) else (None, B)
      | (_, None) \<Rightarrow> (a, B)
      | (None, _) \<Rightarrow> (b, B))"

text \<open>
  The drivers of every interval of one symbol are merged into the result; the slot's symbol is looked up first, with its
  assertion, also when the slot has no interval.
\<close>

definition merge_symbol ::
  "('m, 'c) env \<Rightarrow> ('m, nat) driver_map list \<Rightarrow> nat \<Rightarrow> nat value_tracker \<times> ('m, nat) driver_map list
   \<Rightarrow> (nat value_tracker \<times> ('m, nat) driver_map list) option" where
  "merge_symbol E other i st =
     and_then (getSymbol (fst st) i) (\<lambda>symbol.
       fold_opt (\<lambda>e st. and_then (getDriverList (snd e) (other ! i)) (\<lambda>ds.
           addDrivers (rlib E) (imap E) symbol (ivl_range (fst e)) ds True st))
         (dm_entries (imap E) (other ! i)) st)"

definition mergeStates ::
  "('m, 'c) env \<Rightarrow> 'm analysis_state \<Rightarrow> 'm analysis_state \<Rightarrow> ('m, 'c) dfa \<Rightarrow> ('m analysis_state \<times> ('m, 'c) dfa) option" where
  "mergeStates E result other D =
     map_option (\<lambda>(vt, vds).
         (let (n, B1) = merge_optional (cur_node result) (cur_node other) (bld D);
              (c, B2) = merge_optional (cur_condition result) (cur_condition other) B1
          in (result\<lparr>valueDrivers := vds, cur_node := n, cur_condition := c\<rparr>, D\<lparr>valueTracker := vt, bld := B2\<rparr>)))
       (fold_opt (merge_symbol E (valueDrivers other)) [0 ..< length (valueDrivers other)]
          (valueTracker D, valueDrivers result))"

definition joinState ::
  "('m, 'c) env \<Rightarrow> 'm analysis_state \<Rightarrow> 'm analysis_state \<Rightarrow> ('m, 'c) dfa \<Rightarrow> ('m analysis_state \<times> ('m, 'c) dfa) option" where
  "joinState E result other D =
     (if reachable result = reachable other then mergeStates E result other D
      else if \<not> reachable result then Some (copyState other, D)
      else Some (result, D))"

definition meetState ::
  "('m, 'c) env \<Rightarrow> 'm analysis_state \<Rightarrow> 'm analysis_state \<Rightarrow> ('m, 'c) dfa \<Rightarrow> ('m analysis_state \<times> ('m, 'c) dfa) option" where
  "meetState E result other D =
     (if \<not> reachable other then Some (result\<lparr>reachable := False\<rparr>, D)
      else mergeStates E result other D)"

section \<open>Traversals\<close>

text \<open>
  Two paths from the current state, joined: how slang's flow analysis treats the arms of a condition (and, with an
  empty arm, a break or return joined at the end of its loop or block). A block without a successor continues in the
  unreachable state.
\<close>

definition branch :: "('m, 'c) env \<Rightarrow> ('m, 'c) visitor \<Rightarrow> ('m, 'c) visitor \<Rightarrow> ('m, 'c) visitor" where
  "branch E f g e D =
     (let saved = flow D
      in and_then (f e (D\<lparr>flow := copyState saved\<rparr>)) (\<lambda>D1.
         and_then (g e (D1\<lparr>flow := saved\<rparr>)) (\<lambda>D2.
           map_option (\<lambda>(st, D3). D3\<lparr>flow := st\<rparr>) (joinState E (flow D2) (flow D1) D2))))"

text \<open>
  The analysis states that slang's base class keeps beside the current one (the arms of a statement, the true and false
  sides of a condition and of its short-circuit operators, the states at a break, continue or return) are named by
  numbers. It sets them by copies and by the top and unreachable states, and it joins and meets any two of them, also
  across statements: a state kept at a break is joined after the loop. A state that was never kept cannot be read.
\<close>

datatype state_place = Current | Kept nat

definition state_at :: "('m, 'c) dfa \<Rightarrow> state_place \<Rightarrow> 'm analysis_state option" where
  [model_simps]: "state_at D p = (case p of Current \<Rightarrow> Some (flow D) | Kept k \<Rightarrow> keptStates D k)"

definition put_state :: "state_place \<Rightarrow> 'm analysis_state \<Rightarrow> ('m, 'c) dfa \<Rightarrow> ('m, 'c) dfa" where
  [model_simps]: "put_state p st D =
     (case p of Current \<Rightarrow> D\<lparr>flow := st\<rparr> | Kept k \<Rightarrow> D\<lparr>keptStates := (keptStates D)(k \<mapsto> st)\<rparr>)"

datatype state_step =
  SetTop state_place | SetUnreachable state_place | CopyState state_place state_place
| JoinState state_place state_place | MeetState state_place state_place

fun base_step :: "('m, 'c) env \<Rightarrow> state_step \<Rightarrow> ('m, 'c) dfa \<Rightarrow> ('m, 'c) dfa option" where
  "base_step E (SetTop p) D = Some (put_state p topState D)"
| "base_step E (SetUnreachable p) D = Some (put_state p unreachableState D)"
| "base_step E (CopyState p q) D = map_option (\<lambda>st. put_state p (copyState st) D) (state_at D q)"
| "base_step E (JoinState p q) D =
     and_then (state_at D p) (\<lambda>result. and_then (state_at D q) (\<lambda>other.
       map_option (\<lambda>(st, D'). put_state p st D') (joinState E result other D)))"
| "base_step E (MeetState p q) D =
     and_then (state_at D p) (\<lambda>result. and_then (state_at D q) (\<lambda>other.
       map_option (\<lambda>(st, D'). put_state p st D') (meetState E result other D)))"

text \<open>
  What is asked of slang's traversal: it calls the analysis only through its handlers and the state steps above, in any
  order and any nesting. The argument of a visitor is the syntax it is called on; a traversal may be chosen by the
  syntax and by the state reached, and may call one on other syntax.
\<close>

inductive traversal :: "('m, 'c) env \<Rightarrow> ('m, 'c) visitor \<Rightarrow> bool" for E :: "('m, 'c) env" where
  Skip: "traversal E (\<lambda>_. Some)"
| Seq: "traversal E f \<Longrightarrow> traversal E g \<Longrightarrow> traversal E (\<lambda>e D. and_then (f e D) (g e))"
| Choice: "(\<And>e D. traversal E (f e D)) \<Longrightarrow> traversal E (\<lambda>e D. f e D e D)"
| At: "traversal E f \<Longrightarrow> traversal E (\<lambda>e. f (h e))"
| Select: "traversal E f \<Longrightarrow> traversal E (handleSelect E f)"
| Assignment: "traversal E f \<Longrightarrow> traversal E (\<lambda>_. handleAssignment E f expr)"
| ProceduralAssign: "traversal E f \<Longrightarrow> traversal E (\<lambda>e. handleProceduralAssign f e isForce)"
| Conditional: "traversal E f \<Longrightarrow> traversal E (\<lambda>e. handleConditional E f e conditions)"
| Case: "traversal E f \<Longrightarrow> traversal E (handleCase E f)"
| State: "traversal E (\<lambda>_. base_step E step)"
| Branch: "traversal E f \<Longrightarrow> traversal E g \<Longrightarrow> traversal E (branch E f g)"

section \<open>Whole blocks\<close>

definition handleProceduralBlock ::
  "('m, 'c) env \<Rightarrow> ('m, 'c) visitor \<Rightarrow> procedure_kind \<Rightarrow> proc_body \<Rightarrow> nat \<Rightarrow> ('m, 'c) builder \<Rightarrow> ('m, 'c) builder option" where
  "handleProceduralBlock E run kind body stmt B =
     and_then (run stmt (new_dfa None B)) (\<lambda>D.
     and_then (dfa_finalize E D) (\<lambda>D'.
       mergeDrivers E (valueTracker D') (valueDrivers (flow D')) (collectSensitivity kind body) (bld D')))"

definition handleContinuousAssign ::
  "('m, 'c) env \<Rightarrow> ('m, 'c) visitor \<Rightarrow> nat \<Rightarrow> ('m, 'c) builder \<Rightarrow> ('m, 'c) builder option" where
  "handleContinuousAssign E run expr B =
     and_then (run expr (new_dfa None B)) (\<lambda>D.
       mergeDrivers E (valueTracker D) (valueDrivers (flow D)) [] (bld D))"

end
