(* ===== verification/Ports.thy ===== *)
theory Ports
  imports Flow
begin

text \<open>
  Ports and their connections, \<^verbatim>\<open>source/PortConnectionHandler.cpp/.hpp\<close>.
\<close>

section \<open>Cuts of an actual\<close>

text \<open>
  The cut points that the shape of a connection expression implies, relative to \<open>base\<close>; operands of a concatenation
  are visited from the least significant one, and a path adds the cuts already known for its root.
\<close>

fun concat_cuts :: "(nat \<Rightarrow> 'v expr \<Rightarrow> nat list) \<Rightarrow> nat \<Rightarrow> 'v expr list \<Rightarrow> nat \<Rightarrow> nat list" where
  "concat_cuts f fin [] offset = []"
| "concat_cuts f fin (e # es) offset =
     (let next = offset + exprWidth e
      in f offset e @ (if next \<noteq> fin then [next] else []) @ concat_cuts f fin es next)"

lemma concat_cuts_cong [fundef_cong]:
  "es = es' \<Longrightarrow> (\<And>n e. e \<in> set es' \<Longrightarrow> f n e = g n e) \<Longrightarrow> fin = fin' \<Longrightarrow> offset = offset'
   \<Longrightarrow> concat_cuts f fin es offset = concat_cuts g fin' es' offset'"
  by (induction es arbitrary: es' offset offset') (auto simp: Let_def)

definition path_cuts :: "cut_registry \<Rightarrow> value_path \<Rightarrow> nat \<Rightarrow> nat list" where
  "path_cuts registry p base =
     (case rootSymbol p of
        None \<Rightarrow> []
      | Some root \<Rightarrow>
          (case cutsFor registry root of
             None \<Rightarrow> []
           | Some hints \<Rightarrow>
               map (\<lambda>c. base + (c - fst (lspBounds p)))
                 (hints_between (fst (lspBounds p)) (snd (lspBounds p) + 1) hints)))"

function collectActualCuts :: "cut_registry \<Rightarrow> nat \<Rightarrow> 'v expr \<Rightarrow> nat list" where
  "collectActualCuts registry base (Concatenation i operands) =
     concat_cuts (collectActualCuts registry) (base + x_width i) (rev operands) base"
| "collectActualCuts registry base (Replication i c e) =
     (case count_of c of
        None \<Rightarrow> []
      | Some n \<Rightarrow>
          if n \<le> 0 then []
          else concat (map (\<lambda>k. collectActualCuts registry (base + k * exprWidth e) e @
                 (let boundary = base + (k + 1) * exprWidth e in if boundary \<noteq> base + x_width i then [boundary] else []))
               [0 ..< nat n]))"
| "collectActualCuts registry base (Conversion i e) =
     (if x_width i = exprWidth e then collectActualCuts registry base e
      else if x_width i > exprWidth e then collectActualCuts registry base e @ [base + exprWidth e]
      else [])"
| "collectActualCuts registry base (LspExpr i p) = path_cuts registry p base"
| "collectActualCuts registry base (ConditionalOp i conds l r) = []"
| "collectActualCuts registry base (OtherExpr i) = []"
  by pat_completeness auto
termination
  by (relation "measure (\<lambda>(_, _, e). size e)") (auto simp: less_Suc_eq_le dest: size_list_estimation')

section \<open>Port nodes\<close>

text \<open>The range of a driver, split at every cut strictly inside it.\<close>

fun split_at :: "nat \<Rightarrow> nat list \<Rightarrow> nat \<Rightarrow> bit_range list" where
  "split_at prev [] hi = [mk_range (int prev) (int hi - 1)]"
| "split_at prev (c # cs) hi = mk_range (int prev) (int c - 1) # split_at c cs hi"

definition port_segments :: "nat list option \<Rightarrow> nat \<times> nat \<Rightarrow> bit_range list" where
  "port_segments hints bnds =
     (case hints of
        None \<Rightarrow> [mk_range (int (fst bnds)) (int (snd bnds))]
      | Some h \<Rightarrow> split_at (fst bnds) (hints_between (fst bnds) (snd bnds + 1) h) (snd bnds + 1))"

record port_symbol =
  port_id :: nat
  internalSymbol :: "nat option"
  internal_is_value :: bool
  port_direction :: arg_direction
  port_integral :: bool
  port_width :: nat
  port_drivers :: "slang_driver list"

text \<open>The drivers are those of the canonical counterpart of the internal symbol.\<close>

definition materialize_segment ::
  "('m, 'c) env \<Rightarrow> port_symbol \<Rightarrow> nat \<Rightarrow> bool \<Rightarrow> bit_range \<Rightarrow> ('m, 'c) builder \<Rightarrow> ('m, 'c) builder option" where
  "materialize_segment E port isym input seg B =
     and_then (createPort E (port_id port) (internalSymbol port) (port_direction port) seg B) (\<lambda>(n, B1).
       if input then addDriver E isym None seg n B1 else Some B1)"

definition materializePortNodes :: "('m, 'c) env \<Rightarrow> port_symbol \<Rightarrow> ('m, 'c) builder \<Rightarrow> ('m, 'c) builder option" where
  "materializePortNodes E port B =
     (case internalSymbol port of
        None \<Rightarrow> Some B
      | Some isym \<Rightarrow>
          if \<not> internal_is_value port then Some B
          else
            (let hints = (if propCutsAcrossPorts E then cutsFor (cutRegistry B) isym else None)
             in fold_opt (\<lambda>d. fold_opt (materialize_segment E port isym (isInputPort d)) (port_segments hints (sd_bounds d)))
                  (port_drivers port) B))"

section \<open>Connections\<close>

text \<open>
  A connection: the port, the expression (none, or bad, if the port is not connected), and whether it is the left side of
  an assignment, which is how slang connects outputs. The flags of the expression are in the tree.
\<close>

record 'c port_connection =
  pc_port :: port_symbol
  pc_expr :: "'c expr option"
  pc_isAssignment :: bool

definition recordCuts :: "('m, 'c) env \<Rightarrow> 'c port_connection \<Rightarrow> ('m, 'c) builder \<Rightarrow> ('m, 'c) builder" where
  "recordCuts E pc B =
     (case (pc_expr pc, internalSymbol (pc_port pc)) of
        (Some e, Some isym) \<Rightarrow>
          if \<not> internal_is_value (pc_port pc) then B
          else if \<not> port_integral (pc_port pc) \<or> \<not> x_integral (info e) \<or> port_width (pc_port pc) \<noteq> exprWidth e then B
          else
            (let cuts = collectActualCuts (cutRegistry B) 0 e
             in if cuts = [] then B
                else B\<lparr>cutRegistry := addCuts (sym_width E) isym cuts (cutRegistry B)\<rparr>)
      | _ \<Rightarrow> B)"

definition recordCutsFromPortConnections ::
  "('m, 'c) env \<Rightarrow> 'c port_connection list \<Rightarrow> ('m, 'c) builder \<Rightarrow> ('m, 'c) builder" where
  "recordCutsFromPortConnections E pcs B = fold (recordCuts E) pcs B"

text \<open>An output defines what the path refers to, an input is driven by it.\<close>

definition drive_output ::
  "('m, 'c) env \<Rightarrow> nat \<Rightarrow> nat \<Rightarrow> bit_range \<Rightarrow> nat \<Rightarrow> ('m, 'c) builder \<Rightarrow> ('m, 'c) builder option" where
  "drive_output E symb lsp bnds n B =
     and_then (mergeSymbolDrivers E symb bnds [\<lparr>di_node = Some n, di_lsp = Some lsp\<rparr>] B)
       (hookupOutputPort E symb bnds [\<lparr>di_node = Some n, di_lsp = None\<rparr>])"

definition with_path :: "ref_path \<Rightarrow> (nat \<Rightarrow> nat \<Rightarrow> bit_range \<Rightarrow> 'b \<Rightarrow> 'b option) \<Rightarrow> 'b \<Rightarrow> 'b option" where
  "with_path path f B =
     (case (rp_lsp path, rp_root path) of (Some lsp, Some symb) \<Rightarrow> f symb lsp (rp_bounds path) B | _ \<Rightarrow> Some B)"

definition handlePortConnectionLegacy ::
  "('m, 'c) env \<Rightarrow> port_symbol \<Rightarrow> nat \<Rightarrow> bool \<Rightarrow> ('m, 'c) builder \<Rightarrow> ('m, 'c) builder option" where
  "handlePortConnectionLegacy E port expr isOut B =
     (let portNodes = getVariables E (port_id port) B
      in fold_opt (\<lambda>path. with_path path (\<lambda>symb lsp bnds.
             fold_opt (\<lambda>n. if isOut then drive_output E symb lsp bnds n
                           else addRvalue E symb lsp bnds (Some n) Data Range) portNodes))
           (visited_paths E expr) B)"

text \<open>The slices of a port: the grid of the bounds of its nodes, each slice with every node that contains it.\<close>

definition port_node_bounds :: "('m, 'c) env \<Rightarrow> nat \<Rightarrow> ('m, 'c) builder \<Rightarrow> (nat \<times> nat \<times> nat) list" where
  "port_node_bounds E port B =
     List.map_filter (\<lambda>n. map_option (\<lambda>b. (n, nat (lower_of (rlib E) b), nat (upper_of (rlib E) b) + 1)) (getBounds (ndata (gr B) n)))
       (getVariables E port B)"

definition port_slice :: "(nat \<times> nat \<times> nat) list \<Rightarrow> nat \<Rightarrow> nat \<Rightarrow> 'c bit_slice" where
  "port_slice ns segLo segHi =
     \<lparr>concatLo = segLo, concatHi = segHi,
      sources = map (\<lambda>(n, _). makePortNode n segLo segHi) (filter (\<lambda>(n, lo, hi). lo \<le> segLo \<and> segHi \<le> hi) ns)\<rparr>"

definition buildPortSliceList :: "('m, 'c) env \<Rightarrow> port_symbol \<Rightarrow> ('m, 'c) builder \<Rightarrow> 'c slice_list" where
  "buildPortSliceList E port B =
     (if port_width port = 0 then []
      else
        (let ns = port_node_bounds E (port_id port) B;
             cuts = sort_unique (0 # port_width port # concat (map (\<lambda>(_, lo, hi). [lo, hi]) ns))
         in fold (\<lambda>(a, b). pushPaddingSlice (port_slice ns a b)) (grid cuts) []))"

definition drive_port_source ::
  "('m, 'c) env \<Rightarrow> nat list \<Rightarrow> bool \<Rightarrow> 'c segment \<Rightarrow> 'c bit_slice_source \<Rightarrow> ('m, 'c) builder \<Rightarrow> ('m, 'c) builder option" where
  "drive_port_source E portNodes isOut seg src B =
     (case src_kind src of
        SrcLsp \<Rightarrow>
          and_then (src_path src) (\<lambda>path.
            case rootSymbol path of
              None \<Rightarrow> Some B
            | Some root \<Rightarrow>
                require (segment_width seg > 0)
                  (fold_opt (\<lambda>n. if isOut then drive_output E root (vp_expr path) (segment_bounds path src seg) n
                                 else addRvalue E root (vp_expr path) (segment_bounds path src seg) (Some n) PortConnection Exact)
                     portNodes B))
      | SrcOpaque \<Rightarrow>
          and_then (opaqueExpr src) (\<lambda>e.
            fold_opt (\<lambda>path. with_path path (\<lambda>symb lsp bnds.
                fold_opt (\<lambda>n. addRvalue E symb lsp bnds (Some n) PortConnection Signal) portNodes))
              (visited_paths E e) B)
      | SrcPadding \<Rightarrow> Some B
      | SrcConstant \<Rightarrow>
          if isOut then Some B
          else map_option (\<lambda>(c, B1). fold (\<lambda>n. addPlainDependency c n PortConnection Exact) portNodes B1)
                 (createConstantForSegment E src seg no_location B)
      | SrcPortNode \<Rightarrow> None)"

definition segment_port_nodes :: "'c segment \<Rightarrow> nat list" where
  "segment_port_nodes seg =
     List.map_filter (\<lambda>s. if src_kind s = SrcPortNode then portNode s else None) (lhsSources seg)"

definition drivePortSegment ::
  "('m, 'c) env \<Rightarrow> bool \<Rightarrow> 'c segment \<Rightarrow> ('m, 'c) builder \<Rightarrow> ('m, 'c) builder option" where
  "drivePortSegment E isOut seg B =
     (let portNodes = segment_port_nodes seg
      in if portNodes = [] then Some B
         else fold_opt (drive_port_source E portNodes isOut seg) (rhsSources seg) B)"

definition handlePortConnection :: "('m, 'c) env \<Rightarrow> 'c port_connection \<Rightarrow> ('m, 'c) builder \<Rightarrow> ('m, 'c) builder option" where
  "handlePortConnection E pc B =
     (case pc_expr pc of
        None \<Rightarrow> Some B
      | Some e \<Rightarrow>
          (let port = pc_port pc; isOut = pc_isAssignment pc;
               legacy = handlePortConnectionLegacy E port (x_id (info e)) isOut B
           in if \<not> resolveAssignBits E then legacy
              else if \<not> port_integral port \<or> \<not> x_integral (info e) then legacy
              else
                (let portList = buildPortSliceList E port B; actualList = build (const_zero E) True None e
                 in if slices_width portList = 0 then Some B
                    else if slices_width portList \<noteq> slices_width actualList then legacy
                    else and_then (alignSegments portList actualList) (\<lambda>segs. fold_opt (drivePortSegment E isOut) segs B))))"

end
