(* ===== verification/NetFacts.thy ===== *)
theory NetFacts
  imports NetlistTypes
begin

text \<open>
  Facts about the netlist graph that the serializer and the builder share: setting the label of an edge, adding nodes
  and edges, interning symbols.
\<close>

section \<open>Setting the label of an edge\<close>

lemma set_einfo_fields [simp]:
  "nodes (set_einfo e i g) = nodes g" "nodeAt (set_einfo e i g) = nodeAt g" "outEdges (set_einfo e i g) = outEdges g"
  "inEdges (set_einfo e i g) = inEdges g" "outEdgeIndex (set_einfo e i g) = outEdgeIndex g"
  "nextNode (set_einfo e i g) = nextNode g" "nextEdge (set_einfo e i g) = nextEdge g"
  "esrc (set_einfo e i g) = esrc g" "etgt (set_einfo e i g) = etgt g"
  "edgeAt (set_einfo e i g) x = None \<longleftrightarrow> edgeAt g x = None"
  by (auto simp: set_einfo_def esrc_def etgt_def fun_eq_iff split: option.split)

lemma set_einfo_ok: "graph_ok g \<Longrightarrow> graph_ok (set_einfo e i g)"
  unfolding graph_ok_def edges_ok_def index_ok_def nodes_ok_def set_einfo_fields by assumption

lemma einfo_set: "edgeAt g e \<noteq> None \<Longrightarrow> einfo (set_einfo e i g) x = (if x = e then i else einfo g x)"
  by (auto simp: set_einfo_def einfo_def)

section \<open>Adding nodes, edges and symbols\<close>

definition simple_graph :: "('n, 'e) digraph \<Rightarrow> bool" where
  "simple_graph g \<longleftrightarrow> (\<forall>x y. edgeAt g x \<noteq> None \<longrightarrow> edgeAt g y \<noteq> None \<longrightarrow>
     esrc g x = esrc g y \<longrightarrow> etgt g x = etgt g y \<longrightarrow> x = y)"

lemma addNode_keeps_edges: "edgeAt (snd (addNode n g)) = edgeAt g" "einfo (snd (addNode n g)) = einfo g"
  "simple_graph (snd (addNode n g)) = simple_graph g"
  by (simp_all add: addNode_def Let_def einfo_def fun_eq_iff simple_graph_def esrc_def etgt_def)

lemma node_addEdge_gives:
  assumes "graph_ok g" "s \<in> set (nodes g)" "t \<in> set (nodes g)" "node_addEdge d s t g = (e, g')"
  shows "graph_ok g' \<and> nodes g' = nodes g \<and> edgeAt g' e \<noteq> None \<and>
     (\<forall>x. x \<noteq> e \<longrightarrow> edgeAt g' x = edgeAt g x) \<and> (simple_graph g \<longrightarrow> simple_graph g')"
proof (cases "lookupOutEdge g s t")
  case None
  then have eq: "e = nextEdge g" "g' = with_edge d s t g"
    using assms(4) by (simp_all add: node_addEdge_eq)
  have "findEdgeTo g s t = None"
    using None by (simp add: lookup_is_scan [OF graph_okD(2) [OF assms(1)]])
  then have "edgeAt g x \<noteq> None \<Longrightarrow> esrc g x = s \<Longrightarrow> etgt g x \<noteq> t" for x
    using findEdgeTo_None [OF graph_okD(1) [OF assms(1)]] by blast
  then have "simple_graph g \<longrightarrow> simple_graph g'"
    unfolding eq simple_graph_def esrc_def etgt_def with_edge_edgeAt by (auto split: if_splits)
  then show ?thesis
    using eq with_edge_ok [OF assms(1-3)] by (simp add: with_edge_edgeAt) (simp add: with_edge_def)
next
  case (Some x)
  then have "findEdgeTo g s t = Some x"
    by (simp add: lookup_is_scan [OF graph_okD(2) [OF assms(1)]])
  then have "edgeAt g x \<noteq> None"
    using findEdgeTo_Some [OF graph_okD(1) [OF assms(1)]] by blast
  then show ?thesis
    using Some assms(1,4) by (simp add: node_addEdge_eq)
qed

lemma intern_ref_grows:
  assumes "st_ok t"
  shows "st_ok (snd (intern_ref r t))" "fst (intern_ref r t) < length (st_entries (snd (intern_ref r t)))"
    "length (st_entries t) \<le> length (st_entries (snd (intern_ref r t)))"
  using intern_ok [OF assms] intern_path(1) [OF assms]
  by (auto simp: intern_ref_def) (simp add: intern_def Let_def split: option.split)

text \<open>A new edge, whether there is one already or not.\<close>

lemma node_addNewEdge_gives:
  assumes "graph_ok g" "s \<in> set (nodes g)" "t \<in> set (nodes g)" "node_addNewEdge d s t g = (e, g')"
  shows "graph_ok g' \<and> nodes g' = nodes g \<and> nodeAt g' = nodeAt g \<and> edgeAt g e = None \<and>
     edgeAt g' = (edgeAt g)(e \<mapsto> \<lparr>sourceNode = s, targetNode = t, elabel = d\<rparr>)"
  using assms(4) with_edge_ok [OF assms(1-3)] no_next_edge(1) [OF graph_okD(1) [OF assms(1)]]
  by (auto simp: node_addNewEdge_eq with_edge_edgeAt) (simp_all add: with_edge_def)

lemma node_addEdge_cases:
  assumes "graph_ok g" "s \<in> set (nodes g)" "t \<in> set (nodes g)" "node_addEdge d s t g = (e, g')"
  obtains (old) "g' = g" "edgeAt g e \<noteq> None" "esrc g e = s" "etgt g e = t" "List.find (\<lambda>x. etgt g x = t) (outEdges g s) = Some e"
  | (new) "graph_ok g'" "nodes g' = nodes g" "nodeAt g' = nodeAt g" "edgeAt g e = None"
      "edgeAt g' = (edgeAt g)(e \<mapsto> \<lparr>sourceNode = s, targetNode = t, elabel = d\<rparr>)"
      "\<And>x. edgeAt g x \<noteq> None \<Longrightarrow> esrc g x = s \<Longrightarrow> etgt g x \<noteq> t"
proof (cases "lookupOutEdge g s t")
  case None
  then have "node_addNewEdge d s t g = (e, g')"
    using assms(4) by (simp add: node_addEdge_eq node_addNewEdge_eq)
  from node_addNewEdge_gives [OF assms(1-3) this]
  have n: "graph_ok g'" "nodes g' = nodes g" "nodeAt g' = nodeAt g" "edgeAt g e = None"
    "edgeAt g' = (edgeAt g)(e \<mapsto> \<lparr>sourceNode = s, targetNode = t, elabel = d\<rparr>)" by blast+
  have "findEdgeTo g s t = None"
    using None by (simp add: lookup_is_scan [OF graph_okD(2) [OF assms(1)]])
  then have "edgeAt g x \<noteq> None \<Longrightarrow> esrc g x = s \<Longrightarrow> etgt g x \<noteq> t" for x
    using findEdgeTo_None [OF graph_okD(1) [OF assms(1)]] by blast
  then show thesis
    by (rule new [OF n])
next
  case (Some x)
  then have x: "findEdgeTo g s t = Some e" "g' = g"
    using assms(4) by (simp_all add: lookup_is_scan [OF graph_okD(2) [OF assms(1)]] node_addEdge_eq)
  then have "edgeAt g e \<noteq> None" "esrc g e = s" "etgt g e = t"
    using findEdgeTo_Some [OF graph_okD(1) [OF assms(1)] x(1)] by blast+
  then show thesis
    by (rule old [OF x(2) _ _ _ x(1) [unfolded findEdgeTo_def]])
qed

end
