(* ===== verification/BuilderFacts.thy ===== *)
theory BuilderFacts
  imports Ports AddDrivers NetFacts
begin

text \<open>
  The invariant of the builder: the graph and the tables are well formed, every symbol pointer leads to a record, every
  node pointer that the builder keeps (in driver lists, variables and pending R-values) leads to a node of the graph,
  and the nodes have different identifiers. Every operation keeps it and only adds nodes.
\<close>

section \<open>Node pointers in driver maps\<close>

definition dm_within :: "nat option set \<Rightarrow> ('m, 'x) driver_map \<Rightarrow> bool" where
  "dm_within X dm \<longleftrightarrow> (\<forall>ds. Some ds \<in> set (slots (driverLists dm)) \<longrightarrow> dl_nodes ds \<subseteq> X)"

named_theorems within \<open>driver maps whose drivers stay within a set\<close>

lemma within_mono: "X \<subseteq> Y \<Longrightarrow> dm_within X dm \<Longrightarrow> dm_within Y dm"
  by (auto simp: dm_within_def)

lemma within_empty [within]: "dm_within X (dm_empty I)"
  by (simp add: dm_within_def dm_empty_def em_new_def)

lemma within_same [simp]: "dm_within X (dm_insert R I b h dm) = dm_within X dm" "dm_within X (dm_eraseAt I e dm) = dm_within X dm"
  by (simp_all add: dm_within_def dm_defs)

lemma within_slots:
  "dm_within X dm \<Longrightarrow> set (slots m) \<subseteq> insert (Some ds) (insert None (set (slots (driverLists dm)))) \<Longrightarrow> dl_nodes ds \<subseteq> X \<Longrightarrow>
   dm_within X (dm\<lparr>driverLists := m\<rparr>)"
  by (auto simp: dm_within_def)

lemma within_addDriverList:
  assumes "dm_within X dm" "dl_nodes ds \<subseteq> X"
  shows "dm_within X (snd (addDriverList ds dm))"
proof -
  have "set (slots (snd (em_allocate ds m))) \<subseteq> insert (Some ds) (insert None (set (slots m)))" for m
    using set_update_subset_insert [of "slots m"] by (auto simp: em_allocate_def split: list.split)
  then show ?thesis
    using within_slots [OF assms(1) _ assms(2)] by (simp add: addDriverList_def Let_def)
qed

lemma within_put:
  assumes "dm_within X dm" "dl_nodes ds \<subseteq> X" "putDriverList h ds dm = Some dm'"
  shows "dm_within X dm'"
proof -
  obtain m where m: "em_put h ds (driverLists dm) = Some m" "dm' = dm\<lparr>driverLists := m\<rparr>"
    using assms(3) by (auto simp: putDriverList_def)
  then have "set (slots m) \<subseteq> insert (Some ds) (set (slots (driverLists dm)))"
    using em_putD [OF m(1)] set_update_subset_insert [of "slots (driverLists dm)" h "Some ds"] by simp
  then show ?thesis
    unfolding m(2) using within_slots [OF assms(1) _ assms(2)] by blast
qed

lemma within_erase:
  assumes "dm_within X dm" "dm_eraseHandle h dm = Some dm'"
  shows "dm_within X dm'"
proof -
  obtain m where m: "em_erase h (driverLists dm) = Some m" "dm' = dm\<lparr>driverLists := m\<rparr>"
    using assms(2) by (auto simp: dm_eraseHandle_def)
  then have "set (slots m) \<subseteq> insert None (set (slots (driverLists dm)))"
    using em_eraseD [OF m(1)] set_update_subset_insert [of "slots (driverLists dm)" h None] by simp
  then show ?thesis
    unfolding m(2) using within_slots [OF assms(1), of m "[]"] by auto
qed

lemma within_get: "getDriverList h dm = Some ds \<Longrightarrow> dm_within X dm \<Longrightarrow> dl_nodes ds \<subseteq> X"
  using em_get_SomeD [of h "driverLists dm" ds] nth_mem [of h "slots (driverLists dm)"]
  by (auto simp: dm_within_def getDriverList_def)

section \<open>Adding drivers stays within\<close>

definition out_within :: "nat option set \<Rightarrow> ('m, 'x) outcome \<Rightarrow> bool" where
  "out_within X out = (case out of Finished dm \<Rightarrow> dm_within X dm | Refind dm _ \<Rightarrow> dm_within X dm | Skip \<Rightarrow> True)"

lemma out_within_simps [simp]:
  "out_within X (Finished dm) = dm_within X dm" "out_within X (Refind dm b) = dm_within X dm" "out_within X Skip"
  by (simp_all add: out_within_def)

lemma pred_bind: "pred_option P x \<Longrightarrow> (\<And>y. x = Some y \<Longrightarrow> P y \<Longrightarrow> pred_option Q (f y)) \<Longrightarrow> pred_option Q (and_then x f)"
  by (cases x) auto

lemma pred_then: "(\<And>y. x = Some y \<Longrightarrow> pred_option Q (f y)) \<Longrightarrow> pred_option Q (and_then x f)"
  by (cases x) auto

lemma pred_require: "(c \<Longrightarrow> pred_option Q x) \<Longrightarrow> pred_option Q (require c x)"
  by (simp add: require_def)

lemma pred_map: "pred_option (\<lambda>y. Q (f y)) x \<Longrightarrow> pred_option Q (map_option f x)"
  by (cases x) auto

lemma pred_put: "dm_within X dm \<Longrightarrow> dl_nodes ds \<subseteq> X \<Longrightarrow> pred_option (dm_within X) (putDriverList h ds dm)"
  by (cases "putDriverList h ds dm") (auto dest: within_put)

lemma pred_erase: "dm_within X dm \<Longrightarrow> pred_option (dm_within X) (dm_eraseHandle h dm)"
  by (cases "dm_eraseHandle h dm") (auto dest: within_erase)

lemma within_add: "addDriverList ds dm = (h, dm') \<Longrightarrow> dm_within X dm \<Longrightarrow> dl_nodes ds \<subseteq> X \<Longrightarrow> dm_within X dm'"
  using within_addDriverList [of X dm ds] by simp

lemma advance_within [simp]: "dm_within X dm \<Longrightarrow> out_within X (advance dm bnds s)"
  by (simp add: advance_def)

lemma add_step_within:
  assumes "dm_within X dm" "dl_nodes dl \<subseteq> X"
  shows "pred_option (out_within X) (add_step R I mrg dl dm bnds e)"
proof -
  have a: "dm_within X (snd (addDriverList ds dm'))" if "dm_within X dm'" "dl_nodes ds \<subseteq> X" for ds and dm' :: "('a, 'b) driver_map"
    using within_addDriverList [OF that] .
  note facts = pred_put within_get [OF _ assms(1)] a assms pred_erase
  note sub = subsetD [OF assms(2)] subsetD [OF within_get [OF _ assms(1)]]
  note put = within_put [rotated 2, where X = X] and erase = within_erase [rotated 1, where X = X]
  have "pred_option (out_within X) (step_match mrg dl dm h)" for h
    unfolding step_match_def by (intro pred_then pred_map) (simp add: facts)
  moreover have "pred_option (out_within X) (step_split R I mrg dl dm bnds e)"
    unfolding step_split_def split_beta Let_def
    by (auto intro!: pred_then dest!: put intro: sub simp: facts)
  moreover have "pred_option (out_within X) (step_cover R I mrg dl dm bnds e)"
    unfolding step_cover_def split_beta Let_def
    by (auto intro!: pred_then dest!: put erase intro: sub simp: facts split: if_splits)
  moreover have "pred_option (out_within X) (step_left R I mrg dl dm bnds e)"
    unfolding step_left_def split_beta Let_def
    by (auto intro!: pred_require pred_then dest!: put intro: sub simp: facts bind_eq_Some_conv split: if_splits)
  moreover have w: "dm_within X (snd (addDriverList dl (dm_eraseAt I e dm)))"
    by (simp add: a assms)
  have "pred_option (out_within X) (step_right R I mrg dl dm bnds e)"
    unfolding step_right_def split_beta Let_def
    by (auto intro!: pred_require pred_then dest!: put intro: sub subsetD [OF within_get [OF _ w]]
        simp: facts within_get [OF _ w] bind_eq_Some_conv split: if_splits)
  ultimately show ?thesis
    by (simp add: add_step_def split_beta)
qed

lemma add_loop_within:
  "dm_within X dm \<Longrightarrow> dl_nodes dl \<subseteq> X \<Longrightarrow> pred_option (dm_within X) (add_loop R I mrg dl fuel dm bnds es)"
proof (induction R I mrg dl fuel dm bnds es rule: add_loop.induct)
  case (1 R I mrg dl fuel dm bnds)
  then show ?case using within_addDriverList [of X dm dl] by (simp add: split_beta)
next
  case (3 R I mrg dl fuel dm bnds e es)
  from add_step_within [OF 3(3,4), of R I mrg bnds e] 3 show ?case
    by (cases "add_step R I mrg dl dm bnds e") (auto split: outcome.split)
qed simp

lemma addDrivers_within:
  assumes "\<forall>dm \<in> set (snd st). dm_within X dm" "dl_nodes dl \<subseteq> X" "addDrivers R I symb bnds dl mrg st = Some st'"
  shows "\<forall>dm \<in> set (snd st'). dm_within X dm"
proof -
  obtain i t where it: "slotFor symb (fst st) = (i, t)" by fastforce
  let ?ds = "resizeDrivers I i (snd st)"
  have ds: "\<forall>dm \<in> set ?ds. dm_within X dm"
    using assms(1) by (auto simp: resizeDrivers_def within)
  moreover have "i < length ?ds" by (auto simp: resizeDrivers_def)
  ultimately have "dm_within X (?ds ! i)" by simp
  then have "pred_option (dm_within X) (add_interval R I mrg dl (?ds ! i) bnds)"
    unfolding add_interval_def Let_def by (rule add_loop_within [OF _ assms(2)])
  moreover obtain dm where "add_interval R I mrg dl (?ds ! i) bnds = Some dm" "snd st' = ?ds[i := dm]"
    using assms(3) by (auto simp: addDrivers_def it Let_def)
  ultimately show ?thesis
    using ds set_update_subset_insert [of ?ds i dm] by auto
qed

section \<open>The invariant\<close>

definition live :: "('n, 'e) digraph \<Rightarrow> nat option set" where
  "live g = insert None (Some ` set (nodes g))"

lemma live_simps [simp]: "None \<in> live g" "Some n \<in> live g \<longleftrightarrow> n \<in> set (nodes g)"
  by (auto simp: live_def)

text \<open>The graph with its tables.\<close>

definition net_ok :: "'c netlist \<Rightarrow> bool" where
  "net_ok N \<longleftrightarrow> graph_ok (dg N) \<and> ft_ok (fileTable N) \<and> st_ok (symbolTable N) \<and>
     (\<forall>e p. edgeAt (dg N) e \<noteq> None \<longrightarrow> symbol (einfo (dg N) e) = Some p \<longrightarrow> p < length (st_entries (symbolTable N)))"

text \<open>The pointers that the builder keeps, and the counter of identifiers.\<close>

definition pointers_ok :: "('m, 'c) env \<Rightarrow> ('m, 'c) builder \<Rightarrow> bool" where
  "pointers_ok E B \<longleftrightarrow>
     (\<forall>s r. symbolRefCache B s = Some r \<longrightarrow> r < length (st_entries (symbolTable (bgraph B)))) \<and>
     (\<forall>s m e. variables B s = Some m \<longrightarrow> e \<in> set (im_entries (imap E) m) \<longrightarrow> snd e \<in> set (nodes (gr B))) \<and>
     (\<forall>dm \<in> set (drivers B). dm_within (live (gr B)) dm) \<and>
     (\<forall>p \<in> set (queue B). pr_node p \<in> live (gr B)) \<and>
     (\<forall>buf. taskBuffer B = Some buf \<longrightarrow> (\<forall>p \<in> set buf. pr_node p \<in> live (gr B)))"

definition ids_ok :: "('m, 'c) builder \<Rightarrow> bool" where
  "ids_ok B \<longleftrightarrow> distinct (map (nID (gr B)) (nodes (gr B))) \<and> (\<forall>n \<in> set (nodes (gr B)). nID (gr B) n < nextID B)"

definition builder_ok :: "('m, 'c) env \<Rightarrow> ('m, 'c) builder \<Rightarrow> bool" where
  "builder_ok E B \<longleftrightarrow> net_ok (bgraph B) \<and> pointers_ok E B \<and> ids_ok B"

text \<open>Keeping the invariant while nodes and symbol records are only added, and the name index left as it is.\<close>

definition keeps :: "('m, 'c) env \<Rightarrow> ('m, 'c) builder \<Rightarrow> ('m, 'c) builder \<Rightarrow> bool" where
  "keeps E B B' \<longleftrightarrow> builder_ok E B' \<and> set (nodes (gr B)) \<subseteq> set (nodes (gr B')) \<and>
     length (st_entries (symbolTable (bgraph B))) \<le> length (st_entries (symbolTable (bgraph B'))) \<and>
     nodeIndex (bgraph B') = nodeIndex (bgraph B)"

lemma keeps_refl: "builder_ok E B \<Longrightarrow> keeps E B B"
  by (simp add: keeps_def)

lemma keeps_trans: "keeps E A B \<Longrightarrow> keeps E B C \<Longrightarrow> keeps E A C"
  by (auto simp: keeps_def)

lemma keepsD: "keeps E B B' \<Longrightarrow> builder_ok E B'" "keeps E B B' \<Longrightarrow> n \<in> set (nodes (gr B)) \<Longrightarrow> n \<in> set (nodes (gr B'))"
  "keeps E B B' \<Longrightarrow> x \<in> live (gr B) \<Longrightarrow> x \<in> live (gr B')"
  "keeps E B B' \<Longrightarrow> r < length (st_entries (symbolTable (bgraph B))) \<Longrightarrow> r < length (st_entries (symbolTable (bgraph B')))"
  by (auto simp: keeps_def live_def)

lemma keeps_chain: "keeps E A B \<Longrightarrow> pred_option (keeps E B) x \<Longrightarrow> pred_option (keeps E A) x"
  by (cases x) (auto intro: keeps_trans)

lemma keeps_bind:
  "pred_option (keeps E B) x \<Longrightarrow> (\<And>B1. keeps E B B1 \<Longrightarrow> pred_option (keeps E B1) (f B1)) \<Longrightarrow> pred_option (keeps E B) (and_then x f)"
  by (cases x) (auto intro: keeps_chain)

lemma fold_opt_keeps:
  "builder_ok E B \<Longrightarrow> (\<And>x B1. x \<in> set xs \<Longrightarrow> keeps E B B1 \<Longrightarrow> pred_option (keeps E B1) (f x B1)) \<Longrightarrow>
   pred_option (keeps E B) (fold_opt f xs B)"
proof (induction xs arbitrary: B)
  case (Cons x xs)
  have "pred_option (keeps E B) (f x B)"
    using Cons.prems by (simp add: keeps_refl)
  moreover have "pred_option (keeps E B1) (fold_opt f xs B1)" if 1: "keeps E B B1" for B1
    by (rule Cons.IH [OF keepsD(1) [OF 1]]) (simp add: Cons.prems(2) keeps_trans [OF 1])
  ultimately show ?case
    unfolding fold_opt.simps by (rule keeps_bind)
qed (simp add: keeps_refl)

lemma fold_keeps:
  "builder_ok E B \<Longrightarrow> (\<And>x B1. x \<in> set xs \<Longrightarrow> keeps E B B1 \<Longrightarrow> keeps E B1 (f x B1)) \<Longrightarrow> keeps E B (fold f xs B)"
proof (induction xs arbitrary: B)
  case (Cons x xs)
  have 1: "keeps E B (f x B)"
    using Cons.prems by (simp add: keeps_refl)
  have "keeps E (f x B) (fold f xs (f x B))"
    using Cons.prems(2) by (intro Cons.IH keepsD(1) [OF 1]) (auto intro: keeps_trans [OF 1])
  then show ?case
    using keeps_trans [OF 1] by simp
qed (simp add: keeps_refl)

section \<open>Locations, symbols and nodes\<close>

lemma toTextLocation_fields [simp]:
  "gr (snd (toTextLocation l B)) = gr B" "symbolTable (bgraph (snd (toTextLocation l B))) = symbolTable (bgraph B)"
  "symbolRefCache (snd (toTextLocation l B)) = symbolRefCache B" "variables (snd (toTextLocation l B)) = variables B"
  "drivers (snd (toTextLocation l B)) = drivers B" "driverMap (snd (toTextLocation l B)) = driverMap B"
  "nodeIndex (bgraph (snd (toTextLocation l B))) = nodeIndex (bgraph B)"
  "queue (snd (toTextLocation l B)) = queue B" "taskBuffer (snd (toTextLocation l B)) = taskBuffer B"
  "nextID (snd (toTextLocation l B)) = nextID B" "cutRegistry (snd (toTextLocation l B)) = cutRegistry B"
  by (auto simp: toTextLocation_def Let_def split: option.split)

lemma toTextLocation_keeps: "builder_ok E B \<Longrightarrow> keeps E B (snd (toTextLocation l B))"
proof -
  assume ok: "builder_ok E B"
  have "ft_ok (fileTable (bgraph (snd (toTextLocation l B))))"
    using ok by (auto simp: builder_ok_def net_ok_def toTextLocation_def Let_def addFile_ok split: option.split)
  then show ?thesis
    using ok by (simp add: keeps_def builder_ok_def net_ok_def pointers_ok_def ids_ok_def)
qed

lemma toSymbolRef_fields [simp]:
  "gr (snd (toSymbolRef E s B)) = gr B" "variables (snd (toSymbolRef E s B)) = variables B"
  "drivers (snd (toSymbolRef E s B)) = drivers B" "driverMap (snd (toSymbolRef E s B)) = driverMap B"
  "nodeIndex (bgraph (snd (toSymbolRef E s B))) = nodeIndex (bgraph B)"
  "queue (snd (toSymbolRef E s B)) = queue B" "taskBuffer (snd (toSymbolRef E s B)) = taskBuffer B"
  "nextID (snd (toSymbolRef E s B)) = nextID B" "cutRegistry (snd (toSymbolRef E s B)) = cutRegistry B"
  by (auto simp: toSymbolRef_def Let_def split_beta split: option.split)

lemma toSymbolRef_keeps:
  assumes ok: "builder_ok E B"
  shows "keeps E B (snd (toSymbolRef E s B))"
    and "fst (toSymbolRef E s B) < length (st_entries (symbolTable (bgraph (snd (toSymbolRef E s B)))))"
proof -
  obtain loc B1 where loc: "toTextLocation (sym_location E s) B = (loc, B1)" by fastforce
  note B1 = toTextLocation_keeps [OF ok, of "sym_location E s", unfolded loc snd_conv]
  have st: "st_ok (symbolTable (bgraph B1))" "symbolTable (bgraph B1) = symbolTable (bgraph B)"
    using keepsD(1) [OF B1] toTextLocation_fields(2) [of "sym_location E s" B]
    by (simp_all add: builder_ok_def net_ok_def loc)
  note t = intern_ok [OF st(1)] intern_path(1,4) [OF st(1)]
  have cache: "symbolRefCache B s = Some r \<Longrightarrow> r < length (st_entries (symbolTable (bgraph B)))" for r s
    using ok by (simp add: builder_ok_def pointers_ok_def)
  have fields: "symbolRefCache B1 = symbolRefCache B" "gr B1 = gr B" "variables B1 = variables B" "drivers B1 = drivers B"
    "queue B1 = queue B" "taskBuffer B1 = taskBuffer B" "nextID B1 = nextID B" "nodeIndex (bgraph B1) = nodeIndex (bgraph B)"
    using toTextLocation_fields [of "sym_location E s" B] by (simp_all add: loc)
  show "keeps E B (snd (toSymbolRef E s B))"
  proof (cases "symbolRefCache B s")
    case None
    let ?r = "intern (sym_name E s) (sym_path E s) loc (symbolTable (bgraph B1))"
    let ?B = "B1\<lparr>bgraph := (bgraph B1)\<lparr>symbolTable := snd ?r\<rparr>, symbolRefCache := (symbolRefCache B1)(s \<mapsto> fst ?r)\<rparr>"
    have B': "snd (toSymbolRef E s B) = ?B"
      by (simp add: toSymbolRef_def None loc Let_def)
    have le: "length (st_entries (symbolTable (bgraph B1))) \<le> length (st_entries (snd ?r))"
      by (rule t(3))
    have N: "net_ok (bgraph B1)" "pointers_ok E B1" "ids_ok B1"
      using keepsD(1) [OF B1] by (simp_all add: builder_ok_def)
    have "net_ok (bgraph ?B)"
      using N(1) t(1) order.strict_trans2 [OF _ le] by (simp add: net_ok_def)
    moreover have "pointers_ok E ?B"
      using N(2) t(2) order.strict_trans2 [OF _ le] by (simp add: pointers_ok_def)
    moreover have "ids_ok ?B"
      using N(3) by (simp add: ids_ok_def)
    ultimately show ?thesis
      unfolding B' using le st(2) by (simp add: keeps_def builder_ok_def fields)
  qed (simp add: toSymbolRef_def keeps_refl ok)
  show "fst (toSymbolRef E s B) < length (st_entries (symbolTable (bgraph (snd (toSymbolRef E s B)))))"
    using t(2) cache by (auto simp: toSymbolRef_def loc Let_def split: option.split)
qed

definition symbols_in :: "nat \<Rightarrow> ('n, edge_info) digraph \<Rightarrow> bool" where
  "symbols_in k g \<longleftrightarrow> (\<forall>e p. edgeAt g e \<noteq> None \<longrightarrow> symbol (einfo g e) = Some p \<longrightarrow> p < k)"

lemma net_ok_alt: "net_ok N \<longleftrightarrow> graph_ok (dg N) \<and> ft_ok (fileTable N) \<and> st_ok (symbolTable N) \<and>
    symbols_in (length (st_entries (symbolTable N))) (dg N)"
  by (simp add: net_ok_def symbols_in_def)

lemma set_gr_keeps:
  assumes "builder_ok E B" "graph_ok g" "nodes g = nodes (gr B)" "nodeAt g = nodeAt (gr B)"
    "symbols_in (length (st_entries (symbolTable (bgraph B)))) g"
  shows "keeps E B (set_gr g B)"
proof -
  have same: "nID g = nID (gr B)" "live g = live (gr B)"
    using assms(3,4) by (simp_all add: fun_eq_iff nID_def live_def)
  show ?thesis
    using assms(1,2,3,5) by (simp add: keeps_def builder_ok_def net_ok_alt pointers_ok_def ids_ok_def set_gr_def same)
qed

lemma symbols_in_set:
  assumes "symbols_in k g" "\<And>p. symbol i = Some p \<Longrightarrow> p < k"
  shows "symbols_in k (set_einfo e i g)"
proof (cases "edgeAt g e")
  case None
  then have "set_einfo e i g = g" by (simp add: set_einfo_def)
  then show ?thesis using assms(1) by simp
next
  case (Some d)
  then show ?thesis
    using assms by (simp add: symbols_in_def einfo_set)
qed

lemma symbols_in_new: "symbols_in k g \<Longrightarrow> edgeAt g' = (edgeAt g)(e \<mapsto> \<lparr>sourceNode = s, targetNode = t, elabel = new_edge\<rparr>) \<Longrightarrow> symbols_in k g'"
  by (auto simp: symbols_in_def einfo_def new_edge_def)

lemma addEdge_facts:
  assumes "graph_ok g" "symbols_in k g" "s \<in> set (nodes g)" "t \<in> set (nodes g)" "node_addEdge new_edge s t g = (e, g')"
  shows "graph_ok g'" "nodes g' = nodes g" "nodeAt g' = nodeAt g" "symbols_in k g'" "edgeAt g' e \<noteq> None"
  by (rule node_addEdge_cases [OF assms(1,3,4,5)]; simp add: assms symbols_in_new [OF assms(2)])+

lemma addNewEdge_facts:
  assumes "graph_ok g" "symbols_in k g" "s \<in> set (nodes g)" "t \<in> set (nodes g)" "node_addNewEdge new_edge s t g = (e, g')"
  shows "graph_ok g'" "nodes g' = nodes g" "nodeAt g' = nodeAt g" "symbols_in k g'" "edgeAt g' e \<noteq> None"
  using node_addNewEdge_gives [OF assms(1,3,4,5)] symbols_in_new [OF assms(2)] by auto

lemma builder_okD:
  assumes "builder_ok E B"
  shows "graph_ok (gr B)" "symbols_in (length (st_entries (symbolTable (bgraph B)))) (gr B)"
    "variables B s = Some m \<Longrightarrow> x \<in> set (im_entries (imap E) m) \<Longrightarrow> snd x \<in> set (nodes (gr B))"
    "dm \<in> set (drivers B) \<Longrightarrow> dm_within (live (gr B)) dm"
  using assms unfolding builder_ok_def net_ok_alt pointers_ok_def by blast+

lemma addPlainDependency_keeps:
  assumes ok: "builder_ok E B" and "s \<in> set (nodes (gr B))" "t \<in> set (nodes (gr B))"
  shows "keeps E B (addPlainDependency s t ro pr B)"
proof -
  obtain e g where add: "node_addEdge new_edge s t (gr B) = (e, g)" by fastforce
  note f = addEdge_facts [OF builder_okD(1,2) [OF ok] assms(2,3) add]
  have "p < length (st_entries (symbolTable (bgraph B)))" if "symbol (setSemantics ro pr (einfo g e)) = Some p" for p
    using that f(4,5) by (simp add: symbols_in_def setSemantics_def)
  then show ?thesis
    unfolding addPlainDependency_def add update_edge_def
    using f by (simp add: set_gr_keeps ok set_einfo_ok symbols_in_set)
qed

lemma setVariable_symbol: "setVariable R s b i = Some (ok, i') \<Longrightarrow> symbol i' = Some p \<Longrightarrow> symbol i = Some p \<or> s = Some p"
  by (auto simp: setVariable_def split: if_splits)

lemma addDependency_keeps:
  assumes ok: "builder_ok E B" and st: "s \<in> set (nodes (gr B))" "t \<in> set (nodes (gr B))"
    and sy: "\<And>p. symb = Some p \<Longrightarrow> p < length (st_entries (symbolTable (bgraph B)))"
  shows "pred_option (keeps E B) (addDependency E s t symb bnds kind ro pr B)"
proof -
  let ?k = "length (st_entries (symbolTable (bgraph B)))"
  obtain e g where add: "node_addEdge new_edge s t (gr B) = (e, g)" by fastforce
  note f = addEdge_facts [OF builder_okD(1,2) [OF ok] st add]
  have lab: "p < ?k" if "setVariable R symb b (einfo h x) = Some (c, i)" "symbol (setSemantics ro' pr (setEdgeKind kind i)) = Some p"
     "symbols_in ?k h" "edgeAt h x \<noteq> None" for R b x c i p ro' and h :: "'b ngraph"
    using setVariable_symbol [OF that(1)] that(2-4) sy by (auto simp: setSemantics_def setEdgeKind_def symbols_in_def)
  have plain: "p < ?k" if "setVariable R symb b (einfo g e) = Some (c, i)" "symbol i = Some p" for R b c i p
    using setVariable_symbol [OF that] f(4,5) sy by (auto simp: symbols_in_def)
  show ?thesis
    unfolding addDependency_def Let_def add split
  proof (rule pred_then, clarify)
    fix c i assume var: "setVariable (rlib E) symb (edge_bounds (rlib E) (gr B) s bnds) (einfo g e) = Some (c, i)"
    show "pred_option (keeps E B)
        (if \<not> c then (case node_addNewEdge new_edge s t (set_einfo e i g) of (e2, g2) \<Rightarrow>
             and_then (setVariable (rlib E) symb (edge_bounds (rlib E) (gr B) s bnds) (einfo g2 e2))
               (\<lambda>(_, i2). Some (set_gr (set_einfo e2 (setSemantics (if kind \<noteq> EdgeNone \<and> ro = Data then Event else ro) pr (setEdgeKind kind i2)) g2) B)))
         else Some (set_gr (set_einfo e (setSemantics (if kind \<noteq> EdgeNone \<and> ro = Data then Event else ro) pr (setEdgeKind kind i)) g) B))"
    proof (cases c)
      case True
      have "keeps E B (set_gr (set_einfo e (setSemantics ro' pr (setEdgeKind kind i)) g) B)" for ro'
        using f lab [OF var _ f(4,5)] by (intro set_gr_keeps ok set_einfo_ok symbols_in_set) simp_all
      then show ?thesis using True by simp
    next
      case False
      obtain e2 g2 where add2: "node_addNewEdge new_edge s t (set_einfo e i g) = (e2, g2)" by fastforce
      have g1: "graph_ok (set_einfo e i g)" "symbols_in ?k (set_einfo e i g)"
        using f plain [OF var] by (auto intro!: set_einfo_ok symbols_in_set)
      have f2: "graph_ok g2" "nodes g2 = nodes (gr B)" "nodeAt g2 = nodeAt (gr B)" "symbols_in ?k g2" "edgeAt g2 e2 \<noteq> None"
        using addNewEdge_facts [OF g1 _ _ add2] st f by simp_all
      have "keeps E B (set_gr (set_einfo e2 (setSemantics ro' pr (setEdgeKind kind i2)) g2) B)"
        if "setVariable (rlib E) symb (edge_bounds (rlib E) (gr B) s bnds) (einfo g2 e2) = Some (c2, i2)" for ro' c2 i2
        using f2 lab [OF that _ f2(4,5)] by (intro set_gr_keeps ok set_einfo_ok symbols_in_set) simp_all
      then show ?thesis
        using False by (auto simp: add2 intro!: pred_then)
    qed
  qed
qed

lemma driver_listed: "d \<in> set ds \<Longrightarrow> dl_nodes ds \<subseteq> X \<Longrightarrow> di_node d \<in> X"
  by (auto simp: dl_nodes_def)

lemma addDriversToNode_keeps:
  assumes "builder_ok E B" "dl_nodes ds \<subseteq> live (gr B)" "n \<in> set (nodes (gr B))"
    "\<And>p. symb = Some p \<Longrightarrow> p < length (st_entries (symbolTable (bgraph B)))"
  shows "pred_option (keeps E B) (addDriversToNode E ds n symb bnds kind ro pr B)"
  unfolding addDriversToNode_def
proof (rule fold_opt_keeps [OF assms(1)])
  fix d B1 assume d: "d \<in> set ds" and k: "keeps E B B1"
  show "pred_option (keeps E B1) (case di_node d of None \<Rightarrow> Some B1 | Some source \<Rightarrow> addDependency E source n symb bnds kind ro pr B1)"
  proof (cases "di_node d")
    case (Some s)
    then have "Some s \<in> live (gr B)" using driver_listed [OF d assms(2)] by simp
    then show ?thesis
      using Some keepsD(1,2,4) [OF k] assms(3,4) by (auto intro!: addDependency_keeps)
  qed (simp add: keeps_refl keepsD(1) [OF k])
qed

lemma pointers_grow:
  assumes "pointers_ok E B" "set (nodes (gr B)) \<subseteq> set (nodes g)"
  shows "pointers_ok E (set_gr g (B\<lparr>nextID := k\<rparr>))"
proof -
  have sub: "live (gr B) \<subseteq> live g" using assms(2) by (auto simp: live_def)
  note p = assms(1) [unfolded pointers_ok_def]
  have "\<forall>dm \<in> set (drivers B). dm_within (live g) dm"
    using p within_mono [OF sub] by blast
  then show ?thesis
    unfolding pointers_ok_def set_gr_def using p sub assms(2) by simp blast
qed

lemma new_node_keeps:
  assumes ok: "builder_ok E B"
  shows "keeps E B (snd (new_node d B))" "fst (new_node d B) \<in> set (nodes (gr (snd (new_node d B))))"
proof -
  let ?g = "gr B" and ?n = "nextNode (gr B)"
  let ?g' = "snd (addNode \<lparr>ID = nextID B, node_data = d\<rparr> ?g)"
  have g: "graph_ok ?g" and ids: "ids_ok B" and ptr: "pointers_ok E B" and net: "net_ok (bgraph B)"
    using ok by (simp_all add: builder_ok_def net_ok_def)
  have fresh: "?n \<notin> set (nodes ?g)"
    using graph_okD(3) [OF g] by (auto simp: nodes_ok_def)
  have n: "fst (addNode \<lparr>ID = nextID B, node_data = d\<rparr> ?g) = ?n" and add: "nodes ?g' = nodes ?g @ [?n]"
    "nodeAt ?g' = (nodeAt ?g)(?n \<mapsto> \<lparr>ID = nextID B, node_data = d\<rparr>)"
    by (simp_all add: addNode_def Let_def)
  have same: "nID ?g' m = (if m = ?n then nextID B else nID ?g m)" for m
    by (simp add: nID_def add)
  have "map (nID ?g') (nodes ?g) = map (nID ?g) (nodes ?g)"
    using fresh by (auto simp: same)
  then have "map (nID ?g') (nodes ?g') = map (nID ?g) (nodes ?g) @ [nextID B]"
    unfolding add map_append by (simp only: list.map same refl if_True)
  then have "distinct (map (nID ?g') (nodes ?g'))"
    using ids by (simp only:) (auto simp: ids_ok_def)
  moreover have "\<forall>x \<in> set (nodes ?g'). nID ?g' x < nextID B + 1"
    using ids by (auto simp: add same ids_ok_def less_Suc_eq)
  ultimately have "ids_ok (set_gr ?g' (B\<lparr>nextID := nextID B + 1\<rparr>))"
    unfolding ids_ok_def set_gr_def by simp
  moreover have "pointers_ok E (set_gr ?g' (B\<lparr>nextID := nextID B + 1\<rparr>))"
    by (rule pointers_grow [OF ptr]) (auto simp: add)
  moreover have "net_ok (bgraph (set_gr ?g' (B\<lparr>nextID := nextID B + 1\<rparr>)))"
    using net addNode_ok [OF g] by (simp add: net_ok_def set_gr_def addNode_keeps_edges)
  ultimately show "keeps E B (snd (new_node d B))"
    unfolding new_node_def Let_def keeps_def builder_ok_def by (simp add: set_gr_def add subset_insertI)
  show "fst (new_node d B) \<in> set (nodes (gr (snd (new_node d B))))"
    unfolding new_node_def Let_def by (simp add: set_gr_def n add)
qed

section \<open>Variables, factories and pending R-values\<close>

text \<open>What slang's ranges and interval maps promise.\<close>

locale builder_env = constant_range "rlib E" + interval_map "imap E"
  for E :: "('m, 'c) env"
begin

lemma variables_insert_keeps:
  assumes ok: "builder_ok E B" and n: "n \<in> set (nodes (gr B))"
  shows "keeps E B (variables_insert E s bnds n B)"
proof -
  have le: "fst (toPair (rlib E) bnds) \<le> snd (toPair (rlib E) bnds)"
    by (simp add: toPair_def)
  have old: "snd e \<in> set (nodes (gr B))" if "variables B t = Some m" "e \<in> set (im_entries (imap E) m)" for t m e
    using builder_okD(3) [OF ok that] .
  have ptr: "pointers_ok E B" and other: "net_ok (bgraph B)" "ids_ok B"
    using ok by (simp_all add: builder_ok_def)
  have "snd e \<in> set (nodes (gr B))"
    if "variables (variables_insert E s bnds n B) t = Some m" "e \<in> set (im_entries (imap E) m)" for t m e
  proof (cases "t = s")
    case True
    then have "e = (toPair (rlib E) bnds, n) \<or> (\<exists>m'. variables B s = Some m' \<and> e \<in> set (im_entries (imap E) m'))"
      using that entries_empty set_insert [OF le] by (auto simp: variables_insert_def split: option.splits)
    then show ?thesis
      by (elim disjE exE conjE) (simp add: n, rule old)
  qed (use that old in \<open>auto simp: variables_insert_def\<close>)
  then have "pointers_ok E (variables_insert E s bnds n B)"
    using ptr unfolding pointers_ok_def by (simp add: variables_insert_def)
  then show ?thesis
    using other by (simp add: keeps_def builder_ok_def ids_ok_def variables_insert_def)
qed

lemma create_keeps:
  assumes "builder_ok E B"
  shows "keeps E B (snd (createAssignment E e B))" "fst (createAssignment E e B) \<in> set (nodes (gr (snd (createAssignment E e B))))"
    "keeps E B (snd (createConditional E e B))" "fst (createConditional E e B) \<in> set (nodes (gr (snd (createConditional E e B))))"
    "keeps E B (snd (createCase E e B))" "fst (createCase E e B) \<in> set (nodes (gr (snd (createCase E e B))))"
    "keeps E B (snd (createConstant v w l B))" "fst (createConstant v w l B) \<in> set (nodes (gr (snd (createConstant v w l B))))"
proof -
  have loc: "keeps E B (snd (new_node d (snd (toTextLocation l B))))"
    "fst (new_node d (snd (toTextLocation l B))) \<in> set (nodes (gr (snd (new_node d (snd (toTextLocation l B))))))" for d l
    using toTextLocation_keeps [OF assms, of l] new_node_keeps [OF keepsD(1)] keeps_trans by blast+
  show "keeps E B (snd (createAssignment E e B))" "fst (createAssignment E e B) \<in> set (nodes (gr (snd (createAssignment E e B))))"
    "keeps E B (snd (createConditional E e B))" "fst (createConditional E e B) \<in> set (nodes (gr (snd (createConditional E e B))))"
    "keeps E B (snd (createCase E e B))" "fst (createCase E e B) \<in> set (nodes (gr (snd (createCase E e B))))"
    by (simp_all add: createAssignment_def createConditional_def createCase_def split_beta loc)
  show "keeps E B (snd (createConstant v w l B))" "fst (createConstant v w l B) \<in> set (nodes (gr (snd (createConstant v w l B))))"
    by (simp_all add: createConstant_def new_node_keeps [OF assms])
qed

lemma named_node_keeps:
  assumes "builder_ok E B"
  shows "keeps E B (variables_insert E s bnds (fst (new_node d (snd (toSymbolRef E t B)))) (snd (new_node d (snd (toSymbolRef E t B)))))"
    "fst (new_node d (snd (toSymbolRef E t B))) \<in>
       set (nodes (gr (variables_insert E s bnds (fst (new_node d (snd (toSymbolRef E t B)))) (snd (new_node d (snd (toSymbolRef E t B)))))))"
proof -
  note 1 = toSymbolRef_keeps(1) [OF assms, of t]
  note 2 = new_node_keeps [OF keepsD(1) [OF 1], of d]
  show "keeps E B (variables_insert E s bnds (fst (new_node d (snd (toSymbolRef E t B)))) (snd (new_node d (snd (toSymbolRef E t B)))))"
    using keeps_trans [OF keeps_trans [OF 1 2(1)] variables_insert_keeps [OF keepsD(1) [OF 2(1)] 2(2)]] .
  show "fst (new_node d (snd (toSymbolRef E t B))) \<in>
       set (nodes (gr (variables_insert E s bnds (fst (new_node d (snd (toSymbolRef E t B)))) (snd (new_node d (snd (toSymbolRef E t B)))))))"
    using 2(2) by (simp add: variables_insert_def)
qed

lemma createState_keeps:
  assumes "builder_ok E B"
  shows "keeps E B (snd (createState E s bnds B))" "fst (createState E s bnds B) \<in> set (nodes (gr (snd (createState E s bnds B))))"
    "keeps E B (snd (createVariable E s bnds B))" "fst (createVariable E s bnds B) \<in> set (nodes (gr (snd (createVariable E s bnds B))))"
  unfolding createState_def createVariable_def Let_def split_beta snd_conv fst_conv
  by (rule named_node_keeps [OF assms])+

lemma createPort_keeps:
  assumes "builder_ok E B"
  shows "pred_option (\<lambda>(n, B'). keeps E B B' \<and> n \<in> set (nodes (gr B'))) (createPort E p isym dir bnds B)"
  unfolding createPort_def Let_def split_beta
  using named_node_keeps [OF assms] by (auto split: option.split)

lemma createConstantForSegment_keeps:
  assumes "builder_ok E B"
  shows "pred_option (\<lambda>(n, B'). keeps E B B' \<and> n \<in> set (nodes (gr B'))) (createConstantForSegment E src seg l B)"
proof -
  have "keeps E B (snd (createConstant v w l' (snd (toTextLocation l2 B))))"
    "fst (createConstant v w l' (snd (toTextLocation l2 B))) \<in> set (nodes (gr (snd (createConstant v w l' (snd (toTextLocation l2 B))))))"
    for v w l' l2
    using toTextLocation_keeps [OF assms, of l2] create_keeps(7,8) [OF keepsD(1)] keeps_trans by blast+
  then show ?thesis
    using create_keeps(7,8) [OF assms]
    by (auto simp: createConstantForSegment_def Let_def split_beta intro!: pred_require split: option.split)
qed

lemma merge_nodes_keeps:
  assumes "builder_ok E B" "a \<in> set (nodes (gr B))" "b \<in> set (nodes (gr B))"
  shows "keeps E B (snd (merge_nodes a b B))" "fst (merge_nodes a b B) \<in> set (nodes (gr (snd (merge_nodes a b B))))"
proof -
  note 1 = new_node_keeps [OF assms(1), of Merge]
  let ?n = "fst (new_node Merge B)" and ?B1 = "snd (new_node Merge B)"
  let ?B2 = "addPlainDependency a ?n Data Exact ?B1"
  have 2: "keeps E ?B1 ?B2"
    using addPlainDependency_keeps [OF keepsD(1) [OF 1(1)] keepsD(2) [OF 1(1) assms(2)] 1(2)] .
  have 3: "keeps E ?B2 (addPlainDependency b ?n Data Exact ?B2)"
    using addPlainDependency_keeps [OF keepsD(1) [OF 2] keepsD(2) [OF 2 keepsD(2) [OF 1(1) assms(3)]] keepsD(2) [OF 2 1(2)]] .
  show "keeps E B (snd (merge_nodes a b B))"
    using keeps_trans [OF keeps_trans [OF 1(1) 2] 3] keeps_refl [OF assms(1)] by (simp add: merge_nodes_def split_beta)
  show "fst (merge_nodes a b B) \<in> set (nodes (gr (snd (merge_nodes a b B))))"
    using keepsD(2) [OF 3 keepsD(2) [OF 2 1(2)]] assms(2) by (simp add: merge_nodes_def split_beta)
qed

end

context builder_env
begin

text \<open>The operations that only touch the pointers' side.\<close>

lemma enqueue_keeps:
  assumes "builder_ok E B" "pr_node p \<in> live (gr B)"
  shows "keeps E B (enqueue p B)"
proof -
  have "pointers_ok E (enqueue p B)"
    using assms unfolding builder_ok_def pointers_ok_def by (simp add: enqueue_def split: option.split)
  then show ?thesis
    using assms(1) by (simp add: keeps_def builder_ok_def ids_ok_def enqueue_def split: option.split)
qed

lemma getVariable_node:
  assumes "builder_ok E B" "getVariable E s bnds B = Some n"
  shows "n \<in> set (nodes (gr B))"
proof -
  obtain m e where "variables B s = Some m" "e \<in> set (im_find (imap E) m (toPair (rlib E) bnds))" "n = snd e"
    using assms(2) by (auto simp: getVariable_def split: option.splits dest!: find_SomeD)
  then show ?thesis
    using builder_okD(3) [OF assms(1)] by (simp add: set_find)
qed

lemma getVariables_nodes:
  assumes "builder_ok E B" "n \<in> set (getVariables E s B)"
  shows "n \<in> set (nodes (gr B))"
proof -
  obtain m where "variables B s = Some m" "n \<in> snd ` set (im_entries (imap E) m)"
    using assms(2) by (cases "variables B s") (simp_all add: getVariables_def)
  then show ?thesis
    using builder_okD(3) [OF assms(1)] by blast
qed

lemma addRvalue_keeps:
  assumes ok: "builder_ok E B" and n: "nd \<in> live (gr B)"
  shows "pred_option (keeps E B) (addRvalue E s lsp bnds nd ro pr B)"
proof -
  let ?p = "\<lparr>pr_symbol = s, pr_bounds = bnds, pr_lsp = lsp, pr_node = nd, pr_edgeKind = EdgeNone, pr_role = ro, pr_precision = pr\<rparr>"
  have queue: "keeps E B (enqueue ?p B)"
    by (rule enqueue_keeps [OF ok]) (simp add: n)
  have "pred_option (keeps E B) (fold_opt (\<lambda>(v, vb) B.
                case getVariable E v vb B of
                  None \<Rightarrow> Some B
                | Some varNode \<Rightarrow>
                    (let (ref, B1) = toSymbolRef E s B
                     in addDependency E varNode m (Some ref) bnds EdgeNone ro pr B1)) xs B)"
    if m: "nd = Some m" for m xs
  proof (rule fold_opt_keeps [OF ok], clarify)
    fix v vb B1 assume k: "keeps E B B1"
    note ok1 = keepsD(1) [OF k]
    note t = toSymbolRef_keeps [OF ok1, of s]
    have "pred_option (keeps E B1) (addDependency E x m (Some (fst (toSymbolRef E s B1))) bnds EdgeNone ro pr (snd (toSymbolRef E s B1)))"
      if "getVariable E v vb B1 = Some x" for x
      using getVariable_node [OF ok1 that] keepsD(2) [OF k, of m] n m t(2)
      by (intro keeps_chain [OF t(1)] addDependency_keeps keepsD(1) [OF t(1)]) auto
    then show "pred_option (keeps E B1) (case getVariable E v vb B1 of
                  None \<Rightarrow> Some B1
                | Some varNode \<Rightarrow>
                    (let (ref, B1) = toSymbolRef E s B1
                     in addDependency E varNode m (Some ref) bnds EdgeNone ro pr B1))"
      by (simp add: split_beta keeps_refl ok1 split: option.split)
  qed
  then show ?thesis
    using queue by (auto simp: addRvalue_def split: option.split)
qed

lemma add_drivers_keeps:
  assumes ok: "builder_ok E B" and "dl_nodes ds \<subseteq> live (gr B)"
  shows "pred_option (keeps E B) (add_drivers E s bnds ds mrg B)"
proof -
  have "keeps E B (B\<lparr>driverMap := fst st, drivers := snd st\<rparr>)"
    if "addDrivers (rlib E) (imap E) s bnds ds mrg (driverMap B, drivers B) = Some st" for st
  proof -
    have "\<forall>dm \<in> set (snd st). dm_within (live (gr B)) dm"
      using builder_okD(4) [OF ok] by (intro addDrivers_within [OF _ assms(2) that]) simp
    then have "pointers_ok E (B\<lparr>driverMap := fst st, drivers := snd st\<rparr>)"
      using ok unfolding builder_ok_def pointers_ok_def by simp
    then show ?thesis
      using ok by (simp add: keeps_def builder_ok_def ids_ok_def)
  qed
  then show ?thesis
    unfolding add_drivers_def by (auto intro!: pred_map simp: pred_option_def)
qed

lemma hookupOutputPort_keeps:
  assumes ok: "builder_ok E B" and "dl_nodes ds \<subseteq> live (gr B)"
  shows "pred_option (keeps E B) (hookupOutputPort E s bnds ds B)"
proof -
  note t = toSymbolRef_keeps [OF ok, of s]
  have "n \<in> set (nodes (gr B))" if "output_port_node E port bnds B = Some n" for n port
    using that getVariable_node [OF ok] getVariables_nodes [OF ok]
    by (auto simp: output_port_node_def split: option.splits dest!: find_SomeD)
  moreover have "dl_nodes ds \<subseteq> live (gr (snd (toSymbolRef E s B)))"
    using assms(2) by simp
  ultimately have "pred_option (keeps E B) (addDriversToNode E ds n (Some (fst (toSymbolRef E s B))) bnds EdgeNone PortConnection Range (snd (toSymbolRef E s B)))"
    if "output_port_node E port bnds B = Some n" for n port
    using that t(2) by (intro keeps_chain [OF t(1)] addDriversToNode_keeps keepsD(1) [OF t(1)]) auto
  then show ?thesis
    by (auto simp: hookupOutputPort_def split_beta keeps_refl ok split: list.split option.split)
qed

lemma live_mono: "keeps E B B' \<Longrightarrow> X \<subseteq> live (gr B) \<Longrightarrow> X \<subseteq> live (gr B')"
  using keepsD(3) by blast

text \<open>One pending R-value, and the queue.\<close>

lemma forEach_nodes:
  assumes "builder_ok E B" "(iv, Some ds) \<in> set (forEachDriverInterval R I vt (drivers B) s bnds)"
  shows "dl_nodes ds \<subseteq> live (gr B)"
proof -
  obtain i h where "i < length (drivers B)" "getDriverList h (drivers B ! i) = Some ds"
    using assms(2) by (auto simp: forEachDriverInterval_def eq_commute [of "Some ds"] not_le split: option.splits if_splits)
  then show ?thesis
    using within_get builder_okD(4) [OF assms(1)] nth_mem by blast
qed

lemma emitEdgesFor_keeps:
  assumes ok: "builder_ok E B"  and p: "pr_node p \<in> live (gr B)"
  shows "pred_option (keeps E B) (emitEdgesFor E p B)"
proof (cases "pr_node p")
  case None
  then show ?thesis by (simp add: emitEdgesFor_def keeps_refl ok)
next
  case (Some n)
  obtain ref B1 where r: "toSymbolRef E (pr_symbol p) B = (ref, B1)" by fastforce
  have t: "keeps E B B1" "ref < length (st_entries (symbolTable (bgraph B1)))"
    using toSymbolRef_keeps [OF ok, of "pr_symbol p"] by (simp_all add: r)
  note ok1 = keepsD(1) [OF t(1)]
  have n: "n \<in> set (nodes (gr B1))" using p Some keepsD(2) [OF t(1)] by simp
  have var: "pred_option (keeps E B1) (addDependency E x n (Some ref) bnds k ro pr B1)" if "getVariable E s b B1 = Some x"
    for x s b bnds k ro pr
    by (intro addDependency_keeps ok1 n getVariable_node [OF ok1 that]) (simp add: t(2))
  have drv: "pred_option (keeps E B1) (fold_opt (\<lambda>(interval, ds) B.
                      case intersection (rlib E) interval (pr_bounds p) of
                        None \<Rightarrow> Some B
                      | Some eb \<Rightarrow>
                          and_then ds (\<lambda>ds.
                            addDriversToNode E ds n (Some ref) eb (pr_edgeKind p) (pr_role p) (pr_precision p) B))
                    (forEachDriverInterval (rlib E) (imap E) (driverMap B1) (drivers B1) (pr_symbol p) (pr_bounds p)) B1)"
  proof (rule fold_opt_keeps [OF ok1], clarify)
    fix iv ds' B2 assume ds': "(iv, ds') \<in> set (forEachDriverInterval (rlib E) (imap E) (driverMap B1) (drivers B1) (pr_symbol p) (pr_bounds p))"
      and k: "keeps E B1 B2"
    have "pred_option (keeps E B2) (addDriversToNode E ds n (Some ref) eb (pr_edgeKind p) (pr_role p) (pr_precision p) B2)"
      if "ds' = Some ds" for ds eb
      using live_mono [OF k forEach_nodes [OF ok1 ds' [unfolded that]]] keepsD(2) [OF k n] keepsD(4) [OF k t(2)]
      by (intro addDriversToNode_keeps keepsD(1) [OF k]) auto
    then show "pred_option (keeps E B2) (case intersection (rlib E) iv (pr_bounds p) of
                        None \<Rightarrow> Some B2
                      | Some eb \<Rightarrow>
                          and_then ds' (\<lambda>ds.
                            addDriversToNode E ds n (Some ref) eb (pr_edgeKind p) (pr_role p) (pr_precision p) B2))"
      by (cases ds') (simp_all add: keeps_refl keepsD(1) [OF k] split: option.split)
  qed
  show ?thesis
    unfolding emitEdgesFor_def Some r
    using keeps_chain [OF t(1) var] keeps_chain [OF t(1) drv] by (simp split: option.split)
qed

lemma resolveSequential_keeps:
  assumes ok: "builder_ok E B"
  shows "pred_option (keeps E B) (resolveSequential E B)"
proof -
  have "pr_node p \<in> live (gr B)" if "p \<in> set (queue B)" for p
    using ok that by (simp add: builder_ok_def pointers_ok_def)
  then have "pred_option (keeps E B) (fold_opt (emitEdgesFor E) (queue B) B)"
    by (intro fold_opt_keeps ok emitEdgesFor_keeps) (auto intro: keepsD)
  moreover have "keeps E B (B'\<lparr>queue := []\<rparr>)" if "keeps E B B'" for B'
    using that unfolding keeps_def builder_ok_def pointers_ok_def ids_ok_def by simp
  ultimately show ?thesis
    unfolding resolveSequential_def by (auto intro!: pred_map elim: option.pred_mono_strong)
qed

end

end
