(* ===== verification/FlowFacts.thy ===== *)
theory FlowFacts
  imports BuilderFacts
begin

text \<open>
  The invariant of the builder through the operations that are built from others: merging the drivers of a block,
  materialising and connecting ports, and the handlers of the data-flow analysis.
\<close>

section \<open>Loops over slots\<close>

lemma fold_None: "fold (\<lambda>x acc. and_then acc (f x)) xs None = None"
  by (induction xs) simp_all

lemma fold_and_then: "fold (\<lambda>x acc. and_then acc (f x)) xs (Some s) = fold_opt f xs s"
proof (induction xs arbitrary: s)
  case (Cons x xs)
  show ?case
    by (cases "f x s") (simp_all add: Cons.IH fold_None)
qed simp

lemma visitAll_fold:
  "visitAll order (\<lambda>symb index acc. and_then acc (g symb index)) t (Some s) =
     fold_opt (\<lambda>i s. case slotToValue t i of None \<Rightarrow> Some s | Some symb \<Rightarrow> g symb i s) (order [0 ..< nextSlot t]) s"
proof -
  have "(case slotToValue t i of None \<Rightarrow> acc | Some symb \<Rightarrow> and_then acc (g symb i)) =
      and_then acc (\<lambda>s. case slotToValue t i of None \<Rightarrow> Some s | Some symb \<Rightarrow> g symb i s)" for i acc
    by (cases acc; cases "slotToValue t i") simp_all
  then show ?thesis
    unfolding visitAll_def by (simp only: fold_and_then)
qed

section \<open>Merging the drivers of a block\<close>

lemma within_keeps: "keeps E B B' \<Longrightarrow> dm_within (live (gr B)) dm \<Longrightarrow> dm_within (live (gr B')) dm"
  by (rule within_mono [rotated]) (auto simp: keepsD(3))

context builder_env
begin

lemma clock_rvalue_keeps:
  assumes "builder_ok E B" "n \<in> set (nodes (gr B))"
  shows "keeps E B (clock_rvalue E n entry B)"
  using assms by (simp add: clock_rvalue_def Let_def keeps_refl enqueue_keeps)

lemma merge_interval_keeps:
  assumes ok: "builder_ok E B" and ds: "dl_nodes ds \<subseteq> live (gr B)"
  shows "pred_option (keeps E B) (merge_interval E sens s bnds ds B)"
proof (cases "sens = []")
  case True
  have "pred_option (keeps E B) (and_then (mergeSymbolDrivers E s bnds ds B) (hookupOutputPort E s bnds ds))"
    unfolding mergeSymbolDrivers_def
    by (rule keeps_bind [OF add_drivers_keeps [OF ok ds]]) (rule hookupOutputPort_keeps [OF keepsD(1) live_mono [OF _ ds]])
  then show ?thesis using True by (simp add: merge_interval_def)
next
  case False
  note 1 = createState_keeps(1,2) [OF ok, of s bnds]
  let ?n = "fst (createState E s bnds B)" and ?B1 = "snd (createState E s bnds B)"
  note 2 = toSymbolRef_keeps [OF keepsD(1) [OF 1(1)], of s]
  let ?r = "fst (toSymbolRef E s ?B1)" and ?B2 = "snd (toSymbolRef E s ?B1)"
  note 12 = keeps_trans [OF 1(1) 2(1)]
  have n: "?n \<in> set (nodes (gr ?B2))" using keepsD(2) [OF 2(1) 1(2)] .
  have "pred_option (keeps E ?B2) (addDriversToNode E ds ?n (Some ?r) bnds EdgeNone Data Range ?B2)"
    using 2 12 n live_mono [OF 12 ds] by (intro addDriversToNode_keeps) (simp_all add: keepsD(1))
  then have "pred_option (keeps E ?B2) (and_then (addDriversToNode E ds ?n (Some ?r) bnds EdgeNone Data Range ?B2) (\<lambda>B3.
              hookupOutputPort E s bnds [\<lparr>di_node = Some ?n, di_lsp = None\<rparr>] (fold (clock_rvalue E ?n) sens B3)))"
  proof (rule keeps_bind)
    fix B3 assume 3: "keeps E ?B2 B3"
    have 4: "keeps E B3 (fold (clock_rvalue E ?n) sens B3)"
      by (rule fold_keeps [OF keepsD(1) [OF 3]]) (blast intro: clock_rvalue_keeps keepsD n 3)
    show "pred_option (keeps E B3) (hookupOutputPort E s bnds [\<lparr>di_node = Some ?n, di_lsp = None\<rparr>] (fold (clock_rvalue E ?n) sens B3))"
      using keepsD(2) [OF 4 keepsD(2) [OF 3 n]]
      by (intro keeps_chain [OF 4] hookupOutputPort_keeps keepsD(1) [OF 4]) simp
  qed
  then show ?thesis
    using False keeps_chain [OF 12] by (simp add: merge_interval_def split_beta)
qed

lemma connect_driver_keeps:
  assumes ok: "builder_ok E B" and d: "di_node d \<in> live (gr B)" and r: "r < length (st_entries (symbolTable (bgraph B)))"
  shows "pred_option (keeps E B) (connect_driver E s r bnds d B)"
proof (cases "di_node d")
  case None
  then show ?thesis by (simp add: connect_driver_def keeps_refl ok)
next
  case (Some n)
  have add: "pred_option (keeps E B1) (addDependency E n x (Some r) vb EdgeNone Data Range B1)"
    if k: "keeps E B B1" and x: "getVariable E v b B1 = Some x" for B1 v b x vb
    using keepsD(2,4) [OF k] d r Some
    by (intro addDependency_keeps keepsD(1) [OF k] getVariable_node [OF keepsD(1) [OF k] x]) auto
  have "pred_option (keeps E B) (fold_opt (\<lambda>(v, vb) B.
                        case getVariable E v vb B of
                          None \<Rightarrow> Some B
                        | Some varNode \<Rightarrow> addDependency E n varNode (Some r) vb EdgeNone Data Range B) xs B)" for xs
    by (rule fold_opt_keeps [OF ok]) (auto simp: add keeps_refl keepsD(1) split: option.split)
  then show ?thesis
    using add [OF keeps_refl [OF ok]] Some
    by (simp add: connect_driver_def keeps_refl ok split: symbol_kind.split option.split)
qed

lemma merge_entry_keeps:
  assumes ok: "builder_ok E B" and dm: "dm_within (live (gr B)) dm"
  shows "pred_option (keeps E B) (merge_entry E sens s dm e B)"
  unfolding merge_entry_def Let_def
proof (rule pred_then, rule keeps_bind)
  fix ds assume "getDriverList (snd e) dm = Some ds"
  then have ds: "dl_nodes ds \<subseteq> live (gr B)" using within_get dm by blast
  then show "pred_option (keeps E B) (merge_interval E sens s (ivl_range (fst e)) ds B)"
    by (rule merge_interval_keeps [OF ok])
  fix B1 assume k: "keeps E B B1"
  note t = toSymbolRef_keeps [OF keepsD(1) [OF k], of s]
  have "pred_option (keeps E (snd (toSymbolRef E s B1))) (fold_opt (connect_driver E s (fst (toSymbolRef E s B1)) (ivl_range (fst e))) ds (snd (toSymbolRef E s B1)))"
  proof (rule fold_opt_keeps [OF keepsD(1) [OF t(1)]])
    fix d B2 assume d: "d \<in> set ds" and k2: "keeps E (snd (toSymbolRef E s B1)) B2"
    show "pred_option (keeps E B2) (connect_driver E s (fst (toSymbolRef E s B1)) (ivl_range (fst e)) d B2)"
      by (rule connect_driver_keeps [OF keepsD(1) [OF k2] driver_listed [OF d live_mono [OF keeps_trans [OF keeps_trans [OF k t(1)] k2] ds]]
            keepsD(4) [OF k2 t(2)]])
  qed
  then show "pred_option (keeps E B1) (case toSymbolRef E s B1 of (ref, B2) \<Rightarrow> fold_opt (connect_driver E s ref (ivl_range (fst e))) ds B2)"
    unfolding split_beta by (rule keeps_chain [OF t(1)])
qed

lemma mergeDrivers_keeps:
  assumes ok: "builder_ok E B" and vds: "\<forall>dm \<in> set vds. dm_within (live (gr B)) dm"
  shows "pred_option (keeps E B) (mergeDrivers E vt vds sens B)"
  unfolding mergeDrivers_def visitAll_fold
proof (rule fold_opt_keeps [OF ok])
  fix i B1 assume k: "keeps E B B1"
  note ok1 = keepsD(1) [OF k]
  have "pred_option (keeps E B1) (fold_opt (merge_entry E sens s dm) xs B1)" if "dm \<in> set vds" for s dm xs
    by (rule fold_opt_keeps [OF ok1])
      (blast intro: merge_entry_keeps keepsD within_keeps [OF keeps_trans [OF k]] vds [rule_format, OF that])
  then show "pred_option (keeps E B1) (case slotToValue vt i of None \<Rightarrow> Some B1
       | Some symb \<Rightarrow>
           if length vds \<le> i then Some B1
           else if dm_isEmpty (imap E) (vds ! i) then Some B1
                else fold_opt (merge_entry E sens symb (vds ! i)) (dm_entries (imap E) (vds ! i)) B1)"
    by (simp add: keeps_refl ok1 not_le split: option.split)
qed

lemma handleVariable_keeps: "builder_ok E B \<Longrightarrow> keeps E B (handleVariable E inside ds s B)"
  unfolding handleVariable_def
  by (simp add: keeps_refl) (blast intro: fold_keeps createState_keeps(3) keepsD(1))

end

section \<open>Ports\<close>

lemma segment_sources:
  assumes "alignSegments lhs rhs = Some segs" "seg \<in> set segs" "src \<in> set (lhsSources seg)"
  obtains sl where "sl \<in> set lhs" "src \<in> set (sources sl)"
proof -
  obtain a where "src \<in> set (sources_at lhs a)"
    using assms by (auto simp: alignSegments_def)
  then obtain sl where "findSliceContaining lhs a = Some sl" "src \<in> set (sources sl)"
    by (cases "findSliceContaining lhs a") (simp_all add: sources_at_def)
  then show thesis
    using that by (auto simp: findSliceContaining_def dest!: find_SomeD)
qed

lemma fold_pushPadding: "fold (\<lambda>x. pushPaddingSlice (f x)) xs l = l @ map f xs"
  by (induction xs arbitrary: l) (simp_all add: pushPaddingSlice_def)

context builder_env
begin

lemma port_slices_nodes:
  assumes "builder_ok E B" "sl \<in> set (buildPortSliceList E port B)" "src \<in> set (sources sl)" "portNode src = Some n"
  shows "n \<in> set (nodes (gr B))"
proof -
  have "portNode src \<in> Some ` set (getVariables E (port_id port) B)"
    using assms(2,3) unfolding buildPortSliceList_def
    by (auto simp: fold_pushPadding case_prod_beta' port_slice_def makePortNode_def port_node_bounds_def map_filter_def Let_def split: if_splits)
  then show ?thesis
    using assms(4) getVariables_nodes [OF assms(1)] by auto
qed

lemma drive_output_keeps:
  assumes ok: "builder_ok E B" and n: "n \<in> set (nodes (gr B))"
  shows "pred_option (keeps E B) (drive_output E s lsp bnds n B)"
  unfolding drive_output_def mergeSymbolDrivers_def
proof (rule keeps_bind)
  show "pred_option (keeps E B) (add_drivers E s bnds [\<lparr>di_node = Some n, di_lsp = Some lsp\<rparr>] True B)"
    by (rule add_drivers_keeps [OF ok]) (simp add: n)
  show "pred_option (keeps E B1) (hookupOutputPort E s bnds [\<lparr>di_node = Some n, di_lsp = None\<rparr>] B1)" if k: "keeps E B B1" for B1
    by (rule hookupOutputPort_keeps [OF keepsD(1) [OF k]]) (simp add: keepsD(2) [OF k n])
qed

lemma materializePortNodes_keeps:
  assumes ok: "builder_ok E B"
  shows "pred_option (keeps E B) (materializePortNodes E port B)"
proof -
  have seg: "pred_option (keeps E B1) (materialize_segment E port isym input seg B1)" if ok1: "builder_ok E B1" for isym input seg B1
  proof -
    have "pred_option (keeps E B1) (addDriver E isym None seg n B2)" if "keeps E B1 B2" "n \<in> set (nodes (gr B2))" for n B2
      unfolding addDriver_def
      by (rule keeps_chain [OF that(1)], rule add_drivers_keeps [OF keepsD(1) [OF that(1)]]) (simp add: that(2))
    then show ?thesis
      using createPort_keeps [OF ok1, of "port_id port" "internalSymbol port" "port_direction port" seg]
      unfolding materialize_segment_def
      by (cases "createPort E (port_id port) (internalSymbol port) (port_direction port) seg B1") auto
  qed
  have "pred_option (keeps E B) (fold_opt (\<lambda>d. fold_opt (materialize_segment E port isym (isInputPort d)) (f d)) ds B)"
    for isym and f :: "slang_driver \<Rightarrow> _" and ds
    by (intro fold_opt_keeps ok) (auto intro!: fold_opt_keeps seg intro: keepsD(1))
  then show ?thesis
    by (simp add: materializePortNodes_def Let_def keeps_refl ok split: option.split)
qed

lemma cutRegistry_keeps: "builder_ok E B \<Longrightarrow> keeps E B (B\<lparr>cutRegistry := c\<rparr>)"
  unfolding keeps_def builder_ok_def pointers_ok_def ids_ok_def by simp

lemma recordCuts_keeps: "builder_ok E B \<Longrightarrow> keeps E B (recordCutsFromPortConnections E pcs B)"
  unfolding recordCutsFromPortConnections_def
  by (rule fold_keeps)
    (auto simp: recordCuts_def Let_def keeps_refl cutRegistry_keeps keepsD(1) split: option.split)

lemma with_path_keeps:
  assumes "builder_ok E B" "\<And>s lsp bnds. pred_option (keeps E B) (f s lsp bnds B)"
  shows "pred_option (keeps E B) (with_path path f B)"
  using assms by (simp add: with_path_def keeps_refl split: option.split)

lemma drive_nodes_keeps:
  assumes ok: "builder_ok E B" and ns: "\<forall>n \<in> set ns. n \<in> set (nodes (gr B))"
  shows "pred_option (keeps E B) (fold_opt (\<lambda>n. if isOut then drive_output E s lsp bnds n
                           else addRvalue E s lsp bnds (Some n) ro pr) ns B)"
    "pred_option (keeps E B) (fold_opt (\<lambda>n. addRvalue E s lsp bnds (Some n) ro pr) ns B)"
proof -
  have n: "n \<in> set (nodes (gr B1))" "Some n \<in> live (gr B1)" if "n \<in> set ns" "keeps E B B1" for n B1
    using ns keepsD(2) [OF that(2)] that(1) by auto
  then show "pred_option (keeps E B) (fold_opt (\<lambda>n. if isOut then drive_output E s lsp bnds n
                           else addRvalue E s lsp bnds (Some n) ro pr) ns B)"
    by (intro fold_opt_keeps ok) (auto intro!: drive_output_keeps addRvalue_keeps intro: keepsD(1) simp del: live_simps)
  show "pred_option (keeps E B) (fold_opt (\<lambda>n. addRvalue E s lsp bnds (Some n) ro pr) ns B)"
    using n by (intro fold_opt_keeps ok) (auto intro!: addRvalue_keeps intro: keepsD(1) simp del: live_simps)
qed

lemma legacy_keeps:
  assumes ok: "builder_ok E B"
  shows "pred_option (keeps E B) (handlePortConnectionLegacy E port expr isOut B)"
  unfolding handlePortConnectionLegacy_def Let_def
proof (rule fold_opt_keeps [OF ok])
  fix path B1 assume k: "keeps E B B1"
  have "\<forall>n \<in> set (getVariables E (port_id port) B). n \<in> set (nodes (gr B1))"
    using getVariables_nodes [OF ok] keepsD(2) [OF k] by blast
  then show "pred_option (keeps E B1) (with_path path (\<lambda>s lsp bnds.
             fold_opt (\<lambda>n. if isOut then drive_output E s lsp bnds n
                           else addRvalue E s lsp bnds (Some n) Data Range) (getVariables E (port_id port) B)) B1)"
    by (intro with_path_keeps keepsD(1) [OF k] drive_nodes_keeps(1))
qed

end

context builder_env
begin

lemma drive_port_source_keeps:
  assumes ok: "builder_ok E B" and ns: "\<forall>n \<in> set ns. n \<in> set (nodes (gr B))"
  shows "pred_option (keeps E B) (drive_port_source E ns isOut seg src B)"
proof -
  note live = keepsD(2) ns [rule_format]
  have "pred_option (keeps E B) (fold_opt (\<lambda>path. with_path path (\<lambda>s lsp bnds.
                fold_opt (\<lambda>n. addRvalue E s lsp bnds (Some n) PortConnection Signal) ns)) ps B)" for ps
    by (rule fold_opt_keeps [OF ok], rule with_path_keeps) (auto intro!: drive_nodes_keeps intro: keepsD(1) live)
  moreover have "keeps E B (fold (\<lambda>n. addPlainDependency c n PortConnection Exact) ns B1)"
    if k: "keeps E B B1" and c: "c \<in> set (nodes (gr B1))" for c B1
    by (rule keeps_trans [OF k], rule fold_keeps [OF keepsD(1) [OF k]])
      (blast intro: addPlainDependency_keeps keepsD(1) live c k)
  then have "pred_option (keeps E B) (map_option (\<lambda>(c, B1). fold (\<lambda>n. addPlainDependency c n PortConnection Exact) ns B1)
                 (createConstantForSegment E src seg no_location B))"
    using createConstantForSegment_keeps [OF ok, of src seg no_location]
    by (cases "createConstantForSegment E src seg no_location B") auto
  ultimately show ?thesis
    using drive_nodes_keeps(1) [OF ok ns]
    by (auto simp: drive_port_source_def keeps_refl ok intro!: pred_then pred_require split: source_kind.split option.split)
qed

lemma handlePortConnection_keeps:
  assumes ok: "builder_ok E B"
  shows "pred_option (keeps E B) (handlePortConnection E pc B)"
proof -
  have "pred_option (keeps E B) (fold_opt (drivePortSegment E isOut) segs B)"
    if segs: "alignSegments (buildPortSliceList E port B) rhs = Some segs" for rhs segs isOut port
  proof (rule fold_opt_keeps [OF ok])
    fix seg B1 assume seg: "seg \<in> set segs" and k: "keeps E B B1"
    have "n \<in> set (nodes (gr B1))" if n: "n \<in> set (segment_port_nodes seg)" for n
    proof -
      obtain src where src: "src \<in> set (lhsSources seg)" "portNode src = Some n"
        using n by (auto simp: segment_port_nodes_def map_filter_def split: if_splits)
      obtain sl where "sl \<in> set (buildPortSliceList E port B)" "src \<in> set (sources sl)"
        using segment_sources [OF segs seg src(1)] .
      then show ?thesis
        using port_slices_nodes [OF ok _ _ src(2)] keepsD(2) [OF k] by blast
    qed
    then have "pred_option (keeps E B1) (fold_opt (drive_port_source E (segment_port_nodes seg) isOut seg) ss B1)" for ss
      by (intro fold_opt_keeps keepsD(1) [OF k]) (blast intro: drive_port_source_keeps keepsD)
    then show "pred_option (keeps E B1) (drivePortSegment E isOut seg B1)"
      by (simp add: drivePortSegment_def Let_def keeps_refl keepsD(1) [OF k])
  qed
  then show ?thesis
    using legacy_keeps [OF ok]
    by (auto simp: handlePortConnection_def Let_def keeps_refl ok intro!: pred_then split: option.split)
qed

lemma drain_keeps:
  assumes ok: "builder_ok E B" and work: "\<forall>w \<in> set allWork. \<forall>p \<in> set w. pr_node p \<in> live (gr B)"
  shows "keeps E B (drain allWork B)"
proof -
  have "set (fold (\<lambda>work q. q @ work) ws q) = set q \<union> \<Union> (set ` set ws)" for ws and q :: "pending_rvalue list"
    by (induction ws arbitrary: q) auto
  then show ?thesis
    using assms unfolding keeps_def builder_ok_def pointers_ok_def ids_ok_def drain_def by auto
qed

end

end
