(* ===== verification/DfaFacts.thy ===== *)
theory DfaFacts
  imports FlowFacts
begin

text \<open>
  The invariant of the data-flow analysis: the builder's invariant, and live node pointers in the state, in the driver
  maps of the analysis and in the postponed L-values. Every handler keeps it if the traversal of slang does.
\<close>

definition flow_ok :: "nat option set \<Rightarrow> 'm analysis_state \<Rightarrow> bool" where
  "flow_ok X st \<longleftrightarrow> (\<forall>dm \<in> set (valueDrivers st). dm_within X dm) \<and> cur_node st \<in> X \<and> cur_condition st \<in> X"

definition dfa_ok :: "('m, 'c) env \<Rightarrow> ('m, 'c) dfa \<Rightarrow> bool" where
  "dfa_ok E D \<longleftrightarrow> builder_ok E (bld D) \<and> flow_ok (live (gr (bld D))) (flow D) \<and> externalNode D \<in> live (gr (bld D)) \<and>
     (\<forall>p \<in> set (pendingLValues D). pr_node p \<in> live (gr (bld D))) \<and>
     (\<forall>k st. keptStates D k = Some st \<longrightarrow> flow_ok (live (gr (bld D))) st)"

definition moves :: "('m, 'c) env \<Rightarrow> ('m, 'c) dfa \<Rightarrow> ('m, 'c) dfa \<Rightarrow> bool" where
  "moves E D D' \<longleftrightarrow> dfa_ok E D' \<and> keeps E (bld D) (bld D')"

definition visitor_ok :: "('m, 'c) env \<Rightarrow> ('m, 'c) visitor \<Rightarrow> bool" where
  "visitor_ok E visit \<longleftrightarrow> (\<forall>e D. dfa_ok E D \<longrightarrow> pred_option (moves E D) (visit e D))"

lemma visitorD: "visitor_ok E visit \<Longrightarrow> dfa_ok E D \<Longrightarrow> pred_option (moves E D) (visit e D)"
  by (simp add: visitor_ok_def)

lemma flow_ok_mono: "keeps E B B' \<Longrightarrow> flow_ok (live (gr B)) st \<Longrightarrow> flow_ok (live (gr B')) st"
  by (auto simp: flow_ok_def keepsD(3) within_keeps)

lemma moves_refl: "dfa_ok E D \<Longrightarrow> moves E D D"
  by (simp add: moves_def dfa_ok_def keeps_refl)

lemma moves_trans: "moves E A B \<Longrightarrow> moves E B C \<Longrightarrow> moves E A C"
  unfolding moves_def using keeps_trans by blast

lemma movesD: "moves E D D' \<Longrightarrow> dfa_ok E D'" "moves E D D' \<Longrightarrow> keeps E (bld D) (bld D')"
  by (simp_all add: moves_def)

lemma moves_chain: "moves E A B \<Longrightarrow> pred_option (moves E B) x \<Longrightarrow> pred_option (moves E A) x"
  by (cases x) (auto intro: moves_trans)

lemma moves_bind:
  "pred_option (moves E D) x \<Longrightarrow> (\<And>D1. moves E D D1 \<Longrightarrow> pred_option (moves E D) (f D1)) \<Longrightarrow> pred_option (moves E D) (and_then x f)"
  by (cases x) auto

lemma visit_after: "visitor_ok E visit \<Longrightarrow> moves E D D1 \<Longrightarrow> pred_option (moves E D) (visit e D1)"
  using moves_chain visitorD movesD(1) by blast

lemma fold_opt_pred:
  "P s \<Longrightarrow> (\<And>x s. x \<in> set xs \<Longrightarrow> P s \<Longrightarrow> pred_option P (f x s)) \<Longrightarrow> pred_option P (fold_opt f xs s)"
proof (induction xs arbitrary: s)
  case (Cons x xs)
  have "pred_option P (f x s)" using Cons.prems by simp
  moreover have "pred_option P (fold_opt f xs t)" if "P t" for t
    by (rule Cons.IH [OF that]) (simp add: Cons.prems(2))
  ultimately show ?case
    by (cases "f x s") simp_all
qed simp

lemma fold_opt_moves:
  assumes "dfa_ok E D" "\<And>x D1. x \<in> set xs \<Longrightarrow> dfa_ok E D1 \<Longrightarrow> moves E D D1 \<Longrightarrow> pred_option (moves E D1) (f x D1)"
  shows "pred_option (moves E D) (fold_opt f xs D)"
  by (rule fold_opt_pred [where P = "moves E D", OF moves_refl [OF assms(1)]]) (blast intro: moves_chain assms(2) movesD)

lemma flags_ok [simp]:
  "dfa_ok E (D\<lparr>isLValue := a\<rparr>) = dfa_ok E D" "dfa_ok E (D\<lparr>isBlocking := a\<rparr>) = dfa_ok E D"
  "dfa_ok E (D\<lparr>prohibitLValue := a\<rparr>) = dfa_ok E D" "dfa_ok E (D\<lparr>dependencyRole := r\<rparr>) = dfa_ok E D"
  "dfa_ok E (D\<lparr>dependencyPrecision := p\<rparr>) = dfa_ok E D"
  by (simp_all add: dfa_ok_def)

lemma flags_moves [simp]:
  "moves E (D\<lparr>isLValue := a\<rparr>) = moves E D" "moves E (D\<lparr>isBlocking := a\<rparr>) = moves E D"
  "moves E (D\<lparr>prohibitLValue := a\<rparr>) = moves E D" "moves E (D\<lparr>dependencyRole := r\<rparr>) = moves E D"
  "moves E (D\<lparr>dependencyPrecision := p\<rparr>) = moves E D"
  "moves E D (D'\<lparr>isLValue := a\<rparr>) = moves E D D'" "moves E D (D'\<lparr>isBlocking := a\<rparr>) = moves E D D'"
  "moves E D (D'\<lparr>prohibitLValue := a\<rparr>) = moves E D D'" "moves E D (D'\<lparr>dependencyRole := r\<rparr>) = moves E D D'"
  "moves E D (D'\<lparr>dependencyPrecision := p\<rparr>) = moves E D D'"
  by (simp_all add: moves_def fun_eq_iff)

lemma set_bld_moves: "dfa_ok E D \<Longrightarrow> keeps E (bld D) B \<Longrightarrow> moves E D (set_bld D B)"
  unfolding moves_def dfa_ok_def set_bld_def
  by (simp add: keepsD(1) flow_ok_mono) (blast intro: keepsD(3))

lemma map_bld_moves: "dfa_ok E D \<Longrightarrow> pred_option (keeps E (bld D)) x \<Longrightarrow> pred_option (moves E D) (map_option (set_bld D) x)"
  by (cases x) (simp_all add: set_bld_moves)

lemma set_node_moves:
  assumes "dfa_ok E D" "n \<in> live (gr (bld D))" "c \<in> live (gr (bld D))"
  shows "moves E D (D\<lparr>flow := (flow D)\<lparr>cur_node := n, cur_condition := c\<rparr>\<rparr>)"
  using assms by (simp add: moves_def dfa_ok_def flow_ok_def keeps_refl)

lemma note_drivers_moves:
  assumes ok: "dfa_ok E D" and ds: "dl_nodes ds \<subseteq> live (gr (bld D))"
  shows "pred_option (moves E D) (note_drivers E s bnds ds D)"
proof -
  have "moves E D (D\<lparr>valueTracker := fst st, flow := (flow D)\<lparr>valueDrivers := snd st\<rparr>\<rparr>)"
    if "addDrivers (rlib E) (imap E) s bnds ds False (valueTracker D, valueDrivers (flow D)) = Some st" for st
  proof -
    have "\<forall>dm \<in> set (snd st). dm_within (live (gr (bld D))) dm"
      using ok by (intro addDrivers_within [OF _ ds that]) (simp add: dfa_ok_def flow_ok_def)
    then show ?thesis
      using ok by (simp add: moves_def dfa_ok_def flow_ok_def keeps_refl)
  qed
  then show ?thesis
    unfolding note_drivers_def by (auto intro!: pred_map simp: pred_option_def)
qed

lemma handleLvalue_moves:
  assumes ok: "dfa_ok E D"
  shows "pred_option (moves E D) (handleLvalue E s lsp bnds D)"
proof -
  have n: "cur_node (flow D) \<in> live (gr (bld D))" using ok by (simp add: dfa_ok_def flow_ok_def)
  then have "moves E D (addNonBlockingLvalue s lsp bnds (cur_node (flow D)) D)"
    using ok by (simp add: moves_def dfa_ok_def addNonBlockingLvalue_def keeps_refl)
  then show ?thesis
    using n note_drivers_moves [OF ok] by (simp add: handleLvalue_def)
qed

lemma finalize_moves:
  assumes ok: "dfa_ok E D"
  shows "pred_option (moves E D) (dfa_finalize E D)"
proof -
  have "pred_option (moves E D)
      (fold_opt (\<lambda>p. note_drivers E (pr_symbol p) (pr_bounds p) [\<lparr>di_node = pr_node p, di_lsp = Some (pr_lsp p)\<rparr>]) (pendingLValues D) D)"
  proof (rule fold_opt_moves [OF ok], rule note_drivers_moves)
    fix p D1 assume "p \<in> set (pendingLValues D)" and k: "moves E D D1"
    then have "pr_node p \<in> live (gr (bld D))" using ok by (simp add: dfa_ok_def)
    then show "dl_nodes [\<lparr>di_node = pr_node p, di_lsp = Some (pr_lsp p)\<rparr>] \<subseteq> live (gr (bld D1))"
      using keepsD(3) [OF movesD(2) [OF k]] by simp
  qed
  moreover have "moves E D (D'\<lparr>pendingLValues := []\<rparr>)" if "moves E D D'" for D'
    using that by (simp add: moves_def dfa_ok_def)
  ultimately show ?thesis
    unfolding dfa_finalize_def processNonBlockingLvalues_def by (auto intro!: pred_map elim: option.pred_mono_strong)
qed

lemma without_lvalue_moves:
  assumes "\<And>D. dfa_ok E D \<Longrightarrow> pred_option (moves E D) (f D)" "dfa_ok E D"
  shows "pred_option (moves E D) (without_lvalue f D)"
  using assms(1) [of "D\<lparr>isLValue := False\<rparr>"] assms(2)
  unfolding without_lvalue_def by (cases "f (D\<lparr>isLValue := False\<rparr>)") simp_all

lemma visit_element_moves:
  assumes v: "visitor_ok E visit" and ok: "dfa_ok E D"
  shows "pred_option (moves E D) (visit_element visit elem D)"
proof -
  have two: "pred_option (moves E D1) (and_then (visit l D1) (visit r))" if "dfa_ok E D1" for l r D1
    by (rule moves_bind [OF visitorD [OF v that]]) (blast intro: moves_chain visitorD v movesD)
  show ?thesis
    unfolding visit_element_def
    by (auto intro!: without_lvalue_moves ok two visitorD [OF v] simp: moves_refl [OF ok] split: path_elem.split option.split)
qed

section \<open>R-values\<close>

context builder_env
begin

lemma rvalue_loop_keeps:
  assumes "builder_ok E B" "dm_within (live (gr B)) defs" "n \<in> set (nodes (gr B))"
    "r < length (st_entries (symbolTable (bgraph B)))"
  shows "pred_option (\<lambda>(_, B'). keeps E B B') (rvalue_loop E defs n r bnds ro pr es B)"
  using assms
proof (induction es arbitrary: B)
  case (Cons e es)
  show ?case
    unfolding rvalue_loop.simps
  proof (rule pred_then)
    fix ds assume "getDriverList (snd e) defs = Some ds"
    then have ds: "dl_nodes ds \<subseteq> live (gr B)" using within_get Cons.prems(2) by blast
    have add: "pred_option (keeps E B) (addDriversToNode E ds n (Some r) bnds EdgeNone ro pr B)"
      using Cons.prems ds by (intro addDriversToNode_keeps) simp_all
    have "pred_option (\<lambda>(_, B'). keeps E B B') (rvalue_loop E defs n r bnds ro pr es B1)" if k: "keeps E B B1" for B1
      using Cons.IH [OF keepsD(1) [OF k] within_keeps [OF k Cons.prems(2)] keepsD(2) [OF k Cons.prems(3)] keepsD(4) [OF k Cons.prems(4)]]
      by (rule option.pred_mono_strong) (auto intro: keeps_trans [OF k])
    then show "pred_option (\<lambda>(_, B'). keeps E B B')
        (if contains_of (rlib E) (ivl_range (fst e)) bnds then
         map_option (Pair True) (addDriversToNode E ds n (Some r) bnds EdgeNone ro pr B)
       else if contains_of (rlib E) bnds (ivl_range (fst e)) then
         and_then (addDriversToNode E ds n (Some r) bnds EdgeNone ro pr B) (rvalue_loop E defs n r bnds ro pr es)
       else rvalue_loop E defs n r bnds ro pr es B)"
      using add keeps_refl [OF Cons.prems(1)]
      by (cases "addDriversToNode E ds n (Some r) bnds EdgeNone ro pr B") auto
  qed
qed (simp add: keeps_refl)

lemma handleRvalue_moves:
  assumes ok: "dfa_ok E D"
  shows "pred_option (moves E D) (handleRvalue E s lsp bnds D)"
proof -
  have B: "builder_ok E (bld D)" and ext: "externalNode D \<in> live (gr (bld D))"
    and cur: "cur_node (flow D) \<in> live (gr (bld D))"
    and defs: "i < length (valueDrivers (flow D)) \<Longrightarrow> dm_within (live (gr (bld D))) (valueDrivers (flow D) ! i)" for i
    using ok by (simp_all add: dfa_ok_def flow_ok_def)
  have pend: "pred_option (moves E D) (map_option (set_bld D) (addRvalue E s lsp b nd ro pr (bld D)))"
    if "nd \<in> live (gr (bld D))" for b nd ro pr
    by (rule map_bld_moves [OF ok addRvalue_keeps [OF B that]])
  obtain ref B1 where r: "toSymbolRef E s (bld D) = (ref, B1)" by fastforce
  have t: "keeps E (bld D) B1" "ref < length (st_entries (symbolTable (bgraph B1)))"
    using toSymbolRef_keeps [OF B, of s] by (simp_all add: r)
  have main: "pred_option (moves E D) (and_then (rvalue_loop E defs n ref bnds ro pr es B1)
       (\<lambda>(covered, B2). map_option (set_bld D)
          (if covered then Some B2 else fold_opt (\<lambda>b. addRvalue E s lsp b (Some n) ro pr) parts B2)))"
    if "dm_within (live (gr (bld D))) defs" "cur_node (flow D) = Some n" for defs n ro pr es parts
  proof (rule pred_then, clarify, rule map_bld_moves [OF ok])
    fix covered B2 assume loop: "rvalue_loop E defs n ref bnds ro pr es B1 = Some (covered, B2)"
    have n: "n \<in> set (nodes (gr B1))" using cur that(2) keepsD(2) [OF t(1)] by simp
    have k: "keeps E B1 B2"
      using rvalue_loop_keeps [OF keepsD(1) [OF t(1)] within_keeps [OF t(1) that(1)] n t(2), of bnds ro pr es] loop by simp
    have "pred_option (keeps E B2) (fold_opt (\<lambda>b. addRvalue E s lsp b (Some n) ro pr) parts B2)"
      by (rule fold_opt_keeps [OF keepsD(1) [OF k]])
        (simp add: addRvalue_keeps keepsD(1) keepsD(2) [OF keeps_trans [OF k] n])
    then show "pred_option (keeps E (bld D))
        (if covered then Some B2 else fold_opt (\<lambda>b. addRvalue E s lsp b (Some n) ro pr) parts B2)"
      using keeps_trans [OF t(1) k] by (simp add: keeps_chain)
  qed
  have nd: "(case cur_node (flow D) of Some n \<Rightarrow> Some n | None \<Rightarrow> externalNode D) \<in> live (gr (bld D))"
    using ext cur by (cases "cur_node (flow D)") simp_all
  have cur': "Some n \<in> live (gr (bld D))" if "cur_node (flow D) = Some n" for n
    using cur unfolding that .
  show ?thesis
    unfolding handleRvalue_def Let_def r split
    by (auto intro!: pend main defs cur' nd ext simp: not_le simp del: live_simps split: option.split)
qed

lemma noteReference_moves: "dfa_ok E D \<Longrightarrow> pred_option (moves E D) (noteReference E path D)"
  by (simp add: noteReference_def moves_refl handleLvalue_moves handleRvalue_moves split: option.split)

lemma handleSelect_ok: "visitor_ok E visit \<Longrightarrow> visitor_ok E (handleSelect E visit)"
  unfolding visitor_ok_def [of _ "handleSelect E visit"] handleSelect_def
  by (intro allI impI moves_bind fold_opt_moves visit_element_moves) (blast intro: moves_chain noteReference_moves movesD)+

end

section \<open>Assignments and conditions\<close>

lemma updateNode_moves:
  assumes ok: "dfa_ok E D" and n: "n \<in> set (nodes (gr (bld D)))"
  shows "moves E D (updateNode n conditional D)"
proof -
  have B: "builder_ok E (bld D)" and c: "cur_condition (flow D) \<in> live (gr (bld D))"
    using ok by (simp_all add: dfa_ok_def flow_ok_def)
  let ?D = "case cur_condition (flow D) of None \<Rightarrow> D
      | Some c \<Rightarrow> D\<lparr>bld := addPlainDependency c n Control Signal (bld D)\<rparr>"
  have 1: "moves E D ?D"
  proof (cases "cur_condition (flow D)")
    case (Some x)
    then have "keeps E (bld D) (addPlainDependency x n Control Signal (bld D))"
      using c n by (intro addPlainDependency_keeps [OF B]) simp_all
    then show ?thesis
      using set_bld_moves [OF ok] Some by (simp add: set_bld_def)
  qed (simp add: moves_refl ok)
  have "n \<in> set (nodes (gr (bld ?D)))" using keepsD(2) [OF movesD(2) [OF 1] n] .
  then have 2: "moves E ?D (?D\<lparr>flow := (flow ?D)\<lparr>cur_node := Some n, cur_condition := (if conditional then Some n else None)\<rparr>\<rparr>)"
    by (intro set_node_moves movesD(1) [OF 1]) simp_all
  have "?D\<lparr>flow := (flow ?D)\<lparr>cur_node := Some n, cur_condition := (if conditional then Some n else None)\<rparr>\<rparr> = updateNode n conditional D"
    by (simp add: updateNode_def Let_def)
  then show ?thesis
    using moves_trans [OF 1 2] by simp
qed

lemma enter_moves:
  assumes ok: "dfa_ok E D" and k: "keeps E (bld D) (snd x)" and n: "fst x \<in> set (nodes (gr (snd x)))"
  shows "moves E D (updateNode (fst x) conditional (set_bld D (snd x)))"
proof -
  note 1 = set_bld_moves [OF ok k]
  show ?thesis
    by (rule moves_trans [OF 1 updateNode_moves [OF movesD(1) [OF 1]]]) (simp add: set_bld_def n)
qed

lemma handleProceduralAssign_ok:
  assumes "visitor_ok E visit"
  shows "visitor_ok E (\<lambda>stmt. handleProceduralAssign visit stmt isForce)"
  unfolding visitor_ok_def
proof (intro allI impI)
  fix stmt D assume ok: "dfa_ok E D"
  have "pred_option (moves E D) (visit stmt (D\<lparr>prohibitLValue := True\<rparr>))"
    using visitorD [OF assms, of "D\<lparr>prohibitLValue := True\<rparr>" stmt] ok by (simp add: option.pred_map [symmetric] cong: option.pred_cong)
  then show "pred_option (moves E D) (handleProceduralAssign visit stmt isForce D)"
    using visitorD [OF assms ok] by (auto simp: handleProceduralAssign_def intro!: pred_map)
qed

context builder_env
begin

lemmas B_ok = dfa_ok_def [THEN iffD1, THEN conjunct1]

lemma visited_flags:
  assumes "visitor_ok E visit" "dfa_ok E D"
  shows "pred_option (moves E D) (visit e (D\<lparr>isLValue := a\<rparr>))"
    "pred_option (moves E D) (visit e (D\<lparr>isLValue := a, isBlocking := b\<rparr>))"
  using visitorD [OF assms(1), of "D\<lparr>isLValue := a\<rparr>" e] visitorD [OF assms(1), of "D\<lparr>isLValue := a, isBlocking := b\<rparr>" e]
    assms(2) by (auto elim!: option.pred_mono_strong)

lemma new_assignment_moves:
  assumes "dfa_ok E D"
  shows "moves E D (updateNode (fst (createAssignment E e (bld D))) c (set_bld D (snd (createAssignment E e (bld D)))))"
    "moves E D (updateNode (fst (createConditional E e (bld D))) c (set_bld D (snd (createConditional E e (bld D)))))"
    "moves E D (updateNode (fst (createCase E e (bld D))) c (set_bld D (snd (createCase E e (bld D)))))"
  by (intro enter_moves assms create_keeps B_ok)+

lemma legacy_assignment_moves:
  assumes v: "visitor_ok E visit" and ok: "dfa_ok E D"
  shows "pred_option (moves E D) (handleAssignmentLegacy E visit expr D)"
proof -
  let ?D = "updateNode (fst (createAssignment E (as_expr expr) (bld D))) False (set_bld D (snd (createAssignment E (as_expr expr) (bld D))))"
  have 1: "moves E D ?D" by (rule new_assignment_moves(1) [OF ok])
  note ok1 = movesD(1) [OF 1]
  have "pred_option (moves E ?D)
      (and_then (if \<not> prohibitLValue ?D
            then require (\<not> isLValue ?D)
                   (map_option (\<lambda>D. D\<lparr>isLValue := False\<rparr>) (visit l (?D\<lparr>isLValue := True, isBlocking := as_blocking expr\<rparr>)))
            else visit l ?D)
           (\<lambda>D2. if \<not> as_isLValueArg expr then visit r D2 else Some D2))" for l r
    using visited_flags(2) [OF v ok1] visitorD [OF v ok1]
    by (intro moves_bind) (auto intro!: pred_require pred_map visit_after [OF v])
  then show ?thesis
    using moves_chain [OF 1] by (simp add: handleAssignmentLegacy_def split_beta Let_def)
qed

end

section \<open>Aligned assignments\<close>

context builder_env
begin

lemma visitSelector_moves:
  assumes v: "visitor_ok E visit" and ok: "dfa_ok E D"
  shows "pred_option (\<lambda>(_, D'). moves E D D') (visitSelector E visit sel ro (dyn, D))"
proof -
  have "pred_option (moves E D) (visit sel (D\<lparr>dependencyRole := ro, dependencyPrecision := Exact\<rparr>))"
    using visitorD [OF v, of "D\<lparr>dependencyRole := ro, dependencyPrecision := Exact\<rparr>" sel] ok by (auto elim!: option.pred_mono_strong)
  then show ?thesis
    unfolding visitSelector_def
    by (cases "visit sel (D\<lparr>dependencyRole := ro, dependencyPrecision := Exact\<rparr>)") (simp_all add: moves_refl ok)
qed

lemma visit_selectors_moves:
  assumes v: "visitor_ok E visit" and ok: "dfa_ok E D"
  shows "pred_option (\<lambda>(_, D'). moves E D D') (visit_selectors E visit elem (dyn, D))"
proof -
  have "pred_option (\<lambda>(_, D'). moves E D D') (and_then (visitSelector E visit l Index (dyn, D)) (visitSelector E visit r Index))" for l r
  proof (rule pred_bind [OF visitSelector_moves [OF v ok]], clarify)
    fix d D1 assume 1: "moves E D D1"
    show "pred_option (\<lambda>(_, D'). moves E D D') (visitSelector E visit r Index (d, D1))"
      using visitSelector_moves [OF v movesD(1) [OF 1], of r Index d]
      by (rule option.pred_mono_strong) (auto intro: moves_trans [OF 1])
  qed
  then show ?thesis
    using visitSelector_moves [OF v ok]
    by (simp add: visit_selectors_def moves_refl ok split: path_elem.split)
qed

lemma all_selectors_moves:
  assumes v: "visitor_ok E visit" and ok: "dfa_ok E D"
  shows "pred_option (\<lambda>(_, D'). moves E D D') (fold_opt (visit_selectors E visit) elems (dyn, D))"
proof (rule fold_opt_pred)
  fix elem and st :: "bool \<times> ('m, 'c) dfa" assume "case st of (_, D') \<Rightarrow> moves E D D'"
  then have 1: "moves E D (snd st)" by (simp add: split_beta)
  show "pred_option (\<lambda>(_, D'). moves E D D') (visit_selectors E visit elem st)"
    using visit_selectors_moves [OF v movesD(1) [OF 1], of elem "fst st"] unfolding prod.collapse
    by (rule option.pred_mono_strong) (auto intro: moves_trans [OF 1])
qed (simp add: moves_refl ok)

lemma driveRhs_moves:
  assumes v: "visitor_ok E visit" and ok: "dfa_ok E D"
  shows "pred_option (moves E D) (driveRhsLspSegment E visit src seg D)"
proof -
  have main: "pred_option (moves E D) (and_then (fold_opt (visit_selectors E visit) elems (False, D)) (\<lambda>(dyn, D1).
        and_then (handleRvalue E s e b (if dyn then D1\<lparr>dependencyPrecision := Signal\<rparr> else D1)) (\<lambda>D2.
          Some (D2\<lparr>dependencyPrecision := dependencyPrecision D1\<rparr>))))" for elems s e b
  proof (rule pred_bind [OF all_selectors_moves [OF v ok]], clarify)
    fix dyn D1 assume 1: "moves E D D1"
    let ?D = "if dyn then D1\<lparr>dependencyPrecision := Signal\<rparr> else D1"
    have "moves E D ?D" using 1 by simp
    then have "pred_option (moves E D) (handleRvalue E s e b ?D)"
      using moves_chain handleRvalue_moves movesD(1) by blast
    then show "pred_option (moves E D) (and_then (handleRvalue E s e b ?D) (\<lambda>D2. Some (D2\<lparr>dependencyPrecision := dependencyPrecision D1\<rparr>)))"
      by (rule moves_bind) simp
  qed
  then show ?thesis
    unfolding driveRhsLspSegment_def by (intro main pred_require pred_then)
qed

lemma drive_lhs_moves: "dfa_ok E D \<Longrightarrow> pred_option (moves E D) (drive_lhs_source E seg src D)"
  unfolding drive_lhs_source_def driveLhsLspSegment_def
  by (auto intro!: pred_require pred_then handleLvalue_moves simp: moves_refl)

lemma drive_rhs_moves:
  assumes v: "visitor_ok E visit" and ok: "dfa_ok E D"
  shows "pred_option (moves E D) (drive_rhs_source E visit expr seg src D)"
proof -
  note B = B_ok [OF ok]
  have "pred_option (moves E D) (map_option (\<lambda>(c, B'). set_bld D (addPlainDependency c n Data Exact B'))
          (createConstantForSegment E src seg l B1))"
    if k: "keeps E (bld D) B1" and n: "cur_node (flow D) = Some n" for l B1 n
  proof -
    have n: "n \<in> set (nodes (gr (bld D)))" using ok n by (auto simp: dfa_ok_def flow_ok_def)
    have "keeps E (bld D) (addPlainDependency c n Data Exact B2)" if "keeps E B1 B2" "c \<in> set (nodes (gr B2))" for c B2
      using keeps_trans [OF keeps_trans [OF k that(1)] addPlainDependency_keeps [OF keepsD(1) [OF that(1)] that(2)]]
        keepsD(2) [OF keeps_trans [OF k that(1)] n] .
    then show ?thesis
      using createConstantForSegment_keeps [OF keepsD(1) [OF k], of src seg l]
      by (cases "createConstantForSegment E src seg l B1") (auto intro!: set_bld_moves ok)
  qed
  note const = this [OF toTextLocation_keeps [OF B]]
  have "pred_option (moves E D) (without_lvalue (visit e) D)" for e
    by (rule without_lvalue_moves [OF visitorD [OF v] ok])
  then show ?thesis
    using driveRhs_moves [OF v ok] const
    by (auto simp: drive_rhs_source_def moves_refl ok split_beta Let_def intro!: pred_then split: source_kind.split option.split)
qed

lemma drive_segment_moves:
  assumes v: "visitor_ok E visit" and ok: "dfa_ok E D"
    and saved: "n \<in> live (gr (bld D))" "c \<in> live (gr (bld D))"
  shows "pred_option (moves E D) (drive_segment E visit expr n c seg D)"
proof -
  let ?D1 = "D\<lparr>flow := (flow D)\<lparr>cur_node := n, cur_condition := c\<rparr>\<rparr>"
  let ?D2 = "updateNode (fst (createAssignment E (as_expr expr) (bld ?D1))) False (set_bld ?D1 (snd (createAssignment E (as_expr expr) (bld ?D1))))"
  have 1: "moves E D ?D1" by (rule set_node_moves [OF ok saved])
  have 2: "moves E D ?D2" by (rule moves_trans [OF 1 new_assignment_moves(1) [OF movesD(1) [OF 1]]])
  note ok2 = movesD(1) [OF 2]
  have lhs: "pred_option (moves E ?D2) (fold_opt (drive_lhs_source E seg) ss (?D2\<lparr>isLValue := True\<rparr>))" for ss
    using fold_opt_moves [of E "?D2\<lparr>isLValue := True\<rparr>" ss "drive_lhs_source E seg"] ok2 drive_lhs_moves
    by (auto elim!: option.pred_mono_strong)
  have rhs: "pred_option (moves E D0) (fold_opt (drive_rhs_source E visit expr seg) ss D1)" if "moves E D0 D1" for ss D0 D1
    by (rule moves_chain [OF that fold_opt_moves [OF movesD(1) [OF that]]]) (rule drive_rhs_moves [OF v])
  have "pred_option (moves E ?D2)
      (and_then (if prohibitLValue ?D2 then Some ?D2
            else require (\<not> isLValue ?D2)
                   (map_option (\<lambda>D. D\<lparr>isLValue := False\<rparr>) (fold_opt (drive_lhs_source E seg) ls (?D2\<lparr>isLValue := True\<rparr>))))
           (\<lambda>D3. if as_isLValueArg expr then Some D3 else fold_opt (drive_rhs_source E visit expr seg) rs D3))" for ls rs
    using lhs moves_refl [OF ok2] by (intro moves_bind) (auto intro!: pred_require pred_map rhs)
  then show ?thesis
    using moves_chain [OF 2] by (simp add: drive_segment_def split_beta Let_def)
qed

lemma handleAssignment_moves:
  assumes v: "visitor_ok E visit" and ok: "dfa_ok E D"
  shows "pred_option (moves E D) (handleAssignment E visit expr D)"
proof -
  let ?D = "D\<lparr>isBlocking := as_blocking expr\<rparr>"
  have saved: "cur_node (flow D) \<in> live (gr (bld D))" "cur_condition (flow D) \<in> live (gr (bld D))"
    using ok by (simp_all add: dfa_ok_def flow_ok_def)
  have "pred_option (moves E ?D) (fold_opt (drive_segment E visit expr (cur_node (flow D)) (cur_condition (flow D))) segs ?D)" for segs
  proof (rule fold_opt_moves)
    fix seg D1 assume "dfa_ok E D1" and k: "moves E ?D D1"
    then show "pred_option (moves E D1) (drive_segment E visit expr (cur_node (flow D)) (cur_condition (flow D)) seg D1)"
      using keepsD(3) [OF movesD(2) [OF k]] saved by (intro drive_segment_moves v) simp_all
  qed (simp add: ok)
  then show ?thesis
    using legacy_assignment_moves [OF v ok] by (auto simp: handleAssignment_def Let_def intro!: pred_then)
qed

end

section \<open>Conditions, joins and whole blocks\<close>

lemma clone_id: "copyState st = st"
  by (simp add: copyState_def dm_clone_id [abs_def] map_idI)

context builder_env
begin

lemma handlers_ok:
  assumes v: "visitor_ok E visit"
  shows "visitor_ok E (\<lambda>stmt. handleConditional E visit stmt conditions)" "visitor_ok E (handleCase E visit)"
    "visitor_ok E (\<lambda>_. handleAssignment E visit expr)"
  unfolding visitor_ok_def handleConditional_def handleCase_def split_beta Let_def
  using visitorD [OF v] visit_after [OF v] new_assignment_moves handleAssignment_moves [OF v] by auto

lemma merge_optional_keeps:
  assumes "builder_ok E B" "a \<in> live (gr B)" "b \<in> live (gr B)"
  shows "keeps E B (snd (merge_optional a b B))" "fst (merge_optional a b B) \<in> live (gr (snd (merge_optional a b B)))"
  using assms merge_nodes_keeps [OF assms(1)]
  by (auto simp: merge_optional_def keeps_refl split_beta split: option.split)

lemma merge_symbol_within:
  assumes "\<forall>dm \<in> set (snd st). dm_within X dm" "dm_within X (other ! i)"
  shows "pred_option (\<lambda>st'. \<forall>dm \<in> set (snd st'). dm_within X dm) (merge_symbol E other i st)"
  unfolding merge_symbol_def
  by (rule pred_then, rule fold_opt_pred, rule assms(1), intro pred_then)
    (auto simp: pred_option_def dest: addDrivers_within [OF _ within_get [OF _ assms(2)]])

lemma mergeStates_moves:
  assumes ok: "dfa_ok E D" and st: "flow_ok (live (gr (bld D))) result" "flow_ok (live (gr (bld D))) other"
  shows "pred_option (\<lambda>(st, D'). moves E D D' \<and> flow_ok (live (gr (bld D'))) st) (mergeStates E result other D)"
proof -
  let ?X = "live (gr (bld D))"
  have drv: "pred_option (\<lambda>st'. \<forall>dm \<in> set (snd st'). dm_within ?X dm)
      (fold_opt (merge_symbol E (valueDrivers other)) [0 ..< length (valueDrivers other)] (valueTracker D, valueDrivers result))"
    by (rule fold_opt_pred) (use st in \<open>auto simp: flow_ok_def intro!: merge_symbol_within\<close>)
  let ?n = "merge_optional (cur_node result) (cur_node other) (bld D)"
  let ?c = "merge_optional (cur_condition result) (cur_condition other) (snd ?n)"
  have 1: "keeps E (bld D) (snd ?n)" "fst ?n \<in> live (gr (snd ?n))"
    using st by (intro merge_optional_keeps B_ok [OF ok]; simp add: flow_ok_def)+
  have 2: "keeps E (snd ?n) (snd ?c)" "fst ?c \<in> live (gr (snd ?c))"
    using st keepsD(3) [OF 1(1)] by (intro merge_optional_keeps keepsD(1) [OF 1(1)]; simp add: flow_ok_def)+
  note 12 = keeps_trans [OF 1(1) 2(1)]
  have "moves E D (D\<lparr>valueTracker := vt, bld := snd ?c\<rparr>)" for vt
    using movesD(1) [OF set_bld_moves [OF ok 12]] 12 by (simp add: moves_def dfa_ok_def set_bld_def)
  moreover have "flow_ok (live (gr (snd ?c))) (result\<lparr>valueDrivers := vds, cur_node := fst ?n, cur_condition := fst ?c\<rparr>)"
    if "\<forall>dm \<in> set vds. dm_within ?X dm" for vds
    using that keepsD(3) [OF 2(1) 1(2)] 2(2) by (simp add: flow_ok_def) (blast intro: within_keeps [OF 12])
  ultimately show ?thesis
    using drv unfolding mergeStates_def
    by (cases "fold_opt (merge_symbol E (valueDrivers other)) [0 ..< length (valueDrivers other)] (valueTracker D, valueDrivers result)")
      (auto simp: split_beta Let_def)
qed

lemma joinState_moves:
  assumes ok: "dfa_ok E D" and st: "flow_ok (live (gr (bld D))) result" "flow_ok (live (gr (bld D))) other"
  shows "pred_option (\<lambda>(st, D'). moves E D D' \<and> flow_ok (live (gr (bld D'))) st) (joinState E result other D)"
    "pred_option (\<lambda>(st, D'). moves E D D' \<and> flow_ok (live (gr (bld D'))) st) (meetState E result other D)"
proof -
  have "flow_ok (live (gr (bld D))) (result\<lparr>reachable := False\<rparr>)" using st(1) by (simp add: flow_ok_def)
  then show "pred_option (\<lambda>(st, D'). moves E D D' \<and> flow_ok (live (gr (bld D'))) st) (joinState E result other D)"
    "pred_option (\<lambda>(st, D'). moves E D D' \<and> flow_ok (live (gr (bld D'))) st) (meetState E result other D)"
    using mergeStates_moves [OF ok st] st moves_refl [OF ok] by (simp_all add: joinState_def meetState_def clone_id)
qed

lemma new_dfa_ok: "builder_ok E B \<Longrightarrow> dfa_ok E (new_dfa None B)"
  by (simp add: dfa_ok_def new_dfa_def flow_ok_def topState_def)

lemma finished_keeps:
  assumes "moves E (new_dfa None B) D"
  shows "pred_option (keeps E B) (mergeDrivers E (valueTracker D) (valueDrivers (flow D)) sens (bld D))"
proof -
  have "keeps E B (bld D)" using assms by (simp add: moves_def new_dfa_def)
  moreover have "builder_ok E (bld D)" "\<forall>dm \<in> set (valueDrivers (flow D)). dm_within (live (gr (bld D))) dm"
    using assms by (simp_all add: moves_def dfa_ok_def flow_ok_def)
  ultimately show ?thesis
    using keeps_chain mergeDrivers_keeps by blast
qed

lemma blocks_keep:
  assumes v: "visitor_ok E run" and ok: "builder_ok E B"
  shows "pred_option (keeps E B) (handleProceduralBlock E run kind body stmt B)"
    "pred_option (keeps E B) (handleContinuousAssign E run expr B)"
proof -
  note 1 = visitorD [OF v new_dfa_ok [OF ok]]
  show "pred_option (keeps E B) (handleContinuousAssign E run expr B)"
    unfolding handleContinuousAssign_def by (rule pred_bind [OF 1 finished_keeps])
  have "pred_option (moves E (new_dfa None B)) (dfa_finalize E D)" if "moves E (new_dfa None B) D" for D
    by (rule moves_chain [OF that finalize_moves [OF movesD(1) [OF that]]])
  then show "pred_option (keeps E B) (handleProceduralBlock E run kind body stmt B)"
    unfolding handleProceduralBlock_def by (blast intro: pred_bind [OF 1] pred_bind finished_keeps)
qed

end

section \<open>Every traversal keeps the invariant\<close>

context builder_env
begin

lemma set_flow_moves: "moves E D D' \<Longrightarrow> flow_ok (live (gr (bld D'))) st \<Longrightarrow> moves E D (D'\<lparr>flow := st\<rparr>)"
  by (simp add: moves_def dfa_ok_def)

lemma branch_ok:
  assumes f: "visitor_ok E f" and g: "visitor_ok E g"
  shows "visitor_ok E (branch E f g)"
  unfolding visitor_ok_def branch_def Let_def clone_id
proof (intro allI impI)
  fix e D assume ok: "dfa_ok E D"
  have saved: "flow_ok (live (gr (bld D))) (flow D)" using ok by (simp add: dfa_ok_def)
  show "pred_option (moves E D) (and_then (f e (D\<lparr>flow := flow D\<rparr>)) (\<lambda>D1. and_then (g e (D1\<lparr>flow := flow D\<rparr>))
          (\<lambda>D2. map_option (\<lambda>(st, D3). D3\<lparr>flow := st\<rparr>) (joinState E (flow D2) (flow D1) D2))))"
  proof (rule moves_bind)
    show "pred_option (moves E D) (f e (D\<lparr>flow := flow D\<rparr>))"
      by (rule visit_after [OF f set_flow_moves [OF moves_refl [OF ok] saved]])
    fix D1 assume 1: "moves E D D1"
    have restored: "moves E D (D1\<lparr>flow := flow D\<rparr>)"
      by (rule set_flow_moves [OF 1 flow_ok_mono [OF movesD(2) [OF 1] saved]])
    show "pred_option (moves E D) (and_then (g e (D1\<lparr>flow := flow D\<rparr>))
          (\<lambda>D2. map_option (\<lambda>(st, D3). D3\<lparr>flow := st\<rparr>) (joinState E (flow D2) (flow D1) D2)))"
    proof (rule pred_bind [OF visitorD [OF g movesD(1) [OF restored]]])
      fix D2 assume 2: "moves E (D1\<lparr>flow := flow D\<rparr>) D2"
      then have ok2: "dfa_ok E D2" "keeps E (bld D1) (bld D2)" by (simp_all add: moves_def)
      have "flow_ok (live (gr (bld D2))) (flow D2)" "flow_ok (live (gr (bld D2))) (flow D1)"
        using ok2(1) flow_ok_mono [OF ok2(2), of "flow D1"] movesD(1) [OF 1] by (simp_all add: dfa_ok_def)
      from joinState_moves(1) [OF ok2(1) this] moves_trans [OF restored 2]
      show "pred_option (moves E D) (map_option (\<lambda>(st, D3). D3\<lparr>flow := st\<rparr>) (joinState E (flow D2) (flow D1) D2))"
        by (cases "joinState E (flow D2) (flow D1) D2") (auto intro!: set_flow_moves intro: moves_trans)
    qed
  qed
qed

lemma state_at_ok: "dfa_ok E D \<Longrightarrow> state_at D p = Some st \<Longrightarrow> flow_ok (live (gr (bld D))) st"
  by (cases p) (simp_all add: dfa_ok_def state_at_def)

lemma put_state_moves: "moves E D D' \<Longrightarrow> flow_ok (live (gr (bld D'))) st \<Longrightarrow> moves E D (put_state p st D')"
  by (cases p) (auto simp: moves_def dfa_ok_def put_state_def)

lemma new_state_ok: "None \<in> X \<Longrightarrow> flow_ok X topState" "None \<in> X \<Longrightarrow> flow_ok X unreachableState"
  by (simp_all add: flow_ok_def unreachableState_def topState_def)

lemma base_step_ok: "visitor_ok E (\<lambda>_. base_step E step)"
  unfolding visitor_ok_def
proof (intro allI impI)
  fix D assume ok: "dfa_ok E D"
  have two: "pred_option (moves E D) (and_then (state_at D p) (\<lambda>result. and_then (state_at D q) (\<lambda>other.
      map_option (\<lambda>(st, D'). put_state p st D') (op result other))))"
    if "\<And>result other. flow_ok (live (gr (bld D))) result \<Longrightarrow> flow_ok (live (gr (bld D))) other \<Longrightarrow>
      pred_option (\<lambda>(st, D'). moves E D D' \<and> flow_ok (live (gr (bld D'))) st) (op result other)" for p q op
  proof (intro pred_then)
    fix result other assume "state_at D p = Some result" "state_at D q = Some other"
    then have "pred_option (\<lambda>(st, D'). moves E D D' \<and> flow_ok (live (gr (bld D'))) st) (op result other)"
      by (intro that state_at_ok [OF ok])
    then show "pred_option (moves E D) (map_option (\<lambda>(st, D'). put_state p st D') (op result other))"
      by (cases "op result other") (auto intro: put_state_moves)
  qed
  show "pred_option (moves E D) (base_step E step D)"
    using two [OF joinState_moves(1) [OF ok]] two [OF joinState_moves(2) [OF ok]]
    by (cases step)
      (auto intro!: put_state_moves moves_refl ok new_state_ok pred_map simp: clone_id pred_option_def dest: state_at_ok [OF ok])
qed

lemma traversal_ok: "traversal E v \<Longrightarrow> visitor_ok E v"
proof (induction rule: traversal.induct)
  case (Seq f g)
  then show ?case
    unfolding visitor_ok_def [of E "\<lambda>e D. and_then (f e D) (g e)"] by (blast intro: moves_bind visitorD visit_after)
next
  case (Choice f)
  then show ?case by (simp add: visitor_ok_def)
next
  case (At f h)
  then show ?case by (simp add: visitor_ok_def)
qed (simp_all add: base_step_ok visitor_ok_def [of E "\<lambda>_. Some"] moves_refl handlers_ok handleSelect_ok handleProceduralAssign_ok branch_ok)

end

end
