(* ===== verification/FlowSpec.thy ===== *)
theory FlowSpec
  imports DfaFacts Tracker
begin

text \<open>
  What the analysis state stands for: for every symbol and bit the set of nodes that drive it. Sequences of
  \<open>addDrivers\<close> calls refine the pointwise updates of this function; the postponed L-values and the joins are such
  sequences.
\<close>

section \<open>Sequences of calls\<close>

type_synonym ('s, 'x) call = "'s \<times> bit_range \<times> 'x driver_list \<times> bool"

definition run_calls ::
  "range_lib \<Rightarrow> 'm ops \<Rightarrow> ('s, 'x) call list \<Rightarrow> 's value_tracker \<times> ('m, 'x) driver_map list
   \<Rightarrow> ('s value_tracker \<times> ('m, 'x) driver_map list) option" where
  "run_calls R I = fold_opt (\<lambda>(s, b, ds, mrg). addDrivers R I s b ds mrg)"

text \<open>No call cuts a recorded interval of its symbol on both sides, in the state it is made in.\<close>

fun calls_clean ::
  "range_lib \<Rightarrow> 'm ops \<Rightarrow> ('s, 'x) call list \<Rightarrow> 's value_tracker \<times> ('m, 'x) driver_map list \<Rightarrow> bool" where
  "calls_clean R I [] st \<longleftrightarrow> True"
| "calls_clean R I ((s, b, ds, mrg) # cs) st \<longleftrightarrow>
     cuts_once R I st s b \<and> (case addDrivers R I s b ds mrg st of None \<Rightarrow> True | Some st' \<Rightarrow> calls_clean R I cs st')"

lemma cuts_once_code [code]:
  "cuts_once R I st s b \<longleftrightarrow>
     (case getSlot (fst st) s of None \<Rightarrow> True | Some i \<Rightarrow> i < length (snd st) \<longrightarrow> \<not> sticks_out R I (snd st ! i) b)"
  by (simp add: cuts_once_def split: option.split)

definition apply_call ::
  "range_lib \<Rightarrow> ('s, 'x) call \<Rightarrow> ('s \<Rightarrow> int \<Rightarrow> nat option set) \<Rightarrow> 's \<Rightarrow> int \<Rightarrow> nat option set" where
  "apply_call R = (\<lambda>(s, b, ds, mrg) D. D(s := upd_drivers R mrg ds b (D s)))"

lemma fold_opt_append: "fold_opt f (xs @ ys) s = and_then (fold_opt f xs s) (fold_opt f ys)"
proof (induction xs arbitrary: s)
  case (Cons x xs)
  then show ?case by (cases "f x s") simp_all
qed simp

lemma run_calls_append: "run_calls R I (cs @ ds) st = and_then (run_calls R I cs st) (run_calls R I ds)"
  by (simp add: run_calls_def fold_opt_append)

lemma run_calls_simps [simp]:
  "run_calls R I [] st = Some st"
  "run_calls R I ((s, b, ds, mrg) # cs) st = and_then (addDrivers R I s b ds mrg st) (run_calls R I cs)"
  by (simp_all add: run_calls_def)

context driver_store
begin

lemma calls_refine:
  assumes "tracker_ok I st" "calls_clean R I cs st"
  shows "\<exists>st'. run_calls R I cs st = Some st' \<and> tracker_ok I st' \<and>
     bit_drivers I st' = fold (apply_call R) cs (bit_drivers I st)"
  using assms
proof (induction cs arbitrary: st)
  case (Cons c cs)
  obtain s b ds mrg where c: "c = (s, b, ds, mrg)" by (cases c)
  obtain st1 where st1: "addDrivers R I s b ds mrg st = Some st1" "cuts_once R I st s b \<longrightarrow> tracker_ok I st1"
    "\<And>s' b'. bit_drivers I st1 s' b' = (if s' = s then upd_drivers R mrg ds b (bit_drivers I st s) b' else bit_drivers I st s' b')"
    using addDrivers_ok [OF Cons.prems(1)] by blast
  have "bit_drivers I st1 = apply_call R c (bit_drivers I st)"
    by (intro ext) (simp add: st1(3) apply_call_def c)
  moreover have "tracker_ok I st1" "calls_clean R I cs st1"
    using Cons.prems(2) st1 by (simp_all add: c)
  ultimately show ?case
    using Cons.IH [of st1] st1(1) by (simp add: c)
qed simp

end

section \<open>Postponed L-values\<close>

definition flow_drivers :: "('m, 'c) dfa \<Rightarrow> nat value_tracker \<times> ('m, nat) driver_map list" where
  "flow_drivers D = (valueTracker D, valueDrivers (flow D))"

definition write_calls :: "pending_rvalue list \<Rightarrow> (nat, nat) call list" where
  "write_calls = map (\<lambda>p. (pr_symbol p, pr_bounds p, [\<lparr>di_node = pr_node p, di_lsp = Some (pr_lsp p)\<rparr>], False))"

definition last_write :: "range_lib \<Rightarrow> pending_rvalue list \<Rightarrow> nat \<Rightarrow> int \<Rightarrow> pending_rvalue option" where
  "last_write R ps s b = List.find (\<lambda>p. pr_symbol p = s \<and> b \<in> bits_of R (pr_bounds p)) (rev ps)"

lemma finalize_calls:
  "dfa_finalize E D = map_option (\<lambda>st. D\<lparr>valueTracker := fst st, flow := (flow D)\<lparr>valueDrivers := snd st\<rparr>, pendingLValues := []\<rparr>)
     (run_calls (rlib E) (imap E) (write_calls (pendingLValues D)) (flow_drivers D))"
proof -
  have "fold_opt (\<lambda>p. note_drivers E (pr_symbol p) (pr_bounds p) [\<lparr>di_node = pr_node p, di_lsp = Some (pr_lsp p)\<rparr>]) ps D =
      map_option (\<lambda>st. D\<lparr>valueTracker := fst st, flow := (flow D)\<lparr>valueDrivers := snd st\<rparr>\<rparr>)
        (run_calls (rlib E) (imap E) (write_calls ps) (flow_drivers D))" for ps
  proof (induction ps arbitrary: D)
    case (Cons p ps)
    then show ?case
      by (cases "addDrivers (rlib E) (imap E) (pr_symbol p) (pr_bounds p) [\<lparr>di_node = pr_node p, di_lsp = Some (pr_lsp p)\<rparr>] False (flow_drivers D)")
        (simp_all add: note_drivers_def write_calls_def flow_drivers_def)
  qed (simp add: write_calls_def flow_drivers_def)
  then show ?thesis
    by (simp add: dfa_finalize_def processNonBlockingLvalues_def option.map_comp comp_def)
qed

lemma writes_fold:
  "fold (apply_call R) (write_calls ps) D s b = (case last_write R ps s b of None \<Rightarrow> D s b | Some p \<Rightarrow> {pr_node p})"
proof (induction ps rule: rev_induct)
  case (snoc p ps)
  then show ?case
    by (auto simp: write_calls_def last_write_def apply_call_def upd_drivers_def)
qed (simp add: write_calls_def last_write_def)

section \<open>Joins\<close>

definition slot_calls :: "'m ops \<Rightarrow> nat value_tracker \<Rightarrow> ('m, nat) driver_map list \<Rightarrow> nat \<Rightarrow> (nat, nat) call list" where
  "slot_calls I vt other i =
     map (\<lambda>e. (the (getSymbol vt i), ivl_range (fst e), the (getDriverList (snd e) (other ! i)), True)) (dm_entries I (other ! i))"

definition merge_calls :: "'m ops \<Rightarrow> nat value_tracker \<Rightarrow> ('m, nat) driver_map list \<Rightarrow> (nat, nat) call list" where
  "merge_calls I vt other = concat (map (slot_calls I vt other) [0 ..< length other])"

text \<open>A call on a symbol that has a slot leaves the slots alone.\<close>

definition same_slots :: "'s value_tracker \<Rightarrow> 's value_tracker \<Rightarrow> bool" where
  "same_slots t t' \<longleftrightarrow> slotToValue t' = slotToValue t \<and> valueToSlot t' = valueToSlot t"

lemma addDrivers_known:
  "addDrivers R I s b ds mrg st = Some st' \<Longrightarrow> valueToSlot (fst st) s = Some i \<Longrightarrow> fst st' = resizeSlots i (fst st)"
  by (auto simp: addDrivers_def slotFor_old Let_def)

lemma addDrivers_same_slots:
  assumes "addDrivers R I s b ds mrg st = Some st'" "same_slots vt (fst st)" "valueToSlot vt s = Some i"
  shows "same_slots vt (fst st')"
  using addDrivers_known [OF assms(1)] assms(2,3) by (simp add: same_slots_def resizeSlots_def)

lemma run_calls_same_slots:
  "run_calls R I cs st = Some st' \<Longrightarrow> same_slots vt (fst st) \<Longrightarrow> (\<And>c. c \<in> set cs \<Longrightarrow> valueToSlot vt (fst c) \<noteq> None) \<Longrightarrow>
   same_slots vt (fst st')"
proof (induction cs arbitrary: st)
  case (Cons c cs)
  obtain s b ds mrg where c: "c = (s, b, ds, mrg)" by (cases c)
  then obtain st1 where st1: "addDrivers R I s b ds mrg st = Some st1" "run_calls R I cs st1 = Some st'"
    using Cons.prems(1) by (auto simp: bind_eq_Some_conv)
  obtain i where "valueToSlot vt s = Some i" using Cons.prems(3) [of c] by (auto simp: c)
  then show ?case
    using Cons.IH [OF st1(2) addDrivers_same_slots [OF st1(1) Cons.prems(2)]] Cons.prems(3) by auto
qed simp

lemma merge_symbol_calls:
  assumes symb: "slotToValue vt i = Some s" and st: "same_slots vt (fst st)"
    and lists: "\<And>e. e \<in> set (dm_entries (imap E) (other ! i)) \<Longrightarrow> getDriverList (snd e) (other ! i) \<noteq> None"
  shows "merge_symbol E other i st = run_calls (rlib E) (imap E) (slot_calls (imap E) vt other i) st"
proof -
  have "fold_opt (\<lambda>e st. and_then (getDriverList (snd e) (other ! i)) (\<lambda>ds.
           and_then (getSymbol t i) (\<lambda>symb. addDrivers (rlib E) (imap E) symb (ivl_range (fst e)) ds True st))) es st =
      run_calls (rlib E) (imap E)
        (map (\<lambda>e. (s, ivl_range (fst e), the (getDriverList (snd e) (other ! i)), True)) es) st"
    if "\<And>e. e \<in> set es \<Longrightarrow> getDriverList (snd e) (other ! i) \<noteq> None" "getSymbol t i = Some s" for es st t
    using that
  proof (induction es arbitrary: st)
    case (Cons e es)
    obtain ds where "getDriverList (snd e) (other ! i) = Some ds" using Cons.prems(1) [of e] by auto
    then show ?case
      using Cons by (cases "addDrivers (rlib E) (imap E) s (ivl_range (fst e)) ds True st") simp_all
  qed simp
  from this [of "dm_entries (imap E) (other ! i)" "fst st" st] show ?thesis
    using symb st lists by (simp add: merge_symbol_def slot_calls_def getSymbol_def same_slots_def)
qed

lemma merge_symbols_calls:
  assumes "\<And>i. i \<in> set is \<Longrightarrow> \<exists>s. slotToValue vt i = Some s \<and> valueToSlot vt s = Some i"
    and "\<And>i e. i \<in> set is \<Longrightarrow> e \<in> set (dm_entries (imap E) (other ! i)) \<Longrightarrow> getDriverList (snd e) (other ! i) \<noteq> None"
    and "same_slots vt (fst st)"
  shows "fold_opt (merge_symbol E other) is st = run_calls (rlib E) (imap E) (concat (map (slot_calls (imap E) vt other) is)) st"
  using assms
proof (induction "is" arbitrary: st)
  case (Cons i "is")
  obtain s where s: "slotToValue vt i = Some s" "valueToSlot vt s = Some i" using Cons.prems(1) [of i] by auto
  have one: "merge_symbol E other i st = run_calls (rlib E) (imap E) (slot_calls (imap E) vt other i) st"
    using Cons.prems(2) by (intro merge_symbol_calls [OF s(1) Cons.prems(3)]) simp
  show ?case
  proof (cases "run_calls (rlib E) (imap E) (slot_calls (imap E) vt other i) st")
    case (Some st1)
    have "valueToSlot vt (fst c) \<noteq> None" if "c \<in> set (slot_calls (imap E) vt other i)" for c
      using that s by (auto simp: slot_calls_def getSymbol_def)
    then have "same_slots vt (fst st1)"
      by (rule run_calls_same_slots [OF Some Cons.prems(3)])
    then show ?thesis
      using Cons.IH [of st1] Cons.prems(1,2) by (simp add: one Some run_calls_append)
  qed (simp add: one run_calls_append)
qed simp

text \<open>What merging calls add: the union of the lists of the calls that cover the bit.\<close>

lemma merges_fold:
  assumes "\<And>c. c \<in> set cs \<Longrightarrow> snd (snd (snd c))"
  shows "x \<in> fold (apply_call R) cs D s b \<longleftrightarrow>
     x \<in> D s b \<or> (\<exists>(s', r, ds, mrg) \<in> set cs. s' = s \<and> b \<in> bits_of R r \<and> x \<in> dl_nodes ds)"
  using assms
proof (induction cs rule: rev_induct)
  case (snoc c cs)
  obtain s' r ds where c: "c = (s', r, ds, True)" using snoc.prems [of c] by (cases c) simp
  have "x \<in> fold (apply_call R) cs D s b \<longleftrightarrow>
      x \<in> D s b \<or> (\<exists>(s', r, ds, mrg) \<in> set cs. s' = s \<and> b \<in> bits_of R r \<and> x \<in> dl_nodes ds)"
    by (rule snoc.IH) (simp add: snoc.prems)
  then show ?case
    by (auto simp: c apply_call_def upd_drivers_def)
qed simp

context driver_store
begin

lemma merge_calls_bits:
  assumes ok: "tracker_ok I (vt, other)" and all: "\<And>i. i < length other \<Longrightarrow> slotToValue vt i \<noteq> None"
  shows "(\<exists>(s', r, ds, mrg) \<in> set (merge_calls I vt other). s' = s \<and> b \<in> bits_of R r \<and> x \<in> dl_nodes ds) \<longleftrightarrow>
     x \<in> bit_drivers I (vt, other) s b"
proof -
  have inv: "slotToValue vt i = Some t \<longleftrightarrow> valueToSlot vt t = Some i" for i t using ok by (simp add: tracker_ok_def)
  have wf: "dm_wf I (other ! i)" if "i < length other" for i using ok that by (simp add: tracker_ok_def)
  have bits: "b \<in> bits_of R (ivl_range (fst e)) \<longleftrightarrow> ivl_covers e b" if "i < length other" "e \<in> set (dm_entries I (other ! i))" for i e
    using wf_entryD(1) [OF wf [OF that(1)] that(2)] by (cases e) (auto simp: bits_of_def ivl_covers_def)
  have lists: "\<exists>ds. getDriverList (snd e) (other ! i) = Some ds" if "i < length other" "e \<in> set (dm_entries I (other ! i))" for i e
    using wf_entryD(2) [OF wf [OF that(1)] that(2)] .
  have "(\<exists>(s', r, ds, mrg) \<in> set (merge_calls I vt other). s' = s \<and> b \<in> bits_of R r \<and> x \<in> dl_nodes ds) \<longleftrightarrow>
      (\<exists>i < length other. getSymbol vt i = Some s \<and> x \<in> drivers_at I (other ! i) b)"
  proof
    assume "\<exists>(s', r, ds, mrg) \<in> set (merge_calls I vt other). s' = s \<and> b \<in> bits_of R r \<and> x \<in> dl_nodes ds"
    then obtain i e where e: "i < length other" "e \<in> set (dm_entries I (other ! i))" "the (getSymbol vt i) = s"
      "b \<in> bits_of R (ivl_range (fst e))" "x \<in> dl_nodes (the (getDriverList (snd e) (other ! i)))"
      by (auto simp: merge_calls_def slot_calls_def)
    obtain ds where ds: "getDriverList (snd e) (other ! i) = Some ds" using lists [OF e(1,2)] by blast
    have "getSymbol vt i = Some s" using all [OF e(1)] e(3) by (auto simp: getSymbol_def)
    moreover have "x \<in> drivers_at I (other ! i) b"
      unfolding in_drivers_at using e(2,5) ds bits [OF e(1,2)] e(4) by auto
    ultimately show "\<exists>i < length other. getSymbol vt i = Some s \<and> x \<in> drivers_at I (other ! i) b"
      using e(1) by blast
  next
    assume "\<exists>i < length other. getSymbol vt i = Some s \<and> x \<in> drivers_at I (other ! i) b"
    then obtain i e ds where e: "i < length other" "getSymbol vt i = Some s" "e \<in> set (dm_entries I (other ! i))"
      "ivl_covers e b" "getDriverList (snd e) (other ! i) = Some ds" "x \<in> dl_nodes ds"
      by (auto simp: in_drivers_at)
    have "(s, ivl_range (fst e), ds, True) \<in> set (slot_calls I vt other i)"
      unfolding slot_calls_def set_map by (rule image_eqI [OF _ e(3)]) (simp add: e(2,5))
    then have "(s, ivl_range (fst e), ds, True) \<in> set (merge_calls I vt other)"
      using e(1) by (auto simp: merge_calls_def)
    then show "\<exists>(s', r, ds, mrg) \<in> set (merge_calls I vt other). s' = s \<and> b \<in> bits_of R r \<and> x \<in> dl_nodes ds"
      using bits [OF e(1,3)] e(4,6) by (intro bexI [of _ "(s, ivl_range (fst e), ds, True)"]) simp_all
  qed
  then show ?thesis
    using inv by (auto simp: bit_drivers_def getSlot_def getSymbol_def split: option.split)
qed

end

end
