(* ===== verification/TrackerLocks.thy ===== *)
theory TrackerLocks
  imports FlowSpec
begin

text \<open>
  Concurrent calls of \<open>ValueTracker::addDrivers\<close> on one vector of driver maps, as the tasks of the second phase make them:
  the lock-free search and allocation of a slot, the double-checked resize under the shared mutex, and the lock of the
  slot. A call's position is where its next access to shared state is; a step runs the code up to the access after it.
\<close>

section \<open>The step relation\<close>

text \<open>
  Before the search for the slot; before \<open>fetch_add\<close>; before \<open>try_emplace_or_cvisit\<close> with the candidate; before the entry in
  \<open>slotToValue\<close>; before the shared lock; holding it, before the test of the sizes; waiting for the exclusive lock; holding
  it; before the shared lock again; holding it, waiting for the slot; holding both. A call whose body fails an assertion
  keeps its locks: the process ends there.
\<close>

datatype position =
  Searching
| Allocating
| Emplacing nat
| NotingSlot nat
| WaitShared nat
| TestingSizes nat
| WaitUnique nat
| Resizing nat
| ShareAgain nat
| WaitSlot nat
| HoldingSlot nat
| FailedAssert nat
| Returned

text \<open>\<open>ran\<close> is a history: the calls in the order in which their bodies ran.\<close>

record ('s, 'm, 'x) cstate =
  tracker :: "'s value_tracker"
  driver_maps :: "('m, 'x) driver_map list"
  readers :: "nat set"
  writer :: "nat option"
  slot_owner :: "nat \<rightharpoonup> nat"
  positions :: "position list"
  ran :: "nat list"

definition go :: "nat \<Rightarrow> position \<Rightarrow> ('s, 'm, 'x) cstate \<Rightarrow> ('s, 'm, 'x) cstate" where
  "go T p st = st\<lparr>positions := (positions st)[T := p]\<rparr>"

text \<open>The shared lock; an implementation may refuse it while a writer waits (\<open>wp\<close>, writers preferred).\<close>

definition may_share :: "bool \<Rightarrow> ('s, 'm, 'x) cstate \<Rightarrow> bool" where
  "may_share wp st \<longleftrightarrow>
     writer st = None \<and> \<not> (wp \<and> (\<exists>p \<in> set (positions st). case p of WaitUnique _ \<Rightarrow> True | _ \<Rightarrow> False))"

definition share :: "bool \<Rightarrow> nat \<Rightarrow> position \<Rightarrow> ('s, 'm, 'x) cstate \<Rightarrow> ('s, 'm, 'x) cstate option" where
  "share wp T p st = (if may_share wp st then Some (go T p (st\<lparr>readers := insert T (readers st)\<rparr>)) else None)"

definition call_step ::
  "range_lib \<Rightarrow> 'm ops \<Rightarrow> bool \<Rightarrow> nat \<Rightarrow> ('s, 'x) call \<Rightarrow> position \<Rightarrow> ('s, 'm, 'x) cstate \<Rightarrow> ('s, 'm, 'x) cstate option" where
  "call_step R I wp T c p st =
     (case c of (symb, bnds, dl, mrg) \<Rightarrow>
      (case p of
         Searching \<Rightarrow>
           Some (case valueToSlot (tracker st) symb of Some i \<Rightarrow> go T (WaitShared i) st | None \<Rightarrow> go T Allocating st)
       | Allocating \<Rightarrow>
           Some (go T (Emplacing (nextSlot (tracker st))) (st\<lparr>tracker := (tracker st)\<lparr>nextSlot := nextSlot (tracker st) + 1\<rparr>\<rparr>))
       | Emplacing k \<Rightarrow>
           Some (case valueToSlot (tracker st) symb of
                   Some i \<Rightarrow> go T (WaitShared i) st
                 | None \<Rightarrow> go T (NotingSlot k)
                     (st\<lparr>tracker := (tracker st)\<lparr>valueToSlot := (valueToSlot (tracker st))(symb \<mapsto> k)\<rparr>\<rparr>))
       | NotingSlot k \<Rightarrow>
           Some (go T (WaitShared k) (st\<lparr>tracker := (tracker st)\<lparr>slotToValue := (slotToValue (tracker st))(k \<mapsto> symb)\<rparr>\<rparr>))
       | WaitShared i \<Rightarrow> share wp T (TestingSizes i) st
       | TestingSizes i \<Rightarrow>
           if i \<ge> length (driver_maps st) \<or> i \<ge> slotCount (tracker st)
           then Some (go T (WaitUnique i) (st\<lparr>readers := readers st - {T}\<rparr>))
           else Some (go T (WaitSlot i) st)
       | WaitUnique i \<Rightarrow>
           if writer st = None \<and> readers st = {} then Some (go T (Resizing i) (st\<lparr>writer := Some T\<rparr>)) else None
       | Resizing i \<Rightarrow>
           Some (go T (ShareAgain i) (st\<lparr>driver_maps := resizeDrivers I i (driver_maps st),
                                         tracker := resizeSlots i (tracker st), writer := None\<rparr>))
       | ShareAgain i \<Rightarrow> share wp T (WaitSlot i) st
       | WaitSlot i \<Rightarrow>
           if slot_owner st i = None then Some (go T (HoldingSlot i) (st\<lparr>slot_owner := (slot_owner st)(i \<mapsto> T)\<rparr>)) else None
       | HoldingSlot i \<Rightarrow>
           (case add_interval R I mrg dl (driver_maps st ! i) bnds of
              None \<Rightarrow> Some (go T (FailedAssert i) st)
            | Some dm \<Rightarrow>
                Some (go T Returned (st\<lparr>driver_maps := (driver_maps st)[i := dm], slot_owner := (slot_owner st)(i := None),
                                        readers := readers st - {T}, ran := ran st @ [T]\<rparr>)))
       | FailedAssert i \<Rightarrow> None
       | Returned \<Rightarrow> None))"

definition thread_goes ::
  "range_lib \<Rightarrow> 'm ops \<Rightarrow> bool \<Rightarrow> ('s, 'x) call list \<Rightarrow> nat \<Rightarrow> ('s, 'm, 'x) cstate \<Rightarrow> ('s, 'm, 'x) cstate option" where
  "thread_goes R I wp calls T st =
     (if T < length calls then call_step R I wp T (calls ! T) (positions st ! T) st else None)"

definition calls_start ::
  "('s, 'x) call list \<Rightarrow> 's value_tracker \<times> ('m, 'x) driver_map list \<Rightarrow> ('s, 'm, 'x) cstate" where
  "calls_start calls st0 =
     \<lparr>tracker = fst st0, driver_maps = snd st0, readers = {}, writer = None, slot_owner = Map.empty,
      positions = replicate (length calls) Searching, ran = []\<rparr>"

text \<open>The states that the calls reach, with the number of steps taken.\<close>

inductive interleaved ::
  "range_lib \<Rightarrow> 'm ops \<Rightarrow> bool \<Rightarrow> ('s, 'x) call list \<Rightarrow> ('s, 'm, 'x) cstate \<Rightarrow> nat \<Rightarrow> ('s, 'm, 'x) cstate \<Rightarrow> bool"
  for R :: range_lib and I :: "'m ops" and wp :: bool and calls :: "('s, 'x) call list" and start :: "('s, 'm, 'x) cstate" where
  il_start: "interleaved R I wp calls start 0 start"
| il_step: "interleaved R I wp calls start n st \<Longrightarrow> thread_goes R I wp calls T st = Some st'
     \<Longrightarrow> interleaved R I wp calls start (n + 1) st'"

fun run_threads ::
  "range_lib \<Rightarrow> 'm ops \<Rightarrow> bool \<Rightarrow> ('s, 'x) call list \<Rightarrow> nat list \<Rightarrow> ('s, 'm, 'x) cstate \<Rightarrow> ('s, 'm, 'x) cstate option" where
  "run_threads R I wp calls [] st = Some st"
| "run_threads R I wp calls (T # Ts) st = and_then (thread_goes R I wp calls T st) (run_threads R I wp calls Ts)"

lemma run_threads_interleaved:
  "interleaved R I wp calls start n st \<Longrightarrow> run_threads R I wp calls Ts st = Some st' \<Longrightarrow>
   interleaved R I wp calls start (n + length Ts) st'"
proof (induction Ts arbitrary: n st)
  case (Cons T Ts)
  then obtain st1 where "thread_goes R I wp calls T st = Some st1" "run_threads R I wp calls Ts st1 = Some st'"
    by (auto simp: bind_eq_Some_conv)
  then show ?case
    using Cons.IH [OF il_step [OF Cons.prems(1)]] by fastforce
qed simp

lemma go_fields [simp]:
  "tracker (go T p st) = tracker st" "driver_maps (go T p st) = driver_maps st" "readers (go T p st) = readers st"
  "writer (go T p st) = writer st" "slot_owner (go T p st) = slot_owner st" "ran (go T p st) = ran st"
  "positions (go T p st) = (positions st)[T := p]"
  by (simp_all add: go_def)

lemmas step_defs = thread_goes_def call_step_def share_def Let_def

section \<open>The locks\<close>

definition holds_shared :: "position \<Rightarrow> bool" where
  "holds_shared p = (case p of TestingSizes _ \<Rightarrow> True | WaitSlot _ \<Rightarrow> True | HoldingSlot _ \<Rightarrow> True | FailedAssert _ \<Rightarrow> True | _ \<Rightarrow> False)"

definition holds_unique :: "position \<Rightarrow> bool" where
  "holds_unique p = (case p of Resizing _ \<Rightarrow> True | _ \<Rightarrow> False)"

definition holds_slot :: "position \<Rightarrow> nat option" where
  "holds_slot p = (case p of HoldingSlot i \<Rightarrow> Some i | FailedAssert i \<Rightarrow> Some i | _ \<Rightarrow> None)"

definition locks_ok :: "nat \<Rightarrow> ('s, 'm, 'x) cstate \<Rightarrow> bool" where
  "locks_ok n st \<longleftrightarrow> length (positions st) = n \<and>
     (\<forall>T. T \<in> readers st \<longleftrightarrow> T < n \<and> holds_shared (positions st ! T)) \<and>
     (\<forall>T. writer st = Some T \<longleftrightarrow> T < n \<and> holds_unique (positions st ! T)) \<and>
     (\<forall>T i. slot_owner st i = Some T \<longleftrightarrow> T < n \<and> holds_slot (positions st ! T) = Some i) \<and>
     (writer st \<noteq> None \<longrightarrow> readers st = {})"

lemma locks_start: "locks_ok (length calls) (calls_start calls st0)"
  by (simp add: locks_ok_def calls_start_def holds_shared_def holds_unique_def holds_slot_def)

lemma locks_step:
  assumes ok: "locks_ok n st" and n: "n = length calls" and step: "thread_goes R I wp calls T st = Some st'"
  shows "locks_ok n st'"
proof -
  have T: "T < n" using step n by (simp add: thread_goes_def split: if_splits)
  have len: "length (positions st) = n"
    and r: "U \<in> readers st \<longleftrightarrow> U < n \<and> holds_shared (positions st ! U)"
    and w: "writer st = Some U \<longleftrightarrow> U < n \<and> holds_unique (positions st ! U)"
    and s: "slot_owner st i = Some U \<longleftrightarrow> U < n \<and> holds_slot (positions st ! U) = Some i"
    and x: "writer st \<noteq> None \<longrightarrow> readers st = {}" for U i
    using ok by (simp_all add: locks_ok_def)
  note facts = step_defs holds_shared_def holds_unique_def holds_slot_def may_share_def nth_list_update
  have "length (positions st') = n"
    using step len by (auto simp: step_defs split: position.splits option.splits if_splits prod.splits)
  moreover have "U \<in> readers st' \<longleftrightarrow> U < n \<and> holds_shared (positions st' ! U)" for U
    using step len r [of U] r [of T] T n
    by (cases "calls ! T"; cases "positions st ! T"; cases "U = T") (auto simp: facts split: option.splits if_splits)
  moreover have "writer st' = Some U \<longleftrightarrow> U < n \<and> holds_unique (positions st' ! U)" for U
    using step len w [of U] w [of T] T n
    by (cases "calls ! T"; cases "positions st ! T"; cases "U = T") (auto simp: facts split: option.splits if_splits)
  moreover have "slot_owner st' i = Some U \<longleftrightarrow> U < n \<and> holds_slot (positions st' ! U) = Some i" for U i
    using step len s [of i U] s [of i T] T n
    by (cases "calls ! T"; cases "positions st ! T"; cases "U = T") (auto simp: facts split: option.splits if_splits)
  moreover have "writer st' \<noteq> None \<longrightarrow> readers st' = {}"
    using step len x T n
    by (cases "calls ! T"; cases "positions st ! T") (auto simp: facts split: option.splits if_splits)
  ultimately show ?thesis by (simp add: locks_ok_def)
qed

text \<open>Some call has neither returned nor failed, and no thread can go on.\<close>

definition all_stuck ::
  "range_lib \<Rightarrow> 'm ops \<Rightarrow> bool \<Rightarrow> ('s, 'x) call list \<Rightarrow> ('s, 'm, 'x) cstate \<Rightarrow> bool" where
  "all_stuck R I wp calls st \<longleftrightarrow>
     (\<exists>p \<in> set (positions st). p \<noteq> Returned) \<and> (\<forall>p \<in> set (positions st). case p of FailedAssert _ \<Rightarrow> False | _ \<Rightarrow> True) \<and>
     (\<forall>T < length calls. thread_goes R I wp calls T st = None)"

lemma locks_progress:
  assumes ok: "locks_ok (length calls) st"
  shows "\<not> all_stuck R I wp calls st"
proof
  assume stuck: "all_stuck R I wp calls st"
  have none: "call_step R I wp T (calls ! T) (positions st ! T) st = None" if "T < length calls" for T
    using stuck that by (simp add: all_stuck_def thread_goes_def)
  have len: "length (positions st) = length calls" using ok by (simp add: locks_ok_def)
  have unfailed: "positions st ! T \<noteq> FailedAssert i" if "T < length calls" for T i
  proof
    assume "positions st ! T = FailedAssert i"
    then have "FailedAssert i \<in> set (positions st)" using that len nth_mem [of T "positions st"] by simp
    then show False using stuck unfolding all_stuck_def by fastforce
  qed
  have slots: "slot_owner st i = None" for i
  proof (cases "slot_owner st i")
    case (Some T)
    then have T: "T < length calls" "holds_slot (positions st ! T) = Some i" using ok by (auto simp: locks_ok_def)
    then show ?thesis
      using none [OF T(1)] unfailed [OF T(1)]
      by (cases "calls ! T"; cases "positions st ! T") (auto simp: call_step_def holds_slot_def split: option.splits)
  qed
  have no_reader: "readers st = {}"
  proof (rule ccontr)
    assume "readers st \<noteq> {}"
    then obtain T where "T \<in> readers st" by blast
    then have T: "T < length calls" "holds_shared (positions st ! T)" using ok by (auto simp: locks_ok_def)
    then show False
      using none [OF T(1)] unfailed [OF T(1)] slots
      by (cases "calls ! T"; cases "positions st ! T") (auto simp: call_step_def holds_shared_def split: option.splits if_splits)
  qed
  have no_writer: "writer st = None"
  proof (cases "writer st")
    case (Some T)
    then have T: "T < length calls" "holds_unique (positions st ! T)" using ok by (auto simp: locks_ok_def)
    then show ?thesis
      using none [OF T(1)] by (cases "calls ! T"; cases "positions st ! T") (auto simp: call_step_def holds_unique_def)
  qed
  have unwaiting: "positions st ! T \<noteq> WaitUnique i" if "T < length calls" for T i
    using none [OF that] no_reader no_writer by (cases "calls ! T") (auto simp: call_step_def)
  then have "may_share wp st"
    using no_writer len by (auto simp: may_share_def in_set_conv_nth split: position.splits)
  moreover obtain T where T: "T < length calls" "positions st ! T \<noteq> Returned"
    using stuck len by (auto simp: all_stuck_def in_set_conv_nth)
  ultimately show False
    using none [OF T(1)] T(2) unwaiting [OF T(1)] unfailed [OF T(1)] slots
    by (cases "calls ! T"; cases "positions st ! T") (auto simp: call_step_def share_def split: option.splits if_splits)
qed

section \<open>Every call takes at most eleven steps\<close>

definition steps_left :: "position \<Rightarrow> nat" where
  "steps_left p = (case p of Searching \<Rightarrow> 11 | Allocating \<Rightarrow> 10 | Emplacing _ \<Rightarrow> 9 | NotingSlot _ \<Rightarrow> 8 | WaitShared _ \<Rightarrow> 7
     | TestingSizes _ \<Rightarrow> 6 | WaitUnique _ \<Rightarrow> 5 | Resizing _ \<Rightarrow> 4 | ShareAgain _ \<Rightarrow> 3 | WaitSlot _ \<Rightarrow> 2 | HoldingSlot _ \<Rightarrow> 1
     | FailedAssert _ \<Rightarrow> 0 | Returned \<Rightarrow> 0)"

lemma step_decreases:
  assumes "length (positions st) = length calls" "thread_goes R I wp calls T st = Some st'"
  shows "sum_list (map steps_left (positions st')) < sum_list (map steps_left (positions st))"
proof -
  have T: "T < length (positions st)" using assms by (simp add: thread_goes_def split: if_splits)
  obtain p where p: "positions st' = (positions st)[T := p]" "steps_left p < steps_left (positions st ! T)"
    using assms(2) by (cases "calls ! T"; cases "positions st ! T")
      (auto simp: step_defs steps_left_def split: option.splits if_splits)
  have "sum_list (map steps_left ((positions st)[T := p])) + steps_left (positions st ! T) = sum_list (map steps_left (positions st)) + steps_left p"
    using T elem_le_sum_list [of T "map steps_left (positions st)"] by (simp add: map_update sum_list_update)
  then show ?thesis using p by simp
qed

lemma interleaved_locks:
  "interleaved R I wp calls (calls_start calls st0) n st \<Longrightarrow>
   locks_ok (length calls) st \<and> n + sum_list (map steps_left (positions st)) \<le> 11 * length calls"
proof (induction rule: interleaved.induct)
  case il_start
  then show ?case
    by (simp add: locks_start) (simp add: calls_start_def steps_left_def sum_list_replicate)
next
  case (il_step n st T st')
  then have "length (positions st) = length calls" by (simp add: locks_ok_def)
  then show ?case
    using il_step.IH locks_step [OF _ refl il_step.hyps(2)] step_decreases [OF _ il_step.hyps(2)] by fastforce
qed

section \<open>The slots\<close>

text \<open>The driver map of a symbol: empty until it has a slot with a map.\<close>

definition content :: "'m ops \<Rightarrow> 's value_tracker \<times> ('m, 'x) driver_map list \<Rightarrow> 's \<Rightarrow> ('m, 'x) driver_map" where
  "content I S symb =
     (case getSlot (fst S) symb of None \<Rightarrow> dm_empty I | Some i \<Rightarrow> if i < length (snd S) then snd S ! i else dm_empty I)"

definition clean :: "'m ops \<Rightarrow> 's value_tracker \<times> ('m, 'x) driver_map list \<Rightarrow> bool" where
  "clean I S \<longleftrightarrow> (\<forall>i < length (snd S). (\<forall>s. valueToSlot (fst S) s \<noteq> Some i) \<longrightarrow> snd S ! i = dm_empty I)"

definition has_slot :: "position \<Rightarrow> nat option" where
  "has_slot p = (case p of NotingSlot i \<Rightarrow> Some i | WaitShared i \<Rightarrow> Some i | TestingSizes i \<Rightarrow> Some i | WaitUnique i \<Rightarrow> Some i
     | Resizing i \<Rightarrow> Some i | ShareAgain i \<Rightarrow> Some i | WaitSlot i \<Rightarrow> Some i | HoldingSlot i \<Rightarrow> Some i | FailedAssert i \<Rightarrow> Some i
     | _ \<Rightarrow> None)"

definition has_size :: "position \<Rightarrow> nat option" where
  "has_size p = (case p of ShareAgain i \<Rightarrow> Some i | WaitSlot i \<Rightarrow> Some i | HoldingSlot i \<Rightarrow> Some i | FailedAssert i \<Rightarrow> Some i | _ \<Rightarrow> None)"

definition unique_slots :: "'s value_tracker \<Rightarrow> bool" where
  "unique_slots t \<longleftrightarrow> (\<forall>s s' i. valueToSlot t s = Some i \<and> valueToSlot t s' = Some i \<longrightarrow> s = s') \<and>
     (\<forall>s i. valueToSlot t s = Some i \<longrightarrow> i < nextSlot t)"

definition candidates_ok :: "('s, 'm, 'x) cstate \<Rightarrow> bool" where
  "candidates_ok st \<longleftrightarrow> (\<forall>T < length (positions st). \<forall>k. positions st ! T = Emplacing k \<longrightarrow>
     k < nextSlot (tracker st) \<and> (\<forall>s. valueToSlot (tracker st) s \<noteq> Some k) \<and>
     (\<forall>U < length (positions st). positions st ! U = Emplacing k \<longrightarrow> U = T))"

definition found_ok :: "('s, 'x) call list \<Rightarrow> ('s, 'm, 'x) cstate \<Rightarrow> bool" where
  "found_ok calls st \<longleftrightarrow>
     (\<forall>T < length calls. \<forall>i. has_slot (positions st ! T) = Some i \<longrightarrow> valueToSlot (tracker st) (fst (calls ! T)) = Some i) \<and>
     (\<forall>T < length calls. positions st ! T = Returned \<longrightarrow> valueToSlot (tracker st) (fst (calls ! T)) \<noteq> None)"

definition noted_ok :: "('s, 'm, 'x) cstate \<Rightarrow> bool" where
  "noted_ok st \<longleftrightarrow>
     (\<forall>i s. slotToValue (tracker st) i = Some s \<longrightarrow> valueToSlot (tracker st) s = Some i) \<and>
     (\<forall>i s. valueToSlot (tracker st) s = Some i \<longrightarrow>
        slotToValue (tracker st) i = Some s \<or> (\<exists>T < length (positions st). positions st ! T = NotingSlot i))"

definition sizes_ok :: "('s, 'm, 'x) cstate \<Rightarrow> bool" where
  "sizes_ok st \<longleftrightarrow> (\<forall>T < length (positions st). \<forall>i. has_size (positions st ! T) = Some i \<longrightarrow>
     i < length (driver_maps st) \<and> i < slotCount (tracker st))"

definition slots_inv :: "'m ops \<Rightarrow> ('s, 'x) call list \<Rightarrow> ('s, 'm, 'x) cstate \<Rightarrow> bool" where
  "slots_inv I calls st \<longleftrightarrow> length (positions st) = length calls \<and> unique_slots (tracker st) \<and> candidates_ok st \<and> found_ok calls st \<and>
     noted_ok st \<and> sizes_ok st \<and> clean I (tracker st, driver_maps st)"

lemma slots_invD:
  assumes "slots_inv I calls st"
  shows "length (positions st) = length calls" "unique_slots (tracker st)" "candidates_ok st" "found_ok calls st" "noted_ok st"
    "sizes_ok st" "clean I (tracker st, driver_maps st)"
  using assms by (simp_all add: slots_inv_def)

text \<open>What a step of thread \<open>T\<close> can change besides locks.\<close>

definition moved :: "nat \<Rightarrow> position \<Rightarrow> ('s, 'm, 'x) cstate \<Rightarrow> ('s, 'm, 'x) cstate \<Rightarrow> bool" where
  "moved T p st st' \<longleftrightarrow> positions st' = (positions st)[T := p]"

lemma step_effect:
  assumes "thread_goes R I wp calls T st = Some st'"
  obtains
    (quiet) p where "moved T p st st'" "tracker st' = tracker st" "driver_maps st' = driver_maps st" "ran st' = ran st"
      "\<forall>k. p \<noteq> Emplacing k \<and> p \<noteq> NotingSlot k" "p \<noteq> Returned" "\<forall>k. positions st ! T \<noteq> NotingSlot k"
      "has_slot p = None \<or> has_slot p = has_slot (positions st ! T) \<or> has_slot p = valueToSlot (tracker st) (fst (calls ! T))"
      "\<forall>i. has_size p = Some i \<longrightarrow> has_size (positions st ! T) = Some i \<or> i < length (driver_maps st) \<and> i < slotCount (tracker st)"
  | (allocate) "positions st ! T = Allocating" "moved T (Emplacing (nextSlot (tracker st))) st st'"
      "tracker st' = (tracker st)\<lparr>nextSlot := nextSlot (tracker st) + 1\<rparr>" "driver_maps st' = driver_maps st" "ran st' = ran st"
  | (emplace) k where "positions st ! T = Emplacing k" "moved T (NotingSlot k) st st'" "valueToSlot (tracker st) (fst (calls ! T)) = None"
      "tracker st' = (tracker st)\<lparr>valueToSlot := (valueToSlot (tracker st))(fst (calls ! T) \<mapsto> k)\<rparr>"
      "driver_maps st' = driver_maps st" "ran st' = ran st"
  | (note_slot) k where "positions st ! T = NotingSlot k" "moved T (WaitShared k) st st'"
      "tracker st' = (tracker st)\<lparr>slotToValue := (slotToValue (tracker st))(k \<mapsto> fst (calls ! T))\<rparr>"
      "driver_maps st' = driver_maps st" "ran st' = ran st"
  | (resize) i where "positions st ! T = Resizing i" "moved T (ShareAgain i) st st'" "tracker st' = resizeSlots i (tracker st)"
      "driver_maps st' = resizeDrivers I i (driver_maps st)" "ran st' = ran st"
  | (body) i dm where "positions st ! T = HoldingSlot i" "moved T Returned st st'" "tracker st' = tracker st"
      "driver_maps st' = (driver_maps st)[i := dm]" "ran st' = ran st @ [T]"
      "(case calls ! T of (symb, bnds, dl, mrg) \<Rightarrow> add_interval R I mrg dl (driver_maps st ! i) bnds) = Some dm"
proof -
  obtain symb bnds dl mrg where call: "calls ! T = (symb, bnds, dl, mrg)" by (cases "calls ! T")
  have step: "call_step R I wp T (calls ! T) (positions st ! T) st = Some st'"
    using assms by (simp add: thread_goes_def split: if_splits)
  show thesis
  proof (cases "positions st ! T")
    case Searching
    show thesis
      by (rule quiet [of "case valueToSlot (tracker st) symb of Some i \<Rightarrow> WaitShared i | None \<Rightarrow> Allocating"])
        (use step Searching call in \<open>auto simp: call_step_def moved_def has_slot_def has_size_def split: option.splits\<close>)
  next
    case Allocating
    then show thesis using step call allocate by (auto simp: call_step_def moved_def)
  next
    case (Emplacing k)
    then show thesis
    proof (cases "valueToSlot (tracker st) symb")
      case None
      then show thesis using step call Emplacing emplace by (auto simp: call_step_def moved_def)
    next
      case (Some i)
      show thesis
        by (rule quiet [of "WaitShared i"])
          (use step Emplacing call Some in \<open>auto simp: call_step_def moved_def has_slot_def has_size_def\<close>)
    qed
  next
    case (NotingSlot k)
    then show thesis using step call note_slot by (auto simp: call_step_def moved_def)
  next
    case (WaitShared i)
    show thesis
      by (rule quiet [of "TestingSizes i"])
        (use step WaitShared call in \<open>auto simp: call_step_def share_def moved_def has_slot_def has_size_def split: if_splits\<close>)
  next
    case (TestingSizes i)
    show thesis
      by (rule quiet [of "if i \<ge> length (driver_maps st) \<or> i \<ge> slotCount (tracker st) then WaitUnique i else WaitSlot i"])
        (use step TestingSizes call in \<open>auto simp: call_step_def moved_def has_slot_def has_size_def split: if_splits\<close>)
  next
    case (WaitUnique i)
    show thesis
      by (rule quiet [of "Resizing i"])
        (use step WaitUnique call in \<open>auto simp: call_step_def moved_def has_slot_def has_size_def split: if_splits\<close>)
  next
    case (Resizing i)
    then show thesis using step call resize by (auto simp: call_step_def moved_def)
  next
    case (ShareAgain i)
    show thesis
      by (rule quiet [of "WaitSlot i"])
        (use step ShareAgain call in \<open>auto simp: call_step_def share_def moved_def has_slot_def has_size_def split: if_splits\<close>)
  next
    case (WaitSlot i)
    show thesis
      by (rule quiet [of "HoldingSlot i"])
        (use step WaitSlot call in \<open>auto simp: call_step_def moved_def has_slot_def has_size_def split: if_splits\<close>)
  next
    case (HoldingSlot i)
    show thesis
    proof (cases "add_interval R I mrg dl (driver_maps st ! i) bnds")
      case None
      show thesis
        by (rule quiet [of "FailedAssert i"])
          (use step HoldingSlot call None in \<open>auto simp: call_step_def moved_def has_slot_def has_size_def\<close>)
    next
      case (Some dm)
      then show thesis using step call HoldingSlot body by (auto simp: call_step_def moved_def)
    qed
  qed (use step call in \<open>simp_all add: call_step_def\<close>)
qed

lemma slots_start:
  assumes "slots_ok (fst S)" "clean I S"
  shows "slots_inv I calls (calls_start calls S)"
  using assms by (simp add: slots_inv_def calls_start_def unique_slots_def candidates_ok_def found_ok_def noted_ok_def sizes_ok_def
      slots_ok_def has_slot_def has_size_def) (metis option.inject)

lemma has_simps [simp]:
  "has_slot (Emplacing k) = None" "has_slot (NotingSlot k) = Some k" "has_slot (WaitShared k) = Some k" "has_slot (ShareAgain k) = Some k"
  "has_slot (Resizing k) = Some k" "has_slot (HoldingSlot k) = Some k" "has_slot Returned = None"
  "has_size (Emplacing k) = None" "has_size (NotingSlot k) = None" "has_size (WaitShared k) = None" "has_size (ShareAgain k) = Some k"
  "has_size Returned = None"
  by (simp_all add: has_slot_def has_size_def)

lemma resize_facts:
  "i < length (resizeDrivers I i ds)" "length ds \<le> length (resizeDrivers I i ds)"
  "valueToSlot (resizeSlots i t) = valueToSlot t" "slotToValue (resizeSlots i t) = slotToValue t" "nextSlot (resizeSlots i t) = nextSlot t"
  "i < slotCount (resizeSlots i t)" "slotCount t \<le> slotCount (resizeSlots i t)"
  by (simp_all add: resizeDrivers_length resizeSlots_def)

lemma candidate_fresh:
  assumes "slots_inv I calls st" "T < length calls" "positions st ! T = Emplacing k"
  shows "valueToSlot (tracker st) s \<noteq> Some k" "k < nextSlot (tracker st)"
    "U < length calls \<Longrightarrow> positions st ! U = Emplacing k \<Longrightarrow> U = T"
proof -
  have "T < length (positions st)" and len: "length (positions st) = length calls" using assms(1,2) by (simp_all add: slots_inv_def)
  then have "k < nextSlot (tracker st) \<and> (\<forall>s. valueToSlot (tracker st) s \<noteq> Some k) \<and>
      (\<forall>U < length (positions st). positions st ! U = Emplacing k \<longrightarrow> U = T)"
    using slots_invD(3) [OF assms(1)] assms(3) unfolding candidates_ok_def by blast
  then show "valueToSlot (tracker st) s \<noteq> Some k" "k < nextSlot (tracker st)"
    "U < length calls \<Longrightarrow> positions st ! U = Emplacing k \<Longrightarrow> U = T"
    unfolding len by blast+
qed

lemma slots_inv_facts:
  assumes "slots_inv I calls st"
  shows "U < length calls \<Longrightarrow> has_slot (positions st ! U) = Some i \<Longrightarrow> valueToSlot (tracker st) (fst (calls ! U)) = Some i"
    "U < length calls \<Longrightarrow> positions st ! U = Returned \<Longrightarrow> valueToSlot (tracker st) (fst (calls ! U)) \<noteq> None"
    "valueToSlot (tracker st) s = Some i \<Longrightarrow> slotToValue (tracker st) i = Some s \<or> (\<exists>U < length calls. positions st ! U = NotingSlot i)"
    "slotToValue (tracker st) i = Some s \<Longrightarrow> valueToSlot (tracker st) s = Some i"
    "U < length calls \<Longrightarrow> has_size (positions st ! U) = Some i \<Longrightarrow> i < length (driver_maps st) \<and> i < slotCount (tracker st)"
    "valueToSlot (tracker st) s = Some i \<Longrightarrow> valueToSlot (tracker st) s' = Some i \<Longrightarrow> s = s'"
    "valueToSlot (tracker st) s = Some i \<Longrightarrow> i < nextSlot (tracker st)"
  using slots_invD [OF assms] by (auto simp: found_ok_def noted_ok_def sizes_ok_def unique_slots_def)

lemma moved_at:
  assumes "moved T p st st'" "slots_inv I calls st"
  shows "length (positions st') = length calls" "U < length calls \<Longrightarrow> positions st' ! U = (if U = T then p else positions st ! U)"
  using assms(1) slots_invD(1) [OF assms(2)] by (simp_all add: moved_def nth_list_update)

lemma still_noting:
  assumes "moved T p st st'" "slots_inv I calls st" "\<forall>k. positions st ! T \<noteq> NotingSlot k" "\<exists>U < length calls. positions st ! U = NotingSlot i"
  shows "\<exists>U < length calls. positions st' ! U = NotingSlot i"
  using moved_at(2) [OF assms(1,2)] assms(3,4) by metis

lemma still_noted:
  assumes mv: "moved T p st st'" and inv: "slots_inv I calls st" and notT: "\<forall>k. positions st ! T \<noteq> NotingSlot k"
    and same: "valueToSlot (tracker st') = valueToSlot (tracker st)" "slotToValue (tracker st') = slotToValue (tracker st)"
  shows "noted_ok st'"
proof -
  have "slotToValue (tracker st) i = Some s \<or> (\<exists>U < length calls. positions st' ! U = NotingSlot i)" if "valueToSlot (tracker st) s = Some i" for s i
    using slots_inv_facts(3) [OF inv that] still_noting [OF mv inv notT] by blast
  then show ?thesis
    unfolding noted_ok_def moved_at(1) [OF mv inv] same using slots_inv_facts(4) [OF inv] by blast
qed

lemma still_candidate:
  assumes "moved T p st st'" "slots_inv I calls st" "\<forall>k. p \<noteq> Emplacing k" "U < length calls" "positions st' ! U = Emplacing k"
  shows "U \<noteq> T \<and> positions st ! U = Emplacing k"
  using moved_at(2) [OF assms(1,2,4)] assms(5) assms(3) [rule_format, of k] by (cases "U = T") simp_all

lemma candidates_okI:
  assumes "length (positions st') = length calls"
    and "\<And>U k s. U < length calls \<Longrightarrow> positions st' ! U = Emplacing k \<Longrightarrow> k < nextSlot (tracker st') \<and> valueToSlot (tracker st') s \<noteq> Some k"
    and "\<And>U V k. U < length calls \<Longrightarrow> V < length calls \<Longrightarrow> positions st' ! U = Emplacing k \<Longrightarrow> positions st' ! V = Emplacing k \<Longrightarrow> V = U"
  shows "candidates_ok st'"
  using assms unfolding candidates_ok_def by metis

lemma still_fresh:
  assumes mv: "moved T p st st'" and inv: "slots_inv I calls st" and p: "\<forall>k. p \<noteq> Emplacing k"
    and same: "valueToSlot (tracker st') = valueToSlot (tracker st)" "nextSlot (tracker st') = nextSlot (tracker st)"
  shows "candidates_ok st'"
proof (rule candidates_okI [OF moved_at(1) [OF mv inv]])
  note was = still_candidate [OF mv inv p, THEN conjunct2]
  show "k < nextSlot (tracker st') \<and> valueToSlot (tracker st') s \<noteq> Some k" if "U < length calls" "positions st' ! U = Emplacing k" for U k s
    using candidate_fresh [OF inv that(1) was [OF that]] by (simp add: same)
  show "V = U" if "U < length calls" "V < length calls" "positions st' ! U = Emplacing k" "positions st' ! V = Emplacing k" for U V k
    by (rule candidate_fresh(3) [OF inv that(1) was [OF that(1,3)] that(2) was [OF that(2,4)]])
qed

lemma slots_quiet:
  assumes inv: "slots_inv I calls st" and T: "T < length calls" and quiet: "moved T p st st'" "tracker st' = tracker st" "driver_maps st' = driver_maps st"
      "\<forall>k. p \<noteq> Emplacing k \<and> p \<noteq> NotingSlot k" "p \<noteq> Returned" "\<forall>k. positions st ! T \<noteq> NotingSlot k"
      "has_slot p = None \<or> has_slot p = has_slot (positions st ! T) \<or> has_slot p = valueToSlot (tracker st) (fst (calls ! T))"
      "\<forall>i. has_size p = Some i \<longrightarrow> has_size (positions st ! T) = Some i \<or> i < length (driver_maps st) \<and> i < slotCount (tracker st)"
  shows "slots_inv I calls st'"
proof -
  note at = moved_at(2) [OF quiet(1) inv]
  have "candidates_ok st'"
    by (rule still_fresh [OF quiet(1) inv]) (simp_all add: quiet(2,4))
  moreover have "found_ok calls st'"
    unfolding found_ok_def quiet(2) using at quiet(5,7) slots_inv_facts(1) [OF inv] slots_inv_facts(2) [OF inv] T by (metis option.distinct(1))
  moreover have "noted_ok st'"
    by (rule still_noted [OF quiet(1) inv quiet(6)]) (simp_all add: quiet(2))
  moreover have "sizes_ok st'"
    unfolding sizes_ok_def moved_at(1) [OF quiet(1) inv] quiet(2,3) using at quiet(8) slots_inv_facts(5) [OF inv] T by metis
  ultimately show ?thesis
    using slots_invD(2,7) [OF inv] moved_at(1) [OF quiet(1) inv] by (simp add: slots_inv_def quiet(2,3))
qed

lemma slots_allocate:
  assumes inv: "slots_inv I calls st" and T: "T < length calls" and allocate: "positions st ! T = Allocating"
      "moved T (Emplacing (nextSlot (tracker st))) st st'"
      "tracker st' = (tracker st)\<lparr>nextSlot := nextSlot (tracker st) + 1\<rparr>" "driver_maps st' = driver_maps st"
  shows "slots_inv I calls st'"
proof -
  note at = moved_at(2) [OF allocate(2) inv]
  have "candidates_ok st'"
  proof (rule candidates_okI [OF moved_at(1) [OF allocate(2) inv]])
    have was: "W = T \<and> k = nextSlot (tracker st) \<or> W \<noteq> T \<and> positions st ! W = Emplacing k \<and> k < nextSlot (tracker st)"
      if "W < length calls" "positions st' ! W = Emplacing k" for W k
      using at [OF that(1)] that(2) candidate_fresh(2) [OF inv that(1), of k] by (auto split: if_splits)
    show "k < nextSlot (tracker st') \<and> valueToSlot (tracker st') s \<noteq> Some k" if U: "U < length calls" "positions st' ! U = Emplacing k" for U k s
      using was [OF U] candidate_fresh(1) [OF inv U(1), of k s] slots_inv_facts(7) [OF inv, of s k] by (auto simp: allocate(3))
    show "V = U" if U: "U < length calls" "V < length calls" "positions st' ! U = Emplacing k" "positions st' ! V = Emplacing k" for U V k
      using was [OF U(1,3)] was [OF U(2,4)] candidate_fresh(3) [OF inv U(1), of k V] U(2) by auto
  qed
  moreover have "found_ok calls st'"
    using at slots_inv_facts(1) [OF inv] slots_inv_facts(2) [OF inv] by (auto simp: found_ok_def allocate(3))
  moreover have "noted_ok st'"
    by (rule still_noted [OF allocate(2) inv]) (simp_all add: allocate(1) allocate(3))
  moreover have "sizes_ok st'"
    unfolding sizes_ok_def moved_at(1) [OF allocate(2) inv] using at slots_inv_facts(5) [OF inv] by (auto simp: allocate(3,4))
  moreover have "unique_slots (tracker st')"
    using slots_inv_facts(6,7) [OF inv] by (auto simp: unique_slots_def allocate(3) intro: less_SucI)
  ultimately show ?thesis
    using slots_invD(7) [OF inv] moved_at(1) [OF allocate(2) inv] by (simp add: slots_inv_def clean_def allocate(3,4))
qed

lemma noted_emplace:
  assumes inv: "slots_inv I calls st" and T: "T < length calls" and emplace: "positions st ! T = Emplacing k" "moved T (NotingSlot k) st st'"
      "valueToSlot (tracker st) (fst (calls ! T)) = None"
      "tracker st' = (tracker st)\<lparr>valueToSlot := (valueToSlot (tracker st))(fst (calls ! T) \<mapsto> k)\<rparr>"
  shows "noted_ok st'"
proof -
  have here: "positions st' ! T = NotingSlot k" using moved_at(2) [OF emplace(2) inv T] by simp
  have "\<exists>U < length calls. positions st' ! U = NotingSlot i" if "\<exists>U < length calls. positions st ! U = NotingSlot i" for i
    using that by (intro still_noting [OF emplace(2) inv]) (simp_all add: emplace(1))
  then have before: "slotToValue (tracker st) i = Some s \<or> (\<exists>U < length calls. positions st' ! U = NotingSlot i)"
    if "valueToSlot (tracker st) s = Some i" for s i
    using slots_inv_facts(3) [OF inv that] by blast
  have "valueToSlot (tracker st') s = Some i" if "slotToValue (tracker st') i = Some s" for s i
    using that slots_inv_facts(4) [OF inv, of i s] emplace(3) by (auto simp: emplace(4))
  moreover have "slotToValue (tracker st') i = Some s \<or> (\<exists>U < length calls. positions st' ! U = NotingSlot i)"
    if "valueToSlot (tracker st') s = Some i" for s i
  proof (cases "s = fst (calls ! T)")
    case True
    then have "i = k" using that by (simp add: emplace(4))
    then show ?thesis using here T by blast
  next
    case False
    then show ?thesis using that before [of s i] by (simp add: emplace(4))
  qed
  ultimately show ?thesis
    unfolding noted_ok_def moved_at(1) [OF emplace(2) inv] by blast
qed

lemma slots_emplace:
  assumes inv: "slots_inv I calls st" and T: "T < length calls" and emplace: "positions st ! T = Emplacing k" "moved T (NotingSlot k) st st'"
      "valueToSlot (tracker st) (fst (calls ! T)) = None"
      "tracker st' = (tracker st)\<lparr>valueToSlot := (valueToSlot (tracker st))(fst (calls ! T) \<mapsto> k)\<rparr>" "driver_maps st' = driver_maps st"
  shows "slots_inv I calls st'"
proof -
  note at = moved_at(2) [OF emplace(2) inv] and new = candidate_fresh [OF inv T emplace(1)]
  have "candidates_ok st'"
  proof (rule candidates_okI [OF moved_at(1) [OF emplace(2) inv]])
    have was: "W \<noteq> T \<and> positions st ! W = Emplacing j" if "W < length calls" "positions st' ! W = Emplacing j" for W j
      using still_candidate [OF emplace(2) inv _ that] by simp
    show "j < nextSlot (tracker st') \<and> valueToSlot (tracker st') s \<noteq> Some j" if U: "U < length calls" "positions st' ! U = Emplacing j" for U j s
    proof -
      have "j \<noteq> k" using was [OF U] new(3) [OF U(1)] by auto
      then show ?thesis using candidate_fresh(1,2) [OF inv U(1) was [OF U, THEN conjunct2]] by (simp add: emplace(4))
    qed
    show "V = U" if U: "U < length calls" "V < length calls" "positions st' ! U = Emplacing j" "positions st' ! V = Emplacing j" for U V j
      by (rule candidate_fresh(3) [OF inv U(1) was [OF U(1,3), THEN conjunct2] U(2) was [OF U(2,4), THEN conjunct2]])
  qed
  moreover have "found_ok calls st'"
    using at slots_inv_facts(1) [OF inv] slots_inv_facts(2) [OF inv] T emplace(3) by (fastforce simp: found_ok_def emplace(4))
  moreover have "noted_ok st'"
    by (rule noted_emplace [OF inv T emplace(1-4)])
  moreover have "sizes_ok st'"
    unfolding sizes_ok_def moved_at(1) [OF emplace(2) inv] using at slots_inv_facts(5) [OF inv] by (auto simp: emplace(4,5))
  moreover have "unique_slots (tracker st')"
    using slots_inv_facts(6,7) [OF inv] new emplace(3) by (auto simp: unique_slots_def emplace(4))
  moreover have "clean I (tracker st', driver_maps st')"
    using slots_invD(7) [OF inv] emplace(3) by (auto simp: clean_def emplace(4,5) split: if_splits) (metis option.distinct(1))
  ultimately show ?thesis
    using moved_at(1) [OF emplace(2) inv] by (simp add: slots_inv_def)
qed

lemma slots_note:
  assumes inv: "slots_inv I calls st" and T: "T < length calls" and note_slot: "positions st ! T = NotingSlot k" "moved T (WaitShared k) st st'"
      "tracker st' = (tracker st)\<lparr>slotToValue := (slotToValue (tracker st))(k \<mapsto> fst (calls ! T))\<rparr>" "driver_maps st' = driver_maps st"
  shows "slots_inv I calls st'"
proof -
  note at = moved_at(2) [OF note_slot(2) inv]
  have k: "valueToSlot (tracker st) (fst (calls ! T)) = Some k" using slots_inv_facts(1) [OF inv T] note_slot(1) by simp
  have "candidates_ok st'"
    by (rule still_fresh [OF note_slot(2) inv]) (simp_all add: note_slot(3))
  moreover have "found_ok calls st'"
    using at slots_inv_facts(1) [OF inv] slots_inv_facts(2) [OF inv] k by (auto simp: found_ok_def note_slot(3))
  moreover have "noted_ok st'"
  proof -
    have "\<exists>U < length calls. positions st' ! U = NotingSlot i" if "i \<noteq> k" "U < length calls" "positions st ! U = NotingSlot i" for i U
      using at [OF that(2)] that note_slot(1) by (intro exI [of _ U]) auto
    then have "valueToSlot (tracker st) s = Some i \<Longrightarrow> i \<noteq> k \<Longrightarrow>
        slotToValue (tracker st) i = Some s \<or> (\<exists>U < length calls. positions st' ! U = NotingSlot i)" for s i
      using slots_inv_facts(3) [OF inv, of s i] by blast
    then show ?thesis
      unfolding noted_ok_def moved_at(1) [OF note_slot(2) inv] note_slot(3) using slots_inv_facts(4) [OF inv] k slots_inv_facts(6) [OF inv] by (auto split: if_splits)
  qed
  moreover have "sizes_ok st'"
    unfolding sizes_ok_def moved_at(1) [OF note_slot(2) inv] using at slots_inv_facts(5) [OF inv] by (auto simp: note_slot(3,4))
  moreover have "unique_slots (tracker st')" "clean I (tracker st', driver_maps st')"
    using slots_inv_facts(6,7) [OF inv] slots_invD(7) [OF inv] by (auto simp: unique_slots_def clean_def note_slot(3,4))
  ultimately show ?thesis
    using moved_at(1) [OF note_slot(2) inv] by (simp add: slots_inv_def)
qed

lemma slots_resize:
  assumes inv: "slots_inv I calls st" and T: "T < length calls" and resize: "positions st ! T = Resizing i" "moved T (ShareAgain i) st st'"
      "tracker st' = resizeSlots i (tracker st)" "driver_maps st' = resizeDrivers I i (driver_maps st)"
  shows "slots_inv I calls st'"
proof -
  note at = moved_at(2) [OF resize(2) inv]
  have "candidates_ok st'"
    by (rule still_fresh [OF resize(2) inv]) (simp_all add: resize(3) resize_facts)
  moreover have "found_ok calls st'"
    using at slots_inv_facts(1) [OF inv] slots_inv_facts(2) [OF inv] T resize(1) by (auto simp: found_ok_def resize(3) resize_facts)
  moreover have "noted_ok st'"
    by (rule still_noted [OF resize(2) inv]) (simp_all add: resize(1) resize(3) resize_facts)
  moreover have "sizes_ok st'"
  proof -
    have grown: "length (driver_maps st) \<le> length (driver_maps st')" "slotCount (tracker st) \<le> slotCount (tracker st')"
      "i < length (driver_maps st')" "i < slotCount (tracker st')"
      by (simp_all add: resize(3,4) resize_facts)
    have "j < length (driver_maps st') \<and> j < slotCount (tracker st')" if "U < length calls" "has_size (positions st' ! U) = Some j" for U j
      using at [OF that(1)] that(2) slots_inv_facts(5) [OF inv that(1), of j] grown by (cases "U = T") auto
    then show ?thesis unfolding sizes_ok_def moved_at(1) [OF resize(2) inv] by blast
  qed
  moreover have "unique_slots (tracker st')" "clean I (tracker st', driver_maps st')"
    using slots_inv_facts(6,7) [OF inv] slots_invD(7) [OF inv] by (auto simp: unique_slots_def clean_def resize(3,4) resize_facts resizeDrivers_nth)
  ultimately show ?thesis
    using moved_at(1) [OF resize(2) inv] by (simp add: slots_inv_def)
qed

lemma slots_body:
  assumes inv: "slots_inv I calls st" and T: "T < length calls" and body: "positions st ! T = HoldingSlot i" "moved T Returned st st'"
      "tracker st' = tracker st" "driver_maps st' = (driver_maps st)[i := dm]"
  shows "slots_inv I calls st'"
proof -
  note at = moved_at(2) [OF body(2) inv]
  have i: "valueToSlot (tracker st) (fst (calls ! T)) = Some i" using slots_inv_facts(1) [OF inv T] body(1) by simp
  have "candidates_ok st'"
    by (rule still_fresh [OF body(2) inv]) (simp_all add: body(3))
  moreover have "found_ok calls st'"
    using at slots_inv_facts(1) [OF inv] slots_inv_facts(2) [OF inv] i by (auto simp: found_ok_def body(3))
  moreover have "noted_ok st'"
    by (rule still_noted [OF body(2) inv]) (simp_all add: body(1) body(3))
  moreover have "sizes_ok st'"
    unfolding sizes_ok_def moved_at(1) [OF body(2) inv] using at slots_inv_facts(5) [OF inv] by (auto simp: body(3,4))
  moreover have "clean I (tracker st', driver_maps st')"
    using slots_invD(7) [OF inv] i by (auto simp: clean_def body(3,4)) (metis nth_list_update_neq)
  ultimately show ?thesis
    using slots_invD(2) [OF inv] moved_at(1) [OF body(2) inv] by (simp add: slots_inv_def body(3))
qed

lemma slots_step:
  assumes inv: "slots_inv I calls st" and step: "thread_goes R I wp calls T st = Some st'"
  shows "slots_inv I calls st'"
proof -
  have T: "T < length calls" using step by (simp add: thread_goes_def split: if_splits)
  note steps = slots_quiet [OF inv T] slots_allocate [OF inv T] slots_emplace [OF inv T] slots_note [OF inv T] slots_resize [OF inv T] slots_body [OF inv T]
  from step show ?thesis
    by (cases rule: step_effect) (rule steps; assumption)+
qed

section \<open>One order of the calls\<close>

lemma seq_add:
  assumes ok: "slots_ok (fst S)" and c: "clean I S" and add: "add_interval R I mrg dl (content I S symb) bnds = Some dm"
  shows "\<exists>S'. addDrivers R I symb bnds dl mrg S = Some S' \<and> slots_ok (fst S') \<and> clean I S' \<and> content I S' = (content I S)(symb := dm)"
proof -
  define i where "i = fst (slotFor symb (fst S))"
  define t where "t = resizeSlots i (snd (slotFor symb (fst S)))"
  define ds where "ds = resizeDrivers I i (snd S)"
  note sf = slotFor_facts [OF ok, where symb = symb, folded i_def]
  have t: "slots_ok t" "getSlot t s = (if s = symb then Some i else getSlot (fst S) s)" for s
    using sf(1,2) by (simp_all add: t_def)
  have len: "i < length ds" by (simp add: ds_def resizeDrivers_length)
  have empty: "snd S ! j = dm_empty I" if "j < length (snd S)" "\<And>s. getSlot (fst S) s \<noteq> Some j" for j
    using c that by (simp add: clean_def getSlot_def)
  have ds: "ds ! j = (if j < length (snd S) then snd S ! j else dm_empty I)" if "j < length ds" for j
    using that by (simp add: ds_def resizeDrivers_nth)
  have "ds ! i = content I S symb"
  proof (cases "getSlot (fst S) symb")
    case None
    then have "getSlot (fst S) s \<noteq> Some i" for s
      using sf(4) slots_ok_fresh [OF ok] by (simp add: getSlot_def)
    then show ?thesis using empty ds [OF len] None by (simp add: content_def)
  next
    case (Some k)
    then have "k = i" by (simp add: i_def slotFor_def getSlot_def)
    then show ?thesis using ds [OF len] Some by (simp add: content_def)
  qed
  then have run: "addDrivers R I symb bnds dl mrg S = Some (t, ds[i := dm])"
    using add by (simp add: addDrivers_def split_beta Let_def i_def t_def ds_def)
  have "clean I (t, ds[i := dm])"
  proof (unfold clean_def, intro allI impI)
    fix j assume j: "j < length (snd (t, ds[i := dm]))" "\<forall>s. valueToSlot (fst (t, ds[i := dm])) s \<noteq> Some j"
    then have un: "getSlot t s \<noteq> Some j" for s by (simp add: getSlot_def)
    then have "j \<noteq> i" "getSlot (fst S) s \<noteq> Some j" for s
      using t(2) [of symb] t(2) [of s] un [of symb] un [of s] sf(3) [of s j] i_def by (auto simp: slotFor_def getSlot_def split: if_splits)
    then show "snd (t, ds[i := dm]) ! j = dm_empty I"
      using j(1) ds [of j] empty [of j] by auto
  qed
  moreover have "content I (t, ds[i := dm]) s = ((content I S)(symb := dm)) s" for s
  proof (cases "s = symb")
    case True
    then show ?thesis using len by (simp add: content_def t)
  next
    case False
    have "length (snd S) \<le> length ds" by (simp add: ds_def resizeDrivers_length)
    then show ?thesis
      using False sf(3) [of s] ds by (auto simp: content_def t split: option.split)
  qed
  ultimately show ?thesis
    using run t(1) by (intro exI [of _ "(t, ds[i := dm])"]) auto
qed

abbreviation content_of :: "'m ops \<Rightarrow> ('s, 'm, 'x) cstate \<Rightarrow> 's \<Rightarrow> ('m, 'x) driver_map" where
  "content_of I st \<equiv> content I (tracker st, driver_maps st)"

lemma content_step:
  assumes inv: "slots_inv I calls st" and step: "thread_goes R I wp calls T st = Some st'" and call: "calls ! T = (symb, bnds, dl, mrg)"
  shows "(ran st' = ran st \<and> content_of I st' = content_of I st \<and> (positions st' ! U = Returned \<longleftrightarrow> positions st ! U = Returned)) \<or>
     (ran st' = ran st @ [T] \<and> positions st ! T \<noteq> Returned \<and> (positions st' ! U = Returned \<longleftrightarrow> U = T \<or> positions st ! U = Returned) \<and>
        (\<exists>dm. add_interval R I mrg dl (content_of I st symb) bnds = Some dm \<and> content_of I st' = (content_of I st)(symb := dm)))"
proof -
  have T: "T < length (positions st)" using step slots_invD(1) [OF inv] by (simp add: thread_goes_def split: if_splits)
  have live: "positions st ! T \<noteq> Returned"
    using step by (auto simp: thread_goes_def call_step_def split: if_splits prod.splits)
  have same: "positions st' ! U = Returned \<longleftrightarrow> positions st ! U = Returned" if "moved T p st st'" "p \<noteq> Returned" for p
    using that live T by (cases "U = T") (auto simp: moved_def)
  from step show ?thesis
  proof (cases rule: step_effect)
    case (quiet p)
    then show ?thesis using same [OF quiet(1,6)] by simp
  next
    case allocate
    then show ?thesis using same [OF allocate(2)] by (simp add: content_def getSlot_def fun_eq_iff split: option.split)
  next
    case (emplace k)
    have "driver_maps st ! k = dm_empty I" if "k < length (driver_maps st)"
      using candidate_fresh(1) [OF inv _ emplace(1)] T slots_invD(1,7) [OF inv] that by (simp add: clean_def)
    then have "content_of I st' s = content_of I st s" for s
      using emplace(3) by (auto simp: content_def getSlot_def emplace(4,5) split: option.split)
    then show ?thesis using same [OF emplace(2)] emplace(6) by auto
  next
    case (note_slot k)
    then show ?thesis using same [OF note_slot(2)] by (simp add: content_def getSlot_def fun_eq_iff split: option.split)
  next
    case (resize i)
    have "content_of I st' s = content_of I st s" for s
      using resize_facts(2) [of "driver_maps st" I i]
      by (auto simp: content_def getSlot_def resize(3,4) resize_facts(3) resizeDrivers_nth split: option.split)
    then show ?thesis using same [OF resize(2)] resize(5) by auto
  next
    case (body i dm)
    have T': "T < length calls" using T slots_invD(1) [OF inv] by simp
    have i: "valueToSlot (tracker st) symb = Some i" "i < length (driver_maps st)"
      using slots_invD(4) [OF inv] slots_invD(6) [OF inv] T T' body(1) call
      by (auto simp: found_ok_def sizes_ok_def has_size_def dest: spec [of _ T])
    have other: "valueToSlot (tracker st) s \<noteq> Some i" if "s \<noteq> symb" for s
      using slots_invD(2) [OF inv] i(1) that by (auto simp: unique_slots_def)
    have "content_of I st symb = driver_maps st ! i" using i by (simp add: content_def getSlot_def)
    moreover have "content_of I st' s = ((content_of I st)(symb := dm)) s" for s
      using i other [of s] by (auto simp: content_def getSlot_def body(3,4) split: option.split)
    moreover have "positions st' ! U = Returned \<longleftrightarrow> U = T \<or> positions st ! U = Returned"
      using body(2) T by (cases "U = T") (auto simp: moved_def)
    ultimately show ?thesis using body(5,6) live call by auto
  qed
qed

lemma interleaved_history:
  assumes "interleaved R I wp calls (calls_start calls S0) n st" "slots_ok (fst S0)" "clean I S0"
  shows "slots_inv I calls st \<and> distinct (ran st) \<and> set (ran st) = {T. T < length calls \<and> positions st ! T = Returned} \<and>
     (\<exists>S. run_calls R I (map ((!) calls) (ran st)) S0 = Some S \<and> slots_ok (fst S) \<and> clean I S \<and> content I S = content_of I st)"
  using assms(1)
proof (induction rule: interleaved.induct)
  case il_start
  then show ?case
    using slots_start [OF assms(2,3)] assms(2,3) by (simp add: calls_start_def)
next
  case (il_step n st T st')
  then obtain S where inv: "slots_inv I calls st" and ran: "distinct (ran st)" "set (ran st) = {T. T < length calls \<and> positions st ! T = Returned}"
    and S: "run_calls R I (map ((!) calls) (ran st)) S0 = Some S" "slots_ok (fst S)" "clean I S" "content I S = content_of I st"
    by blast
  obtain symb bnds dl mrg where call: "calls ! T = (symb, bnds, dl, mrg)" by (cases "calls ! T")
  have T: "T < length calls" using il_step.hyps(2) by (simp add: thread_goes_def split: if_splits)
  have inv': "slots_inv I calls st'" by (rule slots_step [OF inv il_step.hyps(2)])
  note cs = content_step [OF inv il_step.hyps(2) call]
  show ?case
  proof (cases "ran st' = ran st")
    case True
    then have "content_of I st' = content_of I st" "positions st' ! U = Returned \<longleftrightarrow> positions st ! U = Returned" for U
      using cs [of U] by auto
    then show ?thesis using inv' ran S True by auto
  next
    case False
    have eff: "ran st' = ran st @ [T]" "positions st ! T \<noteq> Returned" "positions st' ! U = Returned \<longleftrightarrow> U = T \<or> positions st ! U = Returned"
      "\<exists>dm. add_interval R I mrg dl (content_of I st symb) bnds = Some dm \<and> content_of I st' = (content_of I st)(symb := dm)" for U
      using cs [of U] False by (elim disjE conjE; simp)+
    from eff(4) obtain dm where dm: "add_interval R I mrg dl (content I S symb) bnds = Some dm" "content_of I st' = (content_of I st)(symb := dm)"
      by (auto simp: S(4))
    obtain S' where S': "addDrivers R I symb bnds dl mrg S = Some S'" "slots_ok (fst S')" "clean I S'" "content I S' = (content I S)(symb := dm)"
      using seq_add [OF S(2,3) dm(1)] by blast
    have "run_calls R I (map ((!) calls) (ran st')) S0 = Some S'"
      by (simp add: eff(1) run_calls_append S(1) call S'(1))
    moreover have "T \<notin> set (ran st)" by (simp add: ran(2) eff(2))
    then have "distinct (ran st')" by (simp add: eff(1) ran(1))
    moreover have "U \<in> set (ran st') \<longleftrightarrow> U < length calls \<and> positions st' ! U = Returned" for U
      unfolding eff(1) eff(3) [of U] using T by (auto simp: ran(2))
    then have "set (ran st') = {T. T < length calls \<and> positions st' ! T = Returned}" by blast
    ultimately show ?thesis
      using inv' S'(2-4) dm(2) by (intro conjI exI [of _ S']) (simp_all add: S(4))
  qed
qed

section \<open>Properties\<close>

text \<open>
  C30. Concurrent calls of \<open>addDrivers\<close> on one vector of driver maps are serialisable: when all have returned, however they
  were interleaved, there is an order of the calls in which, made one after the other, they leave every symbol with the same
  driver map, interval by interval and list by list. The numbers of the slots may differ, and a candidate slot may be
  wasted, but the two slot tables agree and every symbol of a call has its own slot.
\<close>

theorem concurrent_addDrivers_serialise:
  assumes "slots_ok (fst S0)" "clean I S0"
    and "interleaved R I wp calls (calls_start calls S0) n st" "\<forall>p \<in> set (positions st). p = Returned"
  shows "\<exists>order S. mset order = mset [0 ..< length calls] \<and> run_calls R I (map ((!) calls) order) S0 = Some S \<and>
     content I S = content I (tracker st, driver_maps st) \<and> slots_ok (tracker st) \<and>
     (\<forall>c \<in> set calls. getSlot (tracker st) (fst c) \<noteq> None)"
proof -
  from interleaved_history [OF assms(3,1,2)] obtain S where inv: "slots_inv I calls st" and ran: "distinct (ran st)"
    "set (ran st) = {T. T < length calls \<and> positions st ! T = Returned}"
    and S: "run_calls R I (map ((!) calls) (ran st)) S0 = Some S" "content I S = content_of I st" by blast
  have returned: "positions st ! T = Returned" if "T < length calls" for T
    using assms(4) slots_invD(1) [OF inv] that by simp
  then have "set (ran st) = set [0 ..< length calls]" using ran(2) by auto
  then have "mset (ran st) = mset [0 ..< length calls]" using ran(1) by (metis distinct_upt set_eq_iff_mset_eq_distinct)
  moreover have "positions st ! T \<noteq> NotingSlot k" if "T < length calls" for T k
    by (simp add: returned [OF that])
  then have "slotToValue (tracker st) i = Some s \<longleftrightarrow> valueToSlot (tracker st) s = Some i" for s i
    using slots_invD(5) [OF inv] unfolding noted_ok_def slots_invD(1) [OF inv] by blast
  then have "slots_ok (tracker st)"
    using slots_invD(2) [OF inv] by (auto simp: slots_ok_def unique_slots_def)
  moreover have "getSlot (tracker st) (fst c) \<noteq> None" if "c \<in> set calls" for c
    using slots_invD(4) [OF inv] returned that by (auto simp: found_ok_def getSlot_def in_set_conv_nth)
  ultimately show ?thesis using S by blast
qed

text \<open>Two calls on symbol 0 that both allocate a candidate: the second wins with slot 1 and slot 0 is wasted.\<close>

definition racing_calls :: "(nat, unit) call list" where
  "racing_calls = [(0, mk_range 0 3, driver_of_node 1, True), (0, mk_range 2 5, driver_of_node 2, True)]"

definition race :: "nat list" where
  "race = [0, 0, 1, 1, 1, 0, 0, 0, 0, 0, 0, 0, 1, 1, 1, 0, 1, 1]"

theorem concurrent_addDrivers_serialise_witness:
  "\<exists>st order S. run_threads std_range list_imap True racing_calls race (calls_start racing_calls no_drivers) = Some st \<and>
     getSlot (tracker st) 0 = Some 1 \<and> set order = {0, 1} \<and>
     run_calls std_range list_imap (map ((!) racing_calls) order) no_drivers = Some S \<and>
     content list_imap S 0 = content list_imap (tracker st, driver_maps st) 0"
proof -
  have "case run_threads std_range list_imap True racing_calls race (calls_start racing_calls no_drivers) of None \<Rightarrow> False
      | Some st \<Rightarrow> list_all (\<lambda>p. p = Returned) (positions st) \<and> getSlot (tracker st) 0 = Some 1"
    by code_simp
  then obtain st where run: "run_threads std_range list_imap True racing_calls race (calls_start racing_calls no_drivers) = Some st"
    and st: "\<forall>p \<in> set (positions st). p = Returned" "getSlot (tracker st) 0 = Some 1"
    by (auto split: option.splits simp: list_all_iff)
  have "slots_ok (fst no_drivers)" "clean list_imap no_drivers"
    by (simp_all add: no_drivers_def slots_ok_new clean_def)
  from concurrent_addDrivers_serialise [OF this run_threads_interleaved [OF il_start run] st(1)]
  obtain order S where "mset order = mset [0 ..< length racing_calls]"
    "run_calls std_range list_imap (map ((!) racing_calls) order) no_drivers = Some S"
    "content list_imap S = content list_imap (tracker st, driver_maps st)" by blast
  moreover from this(1) have "set order = set [0 ..< length racing_calls]"
    by (rule mset_eq_setD)
  then have "set order = {0, 1}"
    by (auto simp: racing_calls_def)
  ultimately show ?thesis
    using run st(2) by (intro exI [of _ st] exI [of _ order] exI [of _ S]) simp
qed

text \<open>
  C31. Concurrent calls of \<open>addDrivers\<close> return: each takes at most eleven steps, and as long as no assertion fails, some call that has not
  returned can take one, whether or not the shared lock prefers writers. A call that works on a driver map is the only one
  to hold its slot, no resize is under way, and the slot is within the bounds of both vectors.
\<close>

theorem concurrent_addDrivers_return:
  assumes "slots_ok (fst S0)" "clean I S0" "interleaved R I wp calls (calls_start calls S0) n st"
  shows "n \<le> 11 * length calls \<and> \<not> all_stuck R I wp calls st \<and>
     (\<forall>T U i. T < length calls \<and> U < length calls \<and> positions st ! T = HoldingSlot i \<longrightarrow>
        i < length (driver_maps st) \<and> i < slotCount (tracker st) \<and> writer st = None \<and> (positions st ! U = HoldingSlot i \<longrightarrow> U = T))"
proof -
  have locks: "locks_ok (length calls) st" and n: "n \<le> 11 * length calls"
    using interleaved_locks [OF assms(3)] by simp_all
  have inv: "slots_inv I calls st" using interleaved_history [OF assms(3,1,2)] by blast
  have "i < length (driver_maps st) \<and> i < slotCount (tracker st) \<and> writer st = None \<and> (positions st ! U = HoldingSlot i \<longrightarrow> U = T)"
    if T: "T < length calls" "U < length calls" "positions st ! T = HoldingSlot i" for T U i
  proof (intro conjI impI)
    show "i < length (driver_maps st)" "i < slotCount (tracker st)"
      using slots_invD(1,6) [OF inv] T by (auto simp: sizes_ok_def has_size_def dest: spec [of _ T])
    have "T \<in> readers st" using locks T by (simp add: locks_ok_def holds_shared_def)
    then show "writer st = None" using locks by (auto simp: locks_ok_def)
    assume "positions st ! U = HoldingSlot i"
    then have "slot_owner st i = Some U" "slot_owner st i = Some T" using locks T by (simp_all add: locks_ok_def holds_slot_def)
    then show "U = T" by simp
  qed
  then show ?thesis using n locks_progress [OF locks] by blast
qed

theorem concurrent_addDrivers_return_witness:
  "\<exists>st. run_threads std_range list_imap True racing_calls (take 12 race) (calls_start racing_calls no_drivers) = Some st \<and>
     positions st = [HoldingSlot 1, NotingSlot 1] \<and> 1 < length (driver_maps st) \<and> writer st = None \<and>
     \<not> all_stuck std_range list_imap True racing_calls st"
proof -
  have "case run_threads std_range list_imap True racing_calls (take 12 race) (calls_start racing_calls no_drivers) of None \<Rightarrow> False
      | Some st \<Rightarrow> positions st = [HoldingSlot 1, NotingSlot 1]"
    by code_simp
  then obtain st where run: "run_threads std_range list_imap True racing_calls (take 12 race) (calls_start racing_calls no_drivers) = Some st"
    and st: "positions st = [HoldingSlot 1, NotingSlot 1]"
    by (auto split: option.splits)
  have "slots_ok (fst no_drivers)" "clean list_imap no_drivers" "length racing_calls = 2"
    by (simp_all add: no_drivers_def slots_ok_new clean_def racing_calls_def)
  note returns = concurrent_addDrivers_return [OF this(1,2) run_threads_interleaved [OF il_start run]]
  have "\<not> all_stuck std_range list_imap True racing_calls st"
    using returns by blast
  moreover have "1 < length (driver_maps st) \<and> writer st = None"
    using returns [THEN conjunct2, THEN conjunct2, rule_format, of 0 0 1] st by (simp add: racing_calls_def)
  ultimately show ?thesis using run st by blast
qed

end
