(* ===== verification/EdgeLocks.thy ===== *)
theory EdgeLocks
  imports GraphInv
begin

text \<open>
  Concurrent calls of \<open>Node::addEdge\<close> and \<open>Node::addNewEdge\<close>: every node has a mutex, the calls of
  several threads interleave at their lock operations. A thread's position in its call is a task state;
  a step of a thread runs the code from one lock operation to the next.
\<close>

section \<open>The step relation\<close>

text \<open>
  Positions in \<open>addEdge\<close>: before the source's lock, holding it, edge pushed and waiting for the target's
  lock. Positions in \<open>addNewEdge\<close>: before the source's lock, holding it, released and waiting for the
  target's lock, holding that.
\<close>

datatype task =
  AddStart nat nat
| AddLocked nat nat
| AddPushed nat nat nat
| AddBoth nat nat nat
| NewStart nat nat
| NewLocked nat nat
| NewPushed nat nat nat
| NewTarget nat nat nat
| Done nat

record ('n, 'e) lstate =
  graph :: "('n, 'e) digraph"
  locks :: "nat \<rightharpoonup> nat"
  tasks :: "task list"

definition set_task :: "nat \<Rightarrow> task \<Rightarrow> ('n, 'e) lstate \<Rightarrow> ('n, 'e) lstate" where
  "set_task T k st = st\<lparr>tasks := (tasks st)[T := k]\<rparr>"

definition acquire :: "nat \<Rightarrow> nat \<Rightarrow> task \<Rightarrow> ('n, 'e) lstate \<Rightarrow> ('n, 'e) lstate option" where
  "acquire T n k st =
     (if locks st n = None then Some (set_task T k (st\<lparr>locks := (locks st)(n \<mapsto> T)\<rparr>)) else None)"

definition release :: "nat \<Rightarrow> ('n, 'e) lstate \<Rightarrow> ('n, 'e) lstate" where
  "release n st = st\<lparr>locks := (locks st)(n := None)\<rparr>"

definition on_graph :: "(('n, 'e) digraph \<Rightarrow> ('n, 'e) digraph) \<Rightarrow> ('n, 'e) lstate \<Rightarrow> ('n, 'e) lstate" where
  "on_graph f st = st\<lparr>graph := f (graph st)\<rparr>"

definition task_step :: "'e \<Rightarrow> nat \<Rightarrow> task \<Rightarrow> ('n, 'e) lstate \<Rightarrow> ('n, 'e) lstate option" where
  "task_step d T k st =
     (case k of
        AddStart s t \<Rightarrow> acquire T s (AddLocked s t) st
      | AddLocked s t \<Rightarrow>
          (case lookupOutEdge (graph st) s t of
             Some e \<Rightarrow> Some (set_task T (Done e) (release s st))
           | None \<Rightarrow>
               (let e = nextEdge (graph st);
                    st' = on_graph (\<lambda>g. insertOutEdgeIndex s t e (pushOut d s t g)) st
                in if s = t then Some (set_task T (Done e) (release s (on_graph (pushIn t e) st')))
                   else Some (set_task T (AddPushed s t e) st')))
      | AddPushed s t e \<Rightarrow> acquire T t (AddBoth s t e) st
      | AddBoth s t e \<Rightarrow> Some (set_task T (Done e) (release s (release t (on_graph (pushIn t e) st))))
      | NewStart s t \<Rightarrow> acquire T s (NewLocked s t) st
      | NewLocked s t \<Rightarrow>
          (let e = nextEdge (graph st);
               st' = on_graph (\<lambda>g. tryInsertOutEdgeIndex s t e (pushOut d s t g)) st
           in if s = t then Some (set_task T (Done e) (release s (on_graph (pushIn t e) st')))
              else Some (set_task T (NewPushed s t e) (release s st')))
      | NewPushed s t e \<Rightarrow> acquire T t (NewTarget s t e) st
      | NewTarget s t e \<Rightarrow> Some (set_task T (Done e) (release t (on_graph (pushIn t e) st)))
      | Done e \<Rightarrow> None)"

definition thread_step :: "'e \<Rightarrow> nat \<Rightarrow> ('n, 'e) lstate \<Rightarrow> ('n, 'e) lstate option" where
  "thread_step d T st = (if T < length (tasks st) then task_step d T (tasks st ! T) st else None)"

inductive reachable :: "'e \<Rightarrow> ('n, 'e) lstate \<Rightarrow> ('n, 'e) lstate \<Rightarrow> bool" for d st0 where
  reach_start: "reachable d st0 st0"
| reach_step: "reachable d st0 st \<Longrightarrow> thread_step d T st = Some st' \<Longrightarrow> reachable d st0 st'"

definition start_calls :: "('n, 'e) digraph \<Rightarrow> task list \<Rightarrow> ('n, 'e) lstate" where
  "start_calls g calls = \<lparr>graph = g, locks = Map.empty, tasks = calls\<rparr>"

definition is_done :: "task \<Rightarrow> bool" where
  "is_done k = (case k of Done _ \<Rightarrow> True | _ \<Rightarrow> False)"

text \<open>Some call has not returned and no thread can take a step.\<close>

definition deadlocked :: "'e \<Rightarrow> ('n, 'e) lstate \<Rightarrow> bool" where
  "deadlocked d st \<longleftrightarrow>
     (\<exists>k \<in> set (tasks st). \<not> is_done k) \<and> (\<forall>T < length (tasks st). thread_step d T st = None)"

text \<open>Running a schedule, the list of threads that take a step.\<close>

fun run_schedule :: "'e \<Rightarrow> nat list \<Rightarrow> ('n, 'e) lstate \<Rightarrow> ('n, 'e) lstate option" where
  "run_schedule d [] st = Some st"
| "run_schedule d (T # Ts) st = and_then (thread_step d T st) (run_schedule d Ts)"

lemma run_schedule_reachable:
  "reachable d st0 st \<Longrightarrow> run_schedule d Ts st = Some st' \<Longrightarrow> reachable d st0 st'"
  by (induction Ts arbitrary: st) (auto simp: Option.bind_eq_Some_conv intro: reach_step)

section \<open>Only \<open>addNewEdge\<close>: no deadlock\<close>

definition new_call :: "task \<Rightarrow> bool" where
  "new_call k = (case k of NewStart _ _ \<Rightarrow> True | NewLocked _ _ \<Rightarrow> True | NewPushed _ _ _ \<Rightarrow> True
                   | NewTarget _ _ _ \<Rightarrow> True | Done _ \<Rightarrow> True | _ \<Rightarrow> False)"

text \<open>The lock a thread holds, for calls of \<open>addNewEdge\<close>: at most one.\<close>

definition new_holds :: "task \<Rightarrow> nat option" where
  "new_holds k = (case k of NewLocked s t \<Rightarrow> Some s | NewTarget s t e \<Rightarrow> Some t | _ \<Rightarrow> None)"

definition new_inv :: "('n, 'e) lstate \<Rightarrow> bool" where
  "new_inv st \<longleftrightarrow> (\<forall>k \<in> set (tasks st). new_call k) \<and>
     (\<forall>n T. locks st n = Some T \<longleftrightarrow> T < length (tasks st) \<and> new_holds (tasks st ! T) = Some n)"

lemma set_task_fields [simp]:
  "graph (set_task T k st) = graph st" "locks (set_task T k st) = locks st"
  "tasks (set_task T k st) = (tasks st)[T := k]"
  "graph (release n st) = graph st" "locks (release n st) = (locks st)(n := None)" "tasks (release n st) = tasks st"
  "graph (on_graph f st) = f (graph st)" "locks (on_graph f st) = locks st" "tasks (on_graph f st) = tasks st"
  by (simp_all add: set_task_def release_def on_graph_def)

lemma new_inv_step:
  assumes "new_inv st" "thread_step d T st = Some st'"
  shows "new_inv st'"
proof -
  have T: "T < length (tasks st)" and step: "task_step d T (tasks st ! T) st = Some st'"
    using assms(2) by (simp_all add: thread_step_def split: if_splits)
  have "new_call (tasks st ! T)"
    using assms(1) T by (simp add: new_inv_def)
  then have call: "new_call k'" if "k' \<in> set ((tasks st)[T := k])" "new_call k" for k k'
    using that assms(1) set_update_subset_insert [of "tasks st" T k] by (auto simp: new_inv_def)
  have owner: "locks st n = Some U \<longleftrightarrow> U < length (tasks st) \<and> new_holds (tasks st ! U) = Some n" for n U
    using assms(1) by (simp add: new_inv_def)
  show ?thesis
    unfolding new_inv_def
  proof (intro conjI ballI allI)
    fix k assume "k \<in> set (tasks st')"
    then show "new_call k"
      using \<open>new_call (tasks st ! T)\<close> step call
      by (cases "tasks st ! T") (auto simp: task_step_def acquire_def new_call_def Let_def split: if_splits option.splits)
  next
    fix n U
    show "locks st' n = Some U \<longleftrightarrow> U < length (tasks st') \<and> new_holds (tasks st' ! U) = Some n"
      using \<open>new_call (tasks st ! T)\<close> step T owner [of n U] owner [of n T]
      by (cases "tasks st ! T"; cases "U = T")
        (auto simp: task_step_def acquire_def new_call_def new_holds_def Let_def nth_list_update
          split: if_splits option.splits)
  qed
qed

lemma new_inv_progress:
  assumes "new_inv st"
  shows "\<not> deadlocked d st"
proof
  assume dead: "deadlocked d st"
  then obtain T where T: "T < length (tasks st)" and busy: "\<not> is_done (tasks st ! T)"
    by (auto simp: deadlocked_def in_set_conv_nth)
  have stuck: "U < length (tasks st) \<Longrightarrow> task_step d U (tasks st ! U) st = None" for U
    using dead by (auto simp: deadlocked_def thread_step_def)
  have no_holder: "new_holds (tasks st ! U) = None" if "U < length (tasks st)" for U
    using stuck [OF that] by (cases "tasks st ! U") (auto simp: task_step_def new_holds_def Let_def split: if_splits)
  then have free: "locks st n = None" for n
    using assms by (cases "locks st n") (auto simp: new_inv_def)
  have "new_call (tasks st ! T)"
    using assms T by (simp add: new_inv_def)
  then show False
    using stuck [OF T] busy
    by (cases "tasks st ! T") (auto simp: task_step_def acquire_def new_call_def is_done_def free Let_def split: if_splits)
qed

lemma new_reachable_inv: "reachable d st0 st \<Longrightarrow> new_inv st0 \<Longrightarrow> new_inv st"
  by (induction rule: reachable.induct) (auto intro: new_inv_step)

section \<open>Properties\<close>

text \<open>
  C32. Concurrent calls of \<open>addNewEdge\<close>, in any number and on any nodes, never deadlock: from every
  state that some interleaving of them reaches, a call that has not returned can go on or waits for one that can.
\<close>

theorem addNewEdge_never_deadlocks:
  assumes "\<forall>k \<in> set calls. \<exists>s t. k = NewStart s t"
    and "reachable d (start_calls g calls) st"
  shows "\<not> deadlocked d st"
proof -
  have "new_inv (start_calls g calls)"
    using assms(1) by (auto simp: new_inv_def start_calls_def new_call_def new_holds_def dest!: nth_mem)
  then show ?thesis
    by (intro new_inv_progress new_reachable_inv [OF assms(2)])
qed

theorem addNewEdge_never_deadlocks_witness:
  "\<not> deadlocked () (start_calls two_nodes [NewStart 0 1, NewStart 1 0])"
  by (rule addNewEdge_never_deadlocks [of "[NewStart 0 1, NewStart 1 0]" "()" two_nodes])
    (auto intro: reach_start)

text \<open>
  Two concurrent calls of \<open>addEdge\<close> on the same two nodes in opposite directions can deadlock: each
  keeps its source's lock while it waits for its target's, which is the other's source.
\<close>

theorem addEdge_can_deadlock:
  "\<exists>st. reachable () (start_calls two_nodes [AddStart 0 1, AddStart 1 0]) st \<and> deadlocked () st"
proof -
  let ?start = "start_calls two_nodes [AddStart 0 1, AddStart 1 0]"
  have "(case run_schedule () [0, 1, 0, 1] ?start of
      None \<Rightarrow> False
    | Some st \<Rightarrow> list_ex (\<lambda>k. \<not> is_done k) (tasks st) \<and>
        list_all (\<lambda>T. (case thread_step () T st of None \<Rightarrow> True | Some _ \<Rightarrow> False)) [0 ..< length (tasks st)])"
    by code_simp
  then obtain st where run: "run_schedule () [0, 1, 0, 1] ?start = Some st"
    and "list_ex (\<lambda>k. \<not> is_done k) (tasks st)"
    and "list_all (\<lambda>T. (case thread_step () T st of None \<Rightarrow> True | Some _ \<Rightarrow> False)) [0 ..< length (tasks st)]"
    by (auto split: option.splits)
  then have "deadlocked () st"
    by (auto simp: deadlocked_def list_ex_iff list_all_iff split: option.splits)
  then show ?thesis
    using run_schedule_reachable [OF reach_start run] by blast
qed

text \<open>
  C33. Two concurrent calls of \<open>addNewEdge\<close> from the same source to the same target can push their edges
  to the two vectors in different orders. \<open>removeEdge\<close> then takes different edges out of the two: the
  target's in-edges keep a pointer to the edge object that was destroyed.
\<close>

theorem addNewEdge_race_leaves_dangling_edge:
  "\<exists>st g'. reachable () (start_calls two_nodes [NewStart 0 1, NewStart 0 1]) st \<and>
     list_all is_done (tasks st) \<and> removeEdge 0 1 (graph st) = Some (True, g') \<and>
     (\<exists>e \<in> set (inEdges g' 1). edgeAt g' e = None)"
proof -
  let ?start = "start_calls two_nodes [NewStart 0 1, NewStart 0 1]"
  have "(case run_schedule () [0, 0, 1, 1, 1, 1, 0, 0] ?start of
      None \<Rightarrow> False
    | Some st \<Rightarrow> list_all is_done (tasks st) \<and>
        (case removeEdge 0 1 (graph st) of
           None \<Rightarrow> False
         | Some (r, g') \<Rightarrow> r \<and> list_ex (\<lambda>e. case edgeAt g' e of None \<Rightarrow> True | Some _ \<Rightarrow> False) (inEdges g' 1)))"
    by code_simp
  then obtain st g' where run: "run_schedule () [0, 0, 1, 1, 1, 1, 0, 0] ?start = Some st"
    and "list_all is_done (tasks st)" "removeEdge 0 1 (graph st) = Some (True, g')"
    and "list_ex (\<lambda>e. case edgeAt g' e of None \<Rightarrow> True | Some _ \<Rightarrow> False) (inEdges g' 1)"
    by (auto split: option.splits)
  then show ?thesis
    using run_schedule_reachable [OF reach_start run]
    by (intro exI [of _ st] exI [of _ g']) (auto simp: list_ex_iff split: option.splits)
qed

end
