(* ===== verification/DFS.thy ===== *)
theory DFS
  imports GraphInv
begin

text \<open>
  \<open>DepthFirstSearch\<close> of \<^verbatim>\<open>source/DepthFirstSearch.hpp\<close>, over the edges of a graph in either direction,
  with an edge predicate and a visitor whose state the search threads through its callbacks. The
  iterators on the visit stack are the lists of edges still to be looked at.
\<close>

section \<open>Model\<close>

datatype direction = Forward | Backward

definition edges_from :: "direction \<Rightarrow> ('n, 'e) digraph \<Rightarrow> nat \<Rightarrow> nat list" where
  "edges_from dir g n = (case dir of Forward \<Rightarrow> outEdges g n | Backward \<Rightarrow> inEdges g n)"

definition nextNodeOf :: "direction \<Rightarrow> ('n, 'e) digraph \<Rightarrow> nat \<Rightarrow> nat" where
  "nextNodeOf dir g e = (case dir of Forward \<Rightarrow> etgt g e | Backward \<Rightarrow> esrc g e)"

record 'v visitor =
  visitedNode :: "nat \<Rightarrow> 'v \<Rightarrow> 'v"
  visitNode :: "nat \<Rightarrow> 'v \<Rightarrow> 'v"
  visitEdge :: "nat \<Rightarrow> 'v \<Rightarrow> 'v"
  popNode :: "'v \<Rightarrow> 'v"

record 'v dfs_state =
  visitedNodes :: "nat set"
  visitStack :: "(nat \<times> nat list) list"
  vstate :: 'v

text \<open>
  The search reads four things: the edges at a node, the node at the other end, the predicate, the
  visitor. One turn looks at the next edge of the node on top of the stack or pops it.
\<close>

definition dfs_setup :: "(nat \<Rightarrow> nat list) \<Rightarrow> 'v visitor \<Rightarrow> nat \<Rightarrow> 'v \<Rightarrow> 'v dfs_state" where
  "dfs_setup adj vis start v =
     \<lparr>visitedNodes = {start}, visitStack = [(start, adj start)], vstate = visitNode vis start v\<rparr>"

definition dfs_turn ::
  "(nat \<Rightarrow> nat list) \<Rightarrow> (nat \<Rightarrow> nat) \<Rightarrow> (nat \<Rightarrow> bool) \<Rightarrow> 'v visitor \<Rightarrow> 'v dfs_state \<Rightarrow> 'v dfs_state" where
  "dfs_turn adj nxt pred vis s =
     (case visitStack s of
        [] \<Rightarrow> s
      | (n, es) # st \<Rightarrow>
          (case es of
             [] \<Rightarrow> s\<lparr>visitStack := st, vstate := popNode vis (vstate s)\<rparr>
           | e # es' \<Rightarrow>
               (let s' = s\<lparr>visitStack := (n, es') # st\<rparr>; target = nxt e
                in if \<not> pred e then s'
                   else if target \<in> visitedNodes s
                   then s'\<lparr>vstate := visitedNode vis target (vstate s)\<rparr>
                   else \<lparr>visitedNodes = insert target (visitedNodes s),
                         visitStack = (target, adj target) # (n, es') # st,
                         vstate = visitNode vis target (visitEdge vis e (vstate s))\<rparr>)))"

partial_function (option) dfs_loop ::
  "(nat \<Rightarrow> nat list) \<Rightarrow> (nat \<Rightarrow> nat) \<Rightarrow> (nat \<Rightarrow> bool) \<Rightarrow> 'v visitor \<Rightarrow> 'v dfs_state \<Rightarrow> 'v dfs_state option" where
  "dfs_loop adj nxt pred vis s =
     (if visitStack s = [] then Some s else dfs_loop adj nxt pred vis (dfs_turn adj nxt pred vis s))"

declare dfs_loop.simps [code]

definition dfs_run ::
  "(nat \<Rightarrow> nat list) \<Rightarrow> (nat \<Rightarrow> nat) \<Rightarrow> (nat \<Rightarrow> bool) \<Rightarrow> 'v visitor \<Rightarrow> nat \<Rightarrow> 'v \<Rightarrow> 'v dfs_state option" where
  "dfs_run adj nxt pred vis start v = dfs_loop adj nxt pred vis (dfs_setup adj vis start v)"

definition depthFirstSearch ::
  "direction \<Rightarrow> ('n, 'e) digraph \<Rightarrow> (nat \<Rightarrow> bool) \<Rightarrow> 'v visitor \<Rightarrow> nat \<Rightarrow> 'v \<Rightarrow> 'v dfs_state option" where
  "depthFirstSearch dir g pred vis start v =
     dfs_run (edges_from dir g) (nextNodeOf dir g) pred vis start v"

section \<open>The relation the search follows\<close>

definition follows :: "(nat \<Rightarrow> nat list) \<Rightarrow> (nat \<Rightarrow> nat) \<Rightarrow> (nat \<Rightarrow> bool) \<Rightarrow> nat \<Rightarrow> nat \<Rightarrow> bool" where
  "follows adj nxt pred a b \<longleftrightarrow> (\<exists>e \<in> set (adj a). pred e \<and> nxt e = b)"

section \<open>Termination\<close>

text \<open>On a finite set of nodes closed under the edges the search ends: a turn visits a new node or consumes an edge.\<close>

definition work_left :: "(nat \<times> nat list) list \<Rightarrow> nat" where
  "work_left st = sum_list (map (\<lambda>(n, es). Suc (length es)) st)"

definition bounded_by :: "nat set \<Rightarrow> (nat \<Rightarrow> nat list) \<Rightarrow> (nat \<Rightarrow> nat) \<Rightarrow> 'v dfs_state \<Rightarrow> bool" where
  "bounded_by N adj nxt s \<longleftrightarrow> (\<forall>(n, es) \<in> set (visitStack s). \<forall>e \<in> set es. nxt e \<in> N)"

lemma turn_bounded:
  assumes closed: "\<And>n e. n \<in> N \<Longrightarrow> e \<in> set (adj n) \<Longrightarrow> nxt e \<in> N" and b: "bounded_by N adj nxt s"
  shows "bounded_by N adj nxt (dfs_turn adj nxt pred vis s)"
proof (cases "visitStack s")
  case (Cons x st)
  obtain n es where x: "x = (n, es)" by (cases x)
  show ?thesis
    using b closed unfolding bounded_by_def dfs_turn_def Cons x
    by (cases es) (auto simp: Let_def split: if_splits)
qed (use b in \<open>simp add: dfs_turn_def bounded_by_def\<close>)

lemma turn_decreases:
  assumes "finite N" "bounded_by N adj nxt s" "visitStack s \<noteq> []"
    and turn: "s' = dfs_turn adj nxt pred vis s"
  shows "card (N - visitedNodes s') < card (N - visitedNodes s)
     \<or> (visitedNodes s' = visitedNodes s \<and> work_left (visitStack s') < work_left (visitStack s))"
proof -
  obtain n es st where s: "visitStack s = (n, es) # st"
    using assms(3) by (metis list.exhaust surj_pair)
  show ?thesis
  proof (cases es)
    case Nil
    then show ?thesis by (simp add: turn dfs_turn_def s work_left_def)
  next
    case (Cons e es')
    show ?thesis
    proof (cases "pred e \<and> nxt e \<notin> visitedNodes s")
      case True
      have "nxt e \<in> N"
        using assms(2) by (simp add: bounded_by_def s Cons)
      then have "N - visitedNodes s' \<subset> N - visitedNodes s"
        using True by (auto simp: turn dfs_turn_def s Cons Let_def)
      then have "card (N - visitedNodes s') < card (N - visitedNodes s)"
        using assms(1) by (intro psubset_card_mono) auto
      then show ?thesis by blast
    next
      case False
      then show ?thesis by (auto simp: turn dfs_turn_def s Cons Let_def work_left_def)
    qed
  qed
qed

lemma dfs_loop_rule:
  assumes fin: "finite N" and closed: "\<And>n e. n \<in> N \<Longrightarrow> e \<in> set (adj n) \<Longrightarrow> nxt e \<in> N"
    and step: "\<And>s. Inv s \<Longrightarrow> visitStack s \<noteq> [] \<Longrightarrow> Inv (dfs_turn adj nxt pred vis s)"
    and start: "bounded_by N adj nxt s" "Inv s"
  shows "\<exists>s'. dfs_loop adj nxt pred vis s = Some s' \<and> visitStack s' = [] \<and> Inv s'"
  using start
proof (induction s rule: wf_induct [where r =
    "inv_image (less_than <*lex*> less_than) (\<lambda>s. (card (N - visitedNodes s), work_left (visitStack s)))"])
  case 1
  show ?case by (intro wf_inv_image wf_lex_prod wf_less_than)
next
  case (2 s)
  show ?case
  proof (cases "visitStack s = []")
    case True
    then show ?thesis
      using 2(3) by (simp add: dfs_loop.simps)
  next
    case False
    let ?s = "dfs_turn adj nxt pred vis s"
    have less: "(?s, s) \<in> inv_image (less_than <*lex*> less_than) (\<lambda>s. (card (N - visitedNodes s), work_left (visitStack s)))"
      using turn_decreases [OF fin 2(2) False refl, of pred vis] by auto
    have "bounded_by N adj nxt ?s"
      by (rule turn_bounded [OF closed 2(2)])
    then show ?thesis
      using 2(1) less step [OF 2(3) False] False by (subst dfs_loop.simps) auto
  qed
qed

section \<open>What the search visits\<close>

text \<open>
  The invariant: the stack holds visited nodes; the edges consumed at a node on the stack, and all edges
  of a finished node, lead to visited nodes; every visited node is reachable from the start.
\<close>

definition search_inv ::
  "(nat \<Rightarrow> nat list) \<Rightarrow> (nat \<Rightarrow> nat) \<Rightarrow> (nat \<Rightarrow> bool) \<Rightarrow> nat \<Rightarrow> 'v dfs_state \<Rightarrow> bool" where
  "search_inv adj nxt pred start s \<longleftrightarrow>
     start \<in> visitedNodes s \<and> fst ` set (visitStack s) \<subseteq> visitedNodes s \<and>
     distinct (map fst (visitStack s)) \<and>
     (\<forall>(n, es) \<in> set (visitStack s). \<exists>done. adj n = done @ es \<and>
        (\<forall>e \<in> set done. pred e \<longrightarrow> nxt e \<in> visitedNodes s)) \<and>
     (\<forall>n \<in> visitedNodes s - fst ` set (visitStack s). \<forall>m. follows adj nxt pred n m \<longrightarrow> m \<in> visitedNodes s) \<and>
     (\<forall>n \<in> visitedNodes s. (follows adj nxt pred)\<^sup>*\<^sup>* start n)"

lemma search_inv_setup: "search_inv adj nxt pred start (dfs_setup adj vis start v)"
  by (simp add: search_inv_def dfs_setup_def)

lemma search_inv_turn:
  assumes inv: "search_inv adj nxt pred start s" and ne: "visitStack s \<noteq> []"
  shows "search_inv adj nxt pred start (dfs_turn adj nxt pred vis s)"
proof -
  obtain n es st where s: "visitStack s = (n, es) # st"
    using ne by (metis list.exhaust surj_pair)
  have "\<exists>done. adj n = done @ es \<and> (\<forall>e \<in> set done. pred e \<longrightarrow> nxt e \<in> visitedNodes s)"
    using inv by (simp add: search_inv_def s)
  then obtain dn where dn: "adj n = dn @ es" "\<And>e. e \<in> set dn \<Longrightarrow> pred e \<Longrightarrow> nxt e \<in> visitedNodes s"
    by blast
  have V: "start \<in> visitedNodes s" "n \<in> visitedNodes s" "fst ` set st \<subseteq> visitedNodes s" "n \<notin> fst ` set st"
    and dist: "distinct (map fst st)"
    using inv by (auto simp: search_inv_def s)
  have rest: "\<And>m ms. (m, ms) \<in> set st \<Longrightarrow> \<exists>done. adj m = done @ ms \<and>
        (\<forall>e \<in> set done. pred e \<longrightarrow> nxt e \<in> visitedNodes s)"
    using inv by (auto simp: search_inv_def s)
  have fin: "\<And>m k. m \<in> visitedNodes s \<Longrightarrow> m \<noteq> n \<Longrightarrow> m \<notin> fst ` set st \<Longrightarrow> follows adj nxt pred m k \<Longrightarrow> k \<in> visitedNodes s"
    using inv by (auto simp: search_inv_def s)
  have reach: "\<And>m. m \<in> visitedNodes s \<Longrightarrow> (follows adj nxt pred)\<^sup>*\<^sup>* start m"
    using inv by (auto simp: search_inv_def)
  show ?thesis
  proof (cases es)
    case Nil
    have "follows adj nxt pred n k \<Longrightarrow> k \<in> visitedNodes s" for k
      using dn Nil by (auto simp: follows_def)
    then have fin': "m \<in> visitedNodes s \<Longrightarrow> m \<notin> fst ` set st \<Longrightarrow> follows adj nxt pred m k \<Longrightarrow> k \<in> visitedNodes s" for m k
      using fin by (cases "m = n") blast+
    have turn: "visitStack (dfs_turn adj nxt pred vis s) = st"
      "visitedNodes (dfs_turn adj nxt pred vis s) = visitedNodes s"
      by (simp_all add: dfs_turn_def s Nil)
    show ?thesis
      unfolding search_inv_def turn using V(1,3) dist rest fin' reach by auto
  next
    case (Cons e es')
    have dn': "adj n = (dn @ [e]) @ es'"
      using dn(1) Cons by simp
    show ?thesis
    proof (cases "pred e \<and> nxt e \<notin> visitedNodes s")
      case False
      then have d: "\<forall>x \<in> set (dn @ [e]). pred x \<longrightarrow> nxt x \<in> visitedNodes s"
        using dn(2) by auto
      have turn: "visitStack (dfs_turn adj nxt pred vis s) = (n, es') # st"
        "visitedNodes (dfs_turn adj nxt pred vis s) = visitedNodes s"
        using False by (auto simp: dfs_turn_def s Cons Let_def)
      have top: "\<exists>done. adj n = done @ es' \<and> (\<forall>e \<in> set done. pred e \<longrightarrow> nxt e \<in> visitedNodes s)"
        using dn' d by blast
      show ?thesis
        unfolding search_inv_def turn using V dist rest fin reach top by auto
    next
      case True
      let ?t = "nxt e"
      have f: "follows adj nxt pred n ?t"
        using True dn' by (auto simp: follows_def)
      then have "(follows adj nxt pred)\<^sup>*\<^sup>* start ?t"
        using reach [OF V(2)] by (simp add: rtranclp.rtrancl_into_rtrancl)
      moreover have "?t \<noteq> n" "?t \<notin> fst ` set st"
        using True V by auto
      moreover have top: "\<exists>done. adj n = done @ es' \<and> (\<forall>e \<in> set done. pred e \<longrightarrow> nxt e \<in> insert ?t (visitedNodes s))"
        using dn' dn(2) by (intro exI [of _ "dn @ [e]"]) auto
      moreover have rest': "\<exists>done. adj m = done @ ms \<and> (\<forall>e \<in> set done. pred e \<longrightarrow> nxt e \<in> insert ?t (visitedNodes s))"
        if "(m, ms) \<in> set st" for m ms
        using rest [OF that] by blast
      moreover have turn: "visitStack (dfs_turn adj nxt pred vis s) = (?t, adj ?t) # (n, es') # st"
        "visitedNodes (dfs_turn adj nxt pred vis s) = insert ?t (visitedNodes s)"
        using True by (auto simp: dfs_turn_def s Cons Let_def)
      ultimately show ?thesis
        unfolding search_inv_def turn using V dist fin reach by auto
    qed
  qed
qed

lemma search_inv_top:
  assumes "search_inv adj nxt pred start s" "visitStack s = (n, es) # st"
  shows "set es \<subseteq> set (adj n)" "n \<in> visitedNodes s" "start \<in> visitedNodes s"
    "n \<notin> fst ` set st" "fst ` set st \<subseteq> visitedNodes s"
proof -
  have "\<exists>done. adj n = done @ es \<and> (\<forall>e \<in> set done. pred e \<longrightarrow> nxt e \<in> visitedNodes s)"
    using assms by (simp add: search_inv_def)
  then show "set es \<subseteq> set (adj n)" by auto
  show "n \<in> visitedNodes s" "start \<in> visitedNodes s" "n \<notin> fst ` set st" "fst ` set st \<subseteq> visitedNodes s"
    using assms by (simp_all add: search_inv_def)
qed

text \<open>The nodes of a graph that satisfies the invariant bound every search in it.\<close>

lemma graph_closed:
  assumes "graph_ok g" "e \<in> set (edges_from dir g n)"
  shows "nextNodeOf dir g e \<in> set (nodes g)"
  using assms edges_okD(3,4) [OF graph_okD(1) [OF assms(1)], of e n] graph_okD(3) [OF assms(1)]
  by (cases dir) (auto simp: edges_from_def nextNodeOf_def nodes_ok_def)

text \<open>The search ends, has visited the reachable nodes, and keeps any invariant of its turns.\<close>

lemma depthFirstSearch_rule:
  assumes g: "graph_ok g"
    and step: "\<And>s. search_inv (edges_from dir g) (nextNodeOf dir g) pred start s \<Longrightarrow> Inv s \<Longrightarrow> visitStack s \<noteq> [] \<Longrightarrow>
        Inv (dfs_turn (edges_from dir g) (nextNodeOf dir g) pred vis s)"
    and init: "Inv (dfs_setup (edges_from dir g) vis start v)"
  shows "\<exists>s. depthFirstSearch dir g pred vis start v = Some s \<and> visitStack s = [] \<and> Inv s \<and>
     visitedNodes s = {n. (follows (edges_from dir g) (nextNodeOf dir g) pred)\<^sup>*\<^sup>* start n}"
proof -
  let ?adj = "edges_from dir g" and ?nxt = "nextNodeOf dir g"
  have "\<exists>s'. dfs_loop ?adj ?nxt pred vis (dfs_setup ?adj vis start v) = Some s' \<and> visitStack s' = [] \<and>
      (search_inv ?adj ?nxt pred start s' \<and> Inv s')"
  proof (rule dfs_loop_rule [where N = "set (nodes g)"])
    show "bounded_by (set (nodes g)) ?adj ?nxt (dfs_setup ?adj vis start v)"
      using graph_closed [OF g] by (simp add: bounded_by_def dfs_setup_def)
    show "search_inv ?adj ?nxt pred start (dfs_setup ?adj vis start v) \<and> Inv (dfs_setup ?adj vis start v)"
      by (intro conjI search_inv_setup init)
    show "search_inv ?adj ?nxt pred start (dfs_turn ?adj ?nxt pred vis s) \<and> Inv (dfs_turn ?adj ?nxt pred vis s)"
      if "search_inv ?adj ?nxt pred start s \<and> Inv s" "visitStack s \<noteq> []" for s
      using search_inv_turn [OF _ that(2)] step [OF _ _ that(2)] that(1) by blast
  qed (simp_all add: graph_closed [OF g])
  then obtain s where run: "depthFirstSearch dir g pred vis start v = Some s" and s: "visitStack s = []" "Inv s"
    and inv: "search_inv ?adj ?nxt pred start s"
    by (auto simp: depthFirstSearch_def dfs_run_def)
  have "n \<in> visitedNodes s" if "(follows ?adj ?nxt pred)\<^sup>*\<^sup>* start n" for n
    using that
  proof (induction rule: rtranclp_induct)
    case base
    show ?case using inv by (simp add: search_inv_def)
  next
    case (step m k)
    have "\<forall>n \<in> visitedNodes s. \<forall>m. follows ?adj ?nxt pred n m \<longrightarrow> m \<in> visitedNodes s"
      using inv by (simp add: search_inv_def s(1))
    then show ?case using step by blast
  qed
  moreover have "\<forall>n \<in> visitedNodes s. (follows ?adj ?nxt pred)\<^sup>*\<^sup>* start n"
    using inv unfolding search_inv_def by (elim conjE)
  ultimately have "visitedNodes s = {n. (follows ?adj ?nxt pred)\<^sup>*\<^sup>* start n}"
    by blast
  then show ?thesis
    using run s by blast
qed

end
