(* ===== verification/PathFinder.thy ===== *)
theory PathFinder
  imports NetlistTypes DFS
begin

text \<open>
  \<open>PathFinder\<close> of \<^verbatim>\<open>source/PathFinder.cpp\<close> and \<open>NetlistPath\<close>: a depth-first search records the parent of
  every node it reaches, then the path is read back from the end node. A failed assertion is \<open>None\<close>.
\<close>

section \<open>Model\<close>

type_synonym traversal_map = "nat \<rightharpoonup> nat"

definition path_visitEdge :: "('n, 'e) digraph \<Rightarrow> nat \<Rightarrow> traversal_map option \<Rightarrow> traversal_map option" where
  "path_visitEdge g e m =
     and_then m (\<lambda>tm. require (tm (etgt g e) = None) (Some (tm(etgt g e \<mapsto> esrc g e))))"

definition path_visitor :: "('n, 'e) digraph \<Rightarrow> (traversal_map option) visitor" where
  "path_visitor g =
     \<lparr>visitedNode = (\<lambda>_ m. m), visitNode = (\<lambda>_ m. m), visitEdge = path_visitEdge g, popNode = (\<lambda>m. m)\<rparr>"

definition edge_enabled :: "'c ngraph \<Rightarrow> nat \<Rightarrow> bool" where
  "edge_enabled g e = (\<not> disabled (einfo g e))"

definition comb_edge :: "'c ngraph \<Rightarrow> nat \<Rightarrow> bool" where
  "comb_edge g e = (\<not> disabled (einfo g e) \<and> nkind g (etgt g e) \<noteq> KState)"

text \<open>The do-while loop: add the parent of \<open>n\<close> to the path until it is the start.\<close>

partial_function (option) trace_back :: "traversal_map \<Rightarrow> nat \<Rightarrow> nat \<Rightarrow> nat list \<Rightarrow> nat list option" where
  "trace_back m start n path =
     (case m n of
        None \<Rightarrow> None
      | Some p \<Rightarrow> if p = start then Some (path @ [p]) else trace_back m start p (path @ [p]))"

declare trace_back.simps [code]

definition buildPath :: "traversal_map \<Rightarrow> nat \<Rightarrow> nat \<Rightarrow> nat list option" where
  "buildPath m start fin =
     (if m fin = None then Some []
      else if start = fin then Some [fin]
      else map_option rev (trace_back m start fin [fin]))"

definition find_path :: "'c ngraph \<Rightarrow> (nat \<Rightarrow> bool) \<Rightarrow> nat \<Rightarrow> nat \<Rightarrow> nat list option" where
  "find_path g pred start fin =
     and_then (depthFirstSearch Forward g pred (path_visitor g) start (Some Map.empty))
       (\<lambda>s. and_then (vstate s) (\<lambda>m. buildPath m start fin))"

definition findPath :: "'c ngraph \<Rightarrow> nat \<Rightarrow> nat \<Rightarrow> nat list option" where
  "findPath g start fin = find_path g (edge_enabled g) start fin"

definition findComb :: "'c ngraph \<Rightarrow> nat \<Rightarrow> nat \<Rightarrow> nat list option" where
  "findComb g start fin = find_path g (comb_edge g) start fin"

section \<open>Reading parents back\<close>

inductive ancestry :: "traversal_map \<Rightarrow> nat \<Rightarrow> nat \<Rightarrow> nat list \<Rightarrow> bool" for m start where
  ancestry_start: "m n = Some start \<Longrightarrow> ancestry m start n [start]"
| ancestry_step: "m n = Some a \<Longrightarrow> a \<noteq> start \<Longrightarrow> ancestry m start a q \<Longrightarrow> ancestry m start n (a # q)"

inductive_cases ancestry_ConsE: "ancestry m start n (a # q)"

lemma trace_back_back: "ancestry m start n q \<Longrightarrow> trace_back m start n path = Some (path @ q)"
proof (induction arbitrary: path rule: ancestry.induct)
  case (ancestry_start n)
  then show ?case by (subst trace_back.simps) simp
next
  case (ancestry_step n a q)
  then show ?case by (subst trace_back.simps) simp
qed

lemma ancestry_mono:
  assumes "ancestry m start n q" "m \<subseteq>\<^sub>m m'"
  shows "ancestry m' start n q"
  using assms(1)
proof (induction rule: ancestry.induct)
  case (ancestry_start n)
  then have "m' n = Some start"
    using assms(2) unfolding map_le_def by (metis domI)
  then show ?case by (rule ancestry.ancestry_start)
next
  case (ancestry_step n a q)
  then have "m' n = Some a"
    using assms(2) unfolding map_le_def by (metis domI)
  then show ?case using ancestry_step by (blast intro: ancestry.ancestry_step)
qed

lemma ancestry_unique: "ancestry m start n q \<Longrightarrow> ancestry m start n q' \<Longrightarrow> q' = q"
proof (induction arbitrary: q' rule: ancestry.induct)
  case (ancestry_start n)
  show ?case
    using ancestry_start.prems ancestry_start.hyps by (cases rule: ancestry.cases) simp_all
next
  case (ancestry_step n a q)
  show ?case
    using ancestry_step.prems
  proof (cases rule: ancestry.cases)
    case (ancestry_step b p)
    then show ?thesis using ancestry_step.hyps ancestry_step.IH by simp
  qed (use ancestry_step.hyps in simp)
qed

lemma ancestry_last: "ancestry m start n q \<Longrightarrow> q \<noteq> [] \<and> last q = start"
  by (induction rule: ancestry.induct) auto

lemma ancestry_suffix: "ancestry m start n q \<Longrightarrow> a \<in> set q \<Longrightarrow> a \<noteq> start \<Longrightarrow> \<exists>q'. ancestry m start a q' \<and> length q' < length q"
  by (induction rule: ancestry.induct) (auto intro: less_SucI)

lemma ancestry_distinct: "ancestry m start n q \<Longrightarrow> n \<noteq> start \<Longrightarrow> distinct (n # q)"
proof (induction rule: ancestry.induct)
  case (ancestry_step n a q)
  have "ancestry m start n (a # q)"
    using ancestry_step by (auto intro: ancestry.ancestry_step)
  then have "n \<notin> set (a # q)"
    using ancestry_suffix [of m start n "a # q" n] ancestry_unique ancestry_step.prems by blast
  then show ?case
    using ancestry_step by auto
qed auto

text \<open>Consecutive nodes of a path are related.\<close>

fun walk :: "(nat \<Rightarrow> nat \<Rightarrow> bool) \<Rightarrow> nat list \<Rightarrow> bool" where
  "walk r [] = True"
| "walk r [x] = True"
| "walk r (x # y # xs) = (r x y \<and> walk r (y # xs))"

lemma walk_snoc: "xs \<noteq> [] \<Longrightarrow> walk r (xs @ [y]) \<longleftrightarrow> walk r xs \<and> r (last xs) y"
  by (induction r xs rule: walk.induct) auto

lemma ancestry_walk:
  assumes "ancestry m start n q" "\<And>x p. m x = Some p \<Longrightarrow> r p x"
  shows "walk r (rev (n # q))"
  using assms(1)
proof (induction rule: ancestry.induct)
  case (ancestry_step n a q)
  have "rev (a # q) \<noteq> []" "r (last (rev (a # q))) n"
    using assms(2) ancestry_step.hyps(1) by simp_all
  then have "walk r (rev (a # q) @ [n])"
    using ancestry_step.IH walk_snoc by blast
  then show ?case by simp
qed (use assms(2) in simp)

section \<open>The search records parents\<close>

definition parents_inv :: "'c ngraph \<Rightarrow> (nat \<Rightarrow> bool) \<Rightarrow> nat \<Rightarrow> (traversal_map option) dfs_state \<Rightarrow> bool" where
  "parents_inv g pred start s \<longleftrightarrow>
     (\<exists>m. vstate s = Some m \<and> dom m = visitedNodes s - {start} \<and>
        (\<forall>n p. m n = Some p \<longrightarrow> follows (edges_from Forward g) (nextNodeOf Forward g) pred p n) \<and>
        (\<forall>n \<in> visitedNodes s - {start}. \<exists>q. ancestry m start n q))"

lemma parents_inv_turn:
  assumes g: "graph_ok g"
    and inv: "search_inv (edges_from Forward g) (nextNodeOf Forward g) pred start s"
    and p: "parents_inv g pred start s" and ne: "visitStack s \<noteq> []"
  shows "parents_inv g pred start (dfs_turn (edges_from Forward g) (nextNodeOf Forward g) pred (path_visitor g) s)"
    (is "parents_inv g pred start ?s")
proof -
  obtain n es st where s: "visitStack s = (n, es) # st"
    using ne by (metis list.exhaust surj_pair)
  obtain m where m: "vstate s = Some m" "dom m = visitedNodes s - {start}"
    and fol: "\<And>n p. m n = Some p \<Longrightarrow> follows (edges_from Forward g) (nextNodeOf Forward g) pred p n"
    and bk: "\<And>n. n \<in> visitedNodes s - {start} \<Longrightarrow> \<exists>q. ancestry m start n q"
    using p by (auto simp: parents_inv_def)
  show ?thesis
  proof (cases "\<exists>e es'. es = e # es' \<and> pred e \<and> etgt g e \<notin> visitedNodes s")
    case False
    then have "vstate ?s = vstate s \<and> visitedNodes ?s = visitedNodes s"
      by (auto simp: dfs_turn_def s path_visitor_def nextNodeOf_def Let_def split: list.splits)
    then show ?thesis
      using p by (simp add: parents_inv_def)
  next
    case True
    then obtain e es' where e: "es = e # es'" "pred e" "etgt g e \<notin> visitedNodes s" by blast
    let ?t = "etgt g e"
    have "e \<in> set (outEdges g n)"
      using search_inv_top(1) [OF inv s] e(1) by (simp add: edges_from_def)
    then have src: "esrc g e = n" and fol_e: "follows (edges_from Forward g) (nextNodeOf Forward g) pred n ?t"
      using edges_okD(3) [OF graph_okD(1) [OF g], of e n] e(2)
      by (auto simp: follows_def edges_from_def nextNodeOf_def)
    have nV: "n \<in> visitedNodes s" and sV: "start \<in> visitedNodes s"
      using search_inv_top(2,3) [OF inv s] by simp_all
    have fresh: "m ?t = None" "?t \<noteq> start"
      using m(2) e(3) sV by auto
    let ?m = "m(?t \<mapsto> n)"
    have new: "vstate ?s = Some ?m" "visitedNodes ?s = insert ?t (visitedNodes s)"
      using e fresh(1) m(1) by (simp_all add: dfs_turn_def s path_visitor_def nextNodeOf_def Let_def path_visitEdge_def src)
    have le: "m \<subseteq>\<^sub>m ?m"
      using fresh(1) by (auto simp: map_le_def)
    have "\<exists>q. ancestry ?m start ?t q"
    proof (cases "n = start")
      case True
      then show ?thesis by (intro exI [of _ "[start]"] ancestry_start) simp
    next
      case False
      then obtain q where "ancestry m start n q"
        using bk nV by blast
      then show ?thesis
        using False ancestry_mono [OF _ le] by (intro exI [of _ "n # q"] ancestry_step) auto
    qed
    moreover have "\<exists>q. ancestry ?m start k q" if "k \<in> visitedNodes s - {start}" for k
      using bk [OF that] ancestry_mono [OF _ le] by blast
    moreover have "dom ?m = visitedNodes ?s - {start}"
      using m(2) fresh(2) new(2) by auto
    ultimately show ?thesis
      unfolding parents_inv_def new using fol fol_e by auto
  qed
qed

text \<open>Where the search can go from a node.\<close>

abbreviation reaches :: "'c ngraph \<Rightarrow> (nat \<Rightarrow> bool) \<Rightarrow> nat \<Rightarrow> nat \<Rightarrow> bool" where
  "reaches g pred \<equiv> (follows (edges_from Forward g) (nextNodeOf Forward g) pred)\<^sup>*\<^sup>*"

lemma find_path_spec:
  assumes g: "graph_ok g"
  shows "\<exists>path. find_path g pred start fin = Some path \<and>
     (if fin \<noteq> start \<and> reaches g pred start fin
      then path \<noteq> [] \<and> hd path = start \<and> last path = fin \<and> distinct path \<and>
        walk (follows (edges_from Forward g) (nextNodeOf Forward g) pred) path
      else path = [])"
proof -
  have "\<exists>s. depthFirstSearch Forward g pred (path_visitor g) start (Some Map.empty) = Some s \<and> visitStack s = [] \<and>
      parents_inv g pred start s \<and> visitedNodes s = {n. reaches g pred start n}"
  proof (rule depthFirstSearch_rule [where Inv = "parents_inv g pred start", OF g])
    show "parents_inv g pred start (dfs_setup (edges_from Forward g) (path_visitor g) start (Some Map.empty))"
      by (simp add: parents_inv_def dfs_setup_def path_visitor_def)
  qed (rule parents_inv_turn [OF g])
  then obtain s where run: "depthFirstSearch Forward g pred (path_visitor g) start (Some Map.empty) = Some s"
    and vis: "visitedNodes s = {n. reaches g pred start n}" and p: "parents_inv g pred start s"
    by blast
  obtain m where m: "vstate s = Some m" "dom m = visitedNodes s - {start}"
    and fol: "\<And>n p. m n = Some p \<Longrightarrow> follows (edges_from Forward g) (nextNodeOf Forward g) pred p n"
    and bk: "\<And>n. n \<in> visitedNodes s - {start} \<Longrightarrow> \<exists>q. ancestry m start n q"
    using p unfolding parents_inv_def by (elim exE conjE) simp
  have eq: "find_path g pred start fin = buildPath m start fin"
    by (simp add: find_path_def run m(1))
  show ?thesis
  proof (cases "fin \<noteq> start \<and> reaches g pred start fin")
    case True
    then obtain q where q: "ancestry m start fin q"
      using bk vis by blast
    have "m fin \<noteq> None"
      using True m(2) vis by auto
    then have "buildPath m start fin = Some (rev (fin # q))"
      using True trace_back_back [OF q, of "[fin]"] by (auto simp: buildPath_def)
    moreover have "distinct (rev (fin # q))" "walk (follows (edges_from Forward g) (nextNodeOf Forward g) pred) (rev (fin # q))"
      using ancestry_distinct [OF q] True ancestry_walk [OF q fol] by simp_all
    moreover have "hd (rev (fin # q)) = start" "last (rev (fin # q)) = fin"
      using ancestry_last [OF q] by (simp_all add: hd_rev hd_append)
    ultimately show ?thesis
      using True eq by auto
  next
    case False
    then have "m fin = None"
      using m(2) vis by (metis Diff_iff domIff mem_Collect_eq singletonI)
    then show ?thesis
      using False eq by (simp add: buildPath_def)
  qed
qed

section \<open>Properties\<close>

text \<open>
  C17. \<open>PathFinder::find\<close> (and \<open>findComb\<close>, which leaves out edges into state nodes) always returns. For two
  different nodes the result is empty exactly when no path of enabled edges joins them; otherwise it starts
  at the first node, ends at the second, repeats no node, and consecutive nodes are joined by enabled edges.
  From a node to itself the result is always empty.
\<close>

theorem findPath_correct:
  assumes "graph_ok g"
  shows "\<exists>path comb. findPath g start fin = Some path \<and> findComb g start fin = Some comb \<and>
     (if fin \<noteq> start \<and> reaches g (edge_enabled g) start fin
      then path \<noteq> [] \<and> hd path = start \<and> last path = fin \<and> distinct path \<and>
        walk (follows (outEdges g) (etgt g) (edge_enabled g)) path
      else path = []) \<and>
     (if fin \<noteq> start \<and> reaches g (comb_edge g) start fin
      then comb \<noteq> [] \<and> hd comb = start \<and> last comb = fin \<and> distinct comb \<and>
        walk (follows (outEdges g) (etgt g) (comb_edge g)) comb
      else comb = [])"
proof -
  have fwd: "edges_from Forward g = outEdges g" "nextNodeOf Forward g = etgt g"
    by (simp_all add: edges_from_def nextNodeOf_def fun_eq_iff)
  obtain path comb where p: "findPath g start fin = Some path" and c: "findComb g start fin = Some comb"
    and path: "if fin \<noteq> start \<and> reaches g (edge_enabled g) start fin
      then path \<noteq> [] \<and> hd path = start \<and> last path = fin \<and> distinct path \<and>
        walk (follows (outEdges g) (etgt g) (edge_enabled g)) path
      else path = []"
    and comb: "if fin \<noteq> start \<and> reaches g (comb_edge g) start fin
      then comb \<noteq> [] \<and> hd comb = start \<and> last comb = fin \<and> distinct comb \<and>
        walk (follows (outEdges g) (etgt g) (comb_edge g)) comb
      else comb = []"
    using find_path_spec [OF assms, of "edge_enabled g" start fin]
      find_path_spec [OF assms, of "comb_edge g" start fin]
    unfolding findPath_def findComb_def fwd by blast
  show ?thesis
    by (intro exI conjI) (rule p, rule c, rule path, rule comb)
qed

text \<open>A small graph: variables 0 and 1, an edge from 0 to 1 and one from 1 to 0.\<close>

definition var_node :: "nat \<Rightarrow> string \<Rightarrow> unit netlist_node" where
  "var_node i name = \<lparr>ID = i, node_data = Variable name name no_location (mk_range 0 0)\<rparr>"

definition two_vars :: "unit ngraph" where
  "two_vars = snd (addNode (var_node 2 ''b'') (snd (addNode (var_node 1 ''a'') empty_digraph)))"

definition var_loop :: "unit ngraph" where
  "var_loop = with_edge new_edge 1 0 (with_edge new_edge 0 1 two_vars)"

lemma two_vars_ok: "graph_ok two_vars" "nodes two_vars = [0, 1]"
proof -
  show "graph_ok two_vars"
    unfolding two_vars_def by (intro addNode_ok graph_ok_empty)
  show "nodes two_vars = [0, 1]"
    by (simp add: two_vars_def addNode_def empty_digraph_def)
qed

lemma with_edge_nodes_same [simp]: "nodes (with_edge d s t g) = nodes g"
  by (simp add: with_edge_def)

lemma var_loop_ok: "graph_ok var_loop" "nodes var_loop = [0, 1]"
  unfolding var_loop_def by (simp_all add: with_edge_ok two_vars_ok)

theorem findPath_correct_witness:
  "\<exists>path comb. findPath var_loop 0 1 = Some path \<and> findComb var_loop 0 1 = Some comb \<and>
     hd path = 0 \<and> last path = 1 \<and> distinct path"
proof -
  have "follows (edges_from Forward var_loop) (nextNodeOf Forward var_loop) (edge_enabled var_loop) 0 1"
    unfolding follows_def by code_simp
  then have "reaches var_loop (edge_enabled var_loop) 0 1" by blast
  then show ?thesis
    using findPath_correct [OF var_loop_ok(1), of 0 1] by auto
qed

text \<open>
  The search from a node to itself returns no path even when the node lies on a cycle of enabled
  edges: the start node never gets a parent, so the case of equal nodes in \<open>buildPath\<close> is never reached.
\<close>

theorem findPath_to_itself_is_empty:
  "findPath var_loop 0 0 = Some [] \<and> findPath var_loop 0 1 = Some [0, 1] \<and> findPath var_loop 1 0 = Some [1, 0]"
  by code_simp

end
