(* ===== verification/Cycles.thy ===== *)
theory Cycles
  imports PathFinder
begin

text \<open>
  \<open>CycleDetector\<close> of \<^verbatim>\<open>source/CycleDetector.hpp\<close> and \<open>CombLoops\<close> of \<^verbatim>\<open>source/CombLoops.cpp\<close>: depth-first
  searches from the nodes of the graph that report a cycle whenever they meet a node of the current
  recursion stack. Every report is a cycle, and no report means there is no cycle; but not all cycles
  are reported.
\<close>

section \<open>Model\<close>

record cycle_state =
  recursionStack :: "nat list"
  cycles :: "nat list list"

text \<open>\<open>std::min_element\<close> by ID gives the first minimal position; \<open>std::rotate\<close> brings it to the front.\<close>

fun min_position :: "(nat \<Rightarrow> nat) \<Rightarrow> nat list \<Rightarrow> nat" where
  "min_position f [] = 0"
| "min_position f [x] = 0"
| "min_position f (x # y # ys) =
     (let k = min_position f (y # ys) in if f ((y # ys) ! k) < f x then Suc k else 0)"

definition canonicalise :: "'c ngraph \<Rightarrow> nat list \<Rightarrow> nat list" where
  "canonicalise g xs = (let k = min_position (nID g) xs in drop k xs @ take k xs)"

definition cycle_visitedNode :: "'c ngraph \<Rightarrow> nat \<Rightarrow> cycle_state \<Rightarrow> cycle_state" where
  "cycle_visitedNode g n v =
     (let cycleNodes = dropWhile (\<lambda>m. m \<noteq> n) (recursionStack v)
      in if cycleNodes \<noteq> [] then v\<lparr>cycles := cycles v @ [canonicalise g cycleNodes]\<rparr> else v)"

definition cycle_visitor :: "'c ngraph \<Rightarrow> cycle_state visitor" where
  "cycle_visitor g =
     \<lparr>visitedNode = cycle_visitedNode g,
      visitNode = (\<lambda>n v. v\<lparr>recursionStack := recursionStack v @ [n]\<rparr>),
      visitEdge = (\<lambda>_ v. v),
      popNode = (\<lambda>v. if recursionStack v \<noteq> [] then v\<lparr>recursionStack := butlast (recursionStack v)\<rparr> else v)\<rparr>"

text \<open>The final order: lexicographic by ID. The set of cycles is a list without repetitions.\<close>

fun lex_less :: "nat list \<Rightarrow> nat list \<Rightarrow> bool" where
  "lex_less [] ys = (ys \<noteq> [])"
| "lex_less (x # xs) [] = False"
| "lex_less (x # xs) (y # ys) = (x < y \<or> (x = y \<and> lex_less xs ys))"

fun insert_cycle :: "(nat \<Rightarrow> nat) \<Rightarrow> nat list \<Rightarrow> nat list list \<Rightarrow> nat list list" where
  "insert_cycle f c [] = [c]"
| "insert_cycle f c (d # ds) = (if lex_less (map f d) (map f c) then d # insert_cycle f c ds else c # d # ds)"

record detect_state =
  det_visited :: "nat set"
  det_cycles :: "nat list list"

definition detect_from :: "'c ngraph \<Rightarrow> (nat \<Rightarrow> bool) \<Rightarrow> nat \<Rightarrow> detect_state \<Rightarrow> detect_state option" where
  "detect_from g pred n d =
     (if n \<in> det_visited d then Some d
      else map_option
        (\<lambda>s. \<lparr>det_visited = insert n (det_visited d) \<union> \<Union> (set ` set (cycles (vstate s))),
              det_cycles = fold List.insert (cycles (vstate s)) (det_cycles d)\<rparr>)
        (depthFirstSearch Forward g pred (cycle_visitor g) n \<lparr>recursionStack = [], cycles = []\<rparr>))"

definition detectCycles :: "'c ngraph \<Rightarrow> (nat \<Rightarrow> bool) \<Rightarrow> nat list list option" where
  "detectCycles g pred =
     map_option (\<lambda>d. fold (insert_cycle (nID g)) (det_cycles d) [])
       (fold (\<lambda>n acc. and_then acc (detect_from g pred n)) (nodes g)
         (Some \<lparr>det_visited = {}, det_cycles = []\<rparr>))"

definition getAllLoops :: "'c ngraph \<Rightarrow> nat list list option" where
  "getAllLoops g = detectCycles g (comb_edge g)"

section \<open>Cycles and rotation\<close>

definition is_cycle :: "(nat \<Rightarrow> nat \<Rightarrow> bool) \<Rightarrow> nat list \<Rightarrow> bool" where
  "is_cycle r c \<longleftrightarrow> c \<noteq> [] \<and> distinct c \<and> walk r c \<and> r (last c) (hd c)"

lemma walk_append:
  "walk r (xs @ ys) \<longleftrightarrow> walk r xs \<and> walk r ys \<and> (xs \<noteq> [] \<and> ys \<noteq> [] \<longrightarrow> r (last xs) (hd ys))"
  by (induction r xs rule: walk.induct) (cases ys; auto)+

lemma is_cycle_rotate: "is_cycle r (xs @ ys) \<Longrightarrow> is_cycle r (ys @ xs)"
  by (cases "xs = []"; cases "ys = []") (auto simp: is_cycle_def walk_append)

lemma canonicalise_cycle: "is_cycle r c \<Longrightarrow> is_cycle r (canonicalise g c)"
  using is_cycle_rotate [of r "take k c" "drop k c" for k] by (simp add: canonicalise_def Let_def)

lemma min_position_le: "xs \<noteq> [] \<Longrightarrow> min_position f xs < length xs \<and> (\<forall>x \<in> set xs. f (xs ! min_position f xs) \<le> f x)"
  by (induction f xs rule: min_position.induct) (auto simp: Let_def)

lemma canonicalise_min: "xs \<noteq> [] \<Longrightarrow> x \<in> set (canonicalise g xs) \<Longrightarrow> nID g (hd (canonicalise g xs)) \<le> nID g x"
proof -
  assume ne: "xs \<noteq> []" and x: "x \<in> set (canonicalise g xs)"
  let ?k = "min_position (nID g) xs"
  have k: "?k < length xs" "\<forall>y \<in> set xs. nID g (xs ! ?k) \<le> nID g y"
    using min_position_le [OF ne] by auto
  have "hd (canonicalise g xs) = xs ! ?k"
    using k(1) by (simp add: canonicalise_def Let_def hd_append hd_drop_conv_nth)
  moreover have "x \<in> set xs"
    using x by (auto simp: canonicalise_def Let_def dest: in_set_dropD in_set_takeD)
  ultimately show ?thesis
    using k(2) by simp
qed

lemma cycle_trancl: "is_cycle r c \<Longrightarrow> x \<in> set c \<Longrightarrow> r\<^sup>+\<^sup>+ x x"
proof -
  assume c: "is_cycle r c" and x: "x \<in> set c"
  obtain xs ys where "c = xs @ x # ys"
    using x split_list by fastforce
  then have "is_cycle r (x # ys @ xs)"
    using is_cycle_rotate [of r xs "x # ys"] c by simp
  moreover have "walk r (y # zs) \<Longrightarrow> r\<^sup>*\<^sup>* y (last (y # zs))" for y zs
    by (induction zs arbitrary: y) (auto intro: converse_rtranclp_into_rtranclp)
  ultimately show ?thesis
    unfolding is_cycle_def by (metis list.sel(1) rtranclp_into_tranclp1)
qed

section \<open>One search\<close>

text \<open>The edges consumed at a stack node lead to finished nodes or to the node above it.\<close>

fun stack_ok ::
  "(nat \<Rightarrow> nat list) \<Rightarrow> (nat \<Rightarrow> nat) \<Rightarrow> (nat \<Rightarrow> bool) \<Rightarrow> nat set \<Rightarrow> nat option \<Rightarrow> (nat \<times> nat list) list \<Rightarrow> bool" where
  "stack_ok adj nxt pred finished upn [] = True"
| "stack_ok adj nxt pred finished upn ((n, es) # st) =
     ((\<exists>done. adj n = done @ es \<and>
        (\<forall>e \<in> set done. pred e \<longrightarrow> nxt e \<in> finished \<or> Some (nxt e) = upn)) \<and>
      stack_ok adj nxt pred finished (Some n) st)"

text \<open>Finished nodes in their order: all successors come earlier.\<close>

definition topological :: "(nat \<Rightarrow> nat \<Rightarrow> bool) \<Rightarrow> nat list \<Rightarrow> bool" where
  "topological r L \<longleftrightarrow> (\<forall>i < length L. \<forall>m. r (L ! i) m \<longrightarrow> m \<in> set (take i L))"

definition cycle_inv ::
  "(nat \<Rightarrow> nat list) \<Rightarrow> (nat \<Rightarrow> nat) \<Rightarrow> (nat \<Rightarrow> bool) \<Rightarrow> cycle_state dfs_state \<Rightarrow> bool" where
  "cycle_inv adj nxt pred s \<longleftrightarrow>
     recursionStack (vstate s) = rev (map fst (visitStack s)) \<and>
     walk (follows adj nxt pred) (rev (map fst (visitStack s))) \<and>
     (\<forall>c \<in> set (cycles (vstate s)). is_cycle (follows adj nxt pred) c) \<and>
     (cycles (vstate s) = [] \<longrightarrow>
        (\<exists>L. set L = visitedNodes s - fst ` set (visitStack s) \<and> topological (follows adj nxt pred) L \<and>
             stack_ok adj nxt pred (set L) None (visitStack s)))"

lemma topological_snoc:
  "topological r L \<Longrightarrow> (\<And>m. r n m \<Longrightarrow> m \<in> set L) \<Longrightarrow> topological r (L @ [n])"
  by (auto simp: topological_def nth_append less_Suc_eq)

lemma topological_acyclic:
  assumes "topological r L" "a \<in> set L"
  shows "\<not> r\<^sup>+\<^sup>+ a a"
proof
  have step: "r\<^sup>+\<^sup>+ a b \<Longrightarrow> i < length L \<Longrightarrow> L ! i = a \<Longrightarrow> \<exists>j < i. L ! j = b" for a b i
  proof (induction arbitrary: i rule: tranclp_induct)
    case (base b)
    then have "b \<in> set (take i L)"
      using assms(1) by (auto simp: topological_def)
    then show ?case by (auto simp: in_set_conv_nth)
  next
    case (step b c)
    then obtain j where j: "j < i" "L ! j = b" by blast
    then have "c \<in> set (take j L)"
      using assms(1) step by (auto simp: topological_def)
    then obtain k where "k < j" "L ! k = c" by (auto simp: in_set_conv_nth)
    then show ?case using j(1) by (intro exI [of _ k]) simp
  qed
  assume loop: "r\<^sup>+\<^sup>+ a a"
  have "i < length L \<Longrightarrow> L ! i \<noteq> a" for i
  proof (induction i rule: less_induct)
    case (less i)
    then show ?case using step [OF loop, of i] by fastforce
  qed
  then show False
    using assms(2) by (metis in_set_conv_nth)
qed

lemma stack_ok_mono:
  "stack_ok adj nxt pred F upn st \<Longrightarrow> F \<subseteq> F' \<Longrightarrow> stack_ok adj nxt pred F' upn st"
  by (induction st arbitrary: upn) (auto, blast)

lemma stack_ok_pop:
  "stack_ok adj nxt pred F (Some n) st \<Longrightarrow> stack_ok adj nxt pred (insert n F) None st"
proof (cases st)
  case (Cons x ys)
  obtain a es where x: "x = (a, es)" by (cases x)
  assume "stack_ok adj nxt pred F (Some n) st"
  then have d: "\<exists>done. adj a = done @ es \<and> (\<forall>e \<in> set done. pred e \<longrightarrow> nxt e \<in> F \<or> nxt e = n)"
    and rest: "stack_ok adj nxt pred F (Some a) ys"
    by (simp_all add: Cons x)
  have "\<exists>done. adj a = done @ es \<and> (\<forall>e \<in> set done. pred e \<longrightarrow> nxt e \<in> insert n F)"
    using d by blast
  then show ?thesis
    using stack_ok_mono [OF rest subset_insertI [of F n]] by (simp add: Cons x)
qed simp

lemma cycle_inv_setup: "cycle_inv adj nxt pred (dfs_setup adj (cycle_visitor g) start \<lparr>recursionStack = [], cycles = []\<rparr>)"
  by (auto simp: cycle_inv_def dfs_setup_def cycle_visitor_def topological_def)

lemma cycle_inv_turn:
  assumes inv: "search_inv adj nxt pred start s" and cyc: "cycle_inv adj nxt pred s" and ne: "visitStack s \<noteq> []"
  shows "cycle_inv adj nxt pred (dfs_turn adj nxt pred (cycle_visitor g) s)"
    (is "cycle_inv adj nxt pred ?s")
proof -
  let ?r = "follows adj nxt pred"
  obtain n es st where s: "visitStack s = (n, es) # st"
    using ne by (metis list.exhaust surj_pair)
  note top = search_inv_top [OF inv s]
  have rs: "recursionStack (vstate s) = rev (map fst st) @ [n]" and wlk: "walk ?r (rev (map fst st) @ [n])"
    and cs: "\<And>c. c \<in> set (cycles (vstate s)) \<Longrightarrow> is_cycle ?r c"
    using cyc by (simp_all add: cycle_inv_def s)
  have dist: "distinct (rev (map fst st) @ [n])"
    using inv by (simp add: search_inv_def s)
  have ghost: "\<exists>L dn. set L = visitedNodes s - insert n (fst ` set st) \<and> topological ?r L \<and>
      adj n = dn @ es \<and> (\<forall>e \<in> set dn. pred e \<longrightarrow> nxt e \<in> set L) \<and> stack_ok adj nxt pred (set L) (Some n) st"
    if "cycles (vstate s) = []"
    using cyc that by (auto simp: cycle_inv_def s)
  show ?thesis
  proof (cases es)
    case Nil
    have new: "visitStack ?s = st" "visitedNodes ?s = visitedNodes s"
      "recursionStack (vstate ?s) = rev (map fst st)" "cycles (vstate ?s) = cycles (vstate s)"
      by (simp_all add: dfs_turn_def s Nil cycle_visitor_def rs)
    have "\<exists>L. set L = visitedNodes s - fst ` set st \<and> topological ?r L \<and> stack_ok adj nxt pred (set L) None st"
      if none: "cycles (vstate s) = []"
    proof -
      obtain L dn where L: "set L = visitedNodes s - insert n (fst ` set st)" "topological ?r L"
        "adj n = dn" "\<forall>e \<in> set dn. pred e \<longrightarrow> nxt e \<in> set L" "stack_ok adj nxt pred (set L) (Some n) st"
        using ghost [OF none] Nil by auto
      have "topological ?r (L @ [n])"
        using L(3,4) by (intro topological_snoc [OF L(2)]) (auto simp: follows_def)
      moreover have "stack_ok adj nxt pred (set (L @ [n])) None st"
        using stack_ok_pop [OF L(5)] by simp
      moreover have "set (L @ [n]) = visitedNodes s - fst ` set st"
        using L(1) top(2,4) by auto
      ultimately show ?thesis by blast
    qed
    then show ?thesis
      unfolding cycle_inv_def new using wlk cs by (auto simp: walk_append)
  next
    case (Cons e es')
    have e: "e \<in> set (adj n)"
      using top(1) Cons by auto
    show ?thesis
    proof (cases "pred e")
      case False
      have new: "visitStack ?s = (n, es') # st" "visitedNodes ?s = visitedNodes s" "vstate ?s = vstate s"
        using False by (simp_all add: dfs_turn_def s Cons)
      have "\<exists>L. set L = visitedNodes s - insert n (fst ` set st) \<and> topological ?r L \<and>
          stack_ok adj nxt pred (set L) None ((n, es') # st)" if none: "cycles (vstate s) = []"
      proof -
        obtain L dn where L: "set L = visitedNodes s - insert n (fst ` set st)" "topological ?r L"
          "adj n = dn @ e # es'" "\<forall>e \<in> set dn. pred e \<longrightarrow> nxt e \<in> set L" "stack_ok adj nxt pred (set L) (Some n) st"
          using ghost [OF none] Cons by auto
        have "stack_ok adj nxt pred (set L) None ((n, es') # st)"
          using L(3-5) False by (auto intro!: exI [of _ "dn @ [e]"])
        then show ?thesis using L(1,2) by blast
      qed
      then show ?thesis
        unfolding cycle_inv_def new using wlk cs rs by simp
    next
      case True
      have fol: "?r n (nxt e)"
        using True e by (auto simp: follows_def)
      show ?thesis
      proof (cases "nxt e \<in> visitedNodes s")
        case visited: True
        have new: "visitStack ?s = (n, es') # st" "visitedNodes ?s = visitedNodes s"
          "vstate ?s = cycle_visitedNode g (nxt e) (vstate s)"
          using True visited by (simp_all add: dfs_turn_def s Cons cycle_visitor_def Let_def)
        let ?c = "dropWhile (\<lambda>m. m \<noteq> nxt e) (recursionStack (vstate s))"
        have cyc_new: "is_cycle ?r ?c" if "?c \<noteq> []"
        proof -
          obtain A where A: "recursionStack (vstate s) = A @ ?c"
            by (metis takeWhile_dropWhile_id)
          have "hd ?c = nxt e"
            using hd_dropWhile [OF that] by simp
          moreover have "last ?c = n"
            using A that rs by (metis last_appendR last_snoc)
          moreover have "walk ?r ?c" "distinct ?c"
            using wlk dist A rs by (metis walk_append, metis distinct_append)
          ultimately show ?thesis
            using fol that by (simp add: is_cycle_def)
        qed
        have rs': "recursionStack (vstate ?s) = rev (map fst st) @ [n]"
          by (simp add: new cycle_visitedNode_def Let_def rs)
        have cs': "is_cycle ?r c" if "c \<in> set (cycles (vstate ?s))" for c
          using that cs cyc_new canonicalise_cycle by (auto simp: new cycle_visitedNode_def Let_def split: if_splits)
        have "\<exists>L. set L = visitedNodes s - insert n (fst ` set st) \<and> topological ?r L \<and>
            stack_ok adj nxt pred (set L) None ((n, es') # st)" if none: "cycles (vstate ?s) = []"
        proof -
          have old: "cycles (vstate s) = []" and "?c = []"
            using none by (auto simp: new cycle_visitedNode_def Let_def split: if_splits)
          then have "nxt e \<notin> insert n (fst ` set st)"
            using rs by (auto simp: dropWhile_eq_Nil_conv)
          then have fin: "nxt e \<in> visitedNodes s - insert n (fst ` set st)"
            using visited by blast
          obtain L dn where L: "set L = visitedNodes s - insert n (fst ` set st)" "topological ?r L"
            "adj n = dn @ e # es'" "\<forall>e \<in> set dn. pred e \<longrightarrow> nxt e \<in> set L" "stack_ok adj nxt pred (set L) (Some n) st"
            using ghost [OF old] Cons by auto
          have "stack_ok adj nxt pred (set L) None ((n, es') # st)"
            using L(1,3-5) fin by (auto intro!: exI [of _ "dn @ [e]"])
          then show ?thesis using L(1,2) by blast
        qed
        then show ?thesis
          unfolding cycle_inv_def new(1,2) rs' using wlk cs' by simp
      next
        case fresh: False
        have new: "visitStack ?s = (nxt e, adj (nxt e)) # (n, es') # st" "visitedNodes ?s = insert (nxt e) (visitedNodes s)"
          "recursionStack (vstate ?s) = (rev (map fst st) @ [n]) @ [nxt e]" "cycles (vstate ?s) = cycles (vstate s)"
          using True fresh by (simp_all add: dfs_turn_def s Cons cycle_visitor_def Let_def rs)
        have "walk ?r ((rev (map fst st) @ [n]) @ [nxt e])"
          using wlk fol by (subst walk_append) simp
        moreover have "\<exists>L. set L = insert (nxt e) (visitedNodes s) - insert (nxt e) (insert n (fst ` set st)) \<and>
            topological ?r L \<and> stack_ok adj nxt pred (set L) None ((nxt e, adj (nxt e)) # (n, es') # st)"
          if none: "cycles (vstate s) = []"
        proof -
          obtain L dn where L: "set L = visitedNodes s - insert n (fst ` set st)" "topological ?r L"
            "adj n = dn @ e # es'" "\<forall>e \<in> set dn. pred e \<longrightarrow> nxt e \<in> set L" "stack_ok adj nxt pred (set L) (Some n) st"
            using ghost [OF none] Cons by auto
          have "stack_ok adj nxt pred (set L) None ((nxt e, adj (nxt e)) # (n, es') # st)"
            using L(3-5) by (auto intro!: exI [of _ "dn @ [e]"])
          moreover have "set L = insert (nxt e) (visitedNodes s) - insert (nxt e) (insert n (fst ` set st))"
            using L(1) fresh by auto
          ultimately show ?thesis using L(2) by blast
        qed
        ultimately show ?thesis
          unfolding cycle_inv_def new using cs by simp
      qed
    qed
  qed
qed

lemma cycle_search:
  assumes "graph_ok g"
    and r_def: "r = follows (edges_from Forward g) (nextNodeOf Forward g) pred"
  shows "\<exists>s. depthFirstSearch Forward g pred (cycle_visitor g) n \<lparr>recursionStack = [], cycles = []\<rparr> = Some s \<and>
     (\<forall>c \<in> set (cycles (vstate s)). is_cycle r c) \<and>
     (cycles (vstate s) = [] \<longrightarrow> (\<forall>m. r\<^sup>*\<^sup>* n m \<longrightarrow> \<not> r\<^sup>+\<^sup>+ m m))"
proof -
  let ?Inv = "cycle_inv (edges_from Forward g) (nextNodeOf Forward g) pred"
  have "\<exists>s. depthFirstSearch Forward g pred (cycle_visitor g) n \<lparr>recursionStack = [], cycles = []\<rparr> = Some s \<and>
      visitStack s = [] \<and> ?Inv s \<and> visitedNodes s = {m. r\<^sup>*\<^sup>* n m}"
    unfolding r_def
    by (rule depthFirstSearch_rule [where Inv = ?Inv, OF assms(1) cycle_inv_turn cycle_inv_setup])
  then obtain s where s: "depthFirstSearch Forward g pred (cycle_visitor g) n \<lparr>recursionStack = [], cycles = []\<rparr> = Some s"
    "visitStack s = []" "?Inv s" "visitedNodes s = {m. r\<^sup>*\<^sup>* n m}" by blast
  have "\<not> r\<^sup>+\<^sup>+ m m" if none: "cycles (vstate s) = []" and m: "r\<^sup>*\<^sup>* n m" for m
  proof -
    obtain L where "set L = visitedNodes s" "topological r L"
      using s(2,3) none by (auto simp: cycle_inv_def r_def)
    then show ?thesis
      using topological_acyclic m s(4) by blast
  qed
  then show ?thesis
    using s(1,3) by (auto simp: cycle_inv_def r_def)
qed

section \<open>All searches\<close>

lemma set_insert_cycle: "set (insert_cycle f c ds) = insert c (set ds)"
  by (induction f c ds rule: insert_cycle.induct) auto

lemma set_sort_cycles: "set (fold (insert_cycle f) cs ds) = set cs \<union> set ds"
  by (induction cs arbitrary: ds) (auto simp: set_insert_cycle)

lemma set_fold_List_insert: "set (fold List.insert xs ys) = set xs \<union> set ys"
  by (induction xs arbitrary: ys) auto

definition detect_inv :: "(nat \<Rightarrow> nat \<Rightarrow> bool) \<Rightarrow> nat set \<Rightarrow> detect_state \<Rightarrow> bool" where
  "detect_inv r D d \<longleftrightarrow> (\<forall>c \<in> set (det_cycles d). is_cycle r c) \<and>
     (det_cycles d = [] \<longrightarrow> det_visited d \<subseteq> D \<and> (\<forall>n \<in> D. \<not> r\<^sup>+\<^sup>+ n n))"

lemma detect_from_ok:
  assumes g: "graph_ok g" and r: "r = follows (edges_from Forward g) (nextNodeOf Forward g) pred"
    and inv: "detect_inv r D d"
  shows "\<exists>d'. detect_from g pred n d = Some d' \<and> detect_inv r (insert n D) d'"
proof (cases "n \<in> det_visited d")
  case True
  then show ?thesis
    using inv by (intro exI [of _ d]) (auto simp: detect_from_def detect_inv_def)
next
  case False
  from cycle_search [OF g r, of n] obtain s where
    run: "depthFirstSearch Forward g pred (cycle_visitor g) n \<lparr>recursionStack = [], cycles = []\<rparr> = Some s"
    and cs: "\<forall>c \<in> set (cycles (vstate s)). is_cycle r c"
    and none: "cycles (vstate s) = [] \<longrightarrow> (\<forall>m. r\<^sup>*\<^sup>* n m \<longrightarrow> \<not> r\<^sup>+\<^sup>+ m m)" by blast
  let ?d = "\<lparr>det_visited = insert n (det_visited d) \<union> \<Union> (set ` set (cycles (vstate s))),
              det_cycles = fold List.insert (cycles (vstate s)) (det_cycles d)\<rparr>"
  have set: "set (det_cycles ?d) = set (cycles (vstate s)) \<union> set (det_cycles d)"
    by (simp add: set_fold_List_insert)
  have "det_cycles ?d = [] \<Longrightarrow> cycles (vstate s) = [] \<and> det_cycles d = []"
    using set by (metis Un_empty set_empty)
  then have "detect_inv r (insert n D) ?d"
    using inv cs none set unfolding detect_inv_def by auto
  then show ?thesis
    using run False by (simp add: detect_from_def)
qed

lemma detect_fold_ok:
  assumes g: "graph_ok g" and r: "r = follows (edges_from Forward g) (nextNodeOf Forward g) pred"
  shows "detect_inv r D d \<Longrightarrow>
     \<exists>d'. fold (\<lambda>n acc. and_then acc (detect_from g pred n)) ns (Some d) = Some d' \<and> detect_inv r (set ns \<union> D) d'"
proof (induction ns arbitrary: d D)
  case (Cons n ns)
  obtain d1 where "detect_from g pred n d = Some d1" "detect_inv r (insert n D) d1"
    using detect_from_ok [OF g r Cons.prems] by blast
  then show ?case
    using Cons.IH [of "insert n D" d1] by simp
qed simp

lemma detectCycles_ok:
  assumes g: "graph_ok g" and r: "r = follows (edges_from Forward g) (nextNodeOf Forward g) pred"
  shows "\<exists>res. detectCycles g pred = Some res \<and> (\<forall>c \<in> set res. is_cycle r c) \<and>
     (res = [] \<longleftrightarrow> (\<forall>n. \<not> r\<^sup>+\<^sup>+ n n))"
proof -
  have "detect_inv r {} \<lparr>det_visited = {}, det_cycles = []\<rparr>"
    by (simp add: detect_inv_def)
  from detect_fold_ok [OF g r this, of "nodes g"] obtain d where
    run: "fold (\<lambda>n acc. and_then acc (detect_from g pred n)) (nodes g) (Some \<lparr>det_visited = {}, det_cycles = []\<rparr>) = Some d"
    and d: "detect_inv r (set (nodes g)) d" by auto
  let ?res = "fold (insert_cycle (nID g)) (det_cycles d) []"
  have set: "set ?res = set (det_cycles d)"
    by (simp add: set_sort_cycles)
  have sound: "\<forall>c \<in> set ?res. is_cycle r c"
    using d set by (simp add: detect_inv_def)
  have in_graph: "r n m \<Longrightarrow> n \<in> set (nodes g)" for n m
    using edges_okD(3) [OF graph_okD(1) [OF g]] graph_okD(3) [OF g]
    by (auto simp: r follows_def edges_from_def nodes_ok_def)
  have "?res = [] \<longleftrightarrow> (\<forall>n. \<not> r\<^sup>+\<^sup>+ n n)"
  proof
    assume "?res = []"
    then have "det_cycles d = []"
      using set by (metis set_empty)
    then have "\<forall>n \<in> set (nodes g). \<not> r\<^sup>+\<^sup>+ n n"
      using d by (simp add: detect_inv_def)
    then show "\<forall>n. \<not> r\<^sup>+\<^sup>+ n n"
      using in_graph by (metis tranclpD)
  next
    assume acyclic: "\<forall>n. \<not> r\<^sup>+\<^sup>+ n n"
    have "c \<notin> set ?res" for c
      using sound acyclic cycle_trancl [of r c "hd c"] by (auto simp: is_cycle_def)
    then show "?res = []"
      by (metis list.set_intros(1) neq_Nil_conv)
  qed
  then show ?thesis
    using run sound by (simp add: detectCycles_def)
qed

section \<open>Properties\<close>

text \<open>
  C18. \<open>CombLoops::getAllLoops\<close> always returns; every reported loop is a list of different nodes, each
  joined to the next and the last to the first by enabled edges into non-state nodes; and nothing is reported
  exactly when no node reaches itself over such edges.
\<close>

theorem getAllLoops_correct:
  assumes "graph_ok g"
  shows "\<exists>res. getAllLoops g = Some res \<and>
     (\<forall>c \<in> set res. is_cycle (follows (outEdges g) (etgt g) (comb_edge g)) c) \<and>
     (res = [] \<longleftrightarrow> (\<forall>n. \<not> (follows (outEdges g) (etgt g) (comb_edge g))\<^sup>+\<^sup>+ n n))"
proof -
  have fwd: "edges_from Forward g = outEdges g" "nextNodeOf Forward g = etgt g"
    by (simp_all add: edges_from_def nextNodeOf_def fun_eq_iff)
  show ?thesis
    using detectCycles_ok [OF assms refl, of "comb_edge g"] unfolding getAllLoops_def fwd .
qed

theorem getAllLoops_correct_witness:
  "\<exists>res. getAllLoops var_loop = Some res \<and> res \<noteq> []"
proof -
  have e: "follows (outEdges var_loop) (etgt var_loop) (comb_edge var_loop) 0 1"
    "follows (outEdges var_loop) (etgt var_loop) (comb_edge var_loop) 1 0"
    unfolding follows_def by code_simp+
  then have "(follows (outEdges var_loop) (etgt var_loop) (comb_edge var_loop))\<^sup>+\<^sup>+ 0 0"
    by (meson tranclp.r_into_trancl tranclp.trancl_into_trancl)
  then show ?thesis
    using getAllLoops_correct [OF var_loop_ok(1)] by blast
qed

text \<open>
  Not every loop is reported: in the graph with edges 0 to 1, 1 to 2, 2 to 0 and 0 to 2 the nodes 0
  and 2 form a loop of their own, but only the loop through all three nodes is in the result.
\<close>

definition three_vars :: "unit ngraph" where
  "three_vars = with_edge new_edge 0 2 (with_edge new_edge 2 0 (with_edge new_edge 1 2 (with_edge new_edge 0 1
     (snd (addNode (var_node 3 ''c'') two_vars)))))"

theorem getAllLoops_misses_a_loop:
  "getAllLoops three_vars = Some [[0, 1, 2]] \<and>
   follows (outEdges three_vars) (etgt three_vars) (comb_edge three_vars) 0 2 \<and>
   follows (outEdges three_vars) (etgt three_vars) (comb_edge three_vars) 2 0"
  unfolding follows_def by code_simp

end
