(* ===== verification/Queries.thy ===== *)
theory Queries
  imports PathFinder Wildcard "HOL-Library.Product_Lexorder"
begin

text \<open>
  The queries of \<open>NetlistGraph\<close>, \<^verbatim>\<open>source/NetlistGraph.cpp\<close>: lookups by name through a cached index,
  drivers of a signal, combinational fan-in and fan-out, sensitivity, constant drivers, pattern search and
  black-box coverage. A query that fills the index returns the updated graph object.
\<close>

section \<open>Lookups\<close>

text \<open>
  The index, an unordered map from paths to nodes, is an association list in insertion order; nothing
  is proved about the order of its keys. It is built once and then kept.
\<close>

fun index_push :: "string \<Rightarrow> nat \<Rightarrow> (string \<times> nat list) list \<Rightarrow> (string \<times> nat list) list" where
  "index_push p n [] = [(p, [n])]"
| "index_push p n ((q, ns) # rest) = (if q = p then (q, ns @ [n]) # rest else (q, ns) # index_push p n rest)"

definition index_of_nodes :: "'c ngraph \<Rightarrow> (string \<times> nat list) list" where
  "index_of_nodes g =
     fold (\<lambda>n idx. case getHierarchicalPath (ndata g n) of None \<Rightarrow> idx | Some p \<Rightarrow> index_push p n idx) (nodes g) []"

definition buildIndex :: "'c netlist \<Rightarrow> 'c netlist" where
  "buildIndex N = (if nodeIndex N \<noteq> None then N else N\<lparr>nodeIndex := Some (index_of_nodes (dg N))\<rparr>)"

definition the_index :: "'c netlist \<Rightarrow> (string \<times> nat list) list" where
  "the_index N = (case nodeIndex N of None \<Rightarrow> [] | Some idx \<Rightarrow> idx)"

definition lookupAll :: "string \<Rightarrow> 'c netlist \<Rightarrow> nat list \<times> 'c netlist" where
  "lookupAll name N =
     (let N' = buildIndex N
      in (case map_of (the_index N') name of None \<Rightarrow> [] | Some ns \<Rightarrow> ns, N'))"

definition lookup :: "string \<Rightarrow> 'c netlist \<Rightarrow> nat option \<times> 'c netlist" where
  "lookup name N =
     (let N' = buildIndex N
      in (case map_of (the_index N') name of
            None \<Rightarrow> None | Some ns \<Rightarrow> if ns = [] then None else Some (ns ! 0), N'))"

definition lookupById :: "nat \<Rightarrow> 'c netlist \<Rightarrow> nat option" where
  "lookupById i N = List.find (\<lambda>n. nID (dg N) n = i) (nodes (dg N))"

definition lookupRange :: "range_lib \<Rightarrow> string \<Rightarrow> bit_range \<Rightarrow> 'c netlist \<Rightarrow> nat list \<times> 'c netlist" where
  "lookupRange R name r N =
     (let N' = buildIndex N
      in (case map_of (the_index N') name of
            None \<Rightarrow> []
          | Some ns \<Rightarrow> filter (\<lambda>n. case getBounds (ndata (dg N') n) of None \<Rightarrow> False | Some b \<Rightarrow> overlaps_of R b r) ns, N'))"

definition findNodes :: "string \<Rightarrow> 'c netlist \<Rightarrow> nat list \<times> 'c netlist" where
  "findNodes pattern N =
     (let N' = buildIndex N
      in (concat (map (\<lambda>(name, ns). if wildcardMatch name pattern then ns else []) (the_index N')), N'))"

text \<open>\<open>regex_match\<close> is the standard library's, as a predicate on a compiled pattern and a name.\<close>

definition findNodesRegex :: "(string \<Rightarrow> string \<Rightarrow> bool) \<Rightarrow> string \<Rightarrow> 'c netlist \<Rightarrow> nat list \<times> 'c netlist" where
  "findNodesRegex regex_match pattern N =
     (let N' = buildIndex N
      in (concat (map (\<lambda>(name, ns). if regex_match pattern name then ns else []) (the_index N')), N'))"

definition filterNodes :: "node_kind \<Rightarrow> 'c netlist \<Rightarrow> nat list" where
  "filterNodes k N = filter (\<lambda>n. nkind (dg N) n = k) (nodes (dg N))"

section \<open>Drivers of a signal\<close>

text \<open>All edges, in the order the nested loops visit them.\<close>

definition all_edges :: "'c ngraph \<Rightarrow> nat list" where
  "all_edges g = concat (map (outEdges g) (nodes g))"

definition carries :: "'c netlist \<Rightarrow> string \<Rightarrow> nat \<Rightarrow> bool" where
  "carries N name e = (symbol_path N e = Some name)"

definition add_seen :: "nat \<Rightarrow> nat list \<Rightarrow> nat list" where
  "add_seen n res = (if n \<in> set res then res else res @ [n])"

definition graph_getDrivers :: "range_lib \<Rightarrow> string \<Rightarrow> bit_range \<Rightarrow> 'c netlist \<Rightarrow> nat list" where
  "graph_getDrivers R name r N =
     fold (\<lambda>e res. if \<not> carries N name e then res
             else if \<not> overlaps_of R (bounds (einfo (dg N) e)) r then res
             else add_seen (esrc (dg N) e) res)
       (all_edges (dg N)) []"

type_synonym bit_driver = "bit_range \<times> nat"

definition bd_key :: "range_lib \<Rightarrow> bit_driver \<Rightarrow> int \<times> int \<times> nat" where
  "bd_key R b = (lower_of R (fst b), upper_of R (fst b), snd b)"

text \<open>\<open>std::unique\<close> keeps the first of a run of equal elements.\<close>

fun unique_by :: "('a \<Rightarrow> 'k) \<Rightarrow> 'a list \<Rightarrow> 'a list" where
  "unique_by f [] = []"
| "unique_by f [x] = [x]"
| "unique_by f (x # y # ys) = (if f x = f y then unique_by f (x # ys) else x # unique_by f (y # ys))"

definition getBitDrivers :: "range_lib \<Rightarrow> string \<Rightarrow> bit_range \<Rightarrow> 'c netlist \<Rightarrow> bit_driver list" where
  "getBitDrivers R name r N =
     (let result = fold (\<lambda>e res. if \<not> carries N name e then res
             else case intersection R (bounds (einfo (dg N) e)) r of
                    None \<Rightarrow> res
                  | Some c \<Rightarrow> res @ [(c, esrc (dg N) e)])
           (all_edges (dg N)) []
      in unique_by (bd_key R) (sort_key (bd_key R) result))"

definition getAllBitDrivers :: "range_lib \<Rightarrow> string \<Rightarrow> 'c netlist \<Rightarrow> bit_driver list" where
  "getAllBitDrivers R name N = getBitDrivers R name (mk_range 0 2147483647) N"

definition hasSignal :: "string \<Rightarrow> 'c netlist \<Rightarrow> bool" where
  "hasSignal name N = list_ex (carries N name) (all_edges (dg N))"

section \<open>Fan-in and fan-out of a signal\<close>

text \<open>The worklist search: nodes with their depth, nodes seen, the result in discovery order.\<close>

record fan_state =
  fan_seen :: "nat set"
  fan_result :: "nat list"
  fan_work :: "(nat \<times> nat) list"

definition fan_add :: "nat \<Rightarrow> nat \<Rightarrow> fan_state \<Rightarrow> fan_state" where
  "fan_add n depth s =
     (if n \<in> fan_seen s then s
      else \<lparr>fan_seen = insert n (fan_seen s), fan_result = fan_result s @ [n], fan_work = fan_work s @ [(n, depth)]\<rparr>)"

definition fan_turn :: "(nat \<Rightarrow> bool) \<Rightarrow> (nat \<Rightarrow> nat list) \<Rightarrow> nat \<Rightarrow> fan_state \<Rightarrow> fan_state" where
  "fan_turn stop nbrs maxDepth s =
     (case fan_work s of
        [] \<Rightarrow> s
      | (n, depth) # work \<Rightarrow>
          (let s' = s\<lparr>fan_work := work\<rparr>
           in if (maxDepth \<noteq> 0 \<and> depth \<ge> maxDepth) \<or> stop n then s'
              else fold (\<lambda>m. fan_add m (depth + 1)) (nbrs n) s'))"

partial_function (option) fan_loop ::
  "(nat \<Rightarrow> bool) \<Rightarrow> (nat \<Rightarrow> nat list) \<Rightarrow> nat \<Rightarrow> fan_state \<Rightarrow> nat list option" where
  "fan_loop stop nbrs maxDepth s =
     (if fan_work s = [] then Some (fan_result s)
      else fan_loop stop nbrs maxDepth (fan_turn stop nbrs maxDepth s))"

declare fan_loop.simps [code]

definition fan_start :: "nat list \<Rightarrow> fan_state" where
  "fan_start ns = fold (\<lambda>n. fan_add n 0) ns \<lparr>fan_seen = {}, fan_result = [], fan_work = []\<rparr>"

definition in_neighbours :: "'c ngraph \<Rightarrow> nat \<Rightarrow> nat list" where
  "in_neighbours g n = map (esrc g) (filter (\<lambda>e. \<not> disabled (einfo g e)) (inEdges g n))"

definition out_neighbours :: "'c ngraph \<Rightarrow> nat \<Rightarrow> nat list" where
  "out_neighbours g n =
     map (etgt g) (filter (\<lambda>e. \<not> (disabled (einfo g e) \<or> nkind g (etgt g e) = KState)) (outEdges g n))"

definition getSignalCombFanIn :: "range_lib \<Rightarrow> string \<Rightarrow> bit_range \<Rightarrow> nat \<Rightarrow> 'c netlist \<Rightarrow> nat list option" where
  "getSignalCombFanIn R name r maxDepth N =
     fan_loop (\<lambda>n. nkind (dg N) n = KState) (in_neighbours (dg N)) maxDepth
       (fan_start (map snd (getBitDrivers R name r N)))"

definition signal_consumers :: "range_lib \<Rightarrow> string \<Rightarrow> bit_range \<Rightarrow> 'c netlist \<Rightarrow> nat list" where
  "signal_consumers R name r N =
     map (etgt (dg N))
       (filter (\<lambda>e. \<not> (disabled (einfo (dg N) e) \<or> \<not> carries N name e \<or> \<not> overlaps_of R (bounds (einfo (dg N) e)) r))
         (all_edges (dg N)))"

definition getSignalCombFanOut :: "range_lib \<Rightarrow> string \<Rightarrow> bit_range \<Rightarrow> nat \<Rightarrow> 'c netlist \<Rightarrow> nat list option" where
  "getSignalCombFanOut R name r maxDepth N =
     fan_loop (\<lambda>_. False) (out_neighbours (dg N)) maxDepth (fan_start (signal_consumers R name r N))"

section \<open>Fan-in and fan-out of a node\<close>

definition collect_visitor :: "(nat list) visitor" where
  "collect_visitor =
     \<lparr>visitedNode = (\<lambda>_ r. r), visitNode = (\<lambda>n r. r @ [n]), visitEdge = (\<lambda>_ r. r), popNode = (\<lambda>r. r)\<rparr>"

definition comb_edge_back :: "'c ngraph \<Rightarrow> nat \<Rightarrow> bool" where
  "comb_edge_back g e = (\<not> disabled (einfo g e) \<and> nkind g (esrc g e) \<noteq> KState)"

definition getCombFanOut :: "'c ngraph \<Rightarrow> nat \<Rightarrow> nat list option" where
  "getCombFanOut g n = map_option vstate (depthFirstSearch Forward g (comb_edge g) collect_visitor n [])"

definition getCombFanIn :: "'c ngraph \<Rightarrow> nat \<Rightarrow> nat list option" where
  "getCombFanIn g n = map_option vstate (depthFirstSearch Backward g (comb_edge_back g) collect_visitor n [])"

text \<open>The loop over the fan-in; it returns an empty list from inside when it meets a register or an undriven port.\<close>

fun constant_scan :: "'c ngraph \<Rightarrow> nat \<Rightarrow> nat list \<Rightarrow> nat list \<Rightarrow> nat list" where
  "constant_scan g node [] constants = constants"
| "constant_scan g node (n # ns) constants =
     (if n = node then constant_scan g node ns constants
      else case nkind g n of
             KConstant \<Rightarrow> constant_scan g node ns (constants @ [n])
           | KState \<Rightarrow> []
           | KPort \<Rightarrow> if \<not> isDriven g n then [] else constant_scan g node ns constants
           | _ \<Rightarrow> constant_scan g node ns constants)"

definition getConstantDrivers :: "'c ngraph \<Rightarrow> nat \<Rightarrow> nat list option" where
  "getConstantDrivers g node = map_option (\<lambda>fanIn. constant_scan g node fanIn []) (getCombFanIn g node)"

section \<open>Sensitivity\<close>

type_synonym sensitivity = "nat \<times> edge_kind"

definition collectFromState :: "'c ngraph \<Rightarrow> nat \<Rightarrow> sensitivity list \<Rightarrow> sensitivity list option" where
  "collectFromState g st res =
     require (nkind g st = KState)
       (Some (fold (\<lambda>e res. if disabled (einfo g e) \<or> edgeKind (einfo g e) = EdgeNone then res
                else if list_ex (\<lambda>x. fst x = esrc g e \<and> snd x = edgeKind (einfo g e)) res then res
                else res @ [(esrc g e, edgeKind (einfo g e))]) (inEdges g st) res))"

record sens_state =
  sens_visited :: "nat set"
  sens_stack :: "nat list"
  sens_result :: "sensitivity list"

definition sens_edge :: "'c ngraph \<Rightarrow> nat \<Rightarrow> sens_state option \<Rightarrow> sens_state option" where
  "sens_edge g e acc =
     and_then acc (\<lambda>s.
       if disabled (einfo g e) then Some s
       else if nkind g (etgt g e) = KState
       then map_option (\<lambda>res. s\<lparr>sens_result := res\<rparr>) (collectFromState g (etgt g e) (sens_result s))
       else if etgt g e \<in> sens_visited s then Some s
       else Some (s\<lparr>sens_visited := insert (etgt g e) (sens_visited s), sens_stack := sens_stack s @ [etgt g e]\<rparr>))"

definition sens_turn :: "'c ngraph \<Rightarrow> sens_state \<Rightarrow> sens_state option" where
  "sens_turn g s =
     (if sens_stack s = [] then Some s
      else fold (sens_edge g) (outEdges g (last (sens_stack s))) (Some (s\<lparr>sens_stack := butlast (sens_stack s)\<rparr>)))"

partial_function (option) sens_loop :: "'c ngraph \<Rightarrow> sens_state \<Rightarrow> sensitivity list option" where
  "sens_loop g s =
     (if sens_stack s = [] then Some (sens_result s)
      else Option.bind (sens_turn g s) (\<lambda>s'. sens_loop g s'))"

declare sens_loop.simps [code]

definition getSensitivity :: "'c ngraph \<Rightarrow> nat \<Rightarrow> sensitivity list option" where
  "getSensitivity g n =
     (if nkind g n = KState then collectFromState g n []
      else sens_loop g \<lparr>sens_visited = {n}, sens_stack = [n], sens_result = []\<rparr>)"

section \<open>Black boxes\<close>

datatype black_box_coverage = Outside | Boundary_of_box | Contained

fun coverage_scan :: "node_kind \<Rightarrow> string \<Rightarrow> string list \<Rightarrow> black_box_coverage \<Rightarrow> black_box_coverage" where
  "coverage_scan k path [] result = result"
| "coverage_scan k path (bb # bbs) result =
     (if take (length bb) path \<noteq> bb then coverage_scan k path bbs result
      else if length path = length bb then Contained
      else if path ! length bb \<noteq> CHR ''.'' then coverage_scan k path bbs result
      else if k = KPort \<and> CHR ''.'' \<notin> set (drop (length bb + 1) path)
      then coverage_scan k path bbs Boundary_of_box
      else Contained)"

definition getBlackBoxCoverage :: "nat \<Rightarrow> 'c netlist \<Rightarrow> black_box_coverage" where
  "getBlackBoxCoverage n N =
     (case getHierarchicalPath (ndata (dg N) n) of
        None \<Rightarrow> Outside
      | Some path \<Rightarrow> coverage_scan (nkind (dg N) n) path (blackBoxPaths N) Outside)"

end
