(* ===== verification/FanFacts.thy ===== *)
theory FanFacts
  imports Queries
begin

text \<open>
  The worklist search behind \<open>getSignalCombFanIn\<close> and \<open>getSignalCombFanOut\<close>: it ends, and finds exactly
  the nodes within the depth limit, each once.
\<close>

definition fan_step :: "(nat \<Rightarrow> bool) \<Rightarrow> (nat \<Rightarrow> nat list) \<Rightarrow> nat \<Rightarrow> nat \<Rightarrow> bool" where
  "fan_step stop nbrs n m \<longleftrightarrow> \<not> stop n \<and> m \<in> set (nbrs n)"

text \<open>The nodes found within \<open>maxDepth\<close> steps of the starts; 0 means no limit.\<close>

definition within :: "(nat \<Rightarrow> nat \<Rightarrow> bool) \<Rightarrow> nat \<Rightarrow> nat set \<Rightarrow> nat set" where
  "within r maxDepth S = {m. \<exists>k. (maxDepth = 0 \<or> k \<le> maxDepth) \<and> (\<exists>n \<in> S. (r ^^ k) n m)}"

section \<open>Adding neighbours\<close>

lemma fan_add_fold:
  "\<exists>new. distinct new \<and> set new = set ms - fan_seen s \<and>
     fold (\<lambda>m. fan_add m d) ms s =
       \<lparr>fan_seen = fan_seen s \<union> set ms, fan_result = fan_result s @ new, fan_work = fan_work s @ map (\<lambda>m. (m, d)) new\<rparr>"
proof (induction ms arbitrary: s)
  case Nil
  show ?case by (cases s) simp
next
  case (Cons m ms)
  show ?case
  proof (cases "m \<in> fan_seen s")
    case True
    with Cons.IH [of s] show ?thesis
      by (auto simp: fan_add_def insert_absorb)
  next
    case False
    let ?s = "fan_add m d s"
    have f: "fan_seen ?s = insert m (fan_seen s)" "fan_result ?s = fan_result s @ [m]" "fan_work ?s = fan_work s @ [(m, d)]"
      using False by (simp_all add: fan_add_def)
    obtain new where new: "distinct new" "set new = set ms - fan_seen ?s"
      "fold (\<lambda>m. fan_add m d) ms ?s =
         \<lparr>fan_seen = fan_seen ?s \<union> set ms, fan_result = fan_result ?s @ new, fan_work = fan_work ?s @ map (\<lambda>m. (m, d)) new\<rparr>"
      using Cons.IH [of ?s] by blast
    show ?thesis
      using False new(1,2) by (intro exI [of _ "m # new"]) (auto simp: new(3) f)
  qed
qed

section \<open>The invariant\<close>

definition fan_inv ::
  "(nat \<Rightarrow> nat \<Rightarrow> bool) \<Rightarrow> nat \<Rightarrow> nat set \<Rightarrow> (nat \<Rightarrow> nat) \<Rightarrow> fan_state \<Rightarrow> bool" where
  "fan_inv r maxDepth S dep s \<longleftrightarrow>
     fan_seen s = set (fan_result s) \<and> distinct (fan_result s) \<and> S \<subseteq> fan_seen s \<and> (\<forall>n \<in> S. dep n = 0) \<and>
     (\<forall>(n, d) \<in> set (fan_work s). n \<in> fan_seen s \<and> dep n = d) \<and> sorted (map snd (fan_work s)) \<and>
     (\<forall>n \<in> fan_seen s. fan_work s \<noteq> [] \<longrightarrow> dep n \<le> snd (hd (fan_work s)) + 1) \<and>
     (\<forall>n \<in> fan_seen s. (maxDepth = 0 \<or> dep n \<le> maxDepth) \<and> (\<exists>a \<in> S. (r ^^ dep n) a n)) \<and>
     (\<forall>n \<in> fan_seen s - fst ` set (fan_work s). (maxDepth = 0 \<or> dep n < maxDepth) \<longrightarrow>
        (\<forall>m. r n m \<longrightarrow> m \<in> fan_seen s \<and> dep m \<le> dep n + 1))"

lemma fan_inv_start: "\<exists>dep. fan_inv r maxDepth (set ns) dep (fan_start ns)"
proof -
  obtain new where new: "distinct new" "set new = set ns"
    "fan_start ns = \<lparr>fan_seen = set ns, fan_result = new, fan_work = map (\<lambda>m. (m, 0)) new\<rparr>"
    using fan_add_fold [where ms = ns and d = 0 and s = "\<lparr>fan_seen = {}, fan_result = [], fan_work = []\<rparr>"]
    by (auto simp: fan_start_def)
  have srt: "sorted (map snd (map (\<lambda>m. (m, 0::nat)) xs))" for xs :: "nat list"
    by (induction xs) auto
  have "fan_inv r maxDepth (set ns) (\<lambda>_. 0) (fan_start ns)"
    unfolding fan_inv_def new(3) fan_state.simps
  proof (intro conjI)
    show "sorted (map snd (map (\<lambda>m. (m, 0::nat)) new))" by (rule srt)
  qed (use new(1,2) in \<open>auto simp: image_image\<close>)
  then show ?thesis by blast
qed

lemma fan_inv_turn:
  assumes inv: "fan_inv (fan_step stop nbrs) maxDepth S dep s" and ne: "fan_work s \<noteq> []"
  shows "\<exists>dep'. fan_inv (fan_step stop nbrs) maxDepth S dep' (fan_turn stop nbrs maxDepth s)"
proof -
  let ?r = "fan_step stop nbrs"
  obtain n d w where w: "fan_work s = (n, d) # w"
    using ne by (metis list.exhaust surj_pair)
  note i = inv [unfolded fan_inv_def w]
  have work: "\<forall>(m, k) \<in> set ((n, d) # w). m \<in> fan_seen s \<and> dep m = k"
    using i by (elim conjE)
  then have n: "n \<in> fan_seen s" "dep n = d" and old: "\<And>m k. (m, k) \<in> set w \<Longrightarrow> m \<in> fan_seen s \<and> dep m = k"
    by auto
  have srt0: "sorted (map snd ((n, d) # w))"
    using i by (elim conjE)
  have sorted1: "sorted (map snd w)"
    using srt0 by simp
  have sorted2: "d \<le> k" if "(m, k) \<in> set w" for m k
    using srt0 that by force
  note sorted = sorted1 sorted2
  have "\<forall>m \<in> fan_seen s. (n, d) # w \<noteq> [] \<longrightarrow> dep m \<le> snd (hd ((n, d) # w)) + 1"
    using i by (elim conjE)
  then have deps: "\<And>m. m \<in> fan_seen s \<Longrightarrow> dep m \<le> d + 1"
    by simp
  have basic: "fan_seen s = set (fan_result s)" "distinct (fan_result s)" "S \<subseteq> fan_seen s" "\<And>m. m \<in> S \<Longrightarrow> dep m = 0"
    using i by auto
  have sound: "\<And>m. m \<in> fan_seen s \<Longrightarrow> (maxDepth = 0 \<or> dep m \<le> maxDepth) \<and> (\<exists>a \<in> S. (?r ^^ dep m) a m)"
    using i by blast
  have "\<forall>m \<in> fan_seen s - fst ` set ((n, d) # w). (maxDepth = 0 \<or> dep m < maxDepth) \<longrightarrow>
        (\<forall>k. ?r m k \<longrightarrow> k \<in> fan_seen s \<and> dep k \<le> dep m + 1)"
    using i by (elim conjE)
  then have fin: "\<And>m k. m \<in> fan_seen s \<Longrightarrow> m \<noteq> n \<Longrightarrow> m \<notin> fst ` set w \<Longrightarrow> maxDepth = 0 \<or> dep m < maxDepth \<Longrightarrow>
        ?r m k \<Longrightarrow> k \<in> fan_seen s \<and> dep k \<le> dep m + 1"
    by (metis Diff_iff fst_conv image_insert insert_iff list.simps(15))
  show ?thesis
  proof (cases "(maxDepth \<noteq> 0 \<and> d \<ge> maxDepth) \<or> stop n")
    case True
    then have turn: "fan_turn stop nbrs maxDepth s = s\<lparr>fan_work := w\<rparr>"
      by (simp add: fan_turn_def w)
    have hd: "w \<noteq> [] \<Longrightarrow> d \<le> snd (hd w)"
      using sorted(2) [of "fst (hd w)" "snd (hd w)"] by simp
    have "m \<in> fan_seen s \<Longrightarrow> w \<noteq> [] \<Longrightarrow> dep m \<le> snd (hd w) + 1" for m
      using deps [of m] hd by linarith
    moreover have "k \<in> fan_seen s \<and> dep k \<le> dep m + 1"
      if "m \<in> fan_seen s" "m \<notin> fst ` set w" "maxDepth = 0 \<or> dep m < maxDepth" "?r m k" for m k
      using fin [OF that(1) _ that(2-4)] True that n(2) by (cases "m = n") (auto simp: fan_step_def)
    ultimately show ?thesis
      using basic sorted old sound unfolding turn by (intro exI [of _ dep]) (auto simp: fan_inv_def)
  next
    case False
    obtain new where new: "distinct new" "set new = set (nbrs n) - fan_seen s"
      "fan_turn stop nbrs maxDepth s =
         \<lparr>fan_seen = fan_seen s \<union> set (nbrs n), fan_result = fan_result s @ new, fan_work = w @ map (\<lambda>m. (m, d + 1)) new\<rparr>"
      using fan_add_fold [where ms = "nbrs n" and d = "d + 1" and s = "s\<lparr>fan_work := w\<rparr>"] False
      by (auto simp: fan_turn_def w Let_def)
    define dep' where "dep' m = (if m \<in> set new then d + 1 else dep m)" for m
    have seen: "fan_seen s \<union> set (nbrs n) = fan_seen s \<union> set new"
      using new(2) by auto
    have d_old: "m \<in> fan_seen s \<Longrightarrow> dep' m = dep m" for m
      using new(2) by (auto simp: dep'_def)
    have d_new: "m \<in> set new \<Longrightarrow> dep' m = d + 1" for m
      by (simp add: dep'_def)
    have d_le: "m \<in> fan_seen s \<union> set new \<Longrightarrow> dep' m \<le> d + 1" for m
      using deps d_old d_new by auto
    have step_n: "m \<in> set (nbrs n) \<longleftrightarrow> ?r n m" for m
      using False by (simp add: fan_step_def)
    have w_le: "(m, k) \<in> set w \<Longrightarrow> k \<le> d + 1" for m k
      using old deps by fastforce
    have srt: "sorted (map snd (w @ map (\<lambda>m. (m, d + 1)) new))"
    proof -
      have "sorted (map snd (map (\<lambda>m. (m, d + 1)) xs))" for xs :: "nat list"
        by (induction xs) auto
      then show ?thesis
        using sorted(1) w_le unfolding map_append sorted_append by auto
    qed
    have head: "dep' m \<le> snd (hd (w @ map (\<lambda>m. (m, d + 1)) new)) + 1"
      if "m \<in> fan_seen s \<union> set new" "w @ map (\<lambda>m. (m, d + 1)) new \<noteq> []" for m
    proof (cases w)
      case Nil
      then show ?thesis using d_le [OF that(1)] that(2) by (cases new) auto
    next
      case (Cons x xs)
      then show ?thesis using d_le [OF that(1)] sorted(2) [of "fst x" "snd x"] by auto
    qed
    have snd': "(maxDepth = 0 \<or> dep' m \<le> maxDepth) \<and> (\<exists>a \<in> S. (?r ^^ dep' m) a m)" if m: "m \<in> fan_seen s \<union> set new" for m
    proof (cases "m \<in> set new")
      case True
      then have "?r n m" using new(2) step_n by auto
      moreover obtain a where "a \<in> S" "(?r ^^ d) a n" using sound [OF n(1)] n(2) by auto
      ultimately have "\<exists>a \<in> S. (?r ^^ (d + 1)) a m" by auto
      then show ?thesis using False d_new [OF True] by auto
    next
      case False
      then show ?thesis using m sound d_old by auto
    qed
    have fin': "k \<in> fan_seen s \<union> set new \<and> dep' k \<le> dep' m + 1"
      if "m \<in> fan_seen s \<union> set new" "m \<notin> fst ` set w" "m \<notin> set new" "maxDepth = 0 \<or> dep' m < maxDepth" "?r m k" for m k
    proof (cases "m = n")
      case True
      then show ?thesis
        using that(5) step_n seen d_le [of k] d_old [OF n(1)] n(2) by auto
    next
      case False
      then show ?thesis
        using fin [of m k] that d_old by auto
    qed
    have "fan_inv ?r maxDepth S dep' (fan_turn stop nbrs maxDepth s)"
      unfolding fan_inv_def new(3) fan_state.simps seen
    proof (intro conjI)
      show "fan_seen s \<union> set new = set (fan_result s @ new)" "distinct (fan_result s @ new)"
        using basic(1,2) new(1,2) by auto
      show "S \<subseteq> fan_seen s \<union> set new" "\<forall>n \<in> S. dep' n = 0"
        using basic(3,4) d_old by auto
      show "\<forall>(n, d) \<in> set (w @ map (\<lambda>m. (m, d + 1)) new). n \<in> fan_seen s \<union> set new \<and> dep' n = d"
        using old d_old d_new by auto
      show "\<forall>n \<in> fan_seen s \<union> set new - fst ` set (w @ map (\<lambda>m. (m, d + 1)) new).
          (maxDepth = 0 \<or> dep' n < maxDepth) \<longrightarrow> (\<forall>m. ?r n m \<longrightarrow> m \<in> fan_seen s \<union> set new \<and> dep' m \<le> dep' n + 1)"
        using fin' by (auto simp: image_Un image_image)
    qed (use srt head snd' in auto)
    then show ?thesis by blast
  qed
qed

lemma fan_inv_done:
  assumes inv: "fan_inv r maxDepth S dep s" and w: "fan_work s = []"
  shows "distinct (fan_result s) \<and> set (fan_result s) = within r maxDepth S"
proof -
  have seen: "fan_seen s = set (fan_result s)" "distinct (fan_result s)" "S \<subseteq> fan_seen s" "\<And>n. n \<in> S \<Longrightarrow> dep n = 0"
    and sound: "\<And>n. n \<in> fan_seen s \<Longrightarrow> (maxDepth = 0 \<or> dep n \<le> maxDepth) \<and> (\<exists>a \<in> S. (r ^^ dep n) a n)"
    and fin: "\<And>n m. n \<in> fan_seen s \<Longrightarrow> maxDepth = 0 \<or> dep n < maxDepth \<Longrightarrow> r n m \<Longrightarrow> m \<in> fan_seen s \<and> dep m \<le> dep n + 1"
    using inv w unfolding fan_inv_def by auto
  have "(maxDepth = 0 \<or> k \<le> maxDepth) \<Longrightarrow> a \<in> S \<Longrightarrow> (r ^^ k) a m \<Longrightarrow> m \<in> fan_seen s \<and> dep m \<le> k" for k a m
  proof (induction k arbitrary: m)
    case 0
    then show ?case using seen(3,4) by auto
  next
    case (Suc k)
    then obtain p where p: "(r ^^ k) a p" "r p m" by auto
    then have "p \<in> fan_seen s" "dep p \<le> k"
      using Suc.IH [of p] Suc.prems by auto
    then show ?case
      using fin [of p m] p(2) Suc.prems(1) by fastforce
  qed
  then have "within r maxDepth S \<subseteq> fan_seen s"
    unfolding within_def by blast
  moreover have "fan_seen s \<subseteq> within r maxDepth S"
    using sound unfolding within_def by blast
  ultimately show ?thesis
    using seen(1,2) by simp
qed

section \<open>Termination\<close>

lemma fan_turn_decreases:
  assumes "finite N" "\<And>n. n \<in> N \<Longrightarrow> set (nbrs n) \<subseteq> N" "fst ` set (fan_work s) \<subseteq> N" "fan_work s \<noteq> []"
    and turn: "s' = fan_turn stop nbrs maxDepth s"
  shows "fst ` set (fan_work s') \<subseteq> N \<and>
    (card (N - fan_seen s') < card (N - fan_seen s) \<or>
     (fan_seen s' = fan_seen s \<and> length (fan_work s') < length (fan_work s)))"
proof -
  obtain n d w where w: "fan_work s = (n, d) # w"
    using assms(4) by (metis list.exhaust surj_pair)
  show ?thesis
  proof (cases "(maxDepth \<noteq> 0 \<and> d \<ge> maxDepth) \<or> stop n")
    case True
    then show ?thesis using assms(3) by (auto simp: turn fan_turn_def w)
  next
    case False
    obtain new where new: "distinct new" "set new = set (nbrs n) - fan_seen s"
      "s' = \<lparr>fan_seen = fan_seen s \<union> set (nbrs n), fan_result = fan_result s @ new, fan_work = w @ map (\<lambda>m. (m, d + 1)) new\<rparr>"
      using fan_add_fold [where ms = "nbrs n" and d = "d + 1" and s = "s\<lparr>fan_work := w\<rparr>"] False
      by (auto simp: turn fan_turn_def w Let_def)
    have sub: "set (nbrs n) \<subseteq> N"
      using assms(2,3) by (simp add: w)
    show ?thesis
    proof (cases new)
      case Nil
      then have "set (nbrs n) \<subseteq> fan_seen s" using new(2) by auto
      then show ?thesis using assms(3) Nil by (auto simp: new(3) w)
    next
      case (Cons x xs)
      then have "x \<in> N - fan_seen s" "x \<in> set (nbrs n)"
        using new(2) sub by auto
      then have "N - fan_seen s' \<subset> N - fan_seen s"
        by (auto simp: new(3))
      then have "card (N - fan_seen s') < card (N - fan_seen s)"
        using assms(1) by (intro psubset_card_mono) auto
      moreover have "fst ` set (fan_work s') \<subseteq> N"
        using assms(3) sub new(2) by (auto simp: new(3) w image_Un image_image)
      ultimately show ?thesis by blast
    qed
  qed
qed

lemma fan_loop_ok:
  assumes "finite N" "\<And>n. n \<in> N \<Longrightarrow> set (nbrs n) \<subseteq> N"
  shows "fan_inv (fan_step stop nbrs) maxDepth S dep s \<Longrightarrow> fst ` set (fan_work s) \<subseteq> N \<Longrightarrow>
    \<exists>res. fan_loop stop nbrs maxDepth s = Some res \<and> distinct res \<and>
      set res = within (fan_step stop nbrs) maxDepth S"
proof (induction s arbitrary: dep rule: wf_induct [where r =
    "inv_image (less_than <*lex*> less_than) (\<lambda>s. (card (N - fan_seen s), length (fan_work s)))"])
  case 1
  show ?case by (intro wf_inv_image wf_lex_prod wf_less_than)
next
  case (2 s)
  show ?case
  proof (cases "fan_work s = []")
    case True
    then show ?thesis
      using fan_inv_done [OF 2(2) True] by (subst fan_loop.simps) simp
  next
    case False
    let ?s = "fan_turn stop nbrs maxDepth s"
    have dec: "fst ` set (fan_work ?s) \<subseteq> N \<and> (card (N - fan_seen ?s) < card (N - fan_seen s) \<or>
        (fan_seen ?s = fan_seen s \<and> length (fan_work ?s) < length (fan_work s)))"
      by (rule fan_turn_decreases [OF assms(1) _ 2(3) False refl]) (rule assms(2))
    then have "(?s, s) \<in> inv_image (less_than <*lex*> less_than) (\<lambda>s. (card (N - fan_seen s), length (fan_work s)))"
      by auto
    moreover obtain dep' where "fan_inv (fan_step stop nbrs) maxDepth S dep' ?s"
      using fan_inv_turn [OF 2(2) False] by blast
    ultimately show ?thesis
      using 2(1) dec False by (subst fan_loop.simps) auto
  qed
qed

lemma fan_start_work: "fst ` set (fan_work (fan_start ns)) = set ns"
proof -
  obtain new where "set new = set ns" "fan_start ns = \<lparr>fan_seen = set ns, fan_result = new, fan_work = map (\<lambda>m. (m, 0)) new\<rparr>"
    using fan_add_fold [where ms = ns and d = 0 and s = "\<lparr>fan_seen = {}, fan_result = [], fan_work = []\<rparr>"]
    by (auto simp: fan_start_def)
  then show ?thesis by (simp add: image_image)
qed

lemma fan_search_ok:
  assumes "finite N" "\<And>n. n \<in> N \<Longrightarrow> set (nbrs n) \<subseteq> N" "set ns \<subseteq> N"
  shows "\<exists>res. fan_loop stop nbrs maxDepth (fan_start ns) = Some res \<and> distinct res \<and>
      set res = within (fan_step stop nbrs) maxDepth (set ns)"
proof -
  obtain dep where "fan_inv (fan_step stop nbrs) maxDepth (set ns) dep (fan_start ns)"
    using fan_inv_start by blast
  moreover have "fst ` set (fan_work (fan_start ns)) \<subseteq> N"
    using fan_start_work [of ns] assms(3) by simp
  ultimately show ?thesis
    by (rule fan_loop_ok [OF assms(1), rotated 1]) (rule assms(2))
qed

end
