(* ===== verification/QueryFacts.thy ===== *)
theory QueryFacts
  imports FanFacts
begin

text \<open>
  What the queries of \<open>NetlistGraph\<close> return: the index and the lookups through it, the drivers of a
  signal, sensitivity and black-box coverage.
\<close>

section \<open>The index\<close>

lemma map_of_index_push:
  "map_of (index_push p n idx) q =
     (if q = p then Some (case map_of idx p of None \<Rightarrow> [n] | Some ns \<Rightarrow> ns @ [n]) else map_of idx q)"
  by (induction p n idx rule: index_push.induct) auto

lemma keys_index_push: "fst ` set (index_push p n idx) = insert p (fst ` set idx)"
  by (induction p n idx rule: index_push.induct) auto

lemma distinct_index_push: "distinct (map fst idx) \<Longrightarrow> distinct (map fst (index_push p n idx))"
  using keys_index_push by (induction p n idx rule: index_push.induct) auto

lemma index_fold:
  "map_of (fold (\<lambda>n idx. case path n of None \<Rightarrow> idx | Some p \<Rightarrow> index_push p n idx) ns idx) q =
     (case map_of idx q of
        None \<Rightarrow> (case filter (\<lambda>n. path n = Some q) ns of [] \<Rightarrow> None | f # fs \<Rightarrow> Some (f # fs))
      | Some l \<Rightarrow> Some (l @ filter (\<lambda>n. path n = Some q) ns))"
  by (induction ns arbitrary: idx) (auto simp: map_of_index_push split: option.splits list.splits)

lemma index_fold_distinct:
  "distinct (map fst idx) \<Longrightarrow>
   distinct (map fst (fold (\<lambda>n idx. case path n of None \<Rightarrow> idx | Some p \<Rightarrow> index_push p n idx) ns idx))"
  by (induction ns arbitrary: idx) (auto simp: distinct_index_push split: option.split)

definition nodes_named :: "'c ngraph \<Rightarrow> string \<Rightarrow> nat list" where
  "nodes_named g name = filter (\<lambda>n. getHierarchicalPath (ndata g n) = Some name) (nodes g)"

lemma index_lookup:
  "map_of (index_of_nodes g) name = (case nodes_named g name of [] \<Rightarrow> None | f # fs \<Rightarrow> Some (f # fs))"
  by (simp add: index_of_nodes_def index_fold nodes_named_def)

lemma index_distinct: "distinct (map fst (index_of_nodes g))"
  unfolding index_of_nodes_def by (rule index_fold_distinct) simp

lemma index_member: "(name, ns) \<in> set (index_of_nodes g) \<longleftrightarrow> ns = nodes_named g name \<and> ns \<noteq> []"
  using map_of_eq_Some_iff [OF index_distinct, of g name ns] by (auto simp: index_lookup split: list.splits)

section \<open>Edges of the graph\<close>

lemma set_all_edges:
  assumes "graph_ok g"
  shows "set (all_edges g) = {e. edgeAt g e \<noteq> None}"
  using edges_okD(3) [OF graph_okD(1) [OF assms]] graph_okD(3) [OF assms]
  by (auto simp: all_edges_def nodes_ok_def)

lemma set_add_seen [simp]: "set (add_seen n res) = insert n (set res)"
  by (auto simp: add_seen_def)

lemma distinct_add_seen: "distinct res \<Longrightarrow> distinct (add_seen n res)"
  by (simp add: add_seen_def)

lemma drivers_fold:
  "set (fold (\<lambda>e res. if \<not> P e then res else if \<not> Q e then res else add_seen (f e) res) es res)
     = set res \<union> f ` {e \<in> set es. P e \<and> Q e}"
  "distinct res \<Longrightarrow> distinct (fold (\<lambda>e res. if \<not> P e then res else if \<not> Q e then res else add_seen (f e) res) es res)"
  by (induction es arbitrary: res) (auto simp: distinct_add_seen)

lemma bit_drivers_fold:
  "set (fold (\<lambda>e res. if \<not> P e then res else case c e of None \<Rightarrow> res | Some x \<Rightarrow> res @ [(x, f e)]) es res)
     = set res \<union> {(x, f e) | e x. e \<in> set es \<and> P e \<and> c e = Some x}"
  by (induction es arbitrary: res) (auto split: option.splits)

lemma set_unique_by: "inj_on f (set xs) \<Longrightarrow> set (unique_by f xs) = set xs"
  by (induction f xs rule: unique_by.induct) (auto simp: inj_on_def)

lemma sorted_unique_by:
  "sorted (map f xs) \<Longrightarrow> sorted_wrt (<) (map f (unique_by f xs)) \<and> set (map f (unique_by f xs)) \<subseteq> set (map f xs)"
  for f :: "'a \<Rightarrow> 'k :: linorder"
proof (induction f xs rule: unique_by.induct)
  case (3 f x y ys)
  show ?case
  proof (cases "f x = f y")
    case True
    then show ?thesis using 3 by auto
  next
    case False
    have "sorted (map f (y # ys))" using 3(3) by simp
    note IH = 3(2) [OF False this]
    have "f x < f y" using False 3(3) by auto
    moreover have "\<forall>z \<in> set (map f (y # ys)). f y \<le> z" using 3(3) by auto
    ultimately have "\<forall>z \<in> set (map f (unique_by f (y # ys))). f x < z"
      using IH by (meson less_le_trans subsetD)
    then show ?thesis using IH False by auto
  qed
qed auto

section \<open>Sensitivity\<close>

text \<open>What a state's clocked in-edges contribute, and which states a node's fan-out drives.\<close>

definition clocks_of :: "'c ngraph \<Rightarrow> nat \<Rightarrow> sensitivity set" where
  "clocks_of g t = {(esrc g e, edgeKind (einfo g e)) | e. e \<in> set (inEdges g t) \<and>
     \<not> disabled (einfo g e) \<and> edgeKind (einfo g e) \<noteq> EdgeNone}"

definition feeds :: "'c ngraph \<Rightarrow> nat \<Rightarrow> nat \<Rightarrow> bool" where
  "feeds g n m \<longleftrightarrow> (\<exists>e \<in> set (outEdges g n). \<not> disabled (einfo g e) \<and> etgt g e = m)"

definition feeds_comb :: "'c ngraph \<Rightarrow> nat \<Rightarrow> nat \<Rightarrow> bool" where
  "feeds_comb g n m \<longleftrightarrow> feeds g n m \<and> nkind g m \<noteq> KState"

lemma collect_ok:
  assumes "nkind g t = KState"
  shows "\<exists>res'. collectFromState g t res = Some res' \<and> set res' = set res \<union> clocks_of g t \<and>
     (distinct res \<longrightarrow> distinct res')"
proof -
  let ?f = "\<lambda>e res. if disabled (einfo g e) \<or> edgeKind (einfo g e) = EdgeNone then res
        else if list_ex (\<lambda>x. fst x = esrc g e \<and> snd x = edgeKind (einfo g e)) res then res
        else res @ [(esrc g e, edgeKind (einfo g e))]"
  have ex: "list_ex (\<lambda>x. fst x = a \<and> snd x = k) res \<longleftrightarrow> (a, k) \<in> set res" for a and k :: edge_kind and res
    by (force simp: list_ex_iff)
  have "set (fold ?f es res) = set res \<union> {(esrc g e, edgeKind (einfo g e)) | e. e \<in> set es \<and>
      \<not> disabled (einfo g e) \<and> edgeKind (einfo g e) \<noteq> EdgeNone} \<and> (distinct res \<longrightarrow> distinct (fold ?f es res))" for es
    unfolding ex by (induction es arbitrary: res) auto
  then show ?thesis
    using assms by (simp add: collectFromState_def clocks_of_def)
qed

text \<open>What a run of \<open>sens_edge\<close> over a list of edges adds to the state.\<close>

definition live_targets :: "'c ngraph \<Rightarrow> nat list \<Rightarrow> nat set" where
  "live_targets g es = {etgt g e | e. e \<in> set es \<and> \<not> disabled (einfo g e)}"

lemma live_targets_simps:
  "live_targets g [] = {}"
  "live_targets g (e # es) = (if disabled (einfo g e) then live_targets g es else insert (etgt g e) (live_targets g es))"
  by (auto simp: live_targets_def)

definition sens_added :: "'c ngraph \<Rightarrow> nat list \<Rightarrow> sens_state \<Rightarrow> sens_state \<Rightarrow> nat list \<Rightarrow> bool" where
  "sens_added g es s s' new \<longleftrightarrow>
     distinct (sens_result s') \<and> distinct new \<and> sens_stack s' = sens_stack s @ new \<and>
     sens_visited s' = sens_visited s \<union> set new \<and>
     set new = {m \<in> live_targets g es. nkind g m \<noteq> KState} - sens_visited s \<and>
     set (sens_result s') = set (sens_result s) \<union> \<Union> (clocks_of g ` {m \<in> live_targets g es. nkind g m = KState})"

lemma sens_edges_fold:
  assumes "distinct (sens_result s)"
  shows "\<exists>s' new. fold (sens_edge g) es (Some s) = Some s' \<and> sens_added g es s s' new"
  using assms
proof (induction es arbitrary: s)
  case Nil
  then show ?case by (intro exI [of _ s] exI [of _ "[]"]) (simp add: sens_added_def live_targets_simps)
next
  case (Cons e es)
  let ?live = "\<not> disabled (einfo g e)" and ?state = "nkind g (etgt g e) = KState"
  consider "\<not> ?live" | "?live" "?state" | "?live" "\<not> ?state" "etgt g e \<in> sens_visited s"
    | "?live" "\<not> ?state" "etgt g e \<notin> sens_visited s" by blast
  then show ?case
  proof cases
    case 1
    have "sens_edge g e (Some s) = Some s" using 1 by (simp add: sens_edge_def)
    moreover have "live_targets g (e # es) = live_targets g es" using 1 by (simp add: live_targets_simps)
    ultimately show ?thesis using Cons.IH [OF Cons.prems] by (simp add: sens_added_def)
  next
    case 2
    obtain res where res: "collectFromState g (etgt g e) (sens_result s) = Some res"
      "set res = set (sens_result s) \<union> clocks_of g (etgt g e)" "distinct res"
      using collect_ok [OF 2(2)] Cons.prems by blast
    let ?s = "s\<lparr>sens_result := res\<rparr>"
    obtain s' new where run: "fold (sens_edge g) es (Some ?s) = Some s'" and added: "sens_added g es ?s s' new"
      using Cons.IH [of ?s] res(3) by auto
    have "sens_edge g e (Some s) = Some ?s" using 2 res(1) by (simp add: sens_edge_def)
    then have "fold (sens_edge g) (e # es) (Some s) = Some s'" using run by simp
    moreover have "sens_added g (e # es) s s' new"
      using added 2 res(2) by (simp add: sens_added_def live_targets_simps) blast
    ultimately show ?thesis by blast
  next
    case 3
    have "sens_edge g e (Some s) = Some s" using 3 by (simp add: sens_edge_def)
    moreover obtain s' new where "fold (sens_edge g) es (Some s) = Some s'" and added: "sens_added g es s s' new"
      using Cons.IH [OF Cons.prems] by blast
    moreover have "sens_added g (e # es) s s' new"
      using added 3 by (simp add: sens_added_def live_targets_simps) blast
    ultimately show ?thesis by auto
  next
    case 4
    let ?s = "s\<lparr>sens_visited := insert (etgt g e) (sens_visited s), sens_stack := sens_stack s @ [etgt g e]\<rparr>"
    obtain s' new where run: "fold (sens_edge g) es (Some ?s) = Some s'" and added: "sens_added g es ?s s' new"
      using Cons.IH [of ?s] Cons.prems by auto
    have "sens_edge g e (Some s) = Some ?s" using 4 by (simp add: sens_edge_def)
    then have "fold (sens_edge g) (e # es) (Some s) = Some s'" using run by simp
    moreover have "sens_added g (e # es) s s' (etgt g e # new)"
      using added 4 by (simp add: sens_added_def live_targets_simps) blast
    ultimately show ?thesis by blast
  qed
qed

end
