(* ===== verification/QueryProps.thy ===== *)
theory QueryProps
  imports QueryFacts
begin

text \<open>
  The properties of the queries of \<open>NetlistGraph\<close>, with the loop of \<open>getSensitivity\<close> and the scan of
  \<open>getBlackBoxCoverage\<close>.
\<close>

section \<open>The sensitivity loop\<close>

lemma live_targets_out: "live_targets g (outEdges g n) = {m. feeds g n m}"
  by (auto simp: live_targets_def feeds_def)

definition sens_inv :: "'c ngraph \<Rightarrow> nat \<Rightarrow> sens_state \<Rightarrow> bool" where
  "sens_inv g start s \<longleftrightarrow>
     start \<in> sens_visited s \<and> sens_visited s \<subseteq> {m. (feeds_comb g)\<^sup>*\<^sup>* start m} \<and>
     set (sens_stack s) \<subseteq> sens_visited s \<and> distinct (sens_stack s) \<and> distinct (sens_result s) \<and>
     (\<forall>n m. n \<in> sens_visited s - set (sens_stack s) \<and> feeds_comb g n m \<longrightarrow> m \<in> sens_visited s) \<and>
     set (sens_result s) =
       \<Union> (clocks_of g ` {t. nkind g t = KState \<and> (\<exists>n \<in> sens_visited s - set (sens_stack s). feeds g n t)})"

lemma sens_invD:
  assumes "sens_inv g start s"
  shows "start \<in> sens_visited s" "sens_visited s \<subseteq> {m. (feeds_comb g)\<^sup>*\<^sup>* start m}"
    "set (sens_stack s) \<subseteq> sens_visited s" "distinct (sens_stack s)" "distinct (sens_result s)"
    "k \<in> sens_visited s - set (sens_stack s) \<Longrightarrow> feeds_comb g k m \<Longrightarrow> m \<in> sens_visited s"
    "set (sens_result s) =
       \<Union> (clocks_of g ` {t. nkind g t = KState \<and> (\<exists>n \<in> sens_visited s - set (sens_stack s). feeds g n t)})"
  using assms unfolding sens_inv_def by blast+

lemma sens_inv_turn:
  assumes inv: "sens_inv g start s" and ne: "sens_stack s \<noteq> []"
  shows "\<exists>s' new. sens_turn g s = Some s' \<and> sens_inv g start s' \<and>
     sens_stack s' = butlast (sens_stack s) @ new \<and> sens_visited s' = sens_visited s \<union> set new \<and>
     set new \<inter> sens_visited s = {} \<and> set new \<subseteq> {m. feeds g (last (sens_stack s)) m} \<and> distinct new"
proof -
  obtain st n where st: "sens_stack s = st @ [n]"
    using ne by (metis append_butlast_last_id)
  let ?s = "s\<lparr>sens_stack := st\<rparr>"
  note i = sens_invD [OF inv, unfolded st]
  note start = i(1) and reach = i(2) and sub = i(3) and dist = i(4) and res = i(5) and closed = i(6) and found = i(7)
  obtain s' new where run: "fold (sens_edge g) (outEdges g n) (Some ?s) = Some s'"
    and added: "sens_added g (outEdges g n) ?s s' new"
    using sens_edges_fold [of ?s g "outEdges g n"] res by auto
  have turn: "sens_turn g s = Some s'"
    using run by (simp add: sens_turn_def st)
  have new: "distinct (sens_result s')" "distinct new" "sens_stack s' = st @ new"
    "sens_visited s' = sens_visited s \<union> set new"
    "set new = {m. feeds g n m \<and> nkind g m \<noteq> KState} - sens_visited s"
    "set (sens_result s') = set (sens_result s) \<union> \<Union> (clocks_of g ` {m. feeds g n m \<and> nkind g m = KState})"
    using added by (simp_all add: sens_added_def live_targets_out)
  have n: "n \<in> sens_visited s" "n \<notin> set st" "n \<notin> set new"
    using sub dist new(5) by auto
  have done_set: "sens_visited s' - set (sens_stack s') = insert n (sens_visited s - set (st @ [n]))"
    using n new(3-5) sub by auto
  have "sens_visited s' \<subseteq> {m. (feeds_comb g)\<^sup>*\<^sup>* start m}"
  proof
    fix m assume "m \<in> sens_visited s'"
    then consider "m \<in> sens_visited s" | "feeds_comb g n m"
      using new(4,5) by (auto simp: feeds_comb_def)
    then show "m \<in> {m. (feeds_comb g)\<^sup>*\<^sup>* start m}"
      using reach n(1) by cases (auto intro: rtranclp.rtrancl_into_rtrancl)
  qed
  moreover have "m \<in> sens_visited s'" if "k \<in> insert n (sens_visited s - set (st @ [n]))" "feeds_comb g k m" for k m
    using that closed [of k m] new(4,5) by (auto simp: feeds_comb_def)
  moreover have "set (sens_result s') =
      \<Union> (clocks_of g ` {t. nkind g t = KState \<and> (\<exists>k \<in> insert n (sens_visited s - set (st @ [n])). feeds g k t)})"
    unfolding new(6) found by blast
  moreover have "set (sens_stack s') \<subseteq> sens_visited s'" "distinct (sens_stack s')"
    using sub dist new(2,3,4,5) by auto
  ultimately have "sens_inv g start s'"
    unfolding sens_inv_def done_set using new(1,4) start by blast
  then show ?thesis
    using turn new(2,3,4,5) by (intro exI [of _ s'] exI [of _ new]) (auto simp: st)
qed

lemma sens_loop_ok:
  assumes fin: "finite N" and closed: "\<And>n m. n \<in> N \<Longrightarrow> feeds g n m \<Longrightarrow> m \<in> N"
    and inv: "sens_inv g start s" and sub: "sens_visited s \<subseteq> N"
  shows "\<exists>res. sens_loop g s = Some res \<and> distinct res \<and>
     set res = \<Union> (clocks_of g ` {t. nkind g t = KState \<and> (\<exists>n. (feeds_comb g)\<^sup>*\<^sup>* start n \<and> feeds g n t)})"
  using inv sub
proof (induction "(card (N - sens_visited s), length (sens_stack s))" arbitrary: s
    rule: wf_induct_rule [OF wf_lex_prod [OF wf_less_than wf_less_than]])
  case (1 s)
  show ?case
  proof (cases "sens_stack s = []")
    case True
    have start: "start \<in> sens_visited s" and sound: "sens_visited s \<subseteq> {m. (feeds_comb g)\<^sup>*\<^sup>* start m}"
      and dist: "distinct (sens_result s)"
      and closed: "\<And>n m. n \<in> sens_visited s \<Longrightarrow> feeds_comb g n m \<Longrightarrow> m \<in> sens_visited s"
      and found: "set (sens_result s) =
        \<Union> (clocks_of g ` {t. nkind g t = KState \<and> (\<exists>n \<in> sens_visited s. feeds g n t)})"
      using 1(2) True by (auto simp: sens_inv_def)
    have "m \<in> sens_visited s" if "(feeds_comb g)\<^sup>*\<^sup>* start m" for m
      using that by (induction rule: rtranclp_induct) (use start closed in auto)
    then have "sens_visited s = {m. (feeds_comb g)\<^sup>*\<^sup>* start m}"
      using sound by blast
    then show ?thesis
      using True dist found by (subst sens_loop.simps) auto
  next
    case False
    obtain s' new where turn: "sens_turn g s = Some s'" and inv': "sens_inv g start s'"
      and s': "sens_stack s' = butlast (sens_stack s) @ new" "sens_visited s' = sens_visited s \<union> set new"
      and fresh: "set new \<inter> sens_visited s = {}" "set new \<subseteq> {m. feeds g (last (sens_stack s)) m}"
      using sens_inv_turn [OF 1(2) False] by blast
    have "last (sens_stack s) \<in> N"
      using sens_invD(3) [OF 1(2)] 1(3) last_in_set [OF False] by blast
    then have newN: "set new \<subseteq> N"
      using closed fresh(2) by blast
    have "((card (N - sens_visited s'), length (sens_stack s')), (card (N - sens_visited s), length (sens_stack s)))
        \<in> less_than <*lex*> less_than"
    proof (cases "new = []")
      case True
      then show ?thesis using s' False by simp
    next
      case False
      have "N - sens_visited s' \<subset> N - sens_visited s"
        using False newN fresh(1) s'(2) by (auto simp: neq_Nil_conv)
      then show ?thesis
        using fin by (simp add: psubset_card_mono)
    qed
    then show ?thesis
      using 1(1) [OF _ inv'] newN 1(3) s'(2) turn False by (subst sens_loop.simps) auto
  qed
qed

lemma getSensitivity_ok:
  assumes "graph_ok g"
  shows "\<exists>res. getSensitivity g n = Some res \<and> distinct res \<and>
     set res = (if nkind g n = KState then clocks_of g n
       else \<Union> (clocks_of g ` {t. nkind g t = KState \<and> (\<exists>m. (feeds_comb g)\<^sup>*\<^sup>* n m \<and> feeds g m t)}))"
proof (cases "nkind g n = KState")
  case True
  then show ?thesis using collect_ok [OF True, of "[]"] by (auto simp: getSensitivity_def)
next
  case False
  let ?N = "insert n (set (nodes g))" and ?s = "\<lparr>sens_visited = {n}, sens_stack = [n], sens_result = []\<rparr>"
  have "m \<in> ?N" if "feeds g k m" for k m
    using that edges_okD(3) [OF graph_okD(1) [OF assms]] graph_okD(3) [OF assms] by (auto simp: feeds_def nodes_ok_def)
  moreover have "sens_inv g n ?s"
    by (simp add: sens_inv_def)
  ultimately show ?thesis
    using sens_loop_ok [of ?N g n ?s] False by (simp add: getSensitivity_def)
qed

section \<open>Combinational fan-in and fan-out of a node\<close>

text \<open>The search with a visitor that collects: the nodes visited, in order, each once.\<close>

lemma collect_ok_turn:
  assumes inv: "search_inv adj nxt pred start s" and ne: "visitStack s \<noteq> []"
    and c: "distinct (vstate s) \<and> set (vstate s) = visitedNodes s"
  shows "distinct (vstate (dfs_turn adj nxt pred collect_visitor s)) \<and>
     set (vstate (dfs_turn adj nxt pred collect_visitor s)) = visitedNodes (dfs_turn adj nxt pred collect_visitor s)"
proof -
  obtain n es st where "visitStack s = (n, es) # st"
    using ne by (metis list.exhaust surj_pair)
  then show ?thesis
    using c by (auto simp: dfs_turn_def collect_visitor_def Let_def split: list.splits)
qed

lemma collect_search:
  assumes "graph_ok g"
  shows "\<exists>res. map_option vstate (depthFirstSearch dir g pred collect_visitor n []) = Some res \<and> distinct res \<and>
     set res = {m. (follows (edges_from dir g) (nextNodeOf dir g) pred)\<^sup>*\<^sup>* n m}"
proof -
  let ?Inv = "\<lambda>s. distinct (vstate s) \<and> set (vstate s) = visitedNodes s"
  have "\<exists>s. depthFirstSearch dir g pred collect_visitor n [] = Some s \<and> visitStack s = [] \<and> ?Inv s \<and>
     visitedNodes s = {m. (follows (edges_from dir g) (nextNodeOf dir g) pred)\<^sup>*\<^sup>* n m}"
  proof (rule depthFirstSearch_rule [OF assms])
    show "?Inv (dfs_setup (edges_from dir g) collect_visitor n [])"
      by (simp add: dfs_setup_def collect_visitor_def)
  qed (rule collect_ok_turn)
  then show ?thesis by auto
qed

definition comb_forward :: "'c ngraph \<Rightarrow> nat \<Rightarrow> nat \<Rightarrow> bool" where
  "comb_forward g = follows (outEdges g) (etgt g) (comb_edge g)"

definition comb_backward :: "'c ngraph \<Rightarrow> nat \<Rightarrow> nat \<Rightarrow> bool" where
  "comb_backward g = follows (inEdges g) (esrc g) (comb_edge_back g)"

lemma fan_in_ok:
  assumes "graph_ok g"
  shows "\<exists>res. getCombFanIn g n = Some res \<and> distinct res \<and> set res = {m. (comb_backward g)\<^sup>*\<^sup>* n m}"
proof -
  have dir: "edges_from Backward g = inEdges g" "nextNodeOf Backward g = esrc g"
    by (simp_all add: edges_from_def nextNodeOf_def fun_eq_iff)
  show ?thesis
    using collect_search [OF assms, of Backward "comb_edge_back g" n]
    by (simp add: getCombFanIn_def comb_backward_def dir)
qed

lemma fan_out_ok:
  assumes "graph_ok g"
  shows "\<exists>res. getCombFanOut g n = Some res \<and> distinct res \<and> set res = {m. (comb_forward g)\<^sup>*\<^sup>* n m}"
proof -
  have dir: "edges_from Forward g = outEdges g" "nextNodeOf Forward g = etgt g"
    by (simp_all add: edges_from_def nextNodeOf_def fun_eq_iff)
  show ?thesis
    using collect_search [OF assms, of Forward "comb_edge g" n]
    by (simp add: getCombFanOut_def comb_forward_def dir)
qed

text \<open>What the loop over the fan-in returns.\<close>

definition blocks_constant :: "'c ngraph \<Rightarrow> nat \<Rightarrow> bool" where
  "blocks_constant g n \<longleftrightarrow> nkind g n = KState \<or> (nkind g n = KPort \<and> \<not> isDriven g n)"

lemma constant_scan_step:
  "constant_scan g node (n # ns) constants =
     (if n = node then constant_scan g node ns constants
      else if blocks_constant g n then []
      else constant_scan g node ns (if nkind g n = KConstant then constants @ [n] else constants))"
  by (cases "nkind g n") (simp_all add: blocks_constant_def)

lemma constant_scan_eq:
  "constant_scan g node ns constants =
     (if \<exists>n \<in> set ns. n \<noteq> node \<and> blocks_constant g n then []
      else constants @ filter (\<lambda>n. n \<noteq> node \<and> nkind g n = KConstant) ns)"
proof (induction ns arbitrary: constants)
  case (Cons n ns)
  show ?case
    unfolding constant_scan_step Cons.IH by (cases "n = node"; cases "blocks_constant g n") auto
qed simp

text \<open>A node other than the start of a backward search is never a state: the predicate keeps states out.\<close>

lemma fan_in_no_state: "(comb_backward g)\<^sup>*\<^sup>* n m \<Longrightarrow> m \<noteq> n \<Longrightarrow> nkind g m \<noteq> KState"
  by (erule rtranclp.cases) (auto simp: comb_backward_def follows_def comb_edge_back_def)

section \<open>Drivers bit by bit\<close>

lemma image_unique_by: "f ` set (unique_by f xs) = f ` set xs"
  by (induction f xs rule: unique_by.induct) auto

lemma set_all_edges_conv:
  assumes "graph_ok g"
  shows "e \<in> set (all_edges g) \<longleftrightarrow> edgeAt g e \<noteq> None"
  using set_all_edges [OF assms] by simp

lemma bit_drivers_keys:
  "bd_key R ` set (getBitDrivers R name r N) =
     {bd_key R (x, esrc (dg N) e) | e x. e \<in> set (all_edges (dg N)) \<and> carries N name e \<and>
        intersection R (bounds (einfo (dg N) e)) r = Some x}"
  by (auto simp: getBitDrivers_def Let_def image_unique_by bit_drivers_fold)

lemma bit_drivers_bits:
  assumes "constant_range R"
  shows "(\<exists>x. (x, n) \<in> set (getBitDrivers R name r N) \<and> b \<in> bits_of R x) \<longleftrightarrow>
     b \<in> bits_of R r \<and> (\<exists>e \<in> set (all_edges (dg N)). carries N name e \<and> esrc (dg N) e = n \<and>
        b \<in> bits_of R (bounds (einfo (dg N) e)))"
proof -
  have "(\<exists>x. (x, n) \<in> set (getBitDrivers R name r N) \<and> b \<in> bits_of R x) \<longleftrightarrow>
      (\<exists>l u. (l, u, n) \<in> bd_key R ` set (getBitDrivers R name r N) \<and> b \<in> {l .. u})"
    by (force simp: bd_key_def bits_of_def)
  also have "\<dots> \<longleftrightarrow> (\<exists>e x. e \<in> set (all_edges (dg N)) \<and> carries N name e \<and> esrc (dg N) e = n \<and>
      intersection R (bounds (einfo (dg N) e)) r = Some x \<and> b \<in> bits_of R x)"
    unfolding bit_drivers_keys by (auto simp: bd_key_def bits_of_def)
  also have "\<dots> \<longleftrightarrow> b \<in> bits_of R r \<and> (\<exists>e \<in> set (all_edges (dg N)). carries N name e \<and> esrc (dg N) e = n \<and>
      b \<in> bits_of R (bounds (einfo (dg N) e)))"
  proof -
    have "(\<exists>x. intersection R q r = Some x \<and> b \<in> bits_of R x) \<longleftrightarrow> b \<in> bits_of R q \<and> b \<in> bits_of R r" for q
      using constant_range.intersection_bits [OF assms, of q r] constant_range.intersection_None [OF assms, of q r]
      by (cases "intersection R q r") auto
    then show ?thesis by blast
  qed
  finally show ?thesis .
qed

section \<open>Black boxes\<close>

text \<open>A path directly below a box: the box, a dot and a name without a dot.\<close>

definition directly_below :: "string \<Rightarrow> string \<Rightarrow> bool" where
  "directly_below path box \<longleftrightarrow> (\<exists>rest. path = box @ CHR ''.'' # rest \<and> CHR ''.'' \<notin> set rest)"

lemma coverage_scan_step:
  "coverage_scan k path (bb # bbs) result =
     (if \<not> pathInScope path bb then coverage_scan k path bbs result
      else if k = KPort \<and> directly_below path bb then coverage_scan k path bbs Boundary_of_box
      else Contained)"
proof (cases "take (length bb) path = bb")
  case True
  then obtain rest where "path = bb @ rest"
    by (metis append_take_drop_id)
  then show ?thesis
    by (cases rest) (auto simp: pathInScope_def directly_below_def)
qed (auto simp: pathInScope_def)

lemma coverage_scan_eq:
  "coverage_scan k path bbs result =
     (if \<exists>bb \<in> set bbs. pathInScope path bb \<and> \<not> (k = KPort \<and> directly_below path bb) then Contained
      else if \<exists>bb \<in> set bbs. pathInScope path bb then Boundary_of_box
      else result)"
proof (induction bbs arbitrary: result)
  case (Cons bb bbs)
  show ?case
    unfolding coverage_scan_step Cons.IH by auto
qed simp

section \<open>A small netlist\<close>

text \<open>
  Nodes: 0 variable \<open>a\<close>, 1 variable \<open>b\<close>, 2 state \<open>q\<close>, 3 constant, 4 port \<open>u.p\<close>. Edges: \<open>a\<close> and the constant to \<open>b\<close>
  (bits \<open>[3:0]\<close> and \<open>[7:4]\<close> of the symbol \<open>s\<close>), \<open>q\<close> to \<open>b\<close>, \<open>b\<close> to \<open>q\<close>, and a clock edge from \<open>a\<close> to \<open>q\<close>.
\<close>

definition labelled :: "int \<Rightarrow> int \<Rightarrow> edge_info" where
  "labelled hi lo = new_edge\<lparr>symbol := Some 0, bounds := mk_range hi lo\<rparr>"

definition sample_nodes :: "unit ngraph" where
  "sample_nodes =
     fold (\<lambda>d g. snd (addNode \<lparr>ID = length (nodes g) + 1, node_data = d\<rparr> g))
       [Variable ''a'' ''a'' no_location (mk_range 0 0), Variable ''b'' ''b'' no_location (mk_range 7 0),
        State ''q'' ''q'' no_location (mk_range 7 0), Constant () 4 no_location,
        Port ''p'' ''u.p'' no_location DirIn (mk_range 0 0)] empty_digraph"

definition sample_graph :: "unit ngraph" where
  "sample_graph =
     with_edge (new_edge\<lparr>edgeKind := PosEdge\<rparr>) 0 2 (with_edge new_edge 1 2 (with_edge new_edge 2 1
       (with_edge (labelled 7 4) 3 1 (with_edge (labelled 3 0) 0 1 sample_nodes))))"

definition sample :: "unit netlist" where
  "sample = \<lparr>dg = sample_graph, fileTable = ft_new,
     symbolTable = snd (intern ''s'' ''top.s'' no_location st_new),
     blackBoxPaths = [''u''], nodeIndex = None, artifactId = ''''\<rparr>"

lemma sample_ok: "graph_ok (dg sample)" "nodes (dg sample) = [0, 1, 2, 3, 4]"
proof -
  have n: "nodes sample_nodes = [0, 1, 2, 3, 4]"
    by (simp add: sample_nodes_def addNode_def empty_digraph_def)
  have "graph_ok sample_nodes"
    unfolding sample_nodes_def by (simp add: addNode_ok graph_ok_empty)
  then show "graph_ok (dg sample)"
    by (simp add: sample_def sample_graph_def with_edge_ok n)
  show "nodes (dg sample) = [0, 1, 2, 3, 4]"
    by (simp add: sample_def sample_graph_def n)
qed

section \<open>Properties\<close>

text \<open>The index is not built yet, or it is the index of the present nodes.\<close>

definition index_fresh :: "'c netlist \<Rightarrow> bool" where
  "index_fresh N \<longleftrightarrow> nodeIndex N = None \<or> nodeIndex N = Some (index_of_nodes (dg N))"

lemma fresh_index:
  assumes "index_fresh N"
  shows "the_index (buildIndex N) = index_of_nodes (dg N)" "dg (buildIndex N) = dg N" "index_fresh (buildIndex N)"
  using assms by (auto simp: index_fresh_def buildIndex_def the_index_def)

text \<open>
  With an index that is not built yet or matches the nodes, \<open>lookupAll\<close> returns exactly the nodes with
  the given hierarchical path in their order, \<open>lookup\<close> the first of them or null, the lookup with a range those
  whose bounds overlap it, and \<open>findNodes\<close> the nodes whose path matches the pattern; and the index then matches
  the nodes.
\<close>

theorem lookups_find_named_nodes:
  assumes "index_fresh N"
  shows "fst (lookupAll name N) = filter (\<lambda>n. getHierarchicalPath (ndata (dg N) n) = Some name) (nodes (dg N)) \<and>
     fst (lookup name N) = (case fst (lookupAll name N) of [] \<Rightarrow> None | n # _ \<Rightarrow> Some n) \<and>
     fst (lookupRange R name r N) =
       filter (\<lambda>n. case getBounds (ndata (dg N) n) of None \<Rightarrow> False | Some b \<Rightarrow> overlaps_of R b r) (fst (lookupAll name N)) \<and>
     set (fst (findNodes pattern N)) =
       {n \<in> set (nodes (dg N)). \<exists>path. getHierarchicalPath (ndata (dg N) n) = Some path \<and> wildcardMatch path pattern} \<and>
     index_fresh (snd (lookup name N)) \<and> index_fresh (snd (findNodes pattern N))"
proof -
  note f = fresh_index [OF assms]
  have all: "fst (lookupAll name N) = nodes_named (dg N) name"
    by (simp add: lookupAll_def Let_def f index_lookup split: list.split)
  moreover have "fst (lookup name N) = (case nodes_named (dg N) name of [] \<Rightarrow> None | n # _ \<Rightarrow> Some n)"
    by (simp add: lookup_def Let_def f index_lookup split: list.split)
  moreover have "fst (lookupRange R name r N) =
      filter (\<lambda>n. case getBounds (ndata (dg N) n) of None \<Rightarrow> False | Some b \<Rightarrow> overlaps_of R b r) (nodes_named (dg N) name)"
    by (simp add: lookupRange_def Let_def f index_lookup split: list.split)
  moreover have "set (fst (findNodes pattern N)) =
      (\<Union>(path, ns) \<in> set (index_of_nodes (dg N)). if wildcardMatch path pattern then set ns else {})"
    by (force simp: findNodes_def Let_def f split: if_splits)
  moreover have "(\<Union>(path, ns) \<in> set (index_of_nodes (dg N)). if wildcardMatch path pattern then set ns else {}) =
      (\<Union>path \<in> {path. wildcardMatch path pattern}. set (nodes_named (dg N) path))"
    by (force simp: index_member split: if_splits)
  ultimately show ?thesis
    using f(3) by (auto simp: nodes_named_def lookup_def findNodes_def Let_def)
qed

theorem lookups_find_named_nodes_witness:
  "fst (lookupAll ''b'' sample) = [1] \<and> fst (lookup ''c'' sample) = None \<and> set (fst (findNodes ''u.*'' sample)) = {4}"
proof -
  have "index_fresh sample" by (simp add: index_fresh_def sample_def)
  note l = lookups_find_named_nodes [OF this]
  have "filter (\<lambda>n. getHierarchicalPath (ndata (dg sample) n) = Some ''b'') (nodes (dg sample)) = [1]"
    "filter (\<lambda>n. getHierarchicalPath (ndata (dg sample) n) = Some ''c'') (nodes (dg sample)) = []"
    by code_simp+
  moreover have "set (filter (\<lambda>n. case getHierarchicalPath (ndata (dg sample) n) of
      None \<Rightarrow> False | Some path \<Rightarrow> wildcardMatch path ''u.*'') (nodes (dg sample))) = {4}"
    by code_simp
  then have "{n \<in> set (nodes (dg sample)). \<exists>path. getHierarchicalPath (ndata (dg sample) n) = Some path \<and>
      wildcardMatch path ''u.*''} = {4}"
    by (auto split: option.splits)
  ultimately show ?thesis
    using l [where name = "''b''" and pattern = "''u.*''"] l [where name = "''c''"] by simp
qed

text \<open>
  C23. The drivers of a signal over a range: \<open>getDrivers\<close> returns the sources of the edges that carry the
  signal with bounds that overlap the range, each once; \<open>getBitDrivers\<close> is sorted by bits and driver without
  repetition, and pairs a driver with a bit exactly when the bit is in the range and an edge from the driver carries
  it; \<open>hasSignal\<close> tells whether any edge carries the signal.
\<close>

theorem signal_drivers_exact:
  assumes "constant_range R" and "graph_ok (dg N)"
  shows "distinct (graph_getDrivers R name r N) \<and>
     set (graph_getDrivers R name r N) =
       {esrc (dg N) e | e. edgeAt (dg N) e \<noteq> None \<and> symbol_path N e = Some name \<and>
          bits_of R (bounds (einfo (dg N) e)) \<inter> bits_of R r \<noteq> {}} \<and>
     sorted_wrt (<) (map (bd_key R) (getBitDrivers R name r N)) \<and>
     (\<forall>n b. (\<exists>x. (x, n) \<in> set (getBitDrivers R name r N) \<and> b \<in> bits_of R x) \<longleftrightarrow>
        b \<in> bits_of R r \<and> (\<exists>e. edgeAt (dg N) e \<noteq> None \<and> symbol_path N e = Some name \<and> esrc (dg N) e = n \<and>
           b \<in> bits_of R (bounds (einfo (dg N) e)))) \<and>
     (hasSignal name N \<longleftrightarrow> (\<exists>e. edgeAt (dg N) e \<noteq> None \<and> symbol_path N e = Some name))"
proof -
  note edges = set_all_edges_conv [OF assms(2)]
  have "sorted_wrt (<) (map (bd_key R) (getBitDrivers R name r N))"
    using sorted_unique_by [of "bd_key R"] by (simp add: getBitDrivers_def Let_def)
  moreover have "distinct (graph_getDrivers R name r N)"
    by (simp add: graph_getDrivers_def drivers_fold(2))
  moreover have "set (graph_getDrivers R name r N) =
      {esrc (dg N) e | e. edgeAt (dg N) e \<noteq> None \<and> symbol_path N e = Some name \<and>
          bits_of R (bounds (einfo (dg N) e)) \<inter> bits_of R r \<noteq> {}}"
    by (auto simp: graph_getDrivers_def drivers_fold(1) edges carries_def
        constant_range.overlaps_bits [OF assms(1)])
  moreover have "hasSignal name N \<longleftrightarrow> (\<exists>e. edgeAt (dg N) e \<noteq> None \<and> symbol_path N e = Some name)"
    by (auto simp: hasSignal_def list_ex_iff edges carries_def)
  ultimately show ?thesis
    using bit_drivers_bits [OF assms(1), of _ name r N] by (auto simp: edges carries_def)
qed

theorem signal_drivers_exact_witness:
  "graph_getDrivers std_range ''top.s'' (mk_range 3 2) sample = [0] \<and>
   (\<exists>x. (x, 0) \<in> set (getBitDrivers std_range ''top.s'' (mk_range 5 2) sample) \<and> 3 \<in> bits_of std_range x) \<and>
   distinct (graph_getDrivers std_range ''top.s'' (mk_range 3 2) sample)"
proof -
  note w = signal_drivers_exact [OF std.constant_range_axioms sample_ok(1)]
  have e: "edgeAt (dg sample) 0 \<noteq> None" "symbol_path sample 0 = Some ''top.s''" "esrc (dg sample) 0 = 0"
    "bounds (einfo (dg sample) 0) = mk_range 3 0"
    by (code_simp, simp?)+
  have "graph_getDrivers std_range ''top.s'' (mk_range 3 2) sample = [0]"
    by code_simp
  moreover have "\<exists>x. (x, 0) \<in> set (getBitDrivers std_range ''top.s'' (mk_range 5 2) sample) \<and> 3 \<in> bits_of std_range x"
    using w [where name = "''top.s''" and r = "mk_range 5 2"] e by (auto simp: bits_of_def std_range_def)
  ultimately show ?thesis
    using w [where name = "''top.s''" and r = "mk_range 3 2"] by simp
qed

text \<open>
  C24. The combinational fan-in and fan-out of a signal always return, each node once. The fan-in holds the
  drivers of the signal's bits and what reaches them backwards within the depth limit (0: no limit), not going past
  a state; the fan-out holds the consumers and what they reach forwards over edges that do not enter a state.
\<close>

theorem signal_fans_exact:
  assumes "graph_ok (dg N)"
  shows "\<exists>fin fout. getSignalCombFanIn R name r maxDepth N = Some fin \<and>
     getSignalCombFanOut R name r maxDepth N = Some fout \<and> distinct fin \<and> distinct fout \<and>
     set fin = within (\<lambda>n m. nkind (dg N) n \<noteq> KState \<and>
         (\<exists>e \<in> set (inEdges (dg N) n). \<not> disabled (einfo (dg N) e) \<and> esrc (dg N) e = m)) maxDepth
       (snd ` set (getBitDrivers R name r N)) \<and>
     set fout = within (\<lambda>n m. \<exists>e \<in> set (outEdges (dg N) n). comb_edge (dg N) e \<and> etgt (dg N) e = m) maxDepth
       {etgt (dg N) e | e. edgeAt (dg N) e \<noteq> None \<and> \<not> disabled (einfo (dg N) e) \<and> symbol_path N e = Some name \<and>
          overlaps_of R (bounds (einfo (dg N) e)) r}"
proof -
  let ?g = "dg N"
  note e = edges_okD [OF graph_okD(1) [OF assms]] and n = graph_okD(3) [OF assms]
  note edges = set_all_edges_conv [OF assms]
  have closed: "set (in_neighbours ?g k) \<subseteq> set (nodes ?g)" "set (out_neighbours ?g k) \<subseteq> set (nodes ?g)" for k
    using e n by (auto simp: in_neighbours_def out_neighbours_def nodes_ok_def)
  have drivers: "snd ` set (getBitDrivers R name r N) \<subseteq> set (nodes ?g)"
  proof -
    have "snd ` set (getBitDrivers R name r N) = snd ` (snd ` (bd_key R ` set (getBitDrivers R name r N)))"
      by (simp add: image_image bd_key_def)
    then show ?thesis
      using n edges unfolding bit_drivers_keys by (auto simp: bd_key_def nodes_ok_def)
  qed
  have consumers: "set (signal_consumers R name r N) =
      {etgt ?g e | e. edgeAt ?g e \<noteq> None \<and> \<not> disabled (einfo ?g e) \<and> symbol_path N e = Some name \<and>
          overlaps_of R (bounds (einfo ?g e)) r}"
    using edges by (auto simp: signal_consumers_def carries_def)
  have steps: "fan_step (\<lambda>n. nkind ?g n = KState) (in_neighbours ?g) =
      (\<lambda>n m. nkind ?g n \<noteq> KState \<and> (\<exists>e \<in> set (inEdges ?g n). \<not> disabled (einfo ?g e) \<and> esrc ?g e = m))"
    "fan_step (\<lambda>_. False) (out_neighbours ?g) = (\<lambda>n m. \<exists>e \<in> set (outEdges ?g n). comb_edge ?g e \<and> etgt ?g e = m)"
    by (auto simp: fan_step_def in_neighbours_def out_neighbours_def comb_edge_def fun_eq_iff)
  have "set (signal_consumers R name r N) \<subseteq> set (nodes ?g)"
    using n unfolding consumers by (auto simp: nodes_ok_def)
  then show ?thesis
    using fan_search_ok [of "set (nodes ?g)" "in_neighbours ?g" "map snd (getBitDrivers R name r N)"
        "\<lambda>n. nkind ?g n = KState" maxDepth] drivers closed
      fan_search_ok [of "set (nodes ?g)" "out_neighbours ?g" "signal_consumers R name r N" "\<lambda>_. False" maxDepth]
    by (auto simp: getSignalCombFanIn_def getSignalCombFanOut_def steps consumers)
qed

theorem signal_fans_exact_witness:
  "\<exists>fin fout. getSignalCombFanIn std_range ''top.s'' (mk_range 7 0) 1 sample = Some fin \<and>
     getSignalCombFanOut std_range ''top.s'' (mk_range 7 0) 1 sample = Some fout \<and> distinct fin \<and> distinct fout"
  using signal_fans_exact [OF sample_ok(1), of std_range "''top.s''" "mk_range 7 0" 1] by blast

text \<open>
  C25. \<open>getCombFanIn\<close> and \<open>getCombFanOut\<close> always return: the node and everything that reaches it, or that it
  reaches, over enabled edges that do not come from (go into) a state, each node once.
\<close>

theorem comb_fans_exact:
  assumes "graph_ok g"
  shows "\<exists>fin fout. getCombFanIn g n = Some fin \<and> getCombFanOut g n = Some fout \<and> distinct fin \<and> distinct fout \<and>
     set fin = {m. (comb_backward g)\<^sup>*\<^sup>* n m} \<and> set fout = {m. (comb_forward g)\<^sup>*\<^sup>* n m}"
  using fan_in_ok [OF assms, of n] fan_out_ok [OF assms, of n] by blast

theorem comb_fans_exact_witness:
  "getCombFanIn (dg sample) 1 = Some [1, 0, 3] \<and> (\<exists>fout. getCombFanOut (dg sample) 1 = Some fout \<and> distinct fout)"
proof
  show "getCombFanIn (dg sample) 1 = Some [1, 0, 3]" by code_simp
qed (use comb_fans_exact [OF sample_ok(1), of 1] in blast)

text \<open>
  C26. \<open>getConstantDrivers\<close> always returns: the constants of the node's combinational fan-in, other than the
  node itself, if no undriven port is in that fan-in, and nothing otherwise. No state node other than the node itself is
  in that fan-in, so the function's case for states is never taken. This is at odds with \<^verbatim>\<open>NetlistGraph.hpp\<close>, the Python
  documentation and the help of \<^verbatim>\<open>--constant-drivers\<close>, which say that the result is empty when a state reaches the node:
  a node that a register and a constant feed is reported as driven by constants only.
\<close>

theorem constant_drivers_exact:
  assumes "graph_ok g"
  shows "\<exists>res. getConstantDrivers g n = Some res \<and> distinct res \<and>
     set res = (if \<exists>m. (comb_backward g)\<^sup>*\<^sup>* n m \<and> m \<noteq> n \<and> nkind g m = KPort \<and> node_inDegree g m = 0 then {}
       else {m. (comb_backward g)\<^sup>*\<^sup>* n m \<and> m \<noteq> n \<and> nkind g m = KConstant}) \<and>
     (\<forall>m. (comb_backward g)\<^sup>*\<^sup>* n m \<and> m \<noteq> n \<longrightarrow> nkind g m \<noteq> KState)"
proof -
  obtain fin where fin: "getCombFanIn g n = Some fin" "distinct fin" "set fin = {m. (comb_backward g)\<^sup>*\<^sup>* n m}"
    using fan_in_ok [OF assms] by blast
  have "(\<exists>m \<in> set fin. m \<noteq> n \<and> blocks_constant g m) \<longleftrightarrow>
      (\<exists>m. (comb_backward g)\<^sup>*\<^sup>* n m \<and> m \<noteq> n \<and> nkind g m = KPort \<and> node_inDegree g m = 0)"
    using fan_in_no_state [of g n] fin(3) by (auto simp: blocks_constant_def isDriven_def)
  then show ?thesis
    using fin(2,3) fan_in_no_state [of g n] by (auto simp: getConstantDrivers_def fin(1) constant_scan_eq)
qed

theorem constant_drivers_exact_witness:
  "\<exists>res. getConstantDrivers (dg sample) 1 = Some res \<and> distinct res \<and>
     (\<forall>m. (comb_backward (dg sample))\<^sup>*\<^sup>* 1 m \<and> m \<noteq> 1 \<longrightarrow> nkind (dg sample) m \<noteq> KState)"
  using constant_drivers_exact [OF sample_ok(1), of 1] by blast

text \<open>
  So a node that is fed by a constant and by a register (directly, over an enabled edge) is reported as driven by
  constants only. Node 1 of the sample has in-edges from the variable 0, the constant 3 and the state 2.
\<close>

lemma constant_drivers_ignore_registers:
  "getConstantDrivers (dg sample) 1 = Some [3] \<and>
   map (nkind (dg sample)) (in_neighbours (dg sample) 1) = [KVariable, KConstant, KState]"
  by code_simp

text \<open>
  C27. \<open>getSensitivity\<close> always returns, each pair of a source and an edge kind once: for a state the sources of
  its enabled clocked in-edges, for any other node those of all the states that its combinational fan-out feeds.
\<close>

theorem sensitivity_exact:
  assumes "graph_ok g"
  shows "\<exists>res. getSensitivity g n = Some res \<and> distinct res \<and>
     set res = (if nkind g n = KState then clocks_of g n
       else \<Union> (clocks_of g ` {t. nkind g t = KState \<and> (\<exists>m. (feeds_comb g)\<^sup>*\<^sup>* n m \<and> feeds g m t)}))"
  by (rule getSensitivity_ok [OF assms])

theorem sensitivity_exact_witness:
  "getSensitivity (dg sample) 1 = Some [(0, PosEdge)] \<and>
   (\<exists>res. getSensitivity (dg sample) 2 = Some res \<and> set res = clocks_of (dg sample) 2)"
proof
  show "getSensitivity (dg sample) 1 = Some [(0, PosEdge)]" by code_simp
  have "nkind (dg sample) 2 = KState" by code_simp
  then show "\<exists>res. getSensitivity (dg sample) 2 = Some res \<and> set res = clocks_of (dg sample) 2"
    using sensitivity_exact [OF sample_ok(1), of 2] by auto
qed

text \<open>
  \<open>getBlackBoxCoverage\<close>: a node is contained when some box is its path or a prefix of it on a segment
  boundary, except for a port directly below every such box, which is on the boundary; a node with no path, or in no
  box, is outside. Containment wins over the boundary whatever the order of the boxes.
\<close>

theorem black_box_coverage_exact:
  "getBlackBoxCoverage n N =
     (case getHierarchicalPath (ndata (dg N) n) of
        None \<Rightarrow> Outside
      | Some path \<Rightarrow>
          if \<exists>box \<in> set (blackBoxPaths N). pathInScope path box \<and>
               \<not> (nkind (dg N) n = KPort \<and> directly_below path box) then Contained
          else if \<exists>box \<in> set (blackBoxPaths N). pathInScope path box then Boundary_of_box
          else Outside)"
  by (simp add: getBlackBoxCoverage_def coverage_scan_eq split: option.split)

end
