(* ===== verification/SliceFacts.thy ===== *)
theory SliceFacts
  imports BitSlices
begin

text \<open>
  What bit slices promise: the list of an expression tiles its width, every source spans its slices, and the
  sources at a bit are the ones that a reference definition on the expression gives to that bit, wherever the cut
  points are; aligned segments keep the sources of both sides bit by bit.
\<close>

section \<open>Lists that tile a range\<close>

fun tiles :: "nat \<Rightarrow> nat \<Rightarrow> 'v slice_list \<Rightarrow> bool" where
  "tiles p q [] \<longleftrightarrow> p = q"
| "tiles p q (s # ss) \<longleftrightarrow> concatLo s = p \<and> p < concatHi s \<and> tiles (concatHi s) q ss"

lemma tiles_append: "tiles p q (a @ b) \<longleftrightarrow> (\<exists>m. tiles p m a \<and> tiles m q b)"
  by (induction a arbitrary: p) auto

lemma tiles_le: "tiles p q l \<Longrightarrow> p \<le> q"
  by (induction l arbitrary: p) fastforce+

lemma tiles_last: "tiles p q l \<Longrightarrow> q = (if l = [] then p else concatHi (last l))"
  by (induction l arbitrary: p) (auto split: if_splits)

lemma tiles_width: "tiles 0 q l \<Longrightarrow> slices_width l = q"
  using tiles_last [of 0 q l] by (simp add: slices_width_def)

lemma width_append: "tiles (slices_width out) q new \<Longrightarrow> slices_width (out @ new) = q"
  using tiles_last [of "slices_width out" q new] by (simp add: slices_width_def split: if_splits)

lemma tiles_member: "tiles p q l \<Longrightarrow> s \<in> set l \<Longrightarrow> p \<le> concatLo s \<and> concatLo s < concatHi s \<and> concatHi s \<le> q"
proof (induction l arbitrary: p)
  case (Cons t l)
  then show ?case using tiles_le [of "concatHi t" q l] by fastforce
qed simp

lemma find_slice_Cons:
  "findSliceContaining (s # l) b = (if concatLo s \<le> b \<and> b < concatHi s then Some s else findSliceContaining l b)"
  by (simp add: findSliceContaining_def)

lemma find_slice_Nil [simp]: "findSliceContaining [] b = None"
  by (simp add: findSliceContaining_def)

lemma find_slice_append:
  "findSliceContaining (a @ l) b = (case findSliceContaining a b of None \<Rightarrow> findSliceContaining l b | Some s \<Rightarrow> Some s)"
  by (induction a) (simp_all add: find_slice_Cons)

lemma tiles_find:
  "tiles p q l \<Longrightarrow> findSliceContaining l b = Some s \<longleftrightarrow> s \<in> set l \<and> concatLo s \<le> b \<and> b < concatHi s"
proof (induction l arbitrary: p)
  case (Cons t l)
  then have tl: "tiles (concatHi t) q l" by simp
  have "concatHi t \<le> concatLo s" if "s \<in> set l"
    using tiles_member [OF tl that] by simp
  then show ?case
    using Cons.IH [OF tl] by (cases "concatLo t \<le> b \<and> b < concatHi t") (auto simp: find_slice_Cons)
qed simp

lemma tiles_find_None: "tiles p q l \<Longrightarrow> findSliceContaining l b = None \<longleftrightarrow> \<not> (p \<le> b \<and> b < q)"
proof (induction l arbitrary: p)
  case (Cons t l)
  then have tl: "tiles (concatHi t) q l" by simp
  then show ?case
    using Cons.IH [OF tl] Cons.prems tiles_le [OF tl] by (auto simp: find_slice_Cons)
qed simp

lemma sources_at_append:
  assumes "tiles p m a" "tiles m q l"
  shows "sources_at (a @ l) b = (if b < m then sources_at a b else sources_at l b)"
  using tiles_find_None [OF assms(1), of b] tiles_find_None [OF assms(2), of b] tiles_le [OF assms(1)]
  by (auto simp: sources_at_def find_slice_append split: option.splits)

lemma sources_at_const:
  assumes "tiles p q l" "p \<le> b" "b < q" "\<And>s. s \<in> set l \<Longrightarrow> sources s = srcs"
  shows "sources_at l b = srcs"
proof -
  obtain s where "findSliceContaining l b = Some s"
    using tiles_find_None [OF assms(1), of b] assms(2,3) by blast
  moreover from this have "s \<in> set l"
    using tiles_find [OF assms(1)] by simp
  ultimately show ?thesis
    using assms(4) by (simp add: sources_at_def)
qed

section \<open>Where a bit comes from\<close>

datatype 'v origin =
  FromLsp value_path nat
| FromExpr nat
| FromPort nat nat
| FromConst 'v nat
| SignBit

definition origin_at :: "nat \<Rightarrow> 'v bit_slice_source \<Rightarrow> 'v origin" where
  "origin_at b s =
     (case src_kind s of
        SrcLsp \<Rightarrow> FromLsp (the (src_path s)) (b - srcLo s)
      | SrcOpaque \<Rightarrow> FromExpr (the (opaqueExpr s))
      | SrcPortNode \<Rightarrow> FromPort (the (portNode s)) (b - srcLo s)
      | SrcConstant \<Rightarrow> FromConst (the (constantValue s)) (b - srcLo s)
      | SrcPadding \<Rightarrow> SignBit)"

definition origins :: "'v slice_list \<Rightarrow> nat \<Rightarrow> 'v origin set" where
  "origins l b = origin_at b ` set (sources_at l b)"

text \<open>A source with its own bit range covers the slice it is in.\<close>

definition spans :: "'v bit_slice \<Rightarrow> bool" where
  "spans s \<longleftrightarrow> (\<forall>x \<in> set (sources s). src_kind x = SrcLsp \<or> src_kind x = SrcPortNode \<or> src_kind x = SrcConstant \<longrightarrow>
     srcLo x \<le> concatLo s \<and> concatHi s \<le> srcHi x)"

lemma origin_make:
  "origin_at b (makeLsp p lo hi) = FromLsp p (b - lo)"
  "origin_at b (makeOpaque e) = FromExpr e"
  "origin_at b (makePadding sx) = SignBit"
  "origin_at b (makeConstant v lo hi x) = FromConst v (b - lo)"
  "origin_at b (makePortNode n lo hi) = FromPort n (b - lo)"
  by (simp_all add: origin_at_def makeLsp_def makeOpaque_def makePadding_def makeConstant_def makePortNode_def)

lemmas make_defs = makeLsp_def makeOpaque_def makePadding_def makeConstant_def makePortNode_def new_source_def

lemma origin_translate: "origin_at (base + b) (translate base s) = origin_at b s"
  by (cases "src_kind s") (simp_all add: origin_at_def translate_def)

section \<open>The reference\<close>

text \<open>The operand of a list (least significant first) that holds a bit, and the bit within it.\<close>

fun locate :: "'v expr list \<Rightarrow> nat \<Rightarrow> ('v expr \<times> nat) option" where
  "locate [] b = None"
| "locate (e # es) b = (if b < exprWidth e then Some (e, b) else locate es (b - exprWidth e))"

lemma locate_member: "locate es b = Some (e, b') \<Longrightarrow> e \<in> set es"
  by (induction es b rule: locate.induct) (auto split: if_splits)

text \<open>The origins of a bit of an expression, by its meaning: no slices, no cut points.\<close>

function feeds_bit :: "(nat \<Rightarrow> 'v) \<Rightarrow> 'v expr \<Rightarrow> nat \<Rightarrow> 'v origin set" where
  "feeds_bit zero (LspExpr i p) b = {FromLsp p b}"
| "feeds_bit zero (Concatenation i es) b =
     (case locate (rev es) b of None \<Rightarrow> {} | Some (e, b') \<Rightarrow> feeds_bit zero e b')"
| "feeds_bit zero (Replication i c e) b =
     (if count_of c = None then {FromExpr (x_id i)} else feeds_bit zero e (b mod exprWidth e))"
| "feeds_bit zero (Conversion i e) b =
     (case folded (Conversion i e) of
        Some v \<Rightarrow> {FromConst v b}
      | None \<Rightarrow>
          if x_width i < exprWidth e then {FromExpr (x_id i)}
          else if b < exprWidth e then feeds_bit zero e b
          else if x_signed (info e) \<and> x_signed i then {SignBit}
          else {FromConst (zero (x_width i - exprWidth e)) (b - exprWidth e)})"
| "feeds_bit zero (ConditionalOp i conds l r) b =
     (if exprWidth l = exprWidth r \<and> exprWidth l = x_width i \<and> length conds = 1 \<and> \<not> has_pattern (hd conds)
      then insert (FromExpr (cond_expr (hd conds))) (feeds_bit zero l b \<union> feeds_bit zero r b)
      else {FromExpr (x_id i)})"
| "feeds_bit zero (OtherExpr i) b =
     (case folded (OtherExpr i) of Some v \<Rightarrow> {FromConst v b} | None \<Rightarrow> {FromExpr (x_id i)})"
  by pat_completeness auto
termination
  by (relation "measure (\<lambda>(z, e, b). size e)")
    (auto dest!: locate_member simp: less_Suc_eq_le intro: size_list_estimation')

text \<open>No registered cut point lies strictly inside the bounds of a path.\<close>

definition uncut :: "cut_registry option \<Rightarrow> value_path \<Rightarrow> bool" where
  "uncut cuts p =
     (case cuts of None \<Rightarrow> True
      | Some reg \<Rightarrow>
          case rootSymbol p of None \<Rightarrow> True
          | Some s \<Rightarrow> list_all (\<lambda>c. c \<le> fst (lspBounds p) \<or> snd (lspBounds p) < c) (cuts_of reg s))"

text \<open>
  What is asked of an expression. Concatenations and replications are as wide as their operands together, as slang's
  types are. A path with a cut point inside its bounds has bounds of the expression's width: so has every select by
  constants, but not one by a variable, such as \<open>a[i]\<close>, whose bounds are those of the whole static prefix \<open>a\<close>.
\<close>

fun expr_ok :: "cut_registry option \<Rightarrow> 'v expr \<Rightarrow> bool" where
  "expr_ok cuts (LspExpr i p) \<longleftrightarrow> uncut cuts p \<or> snd (lspBounds p) + 1 - fst (lspBounds p) = x_width i"
| "expr_ok cuts (Concatenation i es) \<longleftrightarrow> x_width i = sum_list (map exprWidth es) \<and> (\<forall>e \<in> set es. expr_ok cuts e)"
| "expr_ok cuts (Replication i c e) \<longleftrightarrow>
     expr_ok cuts e \<and> (case count_of c of None \<Rightarrow> True | Some n \<Rightarrow> x_width i = nat n * exprWidth e)"
| "expr_ok cuts (Conversion i e) \<longleftrightarrow> expr_ok cuts e"
| "expr_ok cuts (ConditionalOp i conds l r) \<longleftrightarrow> expr_ok cuts l \<and> expr_ok cuts r"
| "expr_ok cuts (OtherExpr i) \<longleftrightarrow> True"

lemma uncut_None [simp]: "uncut None p"
  by (simp add: uncut_def)

lemma expr_ok_None: "expr_ok cuts e \<Longrightarrow> expr_ok None e"
  by (induction e) auto

definition registry_ok :: "cut_registry \<Rightarrow> bool" where
  "registry_ok reg \<longleftrightarrow> (\<forall>s l. reg s = Some l \<longrightarrow> sorted_wrt (<) l)"

section \<open>Cut points\<close>

lemma strict_remdups_adj: "sorted xs \<Longrightarrow> sorted_wrt (<) (remdups_adj xs)"
  for xs :: "nat list"
  by (induction xs rule: remdups_adj.induct) (auto simp: order_le_less)

lemma sort_unique_sorted: "sorted_wrt (<) (sort_unique xs)"
  by (simp add: sort_unique_def strict_remdups_adj)

lemma set_sort_unique [simp]: "set (sort_unique xs) = set xs"
  by (simp add: sort_unique_def)

lemma hints_between_props:
  assumes "sorted_wrt (<) h"
  shows "sorted_wrt (<) (hints_between lo hi h)" "set (hints_between lo hi h) = {c \<in> set h. lo < c \<and> c < hi}"
proof -
  have "sorted_wrt (<) (dropWhile (\<lambda>c. c \<le> lo) h)"
    using assms by (metis sorted_wrt_append takeWhile_dropWhile_id)
  then show "sorted_wrt (<) (hints_between lo hi h)"
    unfolding hints_between_def by (metis sorted_wrt_append takeWhile_dropWhile_id)
  have drop: "set (dropWhile (\<lambda>c. c \<le> lo) h) = {c \<in> set h. lo < c}"
    using assms by (induction h) auto
  have take: "set (takeWhile (\<lambda>c. c < hi) xs) = {c \<in> set xs. c < hi}" if "sorted_wrt (<) xs" for xs
    using that by (induction xs) auto
  show "set (hints_between lo hi h) = {c \<in> set h. lo < c \<and> c < hi}"
    using take [OF \<open>sorted_wrt (<) (dropWhile (\<lambda>c. c \<le> lo) h)\<close>] drop by (auto simp: hints_between_def)
qed

lemma addCuts_ok:
  assumes "registry_ok reg"
  shows "registry_ok (addCuts w s cuts reg)"
    "set (cuts_of (addCuts w s cuts reg) t) =
       set (cuts_of reg t) \<union> (if t = s then {c \<in> set cuts. 0 < c \<and> c < w s} else {})"
  using assms by (auto simp: registry_ok_def addCuts_def sort_unique_sorted cuts_of_def split: option.splits if_splits)

lemma grid_member:
  "sorted_wrt (<) xs \<Longrightarrow> (a, b) \<in> set (grid xs) \<Longrightarrow> a < b \<and> a \<in> set xs \<and> b \<in> set xs \<and> (\<forall>c \<in> set xs. c \<le> a \<or> b \<le> c)"
  by (induction xs rule: grid.induct) (auto simp: less_imp_le)

lemma tiles_grid:
  "sorted_wrt (<) (x # xs) \<Longrightarrow>
   tiles (base + x) (base + last (x # xs)) (map (\<lambda>(a, b). \<lparr>concatLo = base + a, concatHi = base + b, sources = F a b\<rparr>) (grid (x # xs)))"
  by (induction xs arbitrary: x) auto

text \<open>The merged cuts of two lists that tile the same width start at 0 and end at the width.\<close>

lemma merged_cuts:
  assumes "tiles 0 w l" "tiles 0 w r"
  obtains cs where "mergeCuts (collectCuts l) (collectCuts r) = 0 # cs" "sorted_wrt (<) (0 # cs)" "last (0 # cs) = w"
    "set (0 # cs) = insert 0 (concatHi ` set l \<union> concatHi ` set r)"
proof -
  let ?m = "mergeCuts (collectCuts l) (collectCuts r)"
  have srt: "sorted_wrt (<) ?m" by (simp add: mergeCuts_def sort_unique_sorted)
  have set: "set ?m = insert 0 (concatHi ` set l \<union> concatHi ` set r)"
    by (auto simp: mergeCuts_def collectCuts_def)
  obtain c cs where m: "?m = c # cs"
    using set by (cases ?m) auto
  have c: "c = 0"
  proof (rule ccontr)
    assume "c \<noteq> 0"
    then have "0 \<notin> set ?m" using srt m by auto
    then show False using set by simp
  qed
  have w: "w \<in> set ?m" "\<forall>x \<in> set ?m. x \<le> w"
  proof -
    show "w \<in> set ?m"
      using tiles_last [OF assms(1)] by (auto simp: set split: if_splits)
    show "\<forall>x \<in> set ?m. x \<le> w"
      using tiles_member [OF assms(1)] tiles_member [OF assms(2)] by (auto simp: set)
  qed
  have "last ?m = w"
  proof -
    have "x \<le> last xs" if "sorted_wrt (<) xs" "x \<in> set xs" for x and xs :: "nat list"
      using that by (induction xs rule: rev_induct) (auto simp: sorted_wrt_append)
    then have "x \<le> last ?m" if "x \<in> set ?m" for x
      using srt that by blast
    moreover have "last ?m \<in> set ?m" using m by simp
    ultimately show ?thesis using w by (simp add: order_antisym)
  qed
  then show thesis
    using that [of cs] m c srt set by simp
qed

text \<open>Within a grid segment the slice that holds a bit does not change.\<close>

lemma grid_same_slice:
  assumes t: "tiles 0 w l" and cuts: "\<forall>s \<in> set l. concatHi s \<le> a \<or> b \<le> concatHi s" and x: "a \<le> x" "x < b" "x < w"
  shows "findSliceContaining l x = findSliceContaining l a"
proof -
  obtain s where s: "findSliceContaining l a = Some s"
    using tiles_find_None [OF t, of a] x by fastforce
  then have "s \<in> set l" "concatLo s \<le> a" "a < concatHi s"
    using tiles_find [OF t] by blast+
  then have "concatLo s \<le> x \<and> x < concatHi s"
    using cuts x by fastforce
  then show ?thesis
    using s tiles_find [OF t, of x s] \<open>s \<in> set l\<close> by simp
qed

section \<open>Pieces of a list\<close>

text \<open>
  The slices that an operand adds: they tile its width from its offset, their sources span them, and the
  origins at the operand's bits are the given ones.
\<close>

definition piece_ok :: "nat \<Rightarrow> nat \<Rightarrow> 'v slice_list \<Rightarrow> (nat \<Rightarrow> 'v origin set) \<Rightarrow> bool" where
  "piece_ok p w new f \<longleftrightarrow> tiles p (p + w) new \<and> (\<forall>s \<in> set new. spans s) \<and> (\<forall>b < w. origins new (p + b) = f b)"

lemma piece_okD:
  assumes "piece_ok p w new f"
  shows "tiles p (p + w) new" "s \<in> set new \<Longrightarrow> spans s" "b < w \<Longrightarrow> origins new (p + b) = f b"
  using assms by (simp_all add: piece_ok_def)

lemma piece_empty: "w = 0 \<Longrightarrow> piece_ok p w [] f"
  by (simp add: piece_ok_def)

lemma piece_append:
  assumes "piece_ok p w1 n1 f1" "piece_ok (p + w1) w2 n2 f2"
  shows "piece_ok p (w1 + w2) (n1 @ n2) (\<lambda>b. if b < w1 then f1 b else f2 (b - w1))"
proof -
  note t1 = piece_okD(1) [OF assms(1)] and t2 = piece_okD(1) [OF assms(2)]
  have "origins (n1 @ n2) (p + b) = (if b < w1 then f1 b else f2 (b - w1))" if "b < w1 + w2" for b
    using piece_okD(3) [OF assms(1), of b] piece_okD(3) [OF assms(2), of "b - w1"] that
    by (cases "b < w1") (simp_all add: origins_def sources_at_append [OF t1 t2])
  then show ?thesis
    using t1 t2 piece_okD(2) [OF assms(1)] piece_okD(2) [OF assms(2)]
    by (auto simp: piece_ok_def tiles_append add.assoc)
qed

lemma piece_cong: "piece_ok p w new f \<Longrightarrow> (\<And>b. b < w \<Longrightarrow> f b = h b) \<Longrightarrow> piece_ok p w new h"
  by (simp add: piece_ok_def)

text \<open>Pieces whose slices all have the same sources.\<close>

lemma piece_const:
  assumes "tiles p (p + w) new" "\<And>s. s \<in> set new \<Longrightarrow> sources s = srcs \<and> spans s"
    "\<And>b. b < w \<Longrightarrow> origin_at (p + b) ` set srcs = f b"
  shows "piece_ok p w new f"
  unfolding piece_ok_def
proof (intro conjI ballI allI impI)
  show "origins new (p + b) = f b" if "b < w" for b
    using sources_at_const [OF assms(1), of "p + b" srcs] assms(2,3) that by (simp add: origins_def)
qed (use assms in auto)

lemma piece_single:
  assumes "w \<noteq> 0" "spans \<lparr>concatLo = p, concatHi = p + w, sources = [src]\<rparr>" "\<And>b. b < w \<Longrightarrow> {origin_at (p + b) src} = f b"
  shows "piece_ok p w [\<lparr>concatLo = p, concatHi = p + w, sources = [src]\<rparr>] f"
  by (rule piece_const [where srcs = "[src]"]) (use assms in auto)

text \<open>What \<open>buildInto\<close> does to a list: append a piece.\<close>

definition appends :: "'v slice_list \<Rightarrow> 'v slice_list \<Rightarrow> nat \<Rightarrow> (nat \<Rightarrow> 'v origin set) \<Rightarrow> bool" where
  "appends out out' w f \<longleftrightarrow> (\<exists>new. out' = out @ new \<and> piece_ok (slices_width out) w new f)"

lemma appends_refl: "w = 0 \<Longrightarrow> appends out out w f"
  unfolding appends_def by (intro exI [of _ "[]"]) (simp add: piece_empty)

lemma appends_width: "appends out out' w f \<Longrightarrow> slices_width out' = slices_width out + w"
  unfolding appends_def using width_append piece_okD(1) by blast

lemma appends_trans:
  assumes "appends a b w1 f1" "appends b c w2 f2"
  shows "appends a c (w1 + w2) (\<lambda>x. if x < w1 then f1 x else f2 (x - w1))"
  using assms piece_append appends_width [OF assms(1)] unfolding appends_def by (metis append.assoc)

lemma appends_cong: "appends out out' w f \<Longrightarrow> (\<And>b. b < w \<Longrightarrow> f b = h b) \<Longrightarrow> appends out out' w h"
  unfolding appends_def using piece_cong by blast

lemma pushOpaque_appends: "appends out (pushOpaque e out) (exprWidth e) (\<lambda>_. {FromExpr (x_id (info e))})"
proof (cases "exprWidth e = 0")
  case False
  then show ?thesis
    by (auto simp: appends_def pushOpaque_def Let_def spans_def make_defs origin_at_def intro!: piece_single)
qed (simp add: pushOpaque_def appends_refl)

lemma pushConstant_appends: "appends out (pushConstant v e out) (exprWidth e) (\<lambda>b. {FromConst v b})"
proof (cases "exprWidth e = 0")
  case False
  then show ?thesis
    by (auto simp: appends_def pushConstant_def Let_def spans_def make_defs origin_at_def intro!: piece_single)
qed (simp add: pushConstant_def appends_refl)

lemma pad_appends:
  assumes "w \<noteq> 0"
  shows "appends out (pushPaddingSlice (pad_slice zero sx (slices_width out) w) out) w
     (\<lambda>b. if sx then {SignBit} else {FromConst (zero w) b})"
  using assms
  by (auto simp: appends_def pushPaddingSlice_def pad_slice_def spans_def make_defs origin_at_def intro!: piece_single)

section \<open>Paths with cut points\<close>

lemma lsp_pieces_tile:
  "sorted_wrt (<) (prev # cs) \<Longrightarrow> lspLo \<le> prev \<Longrightarrow>
   tiles (lo + (prev - lspLo)) (lo + (last (prev # cs) - lspLo)) (lsp_pieces p lo lspLo prev cs)"
proof (induction cs arbitrary: prev)
  case (Cons c cs)
  then show ?case using Cons.IH [of c] by auto
qed simp

lemma lsp_pieces_sources:
  "s \<in> set (lsp_pieces p lo lspLo prev cs) \<Longrightarrow> sources s = [makeLsp p lo (lo + (snd (lspBounds p) + 1 - lspLo))]"
  by (induction cs arbitrary: prev) auto

text \<open>A path that no cut point splits gives one slice of the expression's width; one that is split gives its bounds' width.\<close>

lemma pushLsp_cases:
  assumes reg: "\<And>r. cuts = Some r \<Longrightarrow> registry_ok r" and w: "x_width i \<noteq> 0"
  shows "appends out (pushLsp cuts (LspExpr i p) p out)
     (if uncut cuts p then x_width i else snd (lspBounds p) + 1 - fst (lspBounds p)) (\<lambda>b. {FromLsp p b})"
proof -
  let ?w = "x_width i" and ?lo = "slices_width out" and ?l = "fst (lspBounds p)" and ?h = "snd (lspBounds p) + 1"
  define hints where "hints = (case cuts of None \<Rightarrow> None | Some r \<Rightarrow> Option.bind (rootSymbol p) (cutsFor r))"
  define cs where "cs = (case hints of None \<Rightarrow> [] | Some h \<Rightarrow> hints_between ?l ?h h)"
  have e: "exprWidth (LspExpr i p) = ?w" by (simp add: exprWidth_def)
  have srt: "sorted_wrt (<) h" if "hints = Some h" for h
    using that reg by (auto simp: hints_def cutsFor_def registry_ok_def split: option.splits bind_splits)
  have cs: "sorted_wrt (<) cs" "\<forall>c \<in> set cs. ?l < c \<and> c < ?h"
    using hints_between_props [OF srt, of _ ?l ?h] by (auto simp: cs_def split: option.splits)
  have split: "uncut cuts p \<longleftrightarrow> cs = []"
  proof -
    have "set cs = (case hints of None \<Rightarrow> {} | Some h \<Rightarrow> {c \<in> set h. ?l < c \<and> c < ?h})"
      using hints_between_props(2) [OF srt, of _ ?l ?h] by (simp add: cs_def split: option.split)
    then have "cs = [] \<longleftrightarrow> (case hints of None \<Rightarrow> {} | Some h \<Rightarrow> {c \<in> set h. ?l < c \<and> c < ?h}) = {}"
      by (metis set_empty)
    also have "\<dots> \<longleftrightarrow> (\<forall>h. hints = Some h \<longrightarrow> list_all (\<lambda>c. c \<le> ?l \<or> snd (lspBounds p) < c) h)"
      by (cases hints) (auto simp: list_all_iff not_le not_less less_Suc_eq_le)
    also have "\<dots> \<longleftrightarrow> uncut cuts p"
      by (auto simp: uncut_def hints_def cutsFor_def cuts_of_def split: option.split)
    finally show ?thesis ..
  qed
  have push: "pushLsp cuts (LspExpr i p) p out =
      (if ?w = 0 then out else if cs \<noteq> [] then out @ lsp_pieces p ?lo ?l ?l (cs @ [?h])
       else out @ [\<lparr>concatLo = ?lo, concatHi = ?lo + ?w, sources = [makeLsp p ?lo (?lo + ?w)]\<rparr>])"
    by (simp only: pushLsp_def Let_def e hints_def [symmetric] cs_def [symmetric])
  show ?thesis
  proof (cases "cs = []")
    case True
    then have "pushLsp cuts (LspExpr i p) p out =
        out @ [\<lparr>concatLo = ?lo, concatHi = ?lo + ?w, sources = [makeLsp p ?lo (?lo + ?w)]\<rparr>]"
      using w by (simp add: push)
    then show ?thesis
      using w True split by (auto simp: appends_def spans_def make_defs origin_at_def intro!: piece_single)
  next
    case False
    let ?new = "lsp_pieces p ?lo ?l ?l (cs @ [?h])" and ?src = "makeLsp p ?lo (?lo + (?h - ?l))"
    have push: "pushLsp cuts (LspExpr i p) p out = out @ ?new"
      using w False by (simp add: push)
    have "?l < ?h" using cs(2) False by (cases cs) auto
    then have "sorted_wrt (<) (?l # cs @ [?h])"
      using cs by (auto simp: sorted_wrt_append)
    then have "tiles (?lo + (?l - ?l)) (?lo + (last (?l # cs @ [?h]) - ?l)) ?new"
      by (rule lsp_pieces_tile) simp
    moreover have "last (?l # cs @ [?h]) = ?h" by simp
    ultimately have t: "tiles ?lo (?lo + (?h - ?l)) ?new"
      by (simp only: diff_self_eq_0 add_0_right)
    have srcs: "sources s = [?src]" if "s \<in> set ?new" for s
      using lsp_pieces_sources [OF that] by simp
    have "spans s" if "s \<in> set ?new" for s
      using tiles_member [OF t that] srcs [OF that] by (simp add: spans_def make_defs)
    then show ?thesis
      unfolding push appends_def if_not_P [OF False [folded split]]
      by (intro exI [of _ ?new] conjI refl piece_const [where srcs = "[?src]"] t) (simp_all add: srcs origin_make)
  qed
qed

lemma pushLsp_appends:
  assumes "expr_ok cuts (LspExpr i p)" "\<And>r. cuts = Some r \<Longrightarrow> registry_ok r"
  shows "appends out (pushLsp cuts (LspExpr i p) p out) (x_width i) (\<lambda>b. {FromLsp p b})"
proof (cases "x_width i = 0")
  case True
  then show ?thesis by (simp add: pushLsp_def exprWidth_def appends_refl)
next
  case False
  then show ?thesis
    using pushLsp_cases [of cuts i out p, OF assms(2) False] assms(1) by (simp split: if_splits)
qed

section \<open>Both arms of a conditional\<close>

lemma fold_push: "fold (\<lambda>x. pushPaddingSlice (f x)) xs out = out @ map f xs"
  by (induction xs arbitrary: out) (simp_all add: pushPaddingSlice_def)

lemma grid_origins:
  assumes l: "tiles 0 w l" and r: "tiles 0 w r"
    and cs: "sorted_wrt (<) (0 # cs)" "last (0 # cs) = w" "set (0 # cs) = insert 0 (concatHi ` set l \<union> concatHi ` set r)"
    and ab: "(a, b) \<in> set (grid (0 # cs))" and x: "a \<le> x" "x < b"
  shows "sources_at l a = sources_at l x \<and> sources_at r a = sources_at r x \<and> x < w"
proof -
  note m = grid_member [OF cs(1) ab]
  then have "b \<in> insert 0 (concatHi ` set l \<union> concatHi ` set r)"
    unfolding cs(3) by blast
  then have "b \<le> w"
    using tiles_member [OF l] tiles_member [OF r] by auto
  then have xw: "x < w" using x by simp
  have "\<forall>s \<in> set l. concatHi s \<le> a \<or> b \<le> concatHi s" "\<forall>s \<in> set r. concatHi s \<le> a \<or> b \<le> concatHi s"
    using m cs(3) by blast+
  then show ?thesis
    using grid_same_slice [OF l _ x xw] grid_same_slice [OF r _ x xw] xw by (simp add: sources_at_def)
qed

lemma slice_spans_at:
  assumes "tiles 0 w l" "\<forall>s \<in> set l. spans s" "b \<le> w" "a < b" "\<And>x. a \<le> x \<Longrightarrow> x < b \<Longrightarrow> findSliceContaining l x = findSliceContaining l a"
    "src \<in> set (sources_at l a)" "src_kind src = SrcLsp \<or> src_kind src = SrcPortNode \<or> src_kind src = SrcConstant"
  shows "srcLo src \<le> a \<and> b \<le> srcHi src"
proof -
  obtain s where s: "findSliceContaining l a = Some s" "src \<in> set (sources s)"
    using assms(6) by (cases "findSliceContaining l a") (simp_all add: sources_at_def)
  then have in_s: "s \<in> set l" "concatLo s \<le> a"
    using tiles_find [OF assms(1)] by blast+
  have "findSliceContaining l (b - 1) = Some s"
    using assms(4) assms(5) [of "b - 1"] s(1) by simp
  then have "b - 1 < concatHi s"
    using tiles_find [OF assms(1)] by blast
  then show ?thesis
    using assms(2,7) in_s s(2) unfolding spans_def by fastforce
qed

lemma unify_arms_appends:
  assumes l: "piece_ok 0 w l f" and r: "piece_ok 0 w r h"
  shows "appends out (unify_arms l r c out) w (\<lambda>b. insert (FromExpr c) (f b \<union> h b))"
proof -
  let ?base = "slices_width out"
  have tl: "tiles 0 w l" and tr: "tiles 0 w r"
    using piece_okD(1) [OF l] piece_okD(1) [OF r] by simp_all
  obtain cs where cuts: "mergeCuts (collectCuts l) (collectCuts r) = 0 # cs"
    and cs: "sorted_wrt (<) (0 # cs)" "last (0 # cs) = w" "set (0 # cs) = insert 0 (concatHi ` set l \<union> concatHi ` set r)"
    using merged_cuts [OF tl tr] by blast
  let ?srcs = "\<lambda>a. map (translate ?base) (sources_at l a) @ map (translate ?base) (sources_at r a) @ [makeOpaque c]"
  let ?new = "map (\<lambda>(a, b). \<lparr>concatLo = ?base + a, concatHi = ?base + b, sources = ?srcs a\<rparr>) (grid (0 # cs))"
  have eq: "unify_arms l r c out = out @ ?new"
    unfolding unify_arms_def Let_def cuts
    using fold_push [of "\<lambda>(a, b). \<lparr>concatLo = ?base + a, concatHi = ?base + b, sources = ?srcs a\<rparr>" "grid (0 # cs)" out]
    by (simp add: case_prod_unfold)
  have t: "tiles ?base (?base + w) ?new"
    using tiles_grid [OF cs(1), of ?base "\<lambda>a b. ?srcs a"] cs(2) by simp
  have sp: "spans s" if s_in: "s \<in> set ?new" for s
  proof -
    obtain a b where ab: "(a, b) \<in> set (grid (0 # cs))" and s: "s = \<lparr>concatLo = ?base + a, concatHi = ?base + b, sources = ?srcs a\<rparr>"
      using s_in by auto
    have lt: "a < b"
      using grid_member [OF cs(1) ab] by simp
    have "findSliceContaining l x = findSliceContaining l a \<and> findSliceContaining r x = findSliceContaining r a"
      if "a \<le> x" "x < b" for x
      using grid_same_slice [OF tl _ that] grid_same_slice [OF tr _ that] grid_member [OF cs(1) ab] cs(3)
        grid_origins [OF tl tr cs ab that] by blast
    moreover have "b \<le> w"
    proof -
      have "b - 1 < w"
        using grid_origins [OF tl tr cs ab, of "b - 1"] lt by simp
      then show ?thesis using lt by linarith
    qed
    ultimately have "srcLo x \<le> a \<and> b \<le> srcHi x" if "x \<in> set (sources_at l a) \<union> set (sources_at r a)"
      "src_kind x = SrcLsp \<or> src_kind x = SrcPortNode \<or> src_kind x = SrcConstant" for x
      using slice_spans_at [OF tl _ _ lt] slice_spans_at [OF tr _ _ lt] that piece_okD(2) [OF l] piece_okD(2) [OF r]
      by blast
    then show ?thesis
      by (auto simp: spans_def s translate_def make_defs)
  qed
  have "origins ?new (?base + b) = insert (FromExpr c) (f b \<union> h b)" if b: "b < w" for b
  proof -
    obtain s where find: "findSliceContaining ?new (?base + b) = Some s"
      using tiles_find_None [OF t, of "?base + b"] b by fastforce
    then have "s \<in> set ?new" "concatLo s \<le> ?base + b" "?base + b < concatHi s"
      using tiles_find [OF t] by blast+
    then obtain a e where ab: "(a, e) \<in> set (grid (0 # cs))" and s: "sources s = ?srcs a" and in_s: "a \<le> b" "b < e"
      by auto
    have "sources_at ?new (?base + b) = ?srcs b"
      using find s grid_origins [OF tl tr cs ab in_s] by (simp add: sources_at_def)
    then have "origins ?new (?base + b) = insert (FromExpr c) (origins l b \<union> origins r b)"
      by (simp add: origins_def image_Un image_image origin_translate origin_make)
    then show ?thesis
      using piece_okD(3) [OF l b] piece_okD(3) [OF r b] by simp
  qed
  then show ?thesis
    unfolding appends_def piece_ok_def eq using t sp by blast
qed

section \<open>Decomposition meets the reference\<close>

lemma fold_appends:
  assumes "\<And>e out. e \<in> set es \<Longrightarrow> appends out (F e out) (exprWidth e) (G e)"
  shows "appends out (fold F es out) (sum_list (map exprWidth es))
     (\<lambda>b. case locate es b of None \<Rightarrow> {} | Some (e, b') \<Rightarrow> G e b')"
  using assms
proof (induction es arbitrary: out)
  case (Cons e es)
  have "appends out (fold F es (F e out)) (exprWidth e + sum_list (map exprWidth es))
      (\<lambda>b. if b < exprWidth e then G e b else (case locate es (b - exprWidth e) of None \<Rightarrow> {} | Some (e, b') \<Rightarrow> G e b'))"
    by (rule appends_trans) (use Cons in auto)
  then show ?case
    by (simp add: if_distrib [of "case_option _ _"] cong: if_cong)
qed (simp add: appends_refl)

lemma funpow_appends:
  assumes "\<And>out. appends out (F out) w f"
  shows "appends out ((F ^^ n) out) (n * w) (\<lambda>b. f (b mod w))"
proof (induction n)
  case (Suc n)
  have "appends out (F ((F ^^ n) out)) (n * w + w) (\<lambda>b. if b < n * w then f (b mod w) else f (b - n * w))"
    by (rule appends_trans [OF Suc assms])
  moreover have "(if b < n * w then f (b mod w) else f (b - n * w)) = f (b mod w)" if "b < n * w + w" for b
  proof (cases "b < n * w")
    case False
    then have "b - n * w < w" using that by simp
    then have "b mod w = b - n * w"
      using mod_mult_self1 [of "b - n * w" n w] False by simp
    then show ?thesis using False by simp
  qed simp
  ultimately have "appends out (F ((F ^^ n) out)) (n * w + w) (\<lambda>b. f (b mod w))"
    by (rule appends_cong)
  then show ?case by (simp add: add.commute)
qed (simp add: appends_refl)

lemma buildInto_appends:
  assumes "expr_ok cuts e" and reg: "\<And>r. cuts = Some r \<Longrightarrow> registry_ok r"
  shows "appends out (buildInto zero cuts e out) (exprWidth e) (feeds_bit zero e)"
  using assms(1)
proof (induction e arbitrary: out)
  case (LspExpr i p)
  have "appends out (pushLsp cuts (LspExpr i p) p out) (x_width i) (\<lambda>b. {FromLsp p b})"
    by (rule pushLsp_appends [OF LspExpr.prems reg])
  then show ?case by (simp add: exprWidth_def)
next
  case (Concatenation i es)
  have "appends out (fold (buildInto zero cuts) (rev es) out) (sum_list (map exprWidth (rev es)))
      (\<lambda>b. case locate (rev es) b of None \<Rightarrow> {} | Some (e, b') \<Rightarrow> feeds_bit zero e b')"
    by (rule fold_appends) (use Concatenation in auto)
  then show ?case
    using Concatenation.prems by (simp add: exprWidth_def rev_map [symmetric])
next
  case (Replication i c e)
  show ?case
  proof (cases "count_of c")
    case None
    then show ?thesis
      using pushOpaque_appends [of out "Replication i c e"] by simp
  next
    case (Some n)
    have "appends out ((buildInto zero cuts e ^^ nat n) out) (nat n * exprWidth e) (\<lambda>b. feeds_bit zero e (b mod exprWidth e))"
      by (rule funpow_appends) (use Replication in simp)
    moreover have "n \<le> 0 \<Longrightarrow> (buildInto zero cuts e ^^ nat n) out = out" by simp
    ultimately show ?thesis
      using Some Replication.prems by (auto simp: exprWidth_def)
  qed
next
  case (Conversion i e)
  let ?e = "Conversion i e"
  have IH: "appends out (buildInto zero cuts e out) (exprWidth e) (feeds_bit zero e)"
    using Conversion by simp
  have w: "exprWidth ?e = x_width i" "x_id (info ?e) = x_id i" by (simp_all add: exprWidth_def)
  consider v where "folded ?e = Some v" | "folded ?e = None" "x_width i = exprWidth e"
    | "folded ?e = None" "x_width i < exprWidth e" | "folded ?e = None" "x_width i > exprWidth e"
    by (metis linorder_neqE_nat option.exhaust)
  then show ?case
  proof cases
    case 1
    then show ?thesis using pushConstant_appends [of out v ?e] by simp
  next
    case 2
    then show ?thesis using appends_cong [OF IH] w by simp
  next
    case 3
    then show ?thesis using pushOpaque_appends [of out ?e] w by simp
  next
    case 4
    let ?s = "x_signed (info e) \<and> x_signed i" and ?w = "x_width i - exprWidth e"
    have "appends out (pushPaddingSlice (pad_slice zero ?s (slices_width (buildInto zero cuts e out)) ?w) (buildInto zero cuts e out))
        (exprWidth e + ?w)
        (\<lambda>b. if b < exprWidth e then feeds_bit zero e b
             else if ?s then {SignBit} else {FromConst (zero ?w) (b - exprWidth e)})"
      by (rule appends_trans [OF IH pad_appends]) (use 4 in simp)
    then show ?thesis
      using 4 by (simp add: Let_def w)
  qed
next
  case (ConditionalOp i conds l r)
  let ?e = "ConditionalOp i conds l r"
  show ?case
  proof (cases "exprWidth l = exprWidth r \<and> exprWidth l = x_width i \<and> length conds = 1 \<and> \<not> has_pattern (hd conds)")
    case True
    then obtain c where c: "conds = [c]" "\<not> has_pattern c"
      by (cases conds) auto
    let ?l = "buildInto zero cuts l []" and ?r = "buildInto zero cuts r []"
    have l: "piece_ok 0 (x_width i) ?l (feeds_bit zero l)" and r: "piece_ok 0 (x_width i) ?r (feeds_bit zero r)"
      using ConditionalOp.IH [of "[]"] ConditionalOp.prems True by (auto simp: appends_def slices_width_def)
    have "slices_width ?l = x_width i" "slices_width ?r = x_width i"
      using tiles_width piece_okD(1) [OF l] piece_okD(1) [OF r] by simp_all
    then have "buildInto zero cuts ?e out = unify_arms ?l ?r (cond_expr c) out"
      using True c by simp
    then show ?thesis
      using unify_arms_appends [OF l r, of out "cond_expr c"] True c by (simp add: exprWidth_def)
  next
    case False
    then have "buildInto zero cuts ?e out = pushOpaque ?e out"
      by (auto split: list.split)
    moreover have "feeds_bit zero ?e = (\<lambda>_. {FromExpr (x_id i)})"
      by (rule ext) (simp only: feeds_bit.simps if_not_P [OF False])
    ultimately show ?thesis
      using pushOpaque_appends [of out ?e] by simp
  qed
next
  case (OtherExpr i)
  then show ?case
    using pushConstant_appends [of out _ "OtherExpr i"] pushOpaque_appends [of out "OtherExpr i"]
    by (cases "folded (OtherExpr i)") simp_all
qed

section \<open>Properties\<close>


text \<open>
  The concatenation of a conditional, one arm 4 bits of symbol 0, which is cut at 2, the other a 4-bit select by a variable
  from the 8 bits of symbol 1, and an 8-bit constant.
\<close>

definition sample_expr :: "nat expr" where
  "sample_expr =
     (let i = (\<lambda>n w c. \<lparr>x_id = n, x_width = w, x_integral = True, x_signed = False, x_const = c\<rparr>)
      in Concatenation (i 0 12 None)
           [ConditionalOp (i 1 4 None) [\<lparr>cond_expr = 9, has_pattern = False\<rparr>]
              (LspExpr (i 2 4 None) \<lparr>vp_expr = 2, rootSymbol = Some 0, lspBounds = (0, 3)\<rparr>)
              (LspExpr (i 3 4 None) \<lparr>vp_expr = 3, rootSymbol = Some 1, lspBounds = (0, 7)\<rparr>),
            OtherExpr (i 4 8 (Some (5, 8)))])"

definition sample_cuts :: cut_registry where
  "sample_cuts = addCuts (\<lambda>_. 8) 0 [2, 0, 8, 2] Map.empty"

lemma sample_expr_ok: "expr_ok (Some sample_cuts) sample_expr" "registry_ok sample_cuts"
proof -
  have "registry_ok Map.empty" by (simp add: registry_ok_def)
  then show "registry_ok sample_cuts"
    unfolding sample_cuts_def by (rule addCuts_ok(1))
qed code_simp


fun segments_tile :: "nat \<Rightarrow> nat \<Rightarrow> 'v segment list \<Rightarrow> bool" where
  "segments_tile p q [] \<longleftrightarrow> p = q"
| "segments_tile p q (s # ss) \<longleftrightarrow> seg_lo s = p \<and> p < seg_hi s \<and> segments_tile (seg_hi s) q ss"

lemma segments_tile_grid:
  "sorted_wrt (<) (x # xs) \<Longrightarrow>
   segments_tile x (last (x # xs)) (map (\<lambda>(a, b). \<lparr>seg_lo = a, seg_hi = b, lhsSources = F a, rhsSources = G a\<rparr>) (grid (x # xs)))"
  by (induction xs arbitrary: x) auto

text \<open>
  C12. \<open>alignSegments\<close> on two slice lists that tile the same width returns segments that tile it too; every
  bit of a segment has the segment's sources on both sides, so no segment crosses a slice boundary. With
  different widths the assertion fails.
\<close>

theorem alignSegments_refines_both:
  assumes "tiles 0 w lhs" and "tiles 0 v rhs"
  shows "(alignSegments lhs rhs = None \<longleftrightarrow> w \<noteq> v) \<and>
     (\<forall>segs. alignSegments lhs rhs = Some segs \<longrightarrow> segments_tile 0 w segs \<and>
        (\<forall>s \<in> set segs. \<forall>b. seg_lo s \<le> b \<and> b < seg_hi s \<longrightarrow>
           lhsSources s = sources_at lhs b \<and> rhsSources s = sources_at rhs b))"
proof (cases "w = v")
  case False
  then show ?thesis
    using tiles_width [OF assms(1)] tiles_width [OF assms(2)] by (simp add: alignSegments_def require_def)
next
  case True
  note rhs = assms(2) [folded True]
  obtain cs where cuts: "mergeCuts (collectCuts lhs) (collectCuts rhs) = 0 # cs"
    and cs: "sorted_wrt (<) (0 # cs)" "last (0 # cs) = w" "set (0 # cs) = insert 0 (concatHi ` set lhs \<union> concatHi ` set rhs)"
    using merged_cuts [OF assms(1) rhs] by blast
  let ?segs = "map (\<lambda>(a, b). \<lparr>seg_lo = a, seg_hi = b, lhsSources = sources_at lhs a, rhsSources = sources_at rhs a\<rparr>) (grid (0 # cs))"
  have eq: "alignSegments lhs rhs = Some ?segs"
    using tiles_width [OF assms(1)] tiles_width [OF rhs] by (simp add: alignSegments_def cuts)
  have "lhsSources s = sources_at lhs b \<and> rhsSources s = sources_at rhs b"
    if "s \<in> set ?segs" "seg_lo s \<le> b" "b < seg_hi s" for s b
    using that grid_origins [OF assms(1) rhs cs] by auto
  moreover have "segments_tile 0 w ?segs"
    using segments_tile_grid [OF cs(1)] cs(2) by simp
  ultimately show ?thesis
    unfolding eq using True by blast
qed

theorem alignSegments_refines_both_witness:
  "\<exists>segs. alignSegments (build id True (Some sample_cuts) sample_expr) (build id True None sample_expr) = Some segs \<and>
     map (\<lambda>s. (seg_lo s, seg_hi s)) segs = [(0, 8), (8, 10), (10, 12)] \<and> segments_tile 0 12 segs"
proof -
  let ?l = "build id True (Some sample_cuts) sample_expr" and ?r = "build id True None sample_expr"
  have t: "tiles 0 12 ?l" "tiles 0 12 ?r" by code_simp+
  have "map (\<lambda>s. (seg_lo s, seg_hi s)) (the (alignSegments ?l ?r)) = [(0, 8), (8, 10), (10, 12)]"
    by code_simp
  then show ?thesis
    using alignSegments_refines_both [OF t] by auto
qed

text \<open>
  The cut registry keeps each symbol's cuts strictly increasing; \<open>addCuts\<close> adds exactly the given cuts that
  lie strictly inside the symbol's width, to that symbol only, and adding them again changes nothing.
\<close>

theorem addCuts_invariant:
  assumes "registry_ok reg"
  shows "registry_ok (addCuts w s cuts reg) \<and>
     (\<forall>t. set (cuts_of (addCuts w s cuts reg) t) =
        set (cuts_of reg t) \<union> (if t = s then {c \<in> set cuts. 0 < c \<and> c < w s} else {})) \<and>
     addCuts w s cuts (addCuts w s cuts reg) = addCuts w s cuts reg"
proof -
  note a = addCuts_ok [OF assms, of w s cuts]
  note b = addCuts_ok [OF a(1), of w s cuts]
  have "addCuts w s cuts (addCuts w s cuts reg) s = addCuts w s cuts reg s"
  proof (cases "cuts = []")
    case False
    obtain l m where l: "addCuts w s cuts reg s = Some l" and m: "addCuts w s cuts (addCuts w s cuts reg) s = Some m"
      using False by (auto simp: addCuts_def)
    have "set m = set l"
      using b(2) [of s] a(2) [of s] by (auto simp: cuts_of_def l m)
    moreover have "sorted_wrt (<) l" "sorted_wrt (<) m"
      using a(1) b(1) l m by (auto simp: registry_ok_def)
    ultimately show ?thesis
      using l m strict_sorted_equal by metis
  qed (simp add: addCuts_def)
  then have "addCuts w s cuts (addCuts w s cuts reg) = addCuts w s cuts reg"
    by (auto simp: addCuts_def fun_eq_iff)
  then show ?thesis
    using a by blast
qed

theorem addCuts_invariant_witness:
  "registry_ok sample_cuts \<and> cutsFor sample_cuts 0 = Some [2]"
proof
  have "registry_ok Map.empty" by (simp add: registry_ok_def)
  from addCuts_invariant [OF this, of "\<lambda>_. 8" 0 "[2, 0, 8, 2]"] show "registry_ok sample_cuts"
    by (simp add: sample_cuts_def)
  show "cutsFor sample_cuts 0 = Some [2]" by code_simp
qed

end
