(* ===== verification/Serializer.thy ===== *)
theory Serializer
  imports NetlistTypes
begin

text \<open>
  Reading and writing a netlist as JSON, \<^verbatim>\<open>source/NetlistSerializer.cpp\<close>.

  JSON values are nlohmann's; what the code uses of them is modelled on a datatype: building, \<open>at\<close>, \<open>contains\<close>,
  \<open>value\<close>, iteration and \<open>get\<close>. An object is an association list that is only read by key. Numbers with a
  fraction are left out (the code writes none). The text of a value (\<open>dump\<close>, \<open>parse\<close>) and the text of a constant
  (\<open>ConstantValue::toString\<close>, \<open>SVInt::fromString\<close>) are parameters. An exception is an error value; where C++
  leaves the order of evaluation of arguments open, they are evaluated from left to right.
\<close>

section \<open>JSON values\<close>

datatype json =
  JNull
| JBool bool
| JInt int
| JString string
| JArray "json list"
| JObject "(string \<times> json) list"

datatype ser_error =
  ParseError
| MissingKey string
| WrongType
| UnsupportedVersion int
| UnknownNodeId

type_synonym 'a result = "ser_error + 'a"

fun bindR :: "'a result \<Rightarrow> ('a \<Rightarrow> 'b result) \<Rightarrow> 'b result" where
  "bindR (Inl err) f = Inl err"
| "bindR (Inr x) f = f x"

fun foldR :: "('a \<Rightarrow> 's \<Rightarrow> 's result) \<Rightarrow> 'a list \<Rightarrow> 's \<Rightarrow> 's result" where
  "foldR f [] s = Inr s"
| "foldR f (x # xs) s = bindR (f x s) (foldR f xs)"

definition json_at :: "string \<Rightarrow> json \<Rightarrow> json result" where
  "json_at k j =
     (case j of
        JObject kvs \<Rightarrow> (case map_of kvs k of None \<Rightarrow> Inl (MissingKey k) | Some v \<Rightarrow> Inr v)
      | _ \<Rightarrow> Inl WrongType)"

definition json_contains :: "string \<Rightarrow> json \<Rightarrow> bool" where
  "json_contains k j = (case j of JObject kvs \<Rightarrow> map_of kvs k \<noteq> None | _ \<Rightarrow> False)"

definition get_string :: "json \<Rightarrow> string result" where
  "get_string j = (case j of JString s \<Rightarrow> Inr s | _ \<Rightarrow> Inl WrongType)"

definition get_bool :: "json \<Rightarrow> bool result" where
  "get_bool j = (case j of JBool b \<Rightarrow> Inr b | _ \<Rightarrow> Inl WrongType)"

text \<open>
  \<open>get<T>\<close> of an integer type converts as a cast does. Only the library's own 64-bit types refuse a boolean.
\<close>

definition get_uint64 :: "json \<Rightarrow> nat result" where
  "get_uint64 j = (case j of JInt n \<Rightarrow> Inr (nat (n mod 2 ^ 64)) | _ \<Rightarrow> Inl WrongType)"

definition get_uint32 :: "json \<Rightarrow> nat result" where
  "get_uint32 j =
     (case j of JInt n \<Rightarrow> Inr (nat (n mod 2 ^ 32)) | JBool b \<Rightarrow> Inr (of_bool b) | _ \<Rightarrow> Inl WrongType)"

definition wrap32 :: "int \<Rightarrow> int" where
  "wrap32 n = (n + 2 ^ 31) mod 2 ^ 32 - 2 ^ 31"

definition get_int32 :: "json \<Rightarrow> int result" where
  "get_int32 j = (case j of JInt n \<Rightarrow> Inr (wrap32 n) | JBool b \<Rightarrow> Inr (of_bool b) | _ \<Rightarrow> Inl WrongType)"

text \<open>\<open>value(key, default)\<close> with a string default.\<close>

definition json_value :: "string \<Rightarrow> string \<Rightarrow> json \<Rightarrow> string result" where
  "json_value k dflt j =
     (case j of
        JObject kvs \<Rightarrow> (case map_of kvs k of None \<Rightarrow> Inr dflt | Some v \<Rightarrow> get_string v)
      | _ \<Rightarrow> Inl WrongType)"

text \<open>A range-based loop over a value: the elements of an array or an object, nothing for null, else the value itself.\<close>

definition elements :: "json \<Rightarrow> json list" where
  "elements j = (case j of JArray l \<Rightarrow> l | JObject kvs \<Rightarrow> map snd kvs | JNull \<Rightarrow> [] | v \<Rightarrow> [v])"

text \<open>\<open>operator[]\<close> with an index on a copy: an array (or null) grows with nulls, which \<open>get\<close> then refuses.\<close>

definition json_index :: "nat \<Rightarrow> json \<Rightarrow> json result" where
  "json_index i j =
     (case j of JArray l \<Rightarrow> Inr (if i < length l then l ! i else JNull) | JNull \<Rightarrow> Inr JNull | _ \<Rightarrow> Inl WrongType)"

section \<open>Names of kinds\<close>

fun nodeKindToString :: "node_kind \<Rightarrow> string" where
  "nodeKindToString KNone = ''None''"
| "nodeKindToString KPort = ''Port''"
| "nodeKindToString KVariable = ''Variable''"
| "nodeKindToString KAssignment = ''Assignment''"
| "nodeKindToString KConditional = ''Conditional''"
| "nodeKindToString KCase = ''Case''"
| "nodeKindToString KMerge = ''Merge''"
| "nodeKindToString KState = ''State''"
| "nodeKindToString KConstant = ''Constant''"

definition nodeKindFromString :: "string \<Rightarrow> node_kind" where
  "nodeKindFromString s =
     (if s = ''Port'' then KPort else if s = ''Variable'' then KVariable
      else if s = ''Assignment'' then KAssignment else if s = ''Conditional'' then KConditional
      else if s = ''Case'' then KCase else if s = ''Merge'' then KMerge
      else if s = ''State'' then KState else if s = ''Constant'' then KConstant else KNone)"

fun edgeKindToString :: "edge_kind \<Rightarrow> string" where
  "edgeKindToString EdgeNone = ''None''"
| "edgeKindToString PosEdge = ''PosEdge''"
| "edgeKindToString NegEdge = ''NegEdge''"
| "edgeKindToString BothEdges = ''BothEdges''"

definition edgeKindFromString :: "string \<Rightarrow> edge_kind" where
  "edgeKindFromString s =
     (if s = ''PosEdge'' then PosEdge else if s = ''NegEdge'' then NegEdge
      else if s = ''BothEdges'' then BothEdges else EdgeNone)"

definition dependencyRoleFromString :: "string \<Rightarrow> dependency_role" where
  "dependencyRoleFromString s =
     (if s = ''data'' then Data else if s = ''control'' then Control else if s = ''index'' then Index
      else if s = ''address'' then Address else if s = ''event'' then Event else if s = ''clock'' then Clock
      else if s = ''reset'' then Reset else if s = ''port_connection'' then PortConnection else RoleUnknown)"

definition dependencyPrecisionFromString :: "string \<Rightarrow> dependency_precision" where
  "dependencyPrecisionFromString s =
     (if s = ''exact'' then Exact else if s = ''range'' then Range else if s = ''signal'' then Signal
      else PrecisionUnknown)"

fun directionToString :: "arg_direction \<Rightarrow> string" where
  "directionToString DirIn = ''In''"
| "directionToString DirOut = ''Out''"
| "directionToString DirInOut = ''InOut''"
| "directionToString DirRef = ''Ref''"

definition directionFromString :: "string \<Rightarrow> arg_direction" where
  "directionFromString s =
     (if s = ''Out'' then DirOut else if s = ''InOut'' then DirInOut else if s = ''Ref'' then DirRef else DirIn)"

section \<open>Locations and symbols\<close>

definition NoFile :: nat where
  "NoFile = 2 ^ 32 - 1"

definition locationToJson :: "text_location \<Rightarrow> json" where
  "locationToJson loc =
     JObject [(''fileIndex'', JInt (int (case fileIndex loc of None \<Rightarrow> NoFile | Some i \<Rightarrow> i))),
              (''line'', JInt (int (line loc))), (''column'', JInt (int (column loc)))]"

definition locationFromJson :: "json \<Rightarrow> text_location result" where
  "locationFromJson j =
     bindR (bindR (json_at ''fileIndex'' j) get_uint32) (\<lambda>f.
     bindR (bindR (json_at ''line'' j) get_uint64) (\<lambda>l.
     bindR (bindR (json_at ''column'' j) get_uint64) (\<lambda>c.
       Inr \<lparr>fileIndex = if f = NoFile then None else Some f, line = l, column = c\<rparr>)))"

definition symbolToJson :: "symbol_reference \<Rightarrow> json" where
  "symbolToJson s =
     JObject [(''name'', JString (sr_name s)), (''path'', JString (sr_hierarchicalPath s)),
              (''location'', locationToJson (sr_location s))]"

definition symbolFromJson :: "json \<Rightarrow> symbol_reference result" where
  "symbolFromJson j =
     bindR (bindR (json_at ''name'' j) get_string) (\<lambda>n.
     bindR (bindR (json_at ''path'' j) get_string) (\<lambda>p.
     bindR (bindR (json_at ''location'' j) locationFromJson) (\<lambda>l.
       Inr \<lparr>sr_name = n, sr_hierarchicalPath = p, sr_location = l\<rparr>)))"

definition boundsToJson :: "range_lib \<Rightarrow> bit_range \<Rightarrow> json" where
  "boundsToJson R b = JArray [JInt (lower_of R b), JInt (upper_of R b)]"

definition boundsFromJson :: "json \<Rightarrow> bit_range result" where
  "boundsFromJson j =
     bindR (bindR (json_index 0 j) get_int32) (\<lambda>a.
     bindR (bindR (json_index 1 j) get_int32) (\<lambda>b. Inr (mk_range a b)))"

section \<open>Writing\<close>

text \<open>The text of a constant; reading it back may fail, and the constant is then a bad (default) value.\<close>

record 'c constant_text =
  cv_toString :: "'c \<Rightarrow> string"
  cv_fromString :: "string \<Rightarrow> 'c option"
  cv_bad :: 'c

text \<open>The members a node's kind adds to its object.\<close>

fun dataToJson :: "range_lib \<Rightarrow> 'c constant_text \<Rightarrow> 'c node_data \<Rightarrow> (string \<times> json) list" where
  "dataToJson R T (Port n p l d b) =
     [(''path'', JString p), (''name'', JString n), (''bounds'', boundsToJson R b),
      (''direction'', JString (directionToString d)), (''location'', locationToJson l)]"
| "dataToJson R T (Variable n p l b) =
     [(''path'', JString p), (''name'', JString n), (''bounds'', boundsToJson R b), (''location'', locationToJson l)]"
| "dataToJson R T (State n p l b) =
     [(''path'', JString p), (''name'', JString n), (''bounds'', boundsToJson R b), (''location'', locationToJson l)]"
| "dataToJson R T (Assignment l) = [(''location'', locationToJson l)]"
| "dataToJson R T (Conditional l) = [(''location'', locationToJson l)]"
| "dataToJson R T (Case l) = [(''location'', locationToJson l)]"
| "dataToJson R T (Constant v w l) =
     [(''location'', locationToJson l), (''width'', JInt (int w)), (''value'', JString (cv_toString T v))]"
| "dataToJson R T Merge = []"
| "dataToJson R T NoneNode = []"

definition nodeToJson :: "range_lib \<Rightarrow> 'c constant_text \<Rightarrow> 'c netlist_node \<Rightarrow> json" where
  "nodeToJson R T n =
     JObject ([(''id'', JInt (int (ID n))), (''kind'', JString (nodeKindToString (node_kind_of n)))]
       @ dataToJson R T (node_data n))"

definition edgeToJson :: "range_lib \<Rightarrow> 'c netlist \<Rightarrow> nat \<Rightarrow> json" where
  "edgeToJson R N e =
     (let g = dg N; i = einfo g e
      in JObject [(''source'', JInt (int (nID g (esrc g e)))), (''target'', JInt (int (nID g (etgt g e)))),
           (''edgeKind'', JString (edgeKindToString (edgeKind i))), (''role'', JString (role_toString (role i))),
           (''precision'', JString (precision_toString (precision i))),
           (''symbol'', case symbol i of None \<Rightarrow> JObject [] | Some p \<Rightarrow> symbolToJson (st_entries (symbolTable N) ! p)),
           (''bounds'', boundsToJson R (bounds i)), (''disabled'', JBool (disabled i))])"

text \<open>\<open>getArtifactId\<close> keeps an identifier made of random numbers when there is none: its text is an argument.\<close>

definition getArtifactId :: "string \<Rightarrow> 'c netlist \<Rightarrow> string \<times> 'c netlist" where
  "getArtifactId random N =
     (let N' = (if artifactId N = [] then N\<lparr>artifactId := random\<rparr> else N) in (artifactId N', N'))"

definition formatVersion :: int where
  "formatVersion = 4"

definition graphToJson :: "range_lib \<Rightarrow> 'c constant_text \<Rightarrow> string \<Rightarrow> 'c netlist \<Rightarrow> json" where
  "graphToJson R T random N =
     JObject
       [(''version'', JInt formatVersion), (''artifactId'', JString (fst (getArtifactId random N))),
        (''fileTable'', JArray (map JString (filenames (fileTable N)))),
        (''blackBoxes'', JArray (map JString (blackBoxPaths N))),
        (''nodes'', JArray (map (\<lambda>n. nodeToJson R T (the (nodeAt (dg N) n))) (nodes (dg N)))),
        (''edges'', JArray (concat (map (\<lambda>n. map (edgeToJson R N) (outEdges (dg N) n)) (nodes (dg N)))))]"

definition serialize ::
  "(json \<Rightarrow> string) \<Rightarrow> range_lib \<Rightarrow> 'c constant_text \<Rightarrow> string \<Rightarrow> 'c netlist \<Rightarrow> string" where
  "serialize dump R T random N = dump (graphToJson R T random N)"

section \<open>Reading\<close>

definition constantFromText :: "'c constant_text \<Rightarrow> string \<Rightarrow> 'c" where
  "constantFromText T s =
     (if s = [] then cv_bad T else case cv_fromString T s of None \<Rightarrow> cv_bad T | Some v \<Rightarrow> v)"

definition named_member :: "(string \<Rightarrow> string \<Rightarrow> text_location \<Rightarrow> bit_range \<Rightarrow> 'a) \<Rightarrow> json \<Rightarrow> 'a result" where
  "named_member f j =
     bindR (json_at ''bounds'' j) (\<lambda>arr.
     bindR (bindR (json_at ''name'' j) get_string) (\<lambda>n.
     bindR (bindR (json_at ''path'' j) get_string) (\<lambda>p.
     bindR (bindR (json_at ''location'' j) locationFromJson) (\<lambda>l.
     bindR (boundsFromJson arr) (\<lambda>b. Inr (f n p l b))))))"

definition dataFromJson :: "'c constant_text \<Rightarrow> node_kind \<Rightarrow> json \<Rightarrow> 'c node_data result" where
  "dataFromJson T k j =
     (case k of
        KPort \<Rightarrow>
          bindR (json_at ''bounds'' j) (\<lambda>arr.
          bindR (bindR (json_at ''name'' j) get_string) (\<lambda>n.
          bindR (bindR (json_at ''path'' j) get_string) (\<lambda>p.
          bindR (bindR (json_at ''location'' j) locationFromJson) (\<lambda>l.
          bindR (bindR (json_at ''direction'' j) get_string) (\<lambda>d.
          bindR (boundsFromJson arr) (\<lambda>b. Inr (Port n p l (directionFromString d) b)))))))
      | KVariable \<Rightarrow> named_member Variable j
      | KState \<Rightarrow> named_member State j
      | KAssignment \<Rightarrow> bindR (bindR (json_at ''location'' j) locationFromJson) (\<lambda>l. Inr (Assignment l))
      | KConditional \<Rightarrow> bindR (bindR (json_at ''location'' j) locationFromJson) (\<lambda>l. Inr (Conditional l))
      | KCase \<Rightarrow> bindR (bindR (json_at ''location'' j) locationFromJson) (\<lambda>l. Inr (Case l))
      | KConstant \<Rightarrow>
          bindR (bindR (json_at ''width'' j) get_uint64) (\<lambda>w.
          bindR (bindR (json_at ''value'' j) get_string) (\<lambda>s.
          bindR (bindR (json_at ''location'' j) locationFromJson) (\<lambda>l. Inr (Constant (constantFromText T s) w l))))
      | KMerge \<Rightarrow> Inr Merge
      | KNone \<Rightarrow> Inr NoneNode)"

definition nodeFromJson :: "'c constant_text \<Rightarrow> json \<Rightarrow> 'c netlist_node result" where
  "nodeFromJson T j =
     bindR (bindR (json_at ''id'' j) get_uint64) (\<lambda>i.
     bindR (bindR (json_at ''kind'' j) get_string) (\<lambda>k.
     bindR (dataFromJson T (nodeKindFromString k) j) (\<lambda>d. Inr \<lparr>ID = i, node_data = d\<rparr>)))"

text \<open>The graph together with \<open>idMap\<close>.\<close>

type_synonym 'c load_state = "'c netlist \<times> (nat \<rightharpoonup> nat)"

definition readNode :: "'c constant_text \<Rightarrow> json \<Rightarrow> 'c load_state \<Rightarrow> 'c load_state result" where
  "readNode T j st =
     bindR (nodeFromJson T j) (\<lambda>n.
       let r = addNode n (dg (fst st))
       in Inr ((fst st)\<lparr>dg := snd r\<rparr>, (snd st)(ID n \<mapsto> fst r)))"

definition edgeInfoFromJson :: "int \<Rightarrow> json \<Rightarrow> symbol_table \<Rightarrow> (edge_info \<times> symbol_table) result" where
  "edgeInfoFromJson version j t =
     bindR (bindR (json_at ''edgeKind'' j) get_string) (\<lambda>k.
     bindR (if version \<ge> 4 then bindR (json_value ''role'' ''unknown'' j) (\<lambda>s. Inr (dependencyRoleFromString s))
            else Inr RoleUnknown) (\<lambda>ro.
     bindR (if version \<ge> 4 then bindR (json_value ''precision'' ''unknown'' j) (\<lambda>s. Inr (dependencyPrecisionFromString s))
            else Inr PrecisionUnknown) (\<lambda>pr.
     bindR (json_at ''symbol'' j) (\<lambda>sj.
     bindR (if json_contains ''name'' sj
            then bindR (symbolFromJson sj) (\<lambda>s. let r = intern_ref s t in Inr (Some (fst r), snd r))
            else Inr (None, t)) (\<lambda>(sym, t').
     bindR (bindR (json_at ''bounds'' j) boundsFromJson) (\<lambda>b.
     bindR (bindR (json_at ''disabled'' j) get_bool) (\<lambda>d.
       Inr (\<lparr>edgeKind = edgeKindFromString k, role = ro, precision = pr, symbol = sym, bounds = b, disabled = d\<rparr>, t'))))))))"

text \<open>
  The edge is added first; every member of the edge is then assigned. (The model assigns them at once: when a later
  member is missing, the exception leaves the graph behind anyway.)
\<close>

definition readEdge :: "int \<Rightarrow> (nat \<rightharpoonup> nat) \<Rightarrow> json \<Rightarrow> 'c netlist \<Rightarrow> 'c netlist result" where
  "readEdge version idMap j N =
     bindR (bindR (json_at ''source'' j) get_uint64) (\<lambda>a.
     bindR (bindR (json_at ''target'' j) get_uint64) (\<lambda>b.
       case (idMap a, idMap b) of
         (Some s, Some t) \<Rightarrow>
           (let r = netlist_addEdge s t N
            in bindR (edgeInfoFromJson version j (symbolTable N)) (\<lambda>(i, tab).
                 Inr ((snd r)\<lparr>dg := set_einfo (fst r) i (dg (snd r)), symbolTable := tab\<rparr>)))
       | _ \<Rightarrow> Inl UnknownNodeId))"

definition graphFromJson :: "'c constant_text \<Rightarrow> json \<Rightarrow> 'c netlist \<Rightarrow> 'c netlist result" where
  "graphFromJson T root N =
     bindR (bindR (json_at ''version'' root) get_int32) (\<lambda>version.
     if version \<noteq> 3 \<and> version \<noteq> formatVersion then Inl (UnsupportedVersion version)
     else
     bindR (if version \<ge> 4 \<and> json_contains ''artifactId'' root
            then bindR (bindR (json_at ''artifactId'' root) get_string) (\<lambda>s. Inr (setArtifactId s N))
            else Inr N) (\<lambda>N1.
     bindR (bindR (json_at ''fileTable'' root) (\<lambda>ft.
       foldR (\<lambda>j N. bindR (get_string j) (\<lambda>s. Inr (N\<lparr>fileTable := snd (addFile s (fileTable N))\<rparr>))) (elements ft) N1)) (\<lambda>N2.
     bindR (if json_contains ''blackBoxes'' root
            then bindR (json_at ''blackBoxes'' root) (\<lambda>bs.
              foldR (\<lambda>j N. bindR (get_string j) (\<lambda>s. Inr (addBlackBoxPath s N))) (elements bs) N2)
            else Inr N2) (\<lambda>N3.
     bindR (bindR (json_at ''nodes'' root) (\<lambda>ns. foldR (readNode T) (elements ns) (N3, Map.empty))) (\<lambda>(N4, idMap).
     bindR (json_at ''edges'' root) (\<lambda>es. foldR (readEdge version idMap) (elements es) N4))))))"

definition deserialize :: "(string \<Rightarrow> json option) \<Rightarrow> 'c constant_text \<Rightarrow> string \<Rightarrow> 'c netlist \<Rightarrow> 'c netlist result" where
  "deserialize parse T txt N =
     (case parse txt of None \<Rightarrow> Inl ParseError | Some root \<Rightarrow> graphFromJson T root N)"

definition empty_netlist :: "'c netlist" where
  "empty_netlist =
     \<lparr>dg = empty_digraph, fileTable = ft_new, symbolTable = st_new, blackBoxPaths = [], nodeIndex = None, artifactId = []\<rparr>"

end
