(* ===== verification/SerializerFacts.thy ===== *)
theory SerializerFacts
  imports Serializer NetFacts
begin

text \<open>
  The round trip: a netlist without parallel edges is read back from its JSON with the same nodes and edges in the
  same order; parallel edges collapse. The loops of \<open>deserialize\<close> are followed with invariants on the part of the
  netlist that is already read.
\<close>

section \<open>Values\<close>

named_theorems json_simps \<open>computing with JSON values\<close>

declare json_at_def [json_simps] json_contains_def [json_simps] get_string_def [json_simps] get_bool_def [json_simps]
  get_uint64_def [json_simps] get_uint32_def [json_simps] get_int32_def [json_simps] json_value_def [json_simps]
  elements_def [json_simps] json_index_def [json_simps]

text \<open>What survives: the integers of the source types.\<close>

definition fits_location :: "text_location \<Rightarrow> bool" where
  "fits_location l \<longleftrightarrow> (\<forall>i. fileIndex l = Some i \<longrightarrow> i < NoFile) \<and> line l < 2 ^ 64 \<and> column l < 2 ^ 64"

definition fits_bounds :: "range_lib \<Rightarrow> bit_range \<Rightarrow> bool" where
  "fits_bounds R b \<longleftrightarrow> - (2 ^ 31) \<le> lower_of R b \<and> lower_of R b < 2 ^ 31 \<and>
     - (2 ^ 31) \<le> upper_of R b \<and> upper_of R b < 2 ^ 31"

fun fits_data :: "range_lib \<Rightarrow> 'c node_data \<Rightarrow> bool" where
  "fits_data R (Port n p l d b) \<longleftrightarrow> fits_location l \<and> fits_bounds R b"
| "fits_data R (Variable n p l b) \<longleftrightarrow> fits_location l \<and> fits_bounds R b"
| "fits_data R (State n p l b) \<longleftrightarrow> fits_location l \<and> fits_bounds R b"
| "fits_data R (Assignment l) \<longleftrightarrow> fits_location l"
| "fits_data R (Conditional l) \<longleftrightarrow> fits_location l"
| "fits_data R (Case l) \<longleftrightarrow> fits_location l"
| "fits_data R (Constant v w l) \<longleftrightarrow> fits_location l \<and> w < 2 ^ 64"
| "fits_data R Merge \<longleftrightarrow> True"
| "fits_data R NoneNode \<longleftrightarrow> True"

text \<open>Bounds come back in ascending order, constants as their text reads back.\<close>

definition norm_bounds :: "range_lib \<Rightarrow> bit_range \<Rightarrow> bit_range" where
  "norm_bounds R b = mk_range (lower_of R b) (upper_of R b)"

fun norm_data :: "range_lib \<Rightarrow> 'c constant_text \<Rightarrow> 'c node_data \<Rightarrow> 'c node_data" where
  "norm_data R T (Port n p l d b) = Port n p l d (norm_bounds R b)"
| "norm_data R T (Variable n p l b) = Variable n p l (norm_bounds R b)"
| "norm_data R T (State n p l b) = State n p l (norm_bounds R b)"
| "norm_data R T (Constant v w l) = Constant (constantFromText T (cv_toString T v)) w l"
| "norm_data R T d = d"

lemma wrap32_id: "- (2 ^ 31) \<le> n \<Longrightarrow> n < 2 ^ 31 \<Longrightarrow> wrap32 n = n"
  unfolding wrap32_def by (subst mod_pos_pos_trivial) auto

lemma uint64_id: "n < 2 ^ 64 \<Longrightarrow> nat (int n mod 2 ^ 64) = n"
  by (subst mod_pos_pos_trivial) auto

lemma uint32_id: "n < 2 ^ 32 \<Longrightarrow> nat (int n mod 2 ^ 32) = n"
  by (subst mod_pos_pos_trivial) auto

lemma location_roundtrip: "fits_location l \<Longrightarrow> locationFromJson (locationToJson l) = Inr l"
proof -
  assume l: "fits_location l"
  define f where "f = (case fileIndex l of None \<Rightarrow> NoFile | Some i \<Rightarrow> i)"
  have f: "f < 2 ^ 32" "(if f = NoFile then None else Some f) = fileIndex l"
    using l by (auto simp: f_def fits_location_def NoFile_def split: option.splits)
  have "locationFromJson (locationToJson l) =
      Inr \<lparr>fileIndex = if f = NoFile then None else Some f, line = line l, column = column l\<rparr>"
    using l uint32_id [OF f(1)] uint64_id [of "line l"] uint64_id [of "column l"]
    by (simp add: locationFromJson_def locationToJson_def json_simps fits_location_def f_def [symmetric] cong: if_cong)
  then show ?thesis
    unfolding f(2) by simp
qed

lemma bounds_roundtrip: "fits_bounds R b \<Longrightarrow> boundsFromJson (boundsToJson R b) = Inr (norm_bounds R b)"
  by (simp add: boundsFromJson_def boundsToJson_def json_simps fits_bounds_def norm_bounds_def wrap32_id)

lemma symbol_roundtrip: "fits_location (sr_location s) \<Longrightarrow> symbolFromJson (symbolToJson s) = Inr s"
  by (simp add: symbolFromJson_def symbolToJson_def json_simps location_roundtrip)

lemma kind_roundtrip:
  "nodeKindFromString (nodeKindToString k) = k" "edgeKindFromString (edgeKindToString x) = x"
  "dependencyRoleFromString (role_toString r) = r" "dependencyPrecisionFromString (precision_toString p) = p"
  "directionFromString (directionToString d) = d"
proof -
  show "nodeKindFromString (nodeKindToString k) = k" by (cases k) (simp_all add: nodeKindFromString_def)
  show "edgeKindFromString (edgeKindToString x) = x" by (cases x) (simp_all add: edgeKindFromString_def)
  show "dependencyRoleFromString (role_toString r) = r" by (cases r) (simp_all add: dependencyRoleFromString_def)
  show "dependencyPrecisionFromString (precision_toString p) = p"
    by (cases p) (simp_all add: dependencyPrecisionFromString_def)
  show "directionFromString (directionToString d) = d" by (cases d) (simp_all add: directionFromString_def)
qed

lemma node_roundtrip:
  assumes "fits_data R (node_data n)" "ID n < 2 ^ 64"
  shows "nodeFromJson T (nodeToJson R T n) = Inr \<lparr>ID = ID n, node_data = norm_data R T (node_data n)\<rparr>"
proof -
  have "dataFromJson T (data_kind (node_data n)) (nodeToJson R T n) = Inr (norm_data R T (node_data n))"
    using assms(1)
    by (cases "node_data n")
      (simp_all add: dataFromJson_def nodeToJson_def named_member_def json_simps location_roundtrip bounds_roundtrip
        kind_roundtrip uint64_id)
  moreover have "json_at ''id'' (nodeToJson R T n) = Inr (JInt (int (ID n)))"
    "json_at ''kind'' (nodeToJson R T n) = Inr (JString (nodeKindToString (data_kind (node_data n))))"
    by (simp_all add: nodeToJson_def json_simps node_kind_of_def)
  ultimately show ?thesis
    using uint64_id [OF assms(2)] by (simp add: nodeFromJson_def get_uint64_def get_string_def kind_roundtrip)
qed

section \<open>Loops over strings\<close>

lemma read_files:
  assumes "ft_ok (fileTable N)" "distinct (filenames (fileTable N) @ names)"
  shows "\<exists>t. foldR (\<lambda>j N. bindR (get_string j) (\<lambda>s. Inr (N\<lparr>fileTable := snd (addFile s (fileTable N))\<rparr>))) (map JString names) N
       = Inr (N\<lparr>fileTable := t\<rparr>) \<and> filenames t = filenames (fileTable N) @ names"
  using assms
proof (induction names arbitrary: N)
  case Nil
  then show ?case by (intro exI [of _ "fileTable N"]) simp
next
  case (Cons s names)
  let ?t = "snd (addFile s (fileTable N))"
  have "ft_indexMap (fileTable N) s = None"
    using ft_ok_not_in [OF Cons.prems(1)] Cons.prems(2) by simp
  then have names: "filenames ?t = filenames (fileTable N) @ [s]"
    by (simp add: addFile_def Let_def)
  have "ft_ok ?t" by (rule addFile_ok [OF Cons.prems(1)])
  then show ?case
    using Cons.IH [of "N\<lparr>fileTable := ?t\<rparr>"] Cons.prems(2) by (auto simp: names get_string_def)
qed

lemma read_boxes:
  "foldR (\<lambda>j N. bindR (get_string j) (\<lambda>s. Inr (addBlackBoxPath s N))) (map JString paths) N
     = Inr (N\<lparr>blackBoxPaths := blackBoxPaths N @ paths\<rparr>)"
  by (induction paths arbitrary: N) (simp_all add: get_string_def addBlackBoxPath_def)

section \<open>The loop over the nodes\<close>

text \<open>A graph that holds a list of nodes at the addresses from 0, and no edge.\<close>

definition nodes_graph :: "'n list \<Rightarrow> ('n, 'e) digraph" where
  "nodes_graph ns =
     empty_digraph\<lparr>nodes := [0 ..< length ns], nodeAt := (\<lambda>i. if i < length ns then Some (ns ! i) else None),
       nextNode := length ns\<rparr>"

lemma addNode_nodes_graph: "addNode n (nodes_graph ns) = (length ns, nodes_graph (ns @ [n]))"
  by (auto simp: addNode_def nodes_graph_def Let_def nth_append fun_eq_iff)

lemma nodes_graph_ok: "graph_ok (nodes_graph ns)"
  by (auto simp: graph_ok_def edges_ok_def index_ok_def nodes_ok_def nodes_graph_def empty_digraph_def)

text \<open>\<open>idMap\<close> gives each identifier its node when the identifiers are different.\<close>

lemma read_nodes:
  assumes "\<And>n. n \<in> set new \<Longrightarrow> nodeFromJson T (f n) = Inr (h n)"
    "distinct (map ID (ns @ map h new))" "\<And>i. i < length ns \<Longrightarrow> m (ID (ns ! i)) = Some i"
  shows "\<exists>m'. foldR (readNode T) (map f new) (N\<lparr>dg := nodes_graph ns\<rparr>, m)
       = Inr (N\<lparr>dg := nodes_graph (ns @ map h new)\<rparr>, m') \<and>
     (\<forall>i < length (ns @ map h new). m' (ID ((ns @ map h new) ! i)) = Some i)"
  using assms
proof (induction new arbitrary: ns m)
  case Nil
  then show ?case by (intro exI [of _ m]) simp
next
  case (Cons n new)
  let ?ns = "ns @ [h n]" and ?m = "m(ID (h n) \<mapsto> length ns)"
  have step: "readNode T (f n) (N\<lparr>dg := nodes_graph ns\<rparr>, m) = Inr (N\<lparr>dg := nodes_graph ?ns\<rparr>, ?m)"
    using Cons.prems(1) [of n] by (simp add: readNode_def addNode_nodes_graph)
  have ids: "?m (ID (?ns ! i)) = Some i" if "i < length ?ns" for i
  proof (cases "i < length ns")
    case True
    have "ID (h n) \<notin> ID ` set ns"
      using Cons.prems(2) by auto
    then have "ID (ns ! i) \<noteq> ID (h n)"
      using imageI [OF nth_mem [OF True], of ID] by metis
    with True show ?thesis
      using Cons.prems(3) by (simp add: nth_append)
  qed (use that in \<open>simp add: nth_append\<close>)
  show ?case
    using Cons.IH [of ?ns ?m, OF _ _ ids] Cons.prems(1,2) by (simp add: step del: fun_upd_apply)
qed

section \<open>Grouping a sorted list\<close>

lemma filter_split: "sorted (map f xs) \<Longrightarrow> \<forall>x \<in> set xs. f x \<le> k \<Longrightarrow> filter (\<lambda>x. f x < k) xs @ filter (\<lambda>x. f x = k) xs = xs"
  for f :: "'a \<Rightarrow> nat"
proof (induction xs)
  case (Cons x xs)
  show ?case
  proof (cases "f x < k")
    case False
    then have "f x = k" "\<forall>y \<in> set xs. f y = k"
      using Cons.prems by fastforce+
    then show ?thesis by (simp add: filter_empty_conv)
  qed (use Cons in simp)
qed simp

lemma concat_groups:
  "sorted (map f xs) \<Longrightarrow> \<forall>x \<in> set xs. f x < k \<Longrightarrow> concat (map (\<lambda>s. filter (\<lambda>x. f x = s) xs) [0 ..< k]) = xs"
  for f :: "'a \<Rightarrow> nat"
proof (induction k arbitrary: xs)
  case (Suc k)
  let ?ys = "filter (\<lambda>x. f x < k) xs"
  have "sorted (map f ?ys)"
    using Suc.prems(1) by (rule sorted_filter)
  then have "concat (map (\<lambda>s. filter (\<lambda>x. f x = s) ?ys) [0 ..< k]) = ?ys"
    by (rule Suc.IH) simp
  moreover have "map (\<lambda>s. filter (\<lambda>x. f x = s) ?ys) [0 ..< k] = map (\<lambda>s. filter (\<lambda>x. f x = s) xs) [0 ..< k]"
    by (auto intro: filter_cong)
  moreover have "?ys @ filter (\<lambda>x. f x = k) xs = xs"
    using filter_split [OF Suc.prems(1), of k] Suc.prems(2) by (simp add: less_Suc_eq_le)
  ultimately show ?case by (simp del: filter_filter)
qed simp

lemma sorted_blocks:
  "(\<And>j x. j < k \<Longrightarrow> x \<in> set (block j) \<Longrightarrow> f x = j) \<Longrightarrow> sorted (map f (concat (map block [0 ..< k])))"
  for f :: "'a \<Rightarrow> nat"
proof (induction k)
  case (Suc k)
  have "map f (block k) = replicate (length (block k)) k"
    using Suc.prems [of k] by (intro replicate_eqI) auto
  then show ?case
    using Suc by (fastforce simp: sorted_append less_Suc_eq)
qed simp

section \<open>The loop over the edges\<close>

text \<open>
  What an edge says, apart from where its objects are: its end points, its label without the symbol pointer, and the
  symbol record that pointer leads to.
\<close>

type_synonym edge_view = "nat \<times> nat \<times> edge_info \<times> symbol_reference option"

definition resolve :: "symbol_table \<Rightarrow> nat option \<Rightarrow> symbol_reference option" where
  "resolve t p = map_option (\<lambda>p. st_entries t ! p) p"

definition view_of :: "'c netlist \<Rightarrow> nat \<Rightarrow> edge_view" where
  "view_of N e =
     (let i = einfo (dg N) e in (esrc (dg N) e, etgt (dg N) e, i\<lparr>symbol := None\<rparr>, resolve (symbolTable N) (symbol i)))"

definition symbols_ok :: "'c netlist \<Rightarrow> nat \<Rightarrow> bool" where
  "symbols_ok N e \<longleftrightarrow> (\<forall>p. symbol (einfo (dg N) e) = Some p \<longrightarrow> p < length (st_entries (symbolTable N)))"

text \<open>After some edges are read: the views of the edge objects are those edges, at the addresses from 0.\<close>

definition edges_read :: "'n list \<Rightarrow> symbol_reference list \<Rightarrow> edge_view list \<Rightarrow> ('n, edge_info) digraph \<Rightarrow> symbol_table \<Rightarrow> bool" where
  "edges_read ns known L g t \<longleftrightarrow>
     graph_ok g \<and> nodes g = [0 ..< length ns] \<and> nodeAt g = (\<lambda>i. if i < length ns then Some (ns ! i) else None) \<and>
     nextEdge g = length L \<and> (\<forall>e. edgeAt g e \<noteq> None \<longleftrightarrow> e < length L) \<and>
     (\<forall>e < length L. L ! e = (esrc g e, etgt g e, (einfo g e)\<lparr>symbol := None\<rparr>, resolve t (symbol (einfo g e))) \<and>
        (\<forall>p. symbol (einfo g e) = Some p \<longrightarrow> p < length (st_entries t))) \<and>
     (\<forall>s. outEdges g s = filter (\<lambda>e. fst (L ! e) = s) [0 ..< length L]) \<and>
     st_ok t \<and> set (st_entries t) \<subseteq> set known"

lemma edges_read_start: "edges_read ns known [] (nodes_graph ns) st_new"
  using nodes_graph_ok [of ns]
  by (simp add: edges_read_def st_ok_new) (simp add: nodes_graph_def empty_digraph_def st_new_def)

text \<open>Interning a known symbol gives a pointer to that very record.\<close>

lemma intern_known:
  assumes ok: "st_ok t" and sub: "set (st_entries t) \<subseteq> set known" and r: "r \<in> set known"
    and dist: "distinct (map sr_hierarchicalPath known)"
  shows "st_entries (snd (intern_ref r t)) ! fst (intern_ref r t) = r \<and>
     fst (intern_ref r t) < length (st_entries (snd (intern_ref r t))) \<and>
     st_ok (snd (intern_ref r t)) \<and> set (st_entries (snd (intern_ref r t))) \<subseteq> set known \<and>
     (\<exists>more. st_entries (snd (intern_ref r t)) = st_entries t @ more)"
proof (cases "st_indexMap t (sr_hierarchicalPath r)")
  case None
  then show ?thesis
    using sub r intern_ok [OF ok, of "sr_name r" "sr_hierarchicalPath r" "sr_location r"]
    by (cases r) (simp add: intern_ref_def intern_def Let_def)
next
  case (Some p)
  then have p: "p < length (st_entries t)" "sr_hierarchicalPath (st_entries t ! p) = sr_hierarchicalPath r"
    using ok by (simp_all add: st_ok_def)
  have "inj_on sr_hierarchicalPath (set known)"
    using dist by (simp add: distinct_map)
  moreover have "st_entries t ! p \<in> set known"
    using p(1) sub nth_mem by blast
  ultimately have "st_entries t ! p = r"
    using p(2) r by (simp add: inj_onD)
  then show ?thesis
    using Some p ok sub by (simp add: intern_ref_def intern_def)
qed

definition intern_option :: "symbol_reference option \<Rightarrow> symbol_table \<Rightarrow> nat option \<times> symbol_table" where
  "intern_option s t = (case s of None \<Rightarrow> (None, t) | Some r \<Rightarrow> (let x = intern_ref r t in (Some (fst x), snd x)))"

lemma read_edge_step:
  assumes inv: "edges_read ns known L g t"
    and new: "\<forall>v \<in> set L. (fst v, fst (snd v)) \<noteq> (a, b)" and ab: "a < length ns" "b < length ns"
    and sym: "\<And>r. s = Some r \<Longrightarrow> r \<in> set known" and dist: "distinct (map sr_hierarchicalPath known)"
    and i: "symbol i = None"
  obtains e g' t' p where "node_addEdge new_edge a b g = (e, g')"
    "intern_option s t = (p, t')"
    "edges_read ns known (L @ [(a, b, i, s)]) (set_einfo e (i\<lparr>symbol := p\<rparr>) g') t'"
proof -
  note I = inv [unfolded edges_read_def]
  have ok: "graph_ok g" and nodes: "nodes g = [0 ..< length ns]" and next_e: "nextEdge g = length L"
    and live: "\<And>e. edgeAt g e \<noteq> None \<longleftrightarrow> e < length L"
    and views: "\<And>e. e < length L \<Longrightarrow> L ! e = (esrc g e, etgt g e, (einfo g e)\<lparr>symbol := None\<rparr>, resolve t (symbol (einfo g e)))"
    and ptrs: "\<And>e p. e < length L \<Longrightarrow> symbol (einfo g e) = Some p \<Longrightarrow> p < length (st_entries t)"
    and outs: "\<And>s. outEdges g s = filter (\<lambda>e. fst (L ! e) = s) [0 ..< length L]"
    and st: "st_ok t" "set (st_entries t) \<subseteq> set known"
    and nodeAt: "nodeAt g = (\<lambda>i. if i < length ns then Some (ns ! i) else None)"
    using I by blast+
  obtain p t' where pt: "intern_option s t = (p, t')"
    by fastforce
  have tab: "st_ok t'" "set (st_entries t') \<subseteq> set known" "\<exists>more. st_entries t' = st_entries t @ more"
    "resolve t' p = s" "\<And>q. p = Some q \<Longrightarrow> q < length (st_entries t')"
    using pt st intern_known [OF st _ dist] sym by (auto simp: resolve_def intern_option_def Let_def split: option.splits)
  then have keep: "resolve t' q = resolve t q" if "\<And>x. q = Some x \<Longrightarrow> x < length (st_entries t)" for q
    using that by (cases q) (auto simp: resolve_def nth_append)
  have more: "length (st_entries t) \<le> length (st_entries t')"
    using tab(3) by auto
  have "etgt g e \<noteq> b" if "e \<in> set (outEdges g a)" for e
    using that new views [of e] nth_mem [of e L] by (auto simp: outs)
  then have none: "lookupOutEdge g a b = None"
    using lookup_is_scan [OF graph_okD(2) [OF ok]] by (auto simp: findEdgeTo_def find_None_iff)
  let ?g = "with_edge new_edge a b g" and ?e = "length L"
  let ?h = "set_einfo ?e (i\<lparr>symbol := p\<rparr>) ?g" and ?L = "L @ [(a, b, i, s)]"
  have add: "node_addEdge new_edge a b g = (?e, ?g)"
    by (simp add: node_addEdge_eq none next_e)
  have at: "edgeAt ?g = (edgeAt g)(?e \<mapsto> \<lparr>sourceNode = a, targetNode = b, elabel = new_edge\<rparr>)"
    by (simp add: with_edge_edgeAt next_e)
  have ends: "esrc ?g e = (if e = ?e then a else esrc g e)" "etgt ?g e = (if e = ?e then b else etgt g e)" for e
    by (simp_all add: esrc_def etgt_def at)
  have label: "einfo ?h e = (if e = ?e then i\<lparr>symbol := p\<rparr> else einfo g e)" for e
    using einfo_set [of ?g ?e "i\<lparr>symbol := p\<rparr>" e] by (simp add: at einfo_def)
  have "graph_ok ?h"
    using with_edge_ok [OF ok, of a b new_edge] ab by (simp add: set_einfo_ok nodes)
  moreover have "nodes ?h = [0 ..< length ns]" "nextEdge ?h = length ?L" "nodeAt ?h = (\<lambda>i. if i < length ns then Some (ns ! i) else None)"
    by (simp_all add: with_edge_def nodes next_e nodeAt)
  moreover have "edgeAt ?h e \<noteq> None \<longleftrightarrow> e < length ?L" for e
    using live [of e] by (auto simp: at less_Suc_eq)
  moreover have "?L ! e = (esrc ?h e, etgt ?h e, (einfo ?h e)\<lparr>symbol := None\<rparr>, resolve t' (symbol (einfo ?h e))) \<and>
      (\<forall>q. symbol (einfo ?h e) = Some q \<longrightarrow> q < length (st_entries t'))" if "e < length ?L" for e
  proof (cases "e = ?e")
    case True
    then show ?thesis
      using tab(4,5) i by (simp add: ends label)
  next
    case False
    then have e: "e < length L" using that by simp
    then show ?thesis
      using views [OF e] keep [of "symbol (einfo g e)"] ptrs [OF e] more False
      by (fastforce simp: ends label nth_append)
  qed
  moreover have "outEdges ?h n = filter (\<lambda>e. fst (?L ! e) = n) [0 ..< length ?L]" for n
  proof -
    have "filter (\<lambda>e. fst (?L ! e) = n) [0 ..< length L] = filter (\<lambda>e. fst (L ! e) = n) [0 ..< length L]"
      by (rule filter_cong) (simp_all add: nth_append)
    then show ?thesis
      by (simp add: with_edge_def outs next_e)
  qed
  ultimately have "edges_read ns known ?L ?h t'"
    unfolding edges_read_def using tab(1,2) by blast
  then show thesis
    using that add pt by blast
qed

definition norm_info :: "range_lib \<Rightarrow> edge_info \<Rightarrow> edge_info" where
  "norm_info R i = i\<lparr>symbol := None, bounds := norm_bounds R (bounds i)\<rparr>"

definition fits_edge :: "range_lib \<Rightarrow> 'c netlist \<Rightarrow> nat \<Rightarrow> bool" where
  "fits_edge R N e \<longleftrightarrow> fits_bounds R (bounds (einfo (dg N) e)) \<and>
     (\<forall>p. symbol (einfo (dg N) e) = Some p \<longrightarrow> p < length (st_entries (symbolTable N)) \<and>
        fits_location (sr_location (st_entries (symbolTable N) ! p)))"

lemma edge_info_roundtrip:
  assumes "fits_edge R N e"
  shows "edgeInfoFromJson 4 (edgeToJson R N e) t =
     (let (p, t') = intern_option (resolve (symbolTable N) (symbol (einfo (dg N) e))) t
      in Inr ((norm_info R (einfo (dg N) e))\<lparr>symbol := p\<rparr>, t'))"
proof -
  let ?i = "einfo (dg N) e" and ?j = "edgeToJson R N e"
  obtain k ro pr sy b d where i: "?i = \<lparr>edgeKind = k, role = ro, precision = pr, symbol = sy, bounds = b, disabled = d\<rparr>"
    by (cases ?i)
  have at: "json_at ''edgeKind'' ?j = Inr (JString (edgeKindToString k))"
    "json_value ''role'' ''unknown'' ?j = Inr (role_toString ro)"
    "json_value ''precision'' ''unknown'' ?j = Inr (precision_toString pr)"
    "json_at ''bounds'' ?j = Inr (boundsToJson R b)" "json_at ''disabled'' ?j = Inr (JBool d)"
    "json_at ''symbol'' ?j = Inr (case sy of None \<Rightarrow> JObject [] | Some p \<Rightarrow> symbolToJson (st_entries (symbolTable N) ! p))"
    by (simp_all add: edgeToJson_def Let_def json_at_def json_value_def get_string_def i)
  have b: "boundsFromJson (boundsToJson R b) = Inr (norm_bounds R b)"
    using assms by (intro bounds_roundtrip) (simp add: fits_edge_def i)
  show ?thesis
  proof (cases sy)
    case None
    have "\<not> json_contains ''name'' (JObject [])" by (simp add: json_contains_def)
    then show ?thesis
      by (simp add: edgeInfoFromJson_def at get_string_def get_bool_def kind_roundtrip None b i resolve_def
          intern_option_def norm_info_def)
  next
    case (Some p)
    let ?s = "st_entries (symbolTable N) ! p"
    have "symbolFromJson (symbolToJson ?s) = Inr ?s"
      using assms by (intro symbol_roundtrip) (simp add: fits_edge_def i Some)
    moreover have "json_contains ''name'' (symbolToJson ?s)" by (simp add: json_contains_def symbolToJson_def)
    ultimately show ?thesis
      by (simp add: edgeInfoFromJson_def at get_string_def get_bool_def kind_roundtrip Some b i resolve_def
          intern_option_def norm_info_def Let_def)
  qed
qed

lemma read_one_edge:
  assumes "fits_edge R N e" "nID (dg N) (esrc (dg N) e) < 2 ^ 64" "nID (dg N) (etgt (dg N) e) < 2 ^ 64"
    "m (nID (dg N) (esrc (dg N) e)) = Some a" "m (nID (dg N) (etgt (dg N) e)) = Some b"
    "node_addEdge new_edge a b (dg M) = (x, g')"
    "intern_option (resolve (symbolTable N) (symbol (einfo (dg N) e))) (symbolTable M) = (p, t')"
  shows "readEdge 4 m (edgeToJson R N e) M =
     Inr (M\<lparr>dg := set_einfo x ((norm_info R (einfo (dg N) e))\<lparr>symbol := p\<rparr>) g', symbolTable := t'\<rparr>)"
proof -
  have "json_at ''source'' (edgeToJson R N e) = Inr (JInt (int (nID (dg N) (esrc (dg N) e))))"
    "json_at ''target'' (edgeToJson R N e) = Inr (JInt (int (nID (dg N) (etgt (dg N) e))))"
    by (simp_all add: edgeToJson_def Let_def json_at_def)
  then show ?thesis
    using assms by (simp add: readEdge_def get_uint64_def uint64_id edge_info_roundtrip netlist_addEdge_def)
qed

text \<open>Where a node's copy is: its position in the list of nodes.\<close>

definition position :: "('n, 'e) digraph \<Rightarrow> nat \<Rightarrow> nat" where
  "position g n = the (index_of n (nodes g))"

lemma position_nth: "n \<in> set (nodes g) \<Longrightarrow> position g n < length (nodes g) \<and> nodes g ! position g n = n"
  using index_of_None [of n "nodes g"] index_of_Some [of n "nodes g"] by (cases "index_of n (nodes g)") (auto simp: position_def)

definition edge_copy :: "range_lib \<Rightarrow> 'c netlist \<Rightarrow> nat \<Rightarrow> edge_view" where
  "edge_copy R N e =
     (position (dg N) (esrc (dg N) e), position (dg N) (etgt (dg N) e), norm_info R (einfo (dg N) e),
      resolve (symbolTable N) (symbol (einfo (dg N) e)))"

lemma read_edges:
  assumes good: "\<And>e. e \<in> set es \<Longrightarrow> fits_edge R N e \<and> nID (dg N) (esrc (dg N) e) < 2 ^ 64 \<and> nID (dg N) (etgt (dg N) e) < 2 ^ 64 \<and>
        esrc (dg N) e \<in> set (nodes (dg N)) \<and> etgt (dg N) e \<in> set (nodes (dg N))"
    and m: "\<And>n. n \<in> set (nodes (dg N)) \<Longrightarrow> m (nID (dg N) n) = Some (position (dg N) n)"
    and len: "length ns = length (nodes (dg N))"
    and dist: "distinct (map sr_hierarchicalPath (st_entries (symbolTable N)))"
    and new: "distinct (map (\<lambda>v. (fst v, fst (snd v))) (L @ map (edge_copy R N) es))"
    and inv: "edges_read ns (st_entries (symbolTable N)) L g t"
  shows "\<exists>g' t'. foldR (readEdge 4 m) (map (edgeToJson R N) es) (M\<lparr>dg := g, symbolTable := t\<rparr>) =
       Inr (M\<lparr>dg := g', symbolTable := t'\<rparr>) \<and>
     edges_read ns (st_entries (symbolTable N)) (L @ map (edge_copy R N) es) g' t'"
  using good new inv
proof (induction es arbitrary: L g t)
  case Nil
  then show ?case by auto
next
  case (Cons e es)
  let ?a = "position (dg N) (esrc (dg N) e)" and ?b = "position (dg N) (etgt (dg N) e)"
    and ?i = "norm_info R (einfo (dg N) e)" and ?s = "resolve (symbolTable N) (symbol (einfo (dg N) e))"
  have e: "fits_edge R N e" "nID (dg N) (esrc (dg N) e) < 2 ^ 64" "nID (dg N) (etgt (dg N) e) < 2 ^ 64"
    "esrc (dg N) e \<in> set (nodes (dg N))" "etgt (dg N) e \<in> set (nodes (dg N))"
    using Cons.prems(1) [of e] by simp_all
  have "(?a, ?b) \<notin> (\<lambda>v. (fst v, fst (snd v))) ` set L"
    using Cons.prems(2) unfolding map_append distinct_append list.map edge_copy_def by simp
  then have fresh: "\<forall>v \<in> set L. (fst v, fst (snd v)) \<noteq> (?a, ?b)"
    by (metis (no_types, lifting) image_eqI)
  have ab: "?a < length ns" "?b < length ns"
    using position_nth e(4,5) len by auto
  have sym: "r \<in> set (st_entries (symbolTable N))" if "?s = Some r" for r
    using that e(1) by (auto simp: resolve_def fits_edge_def)
  have no_symbol: "symbol ?i = None" by (simp add: norm_info_def)
  obtain x g' t' p where add: "node_addEdge new_edge ?a ?b g = (x, g')"
    and tab: "intern_option ?s t = (p, t')"
    and inv': "edges_read ns (st_entries (symbolTable N)) (L @ [(?a, ?b, ?i, ?s)]) (set_einfo x (?i\<lparr>symbol := p\<rparr>) g') t'"
    by (rule read_edge_step [where s = ?s, OF Cons.prems(3) fresh ab _ dist no_symbol]) (erule sym, rule that)
  let ?M = "M\<lparr>dg := g, symbolTable := t\<rparr>"
  have step: "readEdge 4 m (edgeToJson R N e) ?M = Inr (M\<lparr>dg := set_einfo x (?i\<lparr>symbol := p\<rparr>) g', symbolTable := t'\<rparr>)"
    using read_one_edge [OF e(1-3) m [OF e(4)] m [OF e(5)], of ?M x g' p t'] add tab by simp
  have "distinct (map (\<lambda>v. (fst v, fst (snd v))) ((L @ [(?a, ?b, ?i, ?s)]) @ map (edge_copy R N) es))"
    using Cons.prems(2) by (simp add: edge_copy_def [of R N e])
  from Cons.IH [OF _ this inv'] Cons.prems(1) show ?case
    by (simp add: step edge_copy_def [of R N e])
qed

section \<open>Whole netlists\<close>

definition edge_order :: "('n, 'e) digraph \<Rightarrow> nat list" where
  "edge_order g = concat (map (outEdges g) (nodes g))"

text \<open>The nodes in order, and the edges in order with the identifiers of their ends and the symbols themselves.\<close>

definition node_views :: "'c netlist \<Rightarrow> 'c netlist_node list" where
  "node_views N = map (\<lambda>n. the (nodeAt (dg N) n)) (nodes (dg N))"

definition by_ID :: "'c netlist \<Rightarrow> edge_view \<Rightarrow> edge_view" where
  "by_ID N v = (nID (dg N) (fst v), nID (dg N) (fst (snd v)), snd (snd v))"

definition edge_views :: "'c netlist \<Rightarrow> edge_view list" where
  "edge_views N = map (\<lambda>e. by_ID N (view_of N e)) (edge_order (dg N))"

definition norm_node :: "range_lib \<Rightarrow> 'c constant_text \<Rightarrow> 'c netlist_node \<Rightarrow> 'c netlist_node" where
  "norm_node R T n = \<lparr>ID = ID n, node_data = norm_data R T (node_data n)\<rparr>"

definition norm_edge :: "range_lib \<Rightarrow> edge_view \<Rightarrow> edge_view" where
  "norm_edge R v = (fst v, fst (snd v), norm_info R (fst (snd (snd v))), snd (snd (snd v)))"

text \<open>What the writer relies on: invariants of the netlist, different identifiers, integers that fit their types.\<close>

definition writable :: "range_lib \<Rightarrow> 'c netlist \<Rightarrow> bool" where
  "writable R N \<longleftrightarrow> graph_ok (dg N) \<and> ft_ok (fileTable N) \<and> st_ok (symbolTable N) \<and>
     distinct (map (nID (dg N)) (nodes (dg N))) \<and>
     (\<forall>n \<in> set (nodes (dg N)). nID (dg N) n < 2 ^ 64 \<and> fits_data R (ndata (dg N) n)) \<and>
     (\<forall>e \<in> set (edge_order (dg N)). fits_edge R N e)"

definition no_parallel :: "('n, 'e) digraph \<Rightarrow> bool" where
  "no_parallel g \<longleftrightarrow> distinct (map (\<lambda>e. (esrc g e, etgt g e)) (edge_order g))"

lemma edge_order_member:
  assumes "graph_ok g" "e \<in> set (edge_order g)"
  shows "edgeAt g e \<noteq> None" "esrc g e \<in> set (nodes g)" "etgt g e \<in> set (nodes g)"
  using assms edges_okD(3) [OF graph_okD(1) [OF assms(1)]] graph_okD(3) [OF assms(1)]
  by (auto simp: edge_order_def nodes_ok_def)

lemma order_of_read:
  assumes "edges_read ns known (map (edge_copy R N) es) g t" "sorted (map fst (map (edge_copy R N) es))"
    "\<And>e. e \<in> set es \<Longrightarrow> fst (edge_copy R N e) < length ns"
  shows "edge_order g = [0 ..< length es]"
proof -
  let ?L = "map (edge_copy R N) es"
  have nodes: "nodes g = [0 ..< length ns]" and outs: "\<And>s. outEdges g s = filter (\<lambda>e. fst (?L ! e) = s) [0 ..< length ?L]"
    using assms(1) unfolding edges_read_def by blast+
  have fn: "outEdges g = (\<lambda>s. filter (\<lambda>e. fst (?L ! e) = s) [0 ..< length ?L])"
    by (rule ext) (rule outs)
  have "map (\<lambda>i. fst (?L ! i)) [0 ..< length ?L] = map fst ?L"
    by (rule nth_equalityI) simp_all
  then have "sorted (map (\<lambda>i. fst (?L ! i)) [0 ..< length ?L])"
    using assms(2) by simp
  moreover have "\<forall>i \<in> set [0 ..< length ?L]. fst (?L ! i) < length ns"
    using assms(3) by simp
  ultimately have "concat (map (\<lambda>s. filter (\<lambda>i. fst (?L ! i) = s) [0 ..< length ?L]) [0 ..< length ns]) = [0 ..< length ?L]"
    by (rule concat_groups)
  then show ?thesis
    unfolding edge_order_def nodes fn by simp
qed

lemma copies_sorted:
  assumes "graph_ok g"
  shows "sorted (map (\<lambda>e. position g (esrc g e)) (edge_order g))"
proof -
  have "edge_order g = concat (map (\<lambda>j. outEdges g (nodes g ! j)) [0 ..< length (nodes g)])"
    unfolding edge_order_def by (subst map_nth [of "nodes g", symmetric]) (simp only: map_map comp_def)
  moreover have "position g (esrc g x) = j" if j: "j < length (nodes g)" and x: "x \<in> set (outEdges g (nodes g ! j))" for j x
  proof -
    have "esrc g x = nodes g ! j"
      using x edges_okD(3) [OF graph_okD(1) [OF assms]] by blast
    moreover have "distinct (nodes g)"
      using graph_okD(3) [OF assms] by (simp add: nodes_ok_def)
    ultimately show ?thesis
      using position_nth [of "nodes g ! j" g] nth_mem [OF j] j nth_eq_iff_index_eq by metis
  qed
  ultimately show ?thesis
    by (simp only: sorted_blocks)
qed

lemma writableD:
  assumes "writable R N"
  shows "graph_ok (dg N)" "distinct (map (nID (dg N)) (nodes (dg N)))" "st_ok (symbolTable N)" "ft_ok (fileTable N)"
    "n \<in> set (nodes (dg N)) \<Longrightarrow> nID (dg N) n < 2 ^ 64 \<and> fits_data R (ndata (dg N) n)"
    "e \<in> set (edge_order (dg N)) \<Longrightarrow> fits_edge R N e"
  using assms unfolding writable_def by blast+

definition loaded_nodes :: "range_lib \<Rightarrow> 'c constant_text \<Rightarrow> 'c netlist \<Rightarrow> 'c netlist_node list" where
  "loaded_nodes R T N = map (norm_node R T) (node_views N)"

lemma loaded_nodes_simps [simp]:
  "length (loaded_nodes R T N) = length (nodes (dg N))"
  "i < length (nodes (dg N)) \<Longrightarrow> loaded_nodes R T N ! i = norm_node R T (the (nodeAt (dg N) (nodes (dg N) ! i)))"
  by (simp_all add: loaded_nodes_def node_views_def)

lemma nodes_loaded:
  assumes w: "writable R N"
  obtains m where "foldR (readNode T) (map (\<lambda>n. nodeToJson R T (the (nodeAt (dg N) n))) (nodes (dg N))) (M\<lparr>dg := nodes_graph []\<rparr>, Map.empty)
       = Inr (M\<lparr>dg := nodes_graph (loaded_nodes R T N)\<rparr>, m)"
    "\<And>n. n \<in> set (nodes (dg N)) \<Longrightarrow> m (nID (dg N) n) = Some (position (dg N) n)"
proof -
  let ?g = "dg N" and ?h = "\<lambda>n. norm_node R T (the (nodeAt (dg N) n))"
  have ns: "map ?h (nodes ?g) = loaded_nodes R T N"
    by (simp add: loaded_nodes_def node_views_def)
  have node: "nodeFromJson T (nodeToJson R T (the (nodeAt ?g n))) = Inr (?h n)" if "n \<in> set (nodes ?g)" for n
    using node_roundtrip [of R "the (nodeAt ?g n)" T] writableD(5) [OF w that] by (simp add: norm_node_def nID_def ndata_def)
  have "map ID (map ?h (nodes ?g)) = map (nID ?g) (nodes ?g)"
    by (simp add: norm_node_def nID_def)
  then have "distinct (map ID ([] @ map ?h (nodes ?g)))"
    using writableD(2) [OF w] by (simp only: append_Nil)
  from read_nodes [of "nodes ?g" T "\<lambda>n. nodeToJson R T (the (nodeAt ?g n))" ?h "[]" Map.empty M, OF node this]
  obtain m where run: "foldR (readNode T) (map (\<lambda>n. nodeToJson R T (the (nodeAt ?g n))) (nodes ?g)) (M\<lparr>dg := nodes_graph []\<rparr>, Map.empty)
       = Inr (M\<lparr>dg := nodes_graph (loaded_nodes R T N)\<rparr>, m)"
    and m: "\<And>i. i < length (loaded_nodes R T N) \<Longrightarrow> m (ID (loaded_nodes R T N ! i)) = Some i"
    unfolding append_Nil ns by (metis length_0_conv less_nat_zero_code)
  have "m (nID ?g n) = Some (position ?g n)" if "n \<in> set (nodes ?g)" for n
    using m [of "position ?g n"] position_nth [OF that] by (simp add: norm_node_def nID_def)
  with run show thesis by (rule that)
qed

lemma edge_copies_distinct:
  assumes g: "graph_ok (dg N)" and p: "no_parallel (dg N)"
  shows "distinct (map (\<lambda>v. (fst v, fst (snd v))) (map (edge_copy R N) (edge_order (dg N))))"
proof -
  let ?g = "dg N"
  have ends: "esrc ?g e \<in> set (nodes ?g) \<and> etgt ?g e \<in> set (nodes ?g)" if "e \<in> set (edge_order ?g)" for e
    using edge_order_member [OF g that] by simp
  have "inj_on (position ?g) (set (nodes ?g))"
    using position_nth [of _ ?g] by (metis inj_onI)
  moreover have "distinct (edge_order ?g)" "inj_on (\<lambda>e. (esrc ?g e, etgt ?g e)) (set (edge_order ?g))"
    using p by (simp_all add: no_parallel_def distinct_map)
  ultimately have "inj_on (\<lambda>e. (position ?g (esrc ?g e), position ?g (etgt ?g e))) (set (edge_order ?g))"
    using ends by (auto simp: inj_on_def)
  then show ?thesis
    using \<open>distinct (edge_order ?g)\<close> by (simp add: distinct_map comp_def edge_copy_def)
qed

lemma edges_loaded:
  assumes w: "writable R N" and p: "no_parallel (dg N)"
    and m: "\<And>n. n \<in> set (nodes (dg N)) \<Longrightarrow> m (nID (dg N) n) = Some (position (dg N) n)"
    and ns: "length ns = length (nodes (dg N))"
  obtains g t where "foldR (readEdge 4 m) (map (edgeToJson R N) (edge_order (dg N))) (M\<lparr>dg := nodes_graph ns, symbolTable := st_new\<rparr>)
      = Inr (M\<lparr>dg := g, symbolTable := t\<rparr>)"
    "edges_read ns (st_entries (symbolTable N)) (map (edge_copy R N) (edge_order (dg N))) g t"
proof -
  have good: "fits_edge R N e \<and> nID (dg N) (esrc (dg N) e) < 2 ^ 64 \<and> nID (dg N) (etgt (dg N) e) < 2 ^ 64 \<and>
      esrc (dg N) e \<in> set (nodes (dg N)) \<and> etgt (dg N) e \<in> set (nodes (dg N))" if "e \<in> set (edge_order (dg N))" for e
    using writableD(5,6) [OF w] edge_order_member [OF writableD(1) [OF w] that] that by blast
  have dist: "distinct (map sr_hierarchicalPath (st_entries (symbolTable N)))"
    using writableD(3) [OF w] by (simp add: st_ok_def)
  have new: "distinct (map (\<lambda>v. (fst v, fst (snd v))) ([] @ map (edge_copy R N) (edge_order (dg N))))"
    unfolding append_Nil by (rule edge_copies_distinct [OF writableD(1) [OF w] p])
  show thesis
    using read_edges [OF good m ns dist new edges_read_start [of ns], of M] that by auto
qed

lemma views_loaded:
  assumes w: "writable R N"
    and read: "edges_read (loaded_nodes R T N) known (map (edge_copy R N) (edge_order (dg N))) (dg M) (symbolTable M)"
  shows "graph_ok (dg M)" "node_views M = map (norm_node R T) (node_views N)" "edge_views M = map (norm_edge R) (edge_views N)"
proof -
  let ?g = "dg N" and ?es = "edge_order (dg N)" and ?ns = "loaded_nodes R T N"
  note rd = read [unfolded edges_read_def]
  show "graph_ok (dg M)" using rd by blast
  have ends: "esrc ?g e \<in> set (nodes ?g)" "etgt ?g e \<in> set (nodes ?g)" if "e \<in> set ?es" for e
    using edge_order_member [OF writableD(1) [OF w] that] by simp_all
  have order: "edge_order (dg M) = [0 ..< length ?es]"
  proof (rule order_of_read [OF read])
    show "sorted (map fst (map (edge_copy R N) ?es))"
      using copies_sorted [OF writableD(1) [OF w]] by (simp add: edge_copy_def comp_def)
    show "fst (edge_copy R N e) < length ?ns" if "e \<in> set ?es" for e
      using position_nth [OF ends(1) [OF that]] by (simp add: edge_copy_def)
  qed
  have nodesM: "nodes (dg M) = [0 ..< length ?ns]" "nodeAt (dg M) = (\<lambda>i. if i < length ?ns then Some (?ns ! i) else None)"
    using rd by blast+
  show "node_views M = map (norm_node R T) (node_views N)"
    unfolding node_views_def by (rule nth_equalityI) (simp_all add: nodesM)
  show "edge_views M = map (norm_edge R) (edge_views N)"
  proof (rule nth_equalityI)
    show "length (edge_views M) = length (map (norm_edge R) (edge_views N))"
      by (simp add: edge_views_def order)
    fix i assume "i < length (edge_views M)"
    then have i: "i < length ?es" by (simp add: edge_views_def order)
    have "map (edge_copy R N) ?es ! i = view_of M i"
      using rd i by (simp add: view_of_def Let_def)
    then have "edge_views M ! i = by_ID M (edge_copy R N (?es ! i))"
      using i by (simp add: edge_views_def order)
    also have "\<dots> = norm_edge R (by_ID N (view_of N (?es ! i)))"
      using position_nth [of _ ?g] ends [OF nth_mem [OF i]]
      by (simp add: by_ID_def edge_copy_def norm_edge_def view_of_def Let_def nID_def nodesM norm_node_def norm_info_def)
    finally show "edge_views M ! i = map (norm_edge R) (edge_views N) ! i"
      using i by (simp add: edge_views_def)
  qed
qed

lemma tables_loaded:
  fixes N :: "'c netlist"
  assumes "ft_ok (fileTable N)"
  obtains tab where "filenames tab = filenames (fileTable N)"
    "foldR (\<lambda>j N. bindR (get_string j) (\<lambda>s. Inr (N\<lparr>fileTable := snd (addFile s (fileTable N))\<rparr>)))
      (map JString (filenames (fileTable N))) (setArtifactId a (empty_netlist :: 'c netlist)) = Inr (setArtifactId a (empty_netlist\<lparr>fileTable := tab\<rparr>))"
proof -
  have "ft_ok (fileTable (setArtifactId a (empty_netlist :: 'c netlist)))"
      "distinct (filenames (fileTable (setArtifactId a (empty_netlist :: 'c netlist))) @ filenames (fileTable N))"
    using assms ft_ok_new by (simp_all add: setArtifactId_def empty_netlist_def ft_ok_def ft_new_def)
  then show thesis
    using read_files [of "setArtifactId a (empty_netlist :: 'c netlist)" "filenames (fileTable N)"] that
    by (auto simp: setArtifactId_def empty_netlist_def ft_new_def)
qed

text \<open>Everything but the edges, and the edges through any account \<open>Q\<close> of their loop.\<close>

lemma graph_read:
  fixes N :: "'c netlist"
  assumes w: "writable R N"
    and es: "\<And>m (M :: 'c netlist). (\<And>n. n \<in> set (nodes (dg N)) \<Longrightarrow> m (nID (dg N) n) = Some (position (dg N) n)) \<Longrightarrow>
      \<exists>g t. foldR (readEdge 4 m) (map (edgeToJson R N) (edge_order (dg N)))
        (M\<lparr>dg := nodes_graph (loaded_nodes R T N), symbolTable := st_new\<rparr>) = Inr (M\<lparr>dg := g, symbolTable := t\<rparr>) \<and> Q g t"
  shows "\<exists>M. graphFromJson T (graphToJson R T random N) empty_netlist = Inr M \<and> Q (dg M) (symbolTable M) \<and>
     filenames (fileTable M) = filenames (fileTable N) \<and> blackBoxPaths M = blackBoxPaths N \<and>
     artifactId M = fst (getArtifactId random N)"
proof -
  let ?g = "dg N" and ?root = "graphToJson R T random N" and ?art = "fst (getArtifactId random N)"
  have at: "json_at ''version'' ?root = Inr (JInt 4)" "json_at ''artifactId'' ?root = Inr (JString ?art)"
    "json_contains ''artifactId'' ?root" "json_contains ''blackBoxes'' ?root"
    "json_at ''fileTable'' ?root = Inr (JArray (map JString (filenames (fileTable N))))"
    "json_at ''blackBoxes'' ?root = Inr (JArray (map JString (blackBoxPaths N)))"
    "json_at ''nodes'' ?root = Inr (JArray (map (\<lambda>n. nodeToJson R T (the (nodeAt ?g n))) (nodes ?g)))"
    "json_at ''edges'' ?root = Inr (JArray (map (edgeToJson R N) (edge_order ?g)))"
    by (simp_all add: graphToJson_def json_at_def json_contains_def formatVersion_def edge_order_def map_concat comp_def)
  obtain tab where tab: "filenames tab = filenames (fileTable N)" and files:
    "foldR (\<lambda>j N. bindR (get_string j) (\<lambda>s. Inr (N\<lparr>fileTable := snd (addFile s (fileTable N))\<rparr>)))
      (map JString (filenames (fileTable N))) (setArtifactId ?art (empty_netlist :: 'c netlist)) = Inr (setArtifactId ?art (empty_netlist\<lparr>fileTable := tab\<rparr>))"
    by (rule tables_loaded [OF writableD(4) [OF w]])
  let ?N2 = "setArtifactId ?art (empty_netlist\<lparr>fileTable := tab\<rparr> :: 'c netlist)"
  let ?N3 = "?N2\<lparr>blackBoxPaths := blackBoxPaths N\<rparr>"
  have boxes: "foldR (\<lambda>j N. bindR (get_string j) (\<lambda>s. Inr (addBlackBoxPath s N))) (map JString (blackBoxPaths N)) ?N2 = Inr ?N3"
    by (simp add: read_boxes setArtifactId_def empty_netlist_def)
  have start: "?N3 = ?N3\<lparr>dg := nodes_graph []\<rparr>"
    by (simp add: setArtifactId_def empty_netlist_def nodes_graph_def empty_digraph_def)
  obtain m where nodes: "foldR (readNode T) (map (\<lambda>n. nodeToJson R T (the (nodeAt ?g n))) (nodes ?g)) (?N3, Map.empty)
       = Inr (?N3\<lparr>dg := nodes_graph (loaded_nodes R T N)\<rparr>, m)"
    and m: "\<And>n. n \<in> set (nodes ?g) \<Longrightarrow> m (nID ?g n) = Some (position ?g n)"
    using nodes_loaded [OF w, of T ?N3, folded start] by blast
  have tab0: "?N3\<lparr>dg := nodes_graph (loaded_nodes R T N)\<rparr> = ?N3\<lparr>dg := nodes_graph (loaded_nodes R T N), symbolTable := st_new\<rparr>"
    by (simp add: setArtifactId_def empty_netlist_def)
  obtain g t where edges: "foldR (readEdge 4 m) (map (edgeToJson R N) (edge_order ?g)) (?N3\<lparr>dg := nodes_graph (loaded_nodes R T N)\<rparr>)
      = Inr (?N3\<lparr>dg := g, symbolTable := t\<rparr>)" and Q: "Q g t"
    using es [of m ?N3, OF m, folded tab0] by blast
  let ?M = "?N3\<lparr>dg := g, symbolTable := t\<rparr>"
  have "get_string (JString ?art) = Inr ?art" by (simp add: get_string_def)
  then have "graphFromJson T ?root empty_netlist = Inr ?M"
    unfolding graphFromJson_def
    by (simp add: at get_int32_def wrap32_def formatVersion_def elements_def files boxes nodes edges)
  moreover have "filenames (fileTable ?M) = filenames (fileTable N)" "blackBoxPaths ?M = blackBoxPaths N" "artifactId ?M = ?art"
    by (simp_all add: tab setArtifactId_def)
  ultimately show ?thesis
    using Q by (intro exI [of _ ?M]) simp
qed

lemma graph_loaded:
  assumes w: "writable R N" and p: "no_parallel (dg N)"
  shows "\<exists>M. graphFromJson T (graphToJson R T random N) empty_netlist = Inr M \<and> graph_ok (dg M) \<and>
     node_views M = map (norm_node R T) (node_views N) \<and> edge_views M = map (norm_edge R) (edge_views N) \<and>
     filenames (fileTable M) = filenames (fileTable N) \<and> blackBoxPaths M = blackBoxPaths N \<and>
     artifactId M = fst (getArtifactId random N)"
proof -
  let ?Q = "edges_read (loaded_nodes R T N) (st_entries (symbolTable N)) (map (edge_copy R N) (edge_order (dg N)))"
  have "\<exists>g t. foldR (readEdge 4 m) (map (edgeToJson R N) (edge_order (dg N)))
        (M\<lparr>dg := nodes_graph (loaded_nodes R T N), symbolTable := st_new\<rparr>) = Inr (M\<lparr>dg := g, symbolTable := t\<rparr>) \<and> ?Q g t"
    if "\<And>n. n \<in> set (nodes (dg N)) \<Longrightarrow> m (nID (dg N) n) = Some (position (dg N) n)" for m M
    by (rule edges_loaded [OF w p that loaded_nodes_simps(1) [of R T N], where M = M]) (assumption, blast)
  from graph_read [where Q = ?Q, OF w this] obtain M where M: "graphFromJson T (graphToJson R T random N) empty_netlist = Inr M"
      "?Q (dg M) (symbolTable M)" "filenames (fileTable M) = filenames (fileTable N)" "blackBoxPaths M = blackBoxPaths N"
      "artifactId M = fst (getArtifactId random N)"
    by blast
  then show ?thesis
    using views_loaded [OF w M(2)] by blast
qed

end
