(* ===== verification/SerializerProps.thy ===== *)
theory SerializerProps
  imports SerializerFacts QueryProps
begin

text \<open>
  The properties of the serializer: what a file of \<open>serialize\<close> reads back to, what any file reads to, and the files
  that are refused.
\<close>

section \<open>Whatever is read is well formed\<close>

definition netlist_ok :: "'c netlist \<Rightarrow> bool" where
  "netlist_ok N \<longleftrightarrow> graph_ok (dg N) \<and> ft_ok (fileTable N) \<and> st_ok (symbolTable N) \<and>
     (\<forall>e p. edgeAt (dg N) e \<noteq> None \<longrightarrow> symbol (einfo (dg N) e) = Some p \<longrightarrow> p < length (st_entries (symbolTable N))) \<and>
     simple_graph (dg N)"

lemma bindR_Inr: "bindR r f = Inr y \<longleftrightarrow> (\<exists>x. r = Inr x \<and> f x = Inr y)"
  by (cases r) auto

lemma foldR_invariant:
  assumes "\<And>x s s'. f x s = Inr s' \<Longrightarrow> P s \<Longrightarrow> P s'"
  shows "foldR f xs s = Inr s' \<Longrightarrow> P s \<Longrightarrow> P s'"
  by (induction xs arbitrary: s) (auto simp: bindR_Inr dest: assms)

lemma edgeInfoFromJson_symbol:
  assumes "edgeInfoFromJson version j t = Inr (i, t')" "st_ok t"
  shows "st_ok t' \<and> length (st_entries t) \<le> length (st_entries t') \<and>
     (\<forall>p. symbol i = Some p \<longrightarrow> p < length (st_entries t'))"
  using assms(1) intern_ref_grows [OF assms(2)] assms(2)
  by (auto simp: edgeInfoFromJson_def bindR_Inr Let_def split: if_splits)

lemma readNode_ok:
  assumes "readNode T j st = Inr st'" "netlist_ok (fst st)" "ran (snd st) \<subseteq> set (nodes (dg (fst st)))"
  shows "netlist_ok (fst st') \<and> ran (snd st') \<subseteq> set (nodes (dg (fst st')))"
proof -
  obtain n where st': "st' = ((fst st)\<lparr>dg := snd (addNode n (dg (fst st)))\<rparr>, (snd st)(ID n \<mapsto> fst (addNode n (dg (fst st)))))"
    using assms(1) by (auto simp: readNode_def bindR_Inr Let_def)
  have "set (nodes (snd (addNode n (dg (fst st))))) = insert (fst (addNode n (dg (fst st)))) (set (nodes (dg (fst st))))"
    by (auto simp: addNode_def Let_def)
  moreover have "ran ((snd st)(ID n \<mapsto> x)) \<subseteq> insert x (ran (snd st))" for x
    by (auto simp: ran_def)
  ultimately have "ran (snd st') \<subseteq> set (nodes (dg (fst st')))"
    using assms(3) unfolding st' by (simp, blast)
  then show ?thesis
    using assms(2) addNode_ok [of "dg (fst st)" n] by (simp add: st' netlist_ok_def addNode_keeps_edges)
qed

lemma readEdge_ok:
  assumes "readEdge version m j N = Inr N'" "netlist_ok N" "ran m \<subseteq> set (nodes (dg N))"
  shows "netlist_ok N' \<and> nodes (dg N') = nodes (dg N)"
proof -
  obtain a b s t i tab where st: "m a = Some s" "m b = Some t"
    and i: "edgeInfoFromJson version j (symbolTable N) = Inr (i, tab)"
    and N': "N' = (snd (netlist_addEdge s t N))\<lparr>dg := set_einfo (fst (netlist_addEdge s t N)) i (dg (snd (netlist_addEdge s t N))), symbolTable := tab\<rparr>"
  proof -
    obtain a b where r: "(case (m a, m b) of
         (Some s, Some t) \<Rightarrow>
           (let r = netlist_addEdge s t N
            in bindR (edgeInfoFromJson version j (symbolTable N)) (\<lambda>(i, tab).
                 Inr ((snd r)\<lparr>dg := set_einfo (fst r) i (dg (snd r)), symbolTable := tab\<rparr>)))
       | _ \<Rightarrow> Inl UnknownNodeId) = Inr N'"
      using assms(1) unfolding readEdge_def bindR_Inr by blast
    then show thesis
      by (cases "m a"; cases "m b") (auto simp: bindR_Inr Let_def intro: that)
  qed
  obtain e g where e: "node_addEdge new_edge s t (dg N) = (e, g)" by fastforce
  have "s \<in> set (nodes (dg N))" "t \<in> set (nodes (dg N))"
    using st assms(3) by (auto intro: ranI)
  then have g: "graph_ok g" "nodes g = nodes (dg N)" "edgeAt g e \<noteq> None" "\<And>x. x \<noteq> e \<Longrightarrow> edgeAt g x = edgeAt (dg N) x"
      "simple_graph g"
    using node_addEdge_gives [OF _ _ _ e] assms(2) by (auto simp: netlist_ok_def)
  have tab: "st_ok tab" "length (st_entries (symbolTable N)) \<le> length (st_entries tab)"
    "\<And>p. symbol i = Some p \<Longrightarrow> p < length (st_entries tab)"
    using edgeInfoFromJson_symbol [OF i] assms(2) by (auto simp: netlist_ok_def)
  have old: "p < length (st_entries tab)" if "symbol (einfo g x) = Some p" "x \<noteq> e" "edgeAt g x \<noteq> None" for x p
  proof -
    have "edgeAt (dg N) x \<noteq> None" "symbol (einfo (dg N) x) = Some p"
      using g(4) [OF that(2)] that(1,3) by (simp_all add: einfo_def)
    then have "p < length (st_entries (symbolTable N))"
      using assms(2) by (simp add: netlist_ok_def)
    then show ?thesis using tab(2) by simp
  qed
  have N': "N' = N\<lparr>dg := set_einfo e i g, symbolTable := tab\<rparr>"
    by (simp add: N' netlist_addEdge_def e Let_def)
  have "simple_graph (set_einfo e i g)"
    using g(5) by (simp add: simple_graph_def)
  then show ?thesis
    using g(1) assms(2) tab(1,3) old
    by (auto simp: N' netlist_ok_def set_einfo_ok einfo_set [OF g(3)] g(2) split: if_splits)
qed

text \<open>The loops before the nodes only touch the tables.\<close>

lemma tables_ok:
  assumes "netlist_ok N"
  shows "netlist_ok (setArtifactId a N)" "netlist_ok (addBlackBoxPath p N)"
    "netlist_ok (N\<lparr>fileTable := snd (addFile f (fileTable N))\<rparr>)"
  using assms by (simp_all add: netlist_ok_def setArtifactId_def addBlackBoxPath_def addFile_ok)

text \<open>\<open>yields P r\<close>: if the computation \<open>r\<close> does not throw, its result satisfies \<open>P\<close>.\<close>

definition yields :: "('a \<Rightarrow> bool) \<Rightarrow> 'a result \<Rightarrow> bool" where
  "yields P r \<longleftrightarrow> (\<forall>x. r = Inr x \<longrightarrow> P x)"

lemma yields_bind: "yields P r \<Longrightarrow> (\<And>x. P x \<Longrightarrow> yields Q (f x)) \<Longrightarrow> yields Q (bindR r f)"
  by (auto simp: yields_def bindR_Inr)

lemma yields_then: "(\<And>x. yields Q (f x)) \<Longrightarrow> yields Q (bindR r f)"
  by (auto simp: yields_def bindR_Inr)

lemma yields_foldR: "P s \<Longrightarrow> (\<And>x s. P s \<Longrightarrow> yields P (f x s)) \<Longrightarrow> yields P (foldR f xs s)"
  unfolding yields_def by (blast intro: foldR_invariant)

lemma yields_simps: "yields P (Inr x) \<longleftrightarrow> P x" "yields P (Inl e)"
  by (simp_all add: yields_def)

lemma graphFromJson_ok: "netlist_ok N \<Longrightarrow> yields netlist_ok (graphFromJson T root N)"
proof -
  assume N: "netlist_ok N"
  have nodes: "yields (\<lambda>st. netlist_ok (fst st) \<and> ran (snd st) \<subseteq> set (nodes (dg (fst st)))) (foldR (readNode T) ns (N3, Map.empty))"
    if "netlist_ok N3" for ns N3
    using that readNode_ok by (intro yields_foldR) (simp, unfold yields_def, blast)
  have edges: "yields netlist_ok (foldR (readEdge v m) es N4)" if "netlist_ok N4" "ran m \<subseteq> set (nodes (dg N4))" for v m es N4
    using yields_foldR [where P = "\<lambda>N. netlist_ok N \<and> ran m \<subseteq> set (nodes (dg N))" and f = "readEdge v m", of N4 es] that readEdge_ok
    by (fastforce simp: yields_def)
  note tables = tables_ok yields_simps
  show ?thesis
    unfolding graphFromJson_def
    apply (rule yields_then)
    apply (split if_split, intro conjI impI, rule yields_simps(2))
    apply (rule yields_bind [where P = netlist_ok])
    subgoal using N by (auto intro!: yields_then simp: tables)
    apply (rule yields_bind [where P = netlist_ok])
    subgoal by (intro yields_then yields_foldR) (auto simp: tables)
    apply (rule yields_bind [where P = netlist_ok])
    subgoal by (auto intro!: yields_then yields_foldR simp: tables)
    apply (rule yields_bind [where P = "\<lambda>st. netlist_ok (fst st) \<and> ran (snd st) \<subseteq> set (nodes (dg (fst st)))"])
    subgoal by (intro yields_then nodes)
    subgoal by (auto intro!: yields_then edges split: prod.split)
    done
qed

section \<open>Properties\<close>

text \<open>
  C13. Round trip. The JSON text of a netlist without parallel edges, whose identifiers are different and whose
  integers fit the types they are read into, is read into an empty netlist without an error; the result is
  well formed, and it has the same nodes and the same edges in the same order, end points named by their identifiers
  and symbols by their records, up to the direction of ranges (written in ascending order) and to constants that
  do not survive their own text. The file table, the black boxes and the artifact identifier come back too. The text
  of a JSON value is a parameter that only has to parse back on this value.
\<close>

theorem serialize_roundtrip:
  assumes "writable R N" and "no_parallel (dg N)"
    and "parse (dump (graphToJson R T random N)) = Some (graphToJson R T random N)"
  shows "\<exists>M. deserialize parse T (serialize dump R T random N) empty_netlist = Inr M \<and> graph_ok (dg M) \<and>
     node_views M = map (norm_node R T) (node_views N) \<and> edge_views M = map (norm_edge R) (edge_views N) \<and>
     filenames (fileTable M) = filenames (fileTable N) \<and> blackBoxPaths M = blackBoxPaths N \<and>
     artifactId M = fst (getArtifactId random N)"
  using graph_loaded [OF assms(1,2)] assms(3) by (simp add: serialize_def deserialize_def)

definition unit_text :: "unit constant_text" where
  "unit_text = \<lparr>cv_toString = (\<lambda>_. ''0''), cv_fromString = (\<lambda>_. Some ()), cv_bad = ()\<rparr>"

lemma small_numbers: "fits_location no_location" "- (2 ^ 31) \<le> a \<Longrightarrow> a < 2 ^ 31 \<Longrightarrow> - (2 ^ 31) \<le> b \<Longrightarrow> b < 2 ^ 31 \<Longrightarrow> fits_bounds std_range (mk_range a b)"
  by (auto simp: fits_location_def no_location_def fits_bounds_def std_range_def)

text \<open>Netlists over the nodes and the tables of the sample.\<close>

lemma sample_nodeAt:
  "nodeAt sample_nodes = Map.empty
     (0 \<mapsto> \<lparr>ID = 1, node_data = Variable ''a'' ''a'' no_location (mk_range 0 0)\<rparr>,
      1 \<mapsto> \<lparr>ID = 2, node_data = Variable ''b'' ''b'' no_location (mk_range 7 0)\<rparr>,
      2 \<mapsto> \<lparr>ID = 3, node_data = State ''q'' ''q'' no_location (mk_range 7 0)\<rparr>,
      3 \<mapsto> \<lparr>ID = 4, node_data = Constant () 4 no_location\<rparr>,
      4 \<mapsto> \<lparr>ID = 5, node_data = Port ''p'' ''u.p'' no_location DirIn (mk_range 0 0)\<rparr>)"
  by (simp add: sample_nodes_def addNode_def empty_digraph_def eval_nat_numeral)

lemma like_sample_writable:
  assumes "graph_ok (dg N)" "nodes (dg N) = [0, 1, 2, 3, 4]" "nodeAt (dg N) = nodeAt sample_nodes"
    "fileTable N = ft_new" "symbolTable N = snd (intern ''s'' ''top.s'' no_location st_new)"
    "list_all (\<lambda>e. bounds (einfo (dg N) e) \<in> {mk_range 3 0, mk_range 7 4, mk_range 0 0} \<and>
       symbol (einfo (dg N) e) \<in> {None, Some 0}) (edge_order (dg N))"
  shows "writable std_range N"
proof -
  have st: "st_ok (symbolTable N)" "st_entries (symbolTable N) = [\<lparr>sr_name = ''s'', sr_hierarchicalPath = ''top.s'', sr_location = no_location\<rparr>]"
    unfolding assms(5) by (rule intern_ok [OF st_ok_new]) (simp add: intern_def st_new_def Let_def)
  have "fits_edge std_range N e" if "e \<in> set (edge_order (dg N))" for e
    using that assms(6) by (auto simp: list_all_iff fits_edge_def small_numbers st(2))
  then show ?thesis
    unfolding writable_def assms(2)
    by (simp add: assms(1,3,4) st(1) ft_ok_new sample_nodeAt nID_def ndata_def small_numbers)
qed

lemma sample_writable: "writable std_range sample" "no_parallel (dg sample)"
proof -
  have at: "nodeAt (dg sample) = nodeAt sample_nodes" by (simp add: sample_def sample_graph_def with_edge_def)
  show "writable std_range sample"
    by (rule like_sample_writable [OF sample_ok at]) (simp add: sample_def, simp add: sample_def, code_simp)
  show "no_parallel (dg sample)" by code_simp
qed

theorem serialize_roundtrip_witness:
  "\<exists>M. deserialize (\<lambda>_. Some (graphToJson std_range unit_text ''id'' sample)) unit_text
       (serialize (\<lambda>_. ''text'') std_range unit_text ''id'' sample) empty_netlist = Inr M \<and>
     node_views M = map (norm_node std_range unit_text) (node_views sample) \<and> artifactId M = ''id''"
  using serialize_roundtrip [OF sample_writable, of "\<lambda>_. Some (graphToJson std_range unit_text ''id'' sample)"
      "\<lambda>_. ''text''" unit_text "''id''"]
  by (auto simp: getArtifactId_def sample_def)

text \<open>
  C15. Whatever the text says, \<open>deserialize\<close> into a well-formed netlist with at most one edge from one node to
  another (such as the empty one) either fails or gives such a netlist: the invariants of the graph and of
  the two tables hold, every symbol pointer leads to a record of the table, and parallel edges have become one.
\<close>

theorem deserialize_well_formed:
  assumes "netlist_ok N" and "deserialize parse T txt N = Inr M"
  shows "netlist_ok M"
  using graphFromJson_ok [OF assms(1)] assms(2)
  by (auto simp: deserialize_def yields_def split: option.splits)

lemma empty_netlist_ok: "netlist_ok empty_netlist"
  using graph_ok_empty
  by (simp add: netlist_ok_def empty_netlist_def ft_ok_new st_ok_new simple_graph_def) (simp add: empty_digraph_def)

theorem deserialize_well_formed_witness:
  "\<exists>M. deserialize (\<lambda>_. Some (graphToJson std_range unit_text ''id'' sample)) unit_text ''text'' empty_netlist = Inr M \<and>
     netlist_ok M"
proof -
  obtain M where "deserialize (\<lambda>_. Some (graphToJson std_range unit_text ''id'' sample)) unit_text ''text'' empty_netlist = Inr M"
    using graph_loaded [OF sample_writable, of unit_text "''id''"] by (auto simp: deserialize_def)
  with deserialize_well_formed [OF empty_netlist_ok this] show ?thesis by blast
qed

text \<open>Two edges from the variable \<open>a\<close> to the variable \<open>b\<close>, for two parts of a symbol.\<close>

definition parallel :: "unit netlist" where
  "parallel = sample\<lparr>dg := with_edge (labelled 7 4) 0 1 (with_edge (labelled 3 0) 0 1 sample_nodes)\<rparr>"

text \<open>
  Parallel edges are lost by the round trip: a netlist with two edges between the same nodes, for the
  bits \<open>[3:0]\<close> and \<open>[7:4]\<close> of a symbol, comes back with one edge, which carries the bits of the last one only.
\<close>

lemma parallel_facts:
  "edge_order (dg parallel) = [0, 1]" "writable std_range parallel"
  "position (dg parallel) 0 = 0" "position (dg parallel) 1 = 1" "nodes (dg parallel) = [0, 1, 2, 3, 4]"
  "esrc (dg parallel) 0 = 0" "etgt (dg parallel) 0 = 1" "esrc (dg parallel) 1 = 0" "etgt (dg parallel) 1 = 1"
  "bounds (einfo (dg parallel) 0) = mk_range 3 0" "bounds (einfo (dg parallel) 1) = mk_range 7 4"
  "symbol (einfo (dg parallel) 0) = Some 0" "symbol (einfo (dg parallel) 1) = Some 0"
proof -
  have n: "nodes sample_nodes = [0, 1, 2, 3, 4]"
    by (simp add: sample_nodes_def addNode_def empty_digraph_def)
  have "graph_ok sample_nodes"
    unfolding sample_nodes_def by (simp add: addNode_ok graph_ok_empty)
  then have ok: "graph_ok (dg parallel)"
    by (simp add: parallel_def with_edge_ok n)
  have at: "nodeAt (dg parallel) = nodeAt sample_nodes" by (simp add: parallel_def with_edge_def)
  show nodes: "nodes (dg parallel) = [0, 1, 2, 3, 4]"
    by (simp add: parallel_def n)
  show "writable std_range parallel"
    by (rule like_sample_writable [OF ok nodes at]) (simp add: parallel_def sample_def, simp add: parallel_def sample_def, code_simp)
  show "edge_order (dg parallel) = [0, 1]" by code_simp
  show "position (dg parallel) 0 = 0" "position (dg parallel) 1 = 1" by code_simp+
  show "esrc (dg parallel) 0 = 0" "etgt (dg parallel) 0 = 1" "esrc (dg parallel) 1 = 0" "etgt (dg parallel) 1 = 1"
    "bounds (einfo (dg parallel) 0) = mk_range 3 0" "bounds (einfo (dg parallel) 1) = mk_range 7 4"
    "symbol (einfo (dg parallel) 0) = Some 0" "symbol (einfo (dg parallel) 1) = Some 0" by code_simp+
qed

lemma parallel_read:
  assumes m: "\<And>n. n \<in> set (nodes (dg parallel)) \<Longrightarrow> m (nID (dg parallel) n) = Some (position (dg parallel) n)"
  shows "\<exists>g t. foldR (readEdge 4 m) (map (edgeToJson std_range parallel) (edge_order (dg parallel)))
      (M\<lparr>dg := nodes_graph (loaded_nodes std_range T parallel), symbolTable := st_new\<rparr>) = Inr (M\<lparr>dg := g, symbolTable := t\<rparr>) \<and>
      edge_order g = [0] \<and> bounds (einfo g 0) = mk_range 4 7"
proof -
  let ?ns = "loaded_nodes std_range T parallel"
  let ?g = "nodes_graph ?ns" and ?h = "with_edge new_edge 0 1 (nodes_graph ?ns)"
  let ?i = "\<lambda>e p. (norm_info std_range (einfo (dg parallel) e))\<lparr>symbol := p\<rparr>"
  have "[0 ..< 5] = [0, 1, 2, 3, 4 :: nat]" by code_simp
  then have empty: "outEdges ?g = (\<lambda>_. [])" "nodes ?g = [0, 1, 2, 3, 4]" "nextEdge ?g = 0" "outEdgeIndex ?g = (\<lambda>_. None)"
    by (simp_all add: nodes_graph_def empty_digraph_def parallel_facts)
  have h: "edgeAt ?h 0 = Some \<lparr>sourceNode = 0, targetNode = 1, elabel = new_edge\<rparr>" "outEdges ?h = (\<lambda>_. [])(0 := [0])"
      "nodes ?h = [0, 1, 2, 3, 4]" "outEdgeIndex ?h = (\<lambda>_. None)"
    by (simp_all add: with_edge_edgeAt empty) (simp_all add: with_edge_def empty tryInsert_index outEdgeIndexThreshold_def fun_eq_iff)
  have add1: "node_addEdge new_edge 0 1 ?g = (0, ?h)"
    by (simp add: node_addEdge_eq lookupOutEdge_def findEdgeTo_def empty del: One_nat_def)
  have add2: "node_addEdge new_edge 0 1 (set_einfo 0 i ?h) = (0, set_einfo 0 i ?h)" for i
    by (simp add: node_addEdge_eq lookupOutEdge_def findEdgeTo_def h etgt_def del: One_nat_def)
  obtain p t where t: "intern_option (resolve (symbolTable parallel) (Some 0)) st_new = (p, t)" by fastforce
  obtain q t' where t': "intern_option (resolve (symbolTable parallel) (Some 0)) t = (q, t')" by fastforce
  have fits: "fits_edge std_range parallel 0" "fits_edge std_range parallel 1"
      "\<And>n. n \<in> set (nodes (dg parallel)) \<Longrightarrow> nID (dg parallel) n < 2 ^ 64"
    using writableD(5,6) [OF parallel_facts(2)] by (simp_all add: parallel_facts)
  have read1: "readEdge 4 m (edgeToJson std_range parallel 0) (M\<lparr>dg := ?g, symbolTable := st_new\<rparr>)
      = Inr (M\<lparr>dg := set_einfo 0 (?i 0 p) ?h, symbolTable := t\<rparr>)"
    using read_one_edge [OF fits(1) fits(3) fits(3), where M = "M\<lparr>dg := ?g, symbolTable := st_new\<rparr>", of m 0 1 0 ?h p t] m add1 t
    by (simp add: parallel_facts del: One_nat_def)
  have read2: "readEdge 4 m (edgeToJson std_range parallel 1) (M\<lparr>dg := set_einfo 0 (?i 0 p) ?h, symbolTable := t\<rparr>)
      = Inr (M\<lparr>dg := set_einfo 0 (?i 1 q) (set_einfo 0 (?i 0 p) ?h), symbolTable := t'\<rparr>)"
    using read_one_edge [OF fits(2) fits(3) fits(3), where M = "M\<lparr>dg := set_einfo 0 (?i 0 p) ?h, symbolTable := t\<rparr>",
        of m 0 1 0 _ q t'] m add2 t'
    by (simp add: parallel_facts del: One_nat_def)
  let ?r = "set_einfo 0 (?i 1 q) (set_einfo 0 (?i 0 p) ?h)"
  have "norm_bounds std_range (mk_range 7 4) = mk_range 4 7" by code_simp
  then have "bounds (einfo ?r 0) = mk_range 4 7"
    using h(1) by (simp add: einfo_set norm_info_def parallel_facts del: One_nat_def)
  moreover have "edge_order ?r = [0]"
    unfolding edge_order_def set_einfo_fields h by simp
  ultimately show ?thesis
    by (intro exI [of _ ?r] exI [of _ t']) (simp add: parallel_facts read1 read2 del: One_nat_def)
qed

text \<open>
  C40. Parallel edges are lost by the round trip: a netlist with two edges between the same nodes, for the
  bits \<open>[3:0]\<close> and \<open>[7:4]\<close> of a symbol, is read back with one edge, which carries the bits of the last one only:
  \<open>deserialize\<close> adds edges with the \<open>addEdge\<close> that returns an existing edge, and overwrites its members.
\<close>

theorem serializer_drops_parallel_edges:
  "map (\<lambda>v. bounds (fst (snd (snd v)))) (edge_views parallel) = [mk_range 3 0, mk_range 7 4] \<and>
   (\<exists>M. deserialize (\<lambda>_. Some (graphToJson std_range unit_text ''id'' parallel)) unit_text
       (serialize (\<lambda>_. ''text'') std_range unit_text ''id'' parallel) empty_netlist = Inr M \<and>
     map (\<lambda>v. bounds (fst (snd (snd v)))) (edge_views M) = [mk_range 4 7])"
proof
  show "map (\<lambda>v. bounds (fst (snd (snd v)))) (edge_views parallel) = [mk_range 3 0, mk_range 7 4]"
    by (simp add: edge_views_def parallel_facts [simplified] by_ID_def view_of_def Let_def)
  from graph_read [where Q = "\<lambda>g t. edge_order g = [0] \<and> bounds (einfo g 0) = mk_range 4 7", OF parallel_facts(2) parallel_read]
  obtain M where "graphFromJson unit_text (graphToJson std_range unit_text ''id'' parallel) empty_netlist = Inr M"
    "edge_order (dg M) = [0]" "bounds (einfo (dg M) 0) = mk_range 4 7"
    by blast
  then show "\<exists>M. deserialize (\<lambda>_. Some (graphToJson std_range unit_text ''id'' parallel)) unit_text
       (serialize (\<lambda>_. ''text'') std_range unit_text ''id'' parallel) empty_netlist = Inr M \<and>
     map (\<lambda>v. bounds (fst (snd (snd v)))) (edge_views M) = [mk_range 4 7]"
    by (simp add: deserialize_def serialize_def edge_views_def by_ID_def view_of_def Let_def)
qed

end
