(* ===== verification/RoundTripQueries.thy ===== *)
theory RoundTripQueries
  imports SerializerProps
begin

text \<open>
  The queries of a saved netlist: what the graph answers about signals and about combinational reach is, with nodes named by
  their identifiers, the same after the netlist has been written and read back.
\<close>

section \<open>Answers read off the views\<close>

lemma edge_order_all: "edge_order g = all_edges g"
  by (simp add: edge_order_def all_edges_def)

text \<open>An edge as the queries see it: identifiers of its ends, the path of its symbol, its bits, whether it is disabled.\<close>

type_synonym edge_answer = "nat \<times> nat \<times> string option \<times> int set \<times> bool"

definition answer_of :: "range_lib \<Rightarrow> edge_view \<Rightarrow> edge_answer" where
  "answer_of R v =
     (fst v, fst (snd v), map_option sr_hierarchicalPath (snd (snd (snd v))), bits_of R (bounds (fst (snd (snd v)))),
      disabled (fst (snd (snd v))))"

definition edge_answers :: "range_lib \<Rightarrow> 'c netlist \<Rightarrow> edge_answer set" where
  "edge_answers R N = answer_of R ` set (edge_views N)"

lemma edge_answers_eq:
  assumes "graph_ok (dg N)"
  shows "edge_answers R N =
     {(nID (dg N) (esrc (dg N) e), nID (dg N) (etgt (dg N) e), symbol_path N e, bits_of R (bounds (einfo (dg N) e)),
       disabled (einfo (dg N) e)) | e. edgeAt (dg N) e \<noteq> None}"
proof -
  have "answer_of R (by_ID N (view_of N e)) =
      (nID (dg N) (esrc (dg N) e), nID (dg N) (etgt (dg N) e), symbol_path N e, bits_of R (bounds (einfo (dg N) e)),
       disabled (einfo (dg N) e))" for e
    by (simp add: answer_of_def by_ID_def view_of_def Let_def symbol_path_def resolve_def option.map_comp comp_def)
  then have "edge_answers R N =
      (\<lambda>e. (nID (dg N) (esrc (dg N) e), nID (dg N) (etgt (dg N) e), symbol_path N e, bits_of R (bounds (einfo (dg N) e)),
       disabled (einfo (dg N) e))) ` {e. edgeAt (dg N) e \<noteq> None}"
    by (simp only: edge_answers_def edge_views_def edge_order_all set_map image_image set_all_edges [OF assms])
  then show ?thesis
    by (simp only: setcompr_eq_image)
qed

lemma edge_answers_in:
  assumes "graph_ok (dg N)"
  shows "(i, j, p, b, d) \<in> edge_answers R N \<longleftrightarrow>
     (\<exists>e. edgeAt (dg N) e \<noteq> None \<and> i = nID (dg N) (esrc (dg N) e) \<and> j = nID (dg N) (etgt (dg N) e) \<and> p = symbol_path N e \<and>
        b = bits_of R (bounds (einfo (dg N) e)) \<and> d = disabled (einfo (dg N) e))"
  unfolding edge_answers_eq [OF assms] by blast

lemma norm_bounds_bits: "constant_range R \<Longrightarrow> bits_of R (norm_bounds R b) = bits_of R b"
  by (simp add: bits_of_def norm_bounds_def constant_range.lower_mk constant_range.upper_mk constant_range.lower_le_upper)

lemma answers_of_norm: "constant_range R \<Longrightarrow> edge_views M = map (norm_edge R) (edge_views N) \<Longrightarrow> edge_answers R M = edge_answers R N"
proof -
  assume R: "constant_range R" and v: "edge_views M = map (norm_edge R) (edge_views N)"
  have "answer_of R (norm_edge R w) = answer_of R w" for w
    using norm_bounds_bits [OF R] by (simp add: answer_of_def norm_edge_def norm_info_def)
  then show ?thesis
    by (simp add: edge_answers_def v image_image)
qed

text \<open>The identifiers of the nodes with their kinds.\<close>

definition id_kinds :: "'c netlist \<Rightarrow> (nat \<times> node_kind) set" where
  "id_kinds N = (\<lambda>v. (ID v, data_kind (node_data v))) ` set (node_views N)"

lemma id_kinds_eq: "id_kinds N = {(nID (dg N) n, nkind (dg N) n) | n. n \<in> set (nodes (dg N))}"
  by (auto simp: id_kinds_def node_views_def nID_def nkind_def ndata_def)

lemma id_kinds_norm: "node_views M = map (norm_node R T) (node_views N) \<Longrightarrow> id_kinds M = id_kinds N"
proof -
  assume v: "node_views M = map (norm_node R T) (node_views N)"
  have "data_kind (norm_data R T d) = data_kind d" for d
    by (cases d) simp_all
  then have "(ID (norm_node R T w), data_kind (node_data (norm_node R T w))) = (ID w, data_kind (node_data w))" for w
    by (simp add: norm_node_def)
  then show ?thesis
    by (simp only: id_kinds_def v set_map image_image)
qed

lemma ids_norm: "node_views M = map (norm_node R T) (node_views N) \<Longrightarrow> map (nID (dg M)) (nodes (dg M)) = map (nID (dg N)) (nodes (dg N))"
proof -
  assume v: "node_views M = map (norm_node R T) (node_views N)"
  have ids: "map (nID (dg K)) (nodes (dg K)) = map ID (node_views K)" for K :: "'a netlist"
    by (simp add: node_views_def nID_def comp_def)
  have "map ID (map (norm_node R T) vs) = map ID vs" for vs
    by (simp add: norm_node_def comp_def)
  then show ?thesis
    unfolding ids v .
qed

section \<open>Signals\<close>

lemma signals_from_answers:
  assumes "constant_range R" "graph_ok (dg N)"
  shows "hasSignal name N \<longleftrightarrow> (\<exists>i j b d. (i, j, Some name, b, d) \<in> edge_answers R N)"
    "nID (dg N) ` set (graph_getDrivers R name r N) = {i. \<exists>j b d. (i, j, Some name, b, d) \<in> edge_answers R N \<and> b \<inter> bits_of R r \<noteq> {}}"
    "(\<exists>x n. (x, n) \<in> set (getBitDrivers R name r N) \<and> nID (dg N) n = i \<and> k \<in> bits_of R x) \<longleftrightarrow>
       k \<in> bits_of R r \<and> (\<exists>j b d. (i, j, Some name, b, d) \<in> edge_answers R N \<and> k \<in> b)"
proof -
  note edges = set_all_edges_conv [OF assms(2)]
  show "hasSignal name N \<longleftrightarrow> (\<exists>i j b d. (i, j, Some name, b, d) \<in> edge_answers R N)"
    unfolding edge_answers_in [OF assms(2)] hasSignal_def list_ex_iff Bex_def edges carries_def by metis
  have "set (graph_getDrivers R name r N) = {esrc (dg N) e | e. edgeAt (dg N) e \<noteq> None \<and> symbol_path N e = Some name \<and>
          bits_of R (bounds (einfo (dg N) e)) \<inter> bits_of R r \<noteq> {}}"
    by (auto simp: graph_getDrivers_def drivers_fold(1) edges carries_def constant_range.overlaps_bits [OF assms(1)])
  then show "nID (dg N) ` set (graph_getDrivers R name r N) = {i. \<exists>j b d. (i, j, Some name, b, d) \<in> edge_answers R N \<and> b \<inter> bits_of R r \<noteq> {}}"
    unfolding edge_answers_in [OF assms(2)] by (simp only: image_def) (intro set_eqI iffI; simp; metis)
  have "(\<exists>x n. (x, n) \<in> set (getBitDrivers R name r N) \<and> nID (dg N) n = i \<and> k \<in> bits_of R x) \<longleftrightarrow>
      (\<exists>n. nID (dg N) n = i \<and> k \<in> bits_of R r \<and> (\<exists>e. edgeAt (dg N) e \<noteq> None \<and> symbol_path N e = Some name \<and>
         esrc (dg N) e = n \<and> k \<in> bits_of R (bounds (einfo (dg N) e))))"
    using bit_drivers_bits [OF assms(1), of _ name r N k] unfolding Bex_def edges carries_def by blast
  then show "(\<exists>x n. (x, n) \<in> set (getBitDrivers R name r N) \<and> nID (dg N) n = i \<and> k \<in> bits_of R x) \<longleftrightarrow>
       k \<in> bits_of R r \<and> (\<exists>j b d. (i, j, Some name, b, d) \<in> edge_answers R N \<and> k \<in> b)"
    unfolding edge_answers_in [OF assms(2)] by metis
qed

section \<open>Reach\<close>

text \<open>One step over an enabled edge whose far end is not a state; forwards and backwards.\<close>

definition id_step :: "edge_answer set \<Rightarrow> (nat \<times> node_kind) set \<Rightarrow> bool \<Rightarrow> nat \<Rightarrow> nat \<Rightarrow> bool" where
  "id_step A K forwards i j \<longleftrightarrow> (j, KState) \<notin> K \<and> (\<exists>p b. (if forwards then (i, j, p, b, False) else (j, i, p, b, False)) \<in> A)"

definition node_step :: "'c ngraph \<Rightarrow> bool \<Rightarrow> nat \<Rightarrow> nat \<Rightarrow> bool" where
  "node_step g forwards n m \<longleftrightarrow> nkind g m \<noteq> KState \<and>
     (\<exists>e. edgeAt g e \<noteq> None \<and> \<not> disabled (einfo g e) \<and> (if forwards then esrc g e = n \<and> etgt g e = m else esrc g e = m \<and> etgt g e = n))"

lemma comb_steps:
  assumes "graph_ok g"
  shows "comb_forward g = node_step g True" "comb_backward g = node_step g False"
  using edges_okD(3,4) [OF graph_okD(1) [OF assms]]
  by (auto simp: fun_eq_iff comb_forward_def comb_backward_def follows_def comb_edge_def comb_edge_back_def node_step_def)

lemma node_step_id:
  assumes g: "graph_ok (dg N)" and d: "distinct (map (nID (dg N)) (nodes (dg N)))" and n: "n \<in> set (nodes (dg N))"
  shows "node_step (dg N) f n m \<Longrightarrow> m \<in> set (nodes (dg N)) \<and> id_step (edge_answers R N) (id_kinds N) f (nID (dg N) n) (nID (dg N) m)"
    "id_step (edge_answers R N) (id_kinds N) f (nID (dg N) n) j \<Longrightarrow> \<exists>m \<in> set (nodes (dg N)). nID (dg N) m = j \<and> node_step (dg N) f n m"
proof -
  let ?g = "dg N"
  have same: "x = y" if "nID ?g x = nID ?g y" "x \<in> set (nodes ?g)" "y \<in> set (nodes ?g)" for x y
    using d that by (auto simp: distinct_map dest: inj_onD)
  have ends: "esrc ?g e \<in> set (nodes ?g)" "etgt ?g e \<in> set (nodes ?g)" if "edgeAt ?g e \<noteq> None" for e
  proof -
    have "e \<in> set (edge_order ?g)" using that set_all_edges [OF g] by (simp add: edge_order_all)
    then show "esrc ?g e \<in> set (nodes ?g)" "etgt ?g e \<in> set (nodes ?g)" by (rule edge_order_member(2,3) [OF g])+
  qed
  have state: "(nID ?g m, KState) \<in> id_kinds N \<longleftrightarrow> nkind ?g m = KState" if "m \<in> set (nodes ?g)" for m
  proof
    assume "(nID ?g m, KState) \<in> id_kinds N"
    then obtain k where "k \<in> set (nodes ?g)" "nID ?g m = nID ?g k" "nkind ?g k = KState"
      unfolding id_kinds_eq by auto
    then show "nkind ?g m = KState" using same [of m k] that by simp
  next
    assume "nkind ?g m = KState"
    then show "(nID ?g m, KState) \<in> id_kinds N" unfolding id_kinds_eq using that by force
  qed
  show "m \<in> set (nodes ?g) \<and> id_step (edge_answers R N) (id_kinds N) f (nID ?g n) (nID ?g m)" if step: "node_step ?g f n m"
  proof -
    obtain e where e: "nkind ?g m \<noteq> KState" "edgeAt ?g e \<noteq> None" "\<not> disabled (einfo ?g e)"
      "if f then esrc ?g e = n \<and> etgt ?g e = m else esrc ?g e = m \<and> etgt ?g e = n"
      using step unfolding node_step_def by blast
    have m: "m \<in> set (nodes ?g)" using ends [OF e(2)] e(4) by (cases f) auto
    have "(nID ?g (esrc ?g e), nID ?g (etgt ?g e), symbol_path N e, bits_of R (bounds (einfo ?g e)), False) \<in> edge_answers R N"
      unfolding edge_answers_in [OF g] using e(2,3) by blast
    then show ?thesis
      unfolding id_step_def using m e(1,4) state [OF m] by (cases f) auto
  qed
  show "\<exists>m \<in> set (nodes ?g). nID ?g m = j \<and> node_step ?g f n m" if step: "id_step (edge_answers R N) (id_kinds N) f (nID ?g n) j"
  proof -
    have "\<exists>p b. (if f then (nID ?g n, j, p, b, False) else (j, nID ?g n, p, b, False)) \<in> edge_answers R N"
      using step unfolding id_step_def by blast
    then obtain p b where "(if f then nID ?g n else j, if f then j else nID ?g n, p, b, False) \<in> edge_answers R N"
      by (cases f) auto
    then obtain e where e0: "edgeAt ?g e \<noteq> None" "(if f then nID ?g n else j) = nID ?g (esrc ?g e)"
      "(if f then j else nID ?g n) = nID ?g (etgt ?g e)" "False = disabled (einfo ?g e)"
      unfolding edge_answers_in [OF g] by (elim exE conjE)
    have e: "edgeAt ?g e \<noteq> None" "\<not> disabled (einfo ?g e)" "(j, KState) \<notin> id_kinds N"
      "if f then nID ?g (esrc ?g e) = nID ?g n \<and> nID ?g (etgt ?g e) = j else nID ?g (esrc ?g e) = j \<and> nID ?g (etgt ?g e) = nID ?g n"
      using e0 step unfolding id_step_def by (cases f; simp)+
    let ?m = "if f then etgt ?g e else esrc ?g e"
    have m: "?m \<in> set (nodes ?g)" "nID ?g ?m = j" using ends [OF e(1)] e(4) by (cases f; simp)+
    have "(if f then esrc ?g e else etgt ?g e) = n"
      using same [OF _ ends(1) [OF e(1)] n] same [OF _ ends(2) [OF e(1)] n] e(4) by (cases f) simp_all
    then have "node_step ?g f n ?m"
      unfolding node_step_def using e(1-3) m state [OF m(1)] by (cases f) auto
    then show ?thesis using m by blast
  qed
qed

lemma reach_ids:
  assumes g: "graph_ok (dg N)" and d: "distinct (map (nID (dg N)) (nodes (dg N)))" and n: "n \<in> set (nodes (dg N))"
  shows "nID (dg N) ` {m. (node_step (dg N) f)\<^sup>*\<^sup>* n m} = {j. (id_step (edge_answers R N) (id_kinds N) f)\<^sup>*\<^sup>* (nID (dg N) n) j}"
proof -
  let ?s = "id_step (edge_answers R N) (id_kinds N) f"
  have fwd: "m \<in> set (nodes (dg N)) \<and> ?s\<^sup>*\<^sup>* (nID (dg N) n) (nID (dg N) m)" if "(node_step (dg N) f)\<^sup>*\<^sup>* n m" for m
    using that
  proof (induction rule: rtranclp_induct)
    case (step y z)
    then show ?case using node_step_id(1) [OF g d] by (meson rtranclp.rtrancl_into_rtrancl)
  qed (simp add: n)
  have bwd: "\<exists>m \<in> set (nodes (dg N)). nID (dg N) m = j \<and> (node_step (dg N) f)\<^sup>*\<^sup>* n m" if "?s\<^sup>*\<^sup>* (nID (dg N) n) j" for j
    using that
  proof (induction rule: rtranclp_induct)
    case (step i j)
    then show ?case using node_step_id(2) [OF g d] by (metis rtranclp.rtrancl_into_rtrancl)
  qed (use n in blast)
  show ?thesis using fwd bwd by blast
qed

lemma fans_from_answers:
  assumes "graph_ok (dg N)" "distinct (map (nID (dg N)) (nodes (dg N)))" "n \<in> set (nodes (dg N))"
  shows "\<exists>fin fout. getCombFanIn (dg N) n = Some fin \<and> getCombFanOut (dg N) n = Some fout \<and>
     nID (dg N) ` set fin = {j. (id_step (edge_answers R N) (id_kinds N) False)\<^sup>*\<^sup>* (nID (dg N) n) j} \<and>
     nID (dg N) ` set fout = {j. (id_step (edge_answers R N) (id_kinds N) True)\<^sup>*\<^sup>* (nID (dg N) n) j}"
proof -
  obtain fin fout where "getCombFanIn (dg N) n = Some fin" "set fin = {m. (comb_backward (dg N))\<^sup>*\<^sup>* n m}"
    "getCombFanOut (dg N) n = Some fout" "set fout = {m. (comb_forward (dg N))\<^sup>*\<^sup>* n m}"
    using fan_in_ok [OF assms(1), of n] fan_out_ok [OF assms(1), of n] by blast
  then show ?thesis
    using reach_ids [OF assms] unfolding comb_steps [OF assms(1)] by auto
qed

lemma kind_by_id:
  assumes "distinct (map (nID (dg N)) (nodes (dg N)))" "n \<in> set (nodes (dg N))"
  shows "nkind (dg N) n = (THE k. (nID (dg N) n, k) \<in> id_kinds N)"
proof -
  have "k = nkind (dg N) n" if in_kinds: "(nID (dg N) n, k) \<in> id_kinds N" for k
  proof -
    obtain m where "m \<in> set (nodes (dg N))" "nID (dg N) n = nID (dg N) m" "k = nkind (dg N) m"
      using in_kinds unfolding id_kinds_eq by auto
    then show ?thesis using assms by (auto simp: distinct_map dest: inj_onD)
  qed
  moreover have "(nID (dg N) n, nkind (dg N) n) \<in> id_kinds N"
    unfolding id_kinds_eq using assms(2) by blast
  ultimately show ?thesis by (metis the_equality)
qed

lemma lookup_id_exists:
  assumes "map (nID (dg M)) (nodes (dg M)) = map (nID (dg N)) (nodes (dg N))" "n \<in> set (nodes (dg N))"
  shows "\<exists>m. lookupById (nID (dg N) n) M = Some m \<and> m \<in> set (nodes (dg M)) \<and> nID (dg M) m = nID (dg N) n"
proof -
  have "nID (dg N) n \<in> nID (dg M) ` set (nodes (dg M))"
    using assms by (metis image_eqI set_map)
  then obtain k where "k \<in> set (nodes (dg M))" "nID (dg M) k = nID (dg N) n" by auto
  then obtain m where "List.find (\<lambda>x. nID (dg M) x = nID (dg N) n) (nodes (dg M)) = Some m"
    by (cases "List.find (\<lambda>x. nID (dg M) x = nID (dg N) n) (nodes (dg M))") (auto dest: find_NoneD)
  then show ?thesis
    using find_SomeD by (fastforce simp: lookupById_def)
qed

section \<open>Properties\<close>

text \<open>
  C14. A netlist without parallel edges answers queries after it has been saved and loaded as it did before, nodes named by their
  identifiers: \<open>hasSignal\<close>, the nodes of \<open>getDrivers\<close>, which node of \<open>getBitDrivers\<close> drives which bit, the node that
  \<open>lookupById\<close> finds, and the combinational fan-in and fan-out of every node.
\<close>

theorem queries_survive_roundtrip:
  assumes "constant_range R" "writable R N" "no_parallel (dg N)"
    and "parse (dump (graphToJson R T random N)) = Some (graphToJson R T random N)"
  shows "\<exists>M. deserialize parse T (serialize dump R T random N) empty_netlist = Inr M \<and>
     (\<forall>name r. hasSignal name M = hasSignal name N \<and>
        nID (dg M) ` set (graph_getDrivers R name r M) = nID (dg N) ` set (graph_getDrivers R name r N) \<and>
        (\<forall>i b. (\<exists>x n. (x, n) \<in> set (getBitDrivers R name r M) \<and> nID (dg M) n = i \<and> b \<in> bits_of R x) \<longleftrightarrow>
               (\<exists>x n. (x, n) \<in> set (getBitDrivers R name r N) \<and> nID (dg N) n = i \<and> b \<in> bits_of R x))) \<and>
     (\<forall>n \<in> set (nodes (dg N)). \<exists>m fin fout fin' fout'. lookupById (nID (dg N) n) M = Some m \<and> nID (dg M) m = nID (dg N) n \<and>
        nkind (dg M) m = nkind (dg N) n \<and>
        getCombFanIn (dg N) n = Some fin \<and> getCombFanIn (dg M) m = Some fin' \<and> nID (dg M) ` set fin' = nID (dg N) ` set fin \<and>
        getCombFanOut (dg N) n = Some fout \<and> getCombFanOut (dg M) m = Some fout' \<and> nID (dg M) ` set fout' = nID (dg N) ` set fout)"
proof -
  obtain M where load: "deserialize parse T (serialize dump R T random N) empty_netlist = Inr M" and gM: "graph_ok (dg M)"
    and views: "node_views M = map (norm_node R T) (node_views N)" "edge_views M = map (norm_edge R) (edge_views N)"
    using graph_loaded [OF assms(2,3), of T random] assms(4) by (auto simp: serialize_def deserialize_def)
  have gN: "graph_ok (dg N)" and dN: "distinct (map (nID (dg N)) (nodes (dg N)))"
    using assms(2) by (simp_all add: writable_def)
  note A = answers_of_norm [OF assms(1) views(2)] and K = id_kinds_norm [OF views(1)] and ids = ids_norm [OF views(1)]
  note dM = dN [folded ids]
  have fans: "\<exists>m fin fout fin' fout'. lookupById (nID (dg N) n) M = Some m \<and> nID (dg M) m = nID (dg N) n \<and>
        nkind (dg M) m = nkind (dg N) n \<and>
        getCombFanIn (dg N) n = Some fin \<and> getCombFanIn (dg M) m = Some fin' \<and> nID (dg M) ` set fin' = nID (dg N) ` set fin \<and>
        getCombFanOut (dg N) n = Some fout \<and> getCombFanOut (dg M) m = Some fout' \<and> nID (dg M) ` set fout' = nID (dg N) ` set fout"
    if n: "n \<in> set (nodes (dg N))" for n
  proof -
    obtain m where m: "lookupById (nID (dg N) n) M = Some m" "m \<in> set (nodes (dg M))" "nID (dg M) m = nID (dg N) n"
      using lookup_id_exists [OF ids n] by blast
    have "nkind (dg M) m = nkind (dg N) n"
      using kind_by_id [OF dM m(2)] kind_by_id [OF dN n] by (simp add: K m(3))
    moreover obtain fin fout where N: "getCombFanIn (dg N) n = Some fin" "getCombFanOut (dg N) n = Some fout"
      "nID (dg N) ` set fin = {j. (id_step (edge_answers R N) (id_kinds N) False)\<^sup>*\<^sup>* (nID (dg N) n) j}"
      "nID (dg N) ` set fout = {j. (id_step (edge_answers R N) (id_kinds N) True)\<^sup>*\<^sup>* (nID (dg N) n) j}"
      using fans_from_answers [OF gN dN n, of R] by blast
    moreover obtain fin' fout' where M: "getCombFanIn (dg M) m = Some fin'" "getCombFanOut (dg M) m = Some fout'"
      "nID (dg M) ` set fin' = {j. (id_step (edge_answers R N) (id_kinds N) False)\<^sup>*\<^sup>* (nID (dg N) n) j}"
      "nID (dg M) ` set fout' = {j. (id_step (edge_answers R N) (id_kinds N) True)\<^sup>*\<^sup>* (nID (dg N) n) j}"
      using fans_from_answers [OF gM dM m(2), of R] unfolding A K m(3) by blast
    ultimately show ?thesis using m(1,3) by simp
  qed
  show ?thesis
    using load fans signals_from_answers [OF assms(1) gM] signals_from_answers [OF assms(1) gN]
    by (intro exI [of _ M]) (simp add: A)
qed

theorem queries_survive_roundtrip_witness:
  "\<exists>M. deserialize (\<lambda>_. Some (graphToJson std_range unit_text ''id'' sample)) unit_text
       (serialize (\<lambda>_. ''text'') std_range unit_text ''id'' sample) empty_netlist = Inr M \<and>
     hasSignal ''top.s'' M \<and> (\<exists>m fin. lookupById 2 M = Some m \<and> getCombFanIn (dg M) m = Some fin \<and> nID (dg M) ` set fin = {1, 2, 4})"
proof -
  have n: "1 \<in> set (nodes (dg sample))" "nID (dg sample) 1 = 2" "hasSignal ''top.s'' sample" "getCombFanIn (dg sample) 1 = Some [1, 0, 3]"
    "nID (dg sample) 0 = 1" "nID (dg sample) 3 = 4"
    by code_simp+
  from queries_survive_roundtrip [OF std.constant_range_axioms sample_writable, of "\<lambda>_. Some (graphToJson std_range unit_text ''id'' sample)"
      "\<lambda>_. ''text''" unit_text "''id''"]
  obtain M where M: "deserialize (\<lambda>_. Some (graphToJson std_range unit_text ''id'' sample)) unit_text
       (serialize (\<lambda>_. ''text'') std_range unit_text ''id'' sample) empty_netlist = Inr M" "hasSignal ''top.s'' M = hasSignal ''top.s'' sample"
    "\<exists>m fin. lookupById (nID (dg sample) 1) M = Some m \<and> getCombFanIn (dg M) m = Some fin \<and> nID (dg M) ` set fin = nID (dg sample) ` {1, 0, 3}"
    using n(1,4) by fastforce
  then show ?thesis using n by (auto simp: insert_commute)
qed

end
