(* ===== verification/Pipeline.thy ===== *)
theory Pipeline
  imports Ports
begin

text \<open>
  The visitors of \<^verbatim>\<open>source/NetlistBuilder.cpp\<close> and the phases of a build, \<^verbatim>\<open>source/BuildPipeline.cpp/.hpp\<close>.

  The elaborated design is a tree of the symbols that the visitors tell apart, each with what its visitor asks of it. The
  tasks of the thread pool run one after the other in an order that is a parameter, each with its own buffer and symbol
  cache: interleavings inside a task are not modelled (the locks of the graph are in theory EdgeLocks). What is
  measured along the way is in theory Profile.
\<close>

section \<open>The design\<close>

datatype 'c connection = ToPort "'c port_connection" | ToInterfacePort | ToOther

record 'c instance_info =
  uninstantiated :: bool
  definition_name :: string
  instance_path :: string
  connections :: "'c connection list"

text \<open>
  Ports; variables, with whether their instance is of an interface and with the drivers of their canonical symbol; blocks;
  generate blocks, with whether they are uninstantiated; instances; any other symbol, whose members are visited in order.
\<close>

datatype 'c design =
  PortMember port_symbol
| VariableMember bool "slang_driver list" nat
| ProceduralBlock procedure_kind proc_body nat
| ContinuousAssign nat
| GenerateBlock bool "'c design list"
| Instance "'c instance_info" "'c design list"
| OtherSymbol "'c design list"

datatype deferred_block = Procedural procedure_kind proc_body nat | Continuous nat

record ('m, 'c) build_state =
  the_builder :: "('m, 'c) builder"
  deferredBlocks :: "deferred_block list"
  collectingPhase :: bool
  threadPool :: bool
  deferredBlockCount :: nat
  deferredPendingRValueCount :: nat

abbreviation set_builder :: "('m, 'c) build_state \<Rightarrow> ('m, 'c) builder \<Rightarrow> ('m, 'c) build_state" where
  "set_builder S B \<equiv> S\<lparr>the_builder := B\<rparr>"

definition on_builder ::
  "(('m, 'c) builder \<Rightarrow> ('m, 'c) builder option) \<Rightarrow> ('m, 'c) build_state \<Rightarrow> ('m, 'c) build_state option" where
  [model_simps]: "on_builder f S = map_option (set_builder S) (f (the_builder S))"

section \<open>The visitors of the collecting phase\<close>

definition deferBlock :: "deferred_block \<Rightarrow> ('m, 'c) build_state \<Rightarrow> ('m, 'c) build_state" where
  "deferBlock b S = S\<lparr>deferredBlocks := deferredBlocks S @ [b]\<rparr>"

definition connect_port :: "('m, 'c) env \<Rightarrow> 'c connection \<Rightarrow> ('m, 'c) builder \<Rightarrow> ('m, 'c) builder option" where
  "connect_port E c B =
     (case c of
        ToPort pc \<Rightarrow> handlePortConnection E pc B
      | ToInterfacePort \<Rightarrow> Some B
      | ToOther \<Rightarrow> None)"

definition port_connections :: "'c instance_info \<Rightarrow> 'c port_connection list" where
  "port_connections i = List.map_filter (\<lambda>c. case c of ToPort pc \<Rightarrow> Some pc | _ \<Rightarrow> None) (connections i)"

definition port_members :: "'c design list \<Rightarrow> port_symbol list" where
  "port_members ms = List.map_filter (\<lambda>m. case m of PortMember p \<Rightarrow> Some p | _ \<Rightarrow> None) ms"

lemma fold_opt_cong [fundef_cong]:
  "xs = ys \<Longrightarrow> s = t \<Longrightarrow> (\<And>x s. x \<in> set ys \<Longrightarrow> f x s = g x s) \<Longrightarrow> fold_opt f xs s = fold_opt g ys t"
proof (induction xs arbitrary: ys s t)
  case (Cons x xs)
  then show ?case
    by (cases "g x t") auto
qed simp

fun handle_symbol :: "('m, 'c) env \<Rightarrow> 'c design \<Rightarrow> ('m, 'c) build_state \<Rightarrow> ('m, 'c) build_state option" where
  "handle_symbol E (PortMember port) S = on_builder (materializePortNodes E port) S"
| "handle_symbol E (VariableMember in_interface ds symb) S =
     Some (set_builder S (handleVariable E in_interface ds symb (the_builder S)))"
| "handle_symbol E (ProceduralBlock kind body stmt) S =
     require (collectingPhase S) (Some (deferBlock (Procedural kind body stmt) S))"
| "handle_symbol E (ContinuousAssign expr) S =
     require (collectingPhase S) (Some (deferBlock (Continuous expr) S))"
| "handle_symbol E (GenerateBlock isUninstantiated members) S =
     (if isUninstantiated then Some S else fold_opt (handle_symbol E) members S)"
| "handle_symbol E (OtherSymbol members) S = fold_opt (handle_symbol E) members S"
| "handle_symbol E (Instance i members) S =
     (if uninstantiated i then Some S
      else
        (let S1 = (if propCutsAcrossPorts E
                   then set_builder S (recordCutsFromPortConnections E (port_connections i) (the_builder S)) else S)
         in and_then
              (if isBlackBoxInstance E (definition_name i) (instance_path i)
               then on_builder (\<lambda>B. fold_opt (materializePortNodes E) (port_members members)
                      (B\<lparr>bgraph := addBlackBoxPath (instance_path i) (bgraph B)\<rparr>)) S1
               else fold_opt (handle_symbol E) members S1)
              (on_builder (fold_opt (connect_port E) (connections i)))))"

section \<open>The phases\<close>

definition new_build :: "'c netlist \<Rightarrow> ('m, 'c) build_state" where
  "new_build N =
     \<lparr>the_builder = new_builder N, deferredBlocks = [], collectingPhase = False, threadPool = False,
      deferredBlockCount = 0, deferredPendingRValueCount = 0\<rparr>"

definition runPhase1 :: "('m, 'c) env \<Rightarrow> 'c design \<Rightarrow> ('m, 'c) build_state \<Rightarrow> ('m, 'c) build_state option" where
  "runPhase1 E root S =
     map_option (\<lambda>S. S\<lparr>collectingPhase := False, deferredBlockCount := length (deferredBlocks S)\<rparr>)
       (handle_symbol E root
         (S\<lparr>the_builder := clearThreadLocalSymbolRefCache (the_builder S), collectingPhase := True\<rparr>))"

definition run_block ::
  "('m, 'c) env \<Rightarrow> ('m, 'c) visitor \<Rightarrow> deferred_block \<Rightarrow> ('m, 'c) builder \<Rightarrow> ('m, 'c) builder option" where
  "run_block E run b B =
     (case b of
        Procedural kind body stmt \<Rightarrow> handleProceduralBlock E run kind body stmt B
      | Continuous expr \<Rightarrow> handleContinuousAssign E run expr B)"

definition runPhase2Sequential ::
  "('m, 'c) env \<Rightarrow> ('m, 'c) visitor \<Rightarrow> ('m, 'c) build_state \<Rightarrow> ('m, 'c) build_state option" where
  "runPhase2Sequential E run S =
     on_builder (\<lambda>B. fold_opt (run_block E run) (deferredBlocks S) (clearThreadLocalSymbolRefCache B)) S"

text \<open>
  One task: its own buffer and cache. Another thread's cache is not this one's, so the caller's cache is put back.
\<close>

definition run_task ::
  "('m, 'c) env \<Rightarrow> ('m, 'c) visitor \<Rightarrow> deferred_block \<Rightarrow> ('m, 'c) builder
   \<Rightarrow> (pending_rvalue list \<times> ('m, 'c) builder) option" where
  "run_task E run b B =
     map_option (\<lambda>B'. (case taskBuffer B' of None \<Rightarrow> [] | Some buf \<Rightarrow> buf,
                        (setTaskBuffer None B')\<lparr>symbolRefCache := symbolRefCache B\<rparr>))
       (run_block E run b (clearThreadLocalSymbolRefCache (setTaskBuffer (Some []) B)))"

text \<open>What the thread pool and the unstable sort decide.\<close>

record schedule =
  task_order :: "nat \<Rightarrow> nat list"
  sort_queue :: "pending_rvalue list \<Rightarrow> pending_rvalue list"
  blocks_of :: "pending_rvalue list list \<Rightarrow> pending_rvalue list list list"

definition schedule_ok :: "schedule \<Rightarrow> bool" where
  "schedule_ok sch \<longleftrightarrow>
     (\<forall>n. mset (task_order sch n) = mset [0 ..< n]) \<and>
     (\<forall>q. mset (sort_queue sch q) = mset q \<and> sorted (map node_key (sort_queue sch q))) \<and>
     (\<forall>rs. mset (concat (blocks_of sch rs)) = mset rs)"

definition run_tasks ::
  "('m, 'c) env \<Rightarrow> ('m, 'c) visitor \<Rightarrow> deferred_block list \<Rightarrow> nat list \<Rightarrow> ('m, 'c) builder
   \<Rightarrow> (pending_rvalue list list \<times> ('m, 'c) builder) option" where
  "run_tasks E run bs order B =
     fold_opt (\<lambda>i (allWork, B). map_option (\<lambda>(work, B'). (allWork[i := work], B')) (run_task E run (bs ! i) B))
       order (replicate (length bs) [], B)"

definition runPhase2Parallel ::
  "('m, 'c) env \<Rightarrow> ('m, 'c) visitor \<Rightarrow> schedule \<Rightarrow> ('m, 'c) build_state \<Rightarrow> ('m, 'c) build_state option" where
  "runPhase2Parallel E run sch S =
     map_option (\<lambda>(allWork, B).
         S\<lparr>the_builder := drain allWork B, threadPool := True,
           deferredPendingRValueCount := deferredPendingRValueCount S + sum_list (map length allWork)\<rparr>)
       (run_tasks E run (deferredBlocks S) (task_order sch (length (deferredBlocks S))) (the_builder S))"

definition runPhase2 ::
  "('m, 'c) env \<Rightarrow> ('m, 'c) visitor \<Rightarrow> schedule \<Rightarrow> ('m, 'c) build_state \<Rightarrow> ('m, 'c) build_state option" where
  "runPhase2 E run sch S = (if parallel E then runPhase2Parallel E run sch S else runPhase2Sequential E run S)"

definition pipeline_run ::
  "('m, 'c) env \<Rightarrow> ('m, 'c) visitor \<Rightarrow> schedule \<Rightarrow> 'c design \<Rightarrow> ('m, 'c) build_state \<Rightarrow> ('m, 'c) build_state option" where
  "pipeline_run E run sch root S =
     and_then (runPhase1 E root S) (\<lambda>S1.
       map_option (\<lambda>S2. S2\<lparr>deferredBlocks := []\<rparr>) (runPhase2 E run sch S1))"

text \<open>The parallel resolution: every block of runs is processed by one thread, with a fresh cache.\<close>

definition resolve_block ::
  "('m, 'c) env \<Rightarrow> pending_rvalue list list \<Rightarrow> ('m, 'c) builder \<Rightarrow> ('m, 'c) builder option" where
  "resolve_block E runs B = fold_opt (fold_opt (emitEdgesFor E)) runs (clearThreadLocalSymbolRefCache B)"

definition resolveParallel :: "('m, 'c) env \<Rightarrow> schedule \<Rightarrow> ('m, 'c) builder \<Rightarrow> ('m, 'c) builder option" where
  "resolveParallel E sch B =
     map_option (\<lambda>B. B\<lparr>queue := []\<rparr>)
       (fold_opt (resolve_block E) (blocks_of sch (runs_of (sort_queue sch (queue B)))) B)"

definition resolve ::
  "('m, 'c) env \<Rightarrow> schedule \<Rightarrow> bool \<Rightarrow> ('m, 'c) builder \<Rightarrow> ('m, 'c) builder option" where
  "resolve E sch has_pool B =
     (if resolves_in_parallel E has_pool B then resolveParallel E sch B else resolveSequential E B)"

definition pipeline_finalize ::
  "('m, 'c) env \<Rightarrow> schedule \<Rightarrow> ('m, 'c) build_state \<Rightarrow> ('m, 'c) build_state option" where
  "pipeline_finalize E sch S =
     map_option (\<lambda>S. S\<lparr>threadPool := False\<rparr>) (on_builder (resolve E sch (threadPool S)) S)"

text \<open>\<open>NetlistGraph::build\<close>.\<close>

definition build_netlist ::
  "('m, 'c) env \<Rightarrow> ('m, 'c) visitor \<Rightarrow> schedule \<Rightarrow> 'c design \<Rightarrow> 'c netlist \<Rightarrow> 'c netlist option" where
  "build_netlist E run sch root N =
     map_option (\<lambda>S. bgraph (the_builder S))
       (and_then (pipeline_run E run sch root (new_build N)) (pipeline_finalize E sch))"

end
