(* ===== verification/PipelineFacts.thy ===== *)
theory PipelineFacts
  imports Pipeline DfaFacts
begin

text \<open>
  Facts about the pipeline: the runs that the parallel resolution works on, and the invariant of the builder through the
  phases of a build.
\<close>

section \<open>Runs of one target\<close>

lemma grid_mem:
  assumes "sorted_wrt (<) xs" "(a, b) \<in> set (grid xs)"
  shows "a \<in> set xs \<and> b \<in> set xs \<and> a < b \<and> (\<forall>i. a < i \<longrightarrow> i < b \<longrightarrow> i \<notin> set xs)"
  using assms
proof (induction xs rule: grid.induct)
  case (1 x y xs)
  show ?case
  proof (cases "(a, b) = (x, y)")
    case True
    then show ?thesis using "1.prems"(1) by auto
  next
    case False
    have tail: "a \<in> set (y # xs) \<and> b \<in> set (y # xs) \<and> a < b \<and> (\<forall>i. a < i \<longrightarrow> i < b \<longrightarrow> i \<notin> set (y # xs))"
    proof (intro "1.IH")
      show "sorted_wrt (<) (y # xs)" using "1.prems"(1) unfolding sorted_wrt.simps(2) [of _ x] by (rule conjunct2)
      show "(a, b) \<in> set (grid (y # xs))" using "1.prems"(2) False by auto
    qed
    have "\<forall>z \<in> set (y # xs). x < z" using "1.prems"(1) unfolding sorted_wrt.simps(2) [of _ x] by (rule conjunct1)
    then have "x < a" using tail by blast
    then have "i \<noteq> x" if "a < i" for i using that by simp
    then show ?thesis using tail unfolding set_simps(2) [of x] by blast
  qed
qed simp_all

lemma grid_between:
  assumes "sorted_wrt (<) (x # xs)"
  shows "concat (map (\<lambda>(a, b). [a ..< b]) (grid (x # xs))) = [x ..< last (x # xs)]"
  using assms
proof (induction xs arbitrary: x)
  case (Cons y ys)
  have "y \<le> last (y # ys)" using Cons.prems last_in_set [of ys] by (cases "ys = []") (simp_all add: less_imp_le)
  then have "[x ..< y] @ [y ..< last (y # ys)] = [x ..< last (y # ys)]"
    using upt_add_eq_append [of x y "last (y # ys) - y"] Cons.prems by simp
  then show ?case
    using Cons by simp
qed simp

lemma grid_distinct: "sorted_wrt (<) xs \<Longrightarrow> distinct (grid xs)"
proof (induction xs rule: grid.induct)
  case (1 x y xs)
  then have "(x, y) \<notin> set (grid (y # xs))"
    using grid_mem [of "y # xs" x y] by auto
  then show ?case using 1 by simp
qed simp_all

definition is_real :: "pending_rvalue \<Rightarrow> bool" where
  "is_real p \<longleftrightarrow> pr_node p \<noteq> None"

definition first_real :: "pending_rvalue list \<Rightarrow> nat" where
  "first_real q = length (takeWhile (\<lambda>p. pr_node p = None) q)"

lemma runStarts_eq:
  "runStarts q = (if first_real q < length q
     then first_real q # filter (\<lambda>i. pr_node (q ! i) \<noteq> pr_node (q ! (i - 1))) [first_real q + 1 ..< length q] @ [length q] else [])"
  by (simp add: runStarts_def first_real_def Let_def)

lemma runStarts_sorted: "sorted_wrt (<) (runStarts q)"
  by (auto simp: runStarts_eq sorted_wrt_append sorted_wrt_filter)

lemma key_None: "node_key p = 0 \<longleftrightarrow> pr_node p = None"
  by (simp add: node_key_def split: option.split)

lemma key_eq: "node_key p = node_key p' \<longleftrightarrow> pr_node p = pr_node p'"
  by (simp add: node_key_def split: option.split)

lemma first_real_None: "i < first_real q \<Longrightarrow> pr_node (q ! i) = None"
  using nth_mem [of i "takeWhile (\<lambda>p. pr_node p = None) q"] set_takeWhileD [of _ "\<lambda>p. pr_node p = None" q]
  by (simp add: first_real_def takeWhile_nth)

lemma first_real_Some:
  assumes "sorted (map node_key q)" "first_real q \<le> i" "i < length q"
  shows "pr_node (q ! i) \<noteq> None"
proof -
  have "pr_node (q ! first_real q) \<noteq> None"
    using assms nth_length_takeWhile [of "\<lambda>p. pr_node p = None" q] by (simp add: first_real_def)
  then have "node_key (q ! first_real q) \<noteq> 0" by (simp add: key_None)
  moreover have "node_key (q ! first_real q) \<le> node_key (q ! i)"
    using sorted_nth_mono [OF assms(1) assms(2)] assms(2,3) by simp
  ultimately show ?thesis by (simp add: key_None [symmetric])
qed

lemma runs_concat:
  assumes "sorted (map node_key q)"
  shows "concat (runs_of q) = filter is_real q"
proof -
  have real: "filter is_real q = map ((!) q) [first_real q ..< length q]"
  proof -
    have "filter is_real q = map ((!) q) (filter (\<lambda>i. is_real (q ! i)) [0 ..< length q])"
      using filter_map [of is_real "(!) q" "[0 ..< length q]"] by (simp add: map_nth comp_def)
    moreover have "filter (\<lambda>i. is_real (q ! i)) [0 ..< length q] = [first_real q ..< length q]"
    proof -
      have le: "first_real q \<le> length q" by (simp add: first_real_def length_takeWhile_le)
      then have "[0 ..< length q] = [0 ..< first_real q] @ [first_real q ..< length q]"
        using upt_add_eq_append [of 0 "first_real q" "length q - first_real q"] by simp
      then show ?thesis
        using first_real_None first_real_Some [OF assms] by (auto simp: is_real_def filter_empty_conv filter_id_conv)
    qed
    ultimately show ?thesis by simp
  qed
  have "concat (runs_of q) = map ((!) q) (concat (map (\<lambda>(a, b). [a ..< b]) (grid (runStarts q))))"
    by (simp add: runs_of_def run_at_def map_concat comp_def case_prod_beta')
  also have "\<dots> = map ((!) q) [first_real q ..< length q]"
  proof (cases "first_real q < length q")
    case True
    then show ?thesis
      using grid_between [of "first_real q" "tl (runStarts q)"] runStarts_sorted [of q] by (simp add: runStarts_eq)
  qed (simp add: runStarts_eq)
  finally show ?thesis using real by simp
qed

lemma run_bounds:
  assumes sorted: "sorted (map node_key q)" and ab: "(a, b) \<in> set (grid (runStarts q))"
  shows "a < b" "b \<le> length q" "\<exists>n. pr_node (q ! a) = Some n"
    "\<And>i. i < length q \<Longrightarrow> pr_node (q ! i) = pr_node (q ! a) \<longleftrightarrow> a \<le> i \<and> i < b"
proof -
  note g = grid_mem [OF runStarts_sorted ab]
  have ne: "first_real q < length q" using g by (auto simp: runStarts_eq split: if_splits)
  show lt: "a < b" and le: "b \<le> length q"
    using g ne by (auto simp: runStarts_eq)
  have fa: "first_real q \<le> a" using g ne by (auto simp: runStarts_eq)
  then show "\<exists>n. pr_node (q ! a) = Some n"
    using first_real_Some [OF sorted fa] lt le by auto
  have mono: "node_key (q ! i) \<le> node_key (q ! j)" if "i \<le> j" "j < length q" for i j
    using sorted_nth_mono [OF sorted, of i j] that by simp
  have same: "pr_node (q ! i) = pr_node (q ! a)" if "a \<le> i" "i < b" for i
    using that
  proof (induction i rule: dec_induct)
    case (step i)
    then have "Suc i \<notin> set (runStarts q)" using g by simp
    then have "pr_node (q ! Suc i) = pr_node (q ! i)"
      using ne fa step le by (auto simp: runStarts_eq)
    then show ?case using step by simp
  qed simp
  have before: "node_key (q ! i) < node_key (q ! a)" if "i < a" for i
  proof (cases "a = first_real q")
    case True
    then have "node_key (q ! i) = 0" using first_real_None that by (simp add: key_None)
    moreover have "node_key (q ! a) \<noteq> 0" using first_real_Some [OF sorted fa] lt le by (simp add: key_None)
    ultimately show ?thesis by simp
  next
    case False
    then have "pr_node (q ! a) \<noteq> pr_node (q ! (a - 1))"
      using g ne lt le by (auto simp: runStarts_eq)
    then have "node_key (q ! (a - 1)) \<noteq> node_key (q ! a)" by (auto simp: key_eq)
    then show ?thesis
      using mono [of i "a - 1"] mono [of "a - 1" a] that lt le by fastforce
  qed
  have after: "node_key (q ! a) < node_key (q ! i)" if "b \<le> i" "i < length q" for i
  proof -
    have "pr_node (q ! b) \<noteq> pr_node (q ! (b - 1))"
      using g ne lt that by (auto simp: runStarts_eq)
    then have "node_key (q ! (b - 1)) \<noteq> node_key (q ! b)" by (auto simp: key_eq)
    moreover have "node_key (q ! (b - 1)) = node_key (q ! a)"
      using same [of "b - 1"] lt by (simp add: key_eq)
    ultimately show ?thesis
      using mono [of "b - 1" b] mono [of b i] that lt by fastforce
  qed
  show "pr_node (q ! i) = pr_node (q ! a) \<longleftrightarrow> a \<le> i \<and> i < b" if "i < length q" for i
    using same [of i] before [of i] after [of i] that by (metis key_eq less_irrefl not_le)
qed

lemma run_is_filter:
  assumes "sorted (map node_key q)" "(a, b) \<in> set (grid (runStarts q))"
  shows "run_at q a b = filter (\<lambda>p. pr_node p = pr_node (q ! a)) q"
proof -
  note b = run_bounds [OF assms]
  have "filter (\<lambda>p. pr_node p = pr_node (q ! a)) q
      = map ((!) q) (filter (\<lambda>i. pr_node (q ! i) = pr_node (q ! a)) [0 ..< length q])"
    using filter_map [of "\<lambda>p. pr_node p = pr_node (q ! a)" "(!) q" "[0 ..< length q]"] by (simp add: map_nth comp_def)
  also have "filter (\<lambda>i. pr_node (q ! i) = pr_node (q ! a)) [0 ..< length q] = filter (\<lambda>i. a \<le> i \<and> i < b) [0 ..< length q]"
    by (rule filter_cong) (simp_all add: b(4))
  also have "\<dots> = [a ..< b]"
    using b(1,2) by (intro sorted_distinct_set_unique) (auto intro: sorted_wrt_filter)
  finally show ?thesis by (simp add: run_at_def)
qed

lemma runs_partition:
  assumes "sorted (map node_key q)"
  shows "concat (runs_of q) = filter (\<lambda>p. pr_node p \<noteq> None) q" "distinct (runs_of q)"
    "\<forall>run \<in> set (runs_of q). run \<noteq> [] \<and> (\<exists>n. run = filter (\<lambda>p. pr_node p = Some n) q)"
proof -
  show "concat (runs_of q) = filter (\<lambda>p. pr_node p \<noteq> None) q"
    using runs_concat [OF assms] by (simp add: is_real_def [abs_def])
  show "\<forall>run \<in> set (runs_of q). run \<noteq> [] \<and> (\<exists>n. run = filter (\<lambda>p. pr_node p = Some n) q)"
  proof
    fix run assume "run \<in> set (runs_of q)"
    then obtain a b where ab: "(a, b) \<in> set (grid (runStarts q))" "run = run_at q a b" by (auto simp: runs_of_def)
    then show "run \<noteq> [] \<and> (\<exists>n. run = filter (\<lambda>p. pr_node p = Some n) q)"
      using run_is_filter [OF assms ab(1)] run_bounds(1,3) [OF assms ab(1)] by (auto simp: run_at_def)
  qed
  have "inj_on (\<lambda>(a, b). run_at q a b) (set (grid (runStarts q)))"
  proof (rule inj_onI, clarify)
    fix a b a' b' assume 1: "(a, b) \<in> set (grid (runStarts q))" and 2: "(a', b') \<in> set (grid (runStarts q))"
      and eq: "run_at q a b = run_at q a' b'"
    note b1 = run_bounds [OF assms 1] and b2 = run_bounds [OF assms 2]
    have "hd (run_at q a b) = q ! a" "hd (run_at q a' b') = q ! a'"
      using b1(1) b2(1) by (simp_all add: run_at_def hd_map)
    then have "pr_node (q ! a') = pr_node (q ! a)" using eq by simp
    then have "(a \<le> i \<and> i < b) = (a' \<le> i \<and> i < b')" if "i < length q" for i
      using b1(4) [OF that] b2(4) [OF that] by simp
    then have iff: "(a \<le> i \<and> i < b) \<longleftrightarrow> (a' \<le> i \<and> i < b')" for i
      using b1(2) b2(2) by (metis order.strict_trans2)
    then have "{a ..< b} = {a' ..< b'}" by (simp add: set_eq_iff)
    then show "a = a' \<and> b = b'"
      using b1(1) b2(1) by (simp add: atLeastLessThan_eq_iff)
  qed
  then show "distinct (runs_of q)"
    using grid_distinct [OF runStarts_sorted] by (simp add: runs_of_def distinct_map)
qed

section \<open>The invariant through the phases\<close>

definition build_keeps :: "('m, 'c) env \<Rightarrow> ('m, 'c) build_state \<Rightarrow> ('m, 'c) build_state \<Rightarrow> bool" where
  "build_keeps E S S' \<longleftrightarrow> keeps E (the_builder S) (the_builder S')"

lemma build_keeps_flags [simp]:
  "build_keeps E S (S'\<lparr>collectingPhase := c\<rparr>) = build_keeps E S S'" "build_keeps E S (S'\<lparr>deferredBlocks := bs\<rparr>) = build_keeps E S S'"
  "build_keeps E S (S'\<lparr>threadPool := c\<rparr>) = build_keeps E S S'" "build_keeps E S (S'\<lparr>deferredBlockCount := n\<rparr>) = build_keeps E S S'"
  "build_keeps E S (S'\<lparr>deferredPendingRValueCount := n\<rparr>) = build_keeps E S S'"
  "build_keeps E S (S'\<lparr>the_builder := B\<rparr>) = keeps E (the_builder S) B"
  by (simp_all add: build_keeps_def)

lemma clear_cache_keeps: "builder_ok E B \<Longrightarrow> keeps E B (clearThreadLocalSymbolRefCache B)"
  unfolding keeps_def builder_ok_def pointers_ok_def ids_ok_def clearThreadLocalSymbolRefCache_def by simp

lemma blackBox_keeps: "builder_ok E B \<Longrightarrow> keeps E B (B\<lparr>bgraph := addBlackBoxPath p (bgraph B)\<rparr>)"
  unfolding keeps_def builder_ok_def pointers_ok_def ids_ok_def net_ok_def addBlackBoxPath_def by simp

lemma keeps_after: "keeps E A B \<Longrightarrow> builder_ok E A \<Longrightarrow> (\<And>B. builder_ok E B \<Longrightarrow> pred_option (keeps E B) (f B)) \<Longrightarrow> pred_option (keeps E A) (f B)"
  using keeps_chain keepsD(1) by blast

lemma on_builder_keeps:
  "pred_option (keeps E (the_builder S0)) (f (the_builder S)) \<Longrightarrow> pred_option (build_keeps E S0) (on_builder f S)"
  by (cases "f (the_builder S)") (simp_all add: on_builder_def)

lemma build_fold_keeps:
  assumes "builder_ok E (the_builder S)"
    "\<And>x S1. x \<in> set xs \<Longrightarrow> builder_ok E (the_builder S1) \<Longrightarrow> pred_option (build_keeps E S1) (f x S1)"
  shows "pred_option (build_keeps E S) (fold_opt f xs S)"
proof (rule fold_opt_pred [where P = "build_keeps E S"])
  show "build_keeps E S S" by (simp add: build_keeps_def keeps_refl assms(1))
  fix x S1 assume "x \<in> set xs" and 1: "build_keeps E S S1"
  then have "pred_option (build_keeps E S1) (f x S1)"
    by (intro assms(2)) (auto simp: build_keeps_def keepsD(1))
  then show "pred_option (build_keeps E S) (f x S1)"
    using 1 unfolding build_keeps_def by (auto elim!: option.pred_mono_strong intro: keeps_trans)
qed

context builder_env
begin

lemma connect_port_keeps: "builder_ok E B \<Longrightarrow> pred_option (keeps E B) (connect_port E c B)"
  by (simp add: connect_port_def keeps_refl handlePortConnection_keeps split: connection.split)

lemma connect_ports_keep: "builder_ok E B \<Longrightarrow> pred_option (keeps E B) (fold_opt (connect_port E) cs B)"
  by (rule fold_opt_keeps) (auto intro: connect_port_keeps keepsD)

lemma black_box_body_keeps:
  assumes "builder_ok E B"
  shows "pred_option (keeps E B) (fold_opt (materializePortNodes E) ps (B\<lparr>bgraph := addBlackBoxPath p (bgraph B)\<rparr>))"
  by (rule keeps_chain [OF blackBox_keeps [OF assms]], rule fold_opt_keeps [OF keepsD(1) [OF blackBox_keeps [OF assms]]])
    (blast intro: materializePortNodes_keeps keepsD(1))

end

lemma handle_symbol_keeps:
  "builder_env E \<Longrightarrow> builder_ok E (the_builder S) \<Longrightarrow> pred_option (build_keeps E S) (handle_symbol E d S)"
proof (induction E d S rule: handle_symbol.induct)
  case (7 E i members S)
  note facts = builder_env.recordCuts_keeps [OF 7(2)] builder_env.black_box_body_keeps [OF 7(2)] builder_env.connect_ports_keep [OF 7(2)]
  show ?case
  proof (cases "uninstantiated i")
    case False
    define S1 where "S1 = (if propCutsAcrossPorts E
        then set_builder S (recordCutsFromPortConnections E (port_connections i) (the_builder S)) else S)"
    have 1: "build_keeps E S S1"
      using facts(1) [OF 7(3)] keeps_refl [OF 7(3)] by (simp add: S1_def build_keeps_def)
    then have ok1: "builder_ok E (the_builder S1)" by (simp add: build_keeps_def keepsD(1))
    let ?body = "if isBlackBoxInstance E (definition_name i) (instance_path i)
               then on_builder (\<lambda>B. fold_opt (materializePortNodes E) (port_members members)
                      (B\<lparr>bgraph := addBlackBoxPath (instance_path i) (bgraph B)\<rparr>)) S1
               else fold_opt (handle_symbol E) members S1"
    have "pred_option (build_keeps E S1) (fold_opt (handle_symbol E) members S1)"
      if bb: "\<not> isBlackBoxInstance E (definition_name i) (instance_path i)"
      by (rule build_fold_keeps [OF ok1]) (rule "7.IH" [OF False S1_def bb _ 7(2)])
    moreover have "pred_option (build_keeps E S1) (on_builder (\<lambda>B. fold_opt (materializePortNodes E) (port_members members)
                      (B\<lparr>bgraph := addBlackBoxPath (instance_path i) (bgraph B)\<rparr>)) S1)"
      by (rule on_builder_keeps) (rule facts(2) [OF ok1])
    ultimately have body: "pred_option (build_keeps E S1) ?body" by (rule_tac if_split [THEN iffD2]) blast
    have "pred_option (build_keeps E S) (and_then ?body (on_builder (fold_opt (connect_port E) (connections i))))"
    proof (rule pred_bind [OF body])
      fix S2 assume "build_keeps E S1 S2"
      then have 2: "keeps E (the_builder S) (the_builder S2)"
        using 1 keeps_trans unfolding build_keeps_def by blast
      show "pred_option (build_keeps E S) (on_builder (fold_opt (connect_port E) (connections i)) S2)"
        by (rule on_builder_keeps, rule keeps_chain [OF 2 facts(3) [OF keepsD(1) [OF 2]]])
    qed
    then show ?thesis
      using False by (simp only: handle_symbol.simps if_False Let_def S1_def [symmetric])
  qed (simp add: build_keeps_def keeps_refl 7)
qed (auto intro!: on_builder_keeps build_fold_keeps pred_require simp: build_keeps_def keeps_refl builder_env.materializePortNodes_keeps builder_env.handleVariable_keeps deferBlock_def)

lemma setTaskBuffer_keeps:
  assumes "builder_ok E B" "\<And>buf p. b = Some buf \<Longrightarrow> p \<in> set buf \<Longrightarrow> pr_node p \<in> live (gr B)"
  shows "keeps E B (setTaskBuffer b B)"
  using assms unfolding keeps_def builder_ok_def pointers_ok_def ids_ok_def setTaskBuffer_def by simp

lemma restore_cache_keeps:
  assumes "builder_ok E A" "keeps E A B"
  shows "keeps E A (B\<lparr>symbolRefCache := symbolRefCache A\<rparr>)"
proof -
  have "r < length (st_entries (symbolTable (bgraph B)))" if "symbolRefCache A s = Some r" for r s
    using assms that by (intro keepsD(4) [OF assms(2)]) (simp add: builder_ok_def pointers_ok_def)
  then show ?thesis
    using assms(2) unfolding keeps_def builder_ok_def pointers_ok_def ids_ok_def by simp
qed

definition work_ok :: "('m, 'c) env \<Rightarrow> ('m, 'c) builder \<Rightarrow> pending_rvalue list list \<times> ('m, 'c) builder \<Rightarrow> bool" where
  "work_ok E B st \<longleftrightarrow> keeps E B (snd st) \<and> (\<forall>w \<in> set (fst st). \<forall>p \<in> set w. pr_node p \<in> live (gr (snd st)))"

lemma blocks_of_set:
  assumes "schedule_ok sch" "p \<in> set (concat (concat (blocks_of sch (runs_of (sort_queue sch q)))))"
  shows "p \<in> set q"
proof -
  have "set (concat (blocks_of sch rs)) = set rs" "set (sort_queue sch q) = set q" "sorted (map node_key (sort_queue sch q))" for rs
    using assms(1) mset_eq_setD unfolding schedule_ok_def by blast+
  then have "p \<in> set (concat (runs_of (sort_queue sch q)))" using assms(2) by (simp only: set_concat [of "concat _"]) simp
  then show ?thesis
    using runs_partition(1) [OF \<open>sorted (map node_key (sort_queue sch q))\<close>] \<open>set (sort_queue sch q) = set q\<close> by simp
qed

context builder_env
begin

lemma run_block_keeps: "visitor_ok E run \<Longrightarrow> builder_ok E B \<Longrightarrow> pred_option (keeps E B) (run_block E run b B)"
  by (simp add: run_block_def blocks_keep split: deferred_block.split)

lemma run_task_keeps:
  assumes v: "visitor_ok E run" and ok: "builder_ok E B"
  shows "pred_option (\<lambda>(work, B'). keeps E B B' \<and> (\<forall>p \<in> set work. pr_node p \<in> live (gr B'))) (run_task E run b B)"
proof -
  let ?B0 = "clearThreadLocalSymbolRefCache (setTaskBuffer (Some []) B)"
  have 0: "keeps E B (setTaskBuffer (Some []) B)" by (rule setTaskBuffer_keeps [OF ok]) simp
  have 1: "keeps E B ?B0" by (rule keeps_trans [OF 0 clear_cache_keeps [OF keepsD(1) [OF 0]]])
  have "keeps E B ((setTaskBuffer None B')\<lparr>symbolRefCache := symbolRefCache B\<rparr>) \<and>
      (\<forall>p \<in> set (case taskBuffer B' of None \<Rightarrow> [] | Some buf \<Rightarrow> buf). pr_node p \<in> live (gr (setTaskBuffer None B')))"
    if k: "keeps E ?B0 B'" for B'
  proof
    have "keeps E B' (setTaskBuffer None B')" by (rule setTaskBuffer_keeps [OF keepsD(1) [OF k]]) simp
    then show "keeps E B ((setTaskBuffer None B')\<lparr>symbolRefCache := symbolRefCache B\<rparr>)"
      by (intro restore_cache_keeps ok keeps_trans [OF 1] keeps_trans [OF k])
    show "\<forall>p \<in> set (case taskBuffer B' of None \<Rightarrow> [] | Some buf \<Rightarrow> buf). pr_node p \<in> live (gr (setTaskBuffer None B'))"
      using keepsD(1) [OF k] by (cases "taskBuffer B'") (simp_all add: builder_ok_def pointers_ok_def setTaskBuffer_def)
  qed
  then show ?thesis
    using run_block_keeps [OF v keepsD(1) [OF 1], of b] unfolding run_task_def
    by (cases "run_block E run b ?B0") auto
qed

lemma run_tasks_keep:
  assumes v: "visitor_ok E run" and ok: "builder_ok E B"
  shows "pred_option (work_ok E B) (run_tasks E run bs order B)"
  unfolding run_tasks_def
proof (rule fold_opt_pred)
  show "work_ok E B (replicate (length bs) [], B)"
    by (simp add: work_ok_def keeps_refl ok)
  fix i st assume st: "work_ok E B st"
  have "work_ok E B ((fst st)[i := work], B')" if k: "keeps E (snd st) B'" and w: "\<forall>p \<in> set work. pr_node p \<in> live (gr B')" for work B'
  proof -
    have "\<forall>w \<in> set (fst st). \<forall>p \<in> set w. pr_node p \<in> live (gr B')"
      using st keepsD(3) [OF k] unfolding work_ok_def by blast
    then have "\<forall>w \<in> set ((fst st)[i := work]). \<forall>p \<in> set w. pr_node p \<in> live (gr B')"
      using w set_update_subset_insert [of "fst st" i work] by blast
    then show ?thesis
      using keeps_trans [OF _ k] st by (simp add: work_ok_def)
  qed
  then show "pred_option (work_ok E B) ((\<lambda>(allWork, B). map_option (\<lambda>(work, B'). (allWork[i := work], B')) (run_task E run (bs ! i) B)) st)"
    using run_task_keeps [OF v, of "snd st" "bs ! i"] st
    by (cases "run_task E run (bs ! i) (snd st)") (auto simp: split_beta work_ok_def keepsD(1))
qed

lemma phase1_keeps:
  assumes "builder_ok E (the_builder S)"
  shows "pred_option (build_keeps E S) (runPhase1 E root S)"
proof -
  let ?S = "S\<lparr>the_builder := clearThreadLocalSymbolRefCache (the_builder S), collectingPhase := True\<rparr>"
  have 1: "keeps E (the_builder S) (the_builder ?S)" using clear_cache_keeps [OF assms] by simp
  show ?thesis
    using handle_symbol_keeps [OF builder_env_axioms keepsD(1) [OF 1], of root] keeps_trans [OF 1] unfolding runPhase1_def
    by (cases "handle_symbol E root ?S") (auto simp: build_keeps_def)
qed

lemma phase2_keeps:
  assumes v: "visitor_ok E run" and ok: "builder_ok E (the_builder S)"
  shows "pred_option (build_keeps E S) (runPhase2Sequential E run S)" "pred_option (build_keeps E S) (runPhase2Parallel E run sch S)"
proof -
  note 1 = clear_cache_keeps [OF ok]
  show "pred_option (build_keeps E S) (runPhase2Sequential E run S)"
    unfolding runPhase2Sequential_def
    by (rule on_builder_keeps, rule keeps_chain [OF 1 fold_opt_keeps [OF keepsD(1) [OF 1]]]) (blast intro: run_block_keeps [OF v] keepsD(1))
  have "keeps E (the_builder S) (drain (fst st) (snd st))" if "work_ok E (the_builder S) st" for st
    using that keeps_trans [OF _ drain_keeps] keepsD(1) unfolding work_ok_def by blast
  then show "pred_option (build_keeps E S) (runPhase2Parallel E run sch S)"
    using run_tasks_keep [OF v ok, of "deferredBlocks S" "task_order sch (length (deferredBlocks S))"] unfolding runPhase2Parallel_def
    by (cases "run_tasks E run (deferredBlocks S) (task_order sch (length (deferredBlocks S))) (the_builder S)") (auto simp: build_keeps_def)
qed

lemma pipeline_run_keeps:
  assumes v: "visitor_ok E run" and ok: "builder_ok E (the_builder S)"
  shows "pred_option (build_keeps E S) (pipeline_run E run sch root S)"
  unfolding pipeline_run_def runPhase2_def
proof (rule pred_bind [OF phase1_keeps [OF ok]])
  fix S1 assume 1: "build_keeps E S S1"
  then have "builder_ok E (the_builder S1)" by (simp add: build_keeps_def keepsD(1))
  note 2 = phase2_keeps [OF v this]
  have "pred_option (build_keeps E S) x" if "pred_option (build_keeps E S1) x" for x
    using that 1 keeps_trans unfolding build_keeps_def by (auto elim!: option.pred_mono_strong)
  then show "pred_option (build_keeps E S) (map_option (\<lambda>S2. S2\<lparr>deferredBlocks := []\<rparr>)
      (if parallel E then runPhase2Parallel E run sch S1 else runPhase2Sequential E run S1))"
    using 2 by (auto intro!: pred_map)
qed

lemma empty_queue_keeps: "keeps E B B' \<Longrightarrow> keeps E B (B'\<lparr>queue := []\<rparr>)"
  unfolding keeps_def builder_ok_def pointers_ok_def ids_ok_def by simp

lemma resolve_keeps:
  assumes sch: "schedule_ok sch" and ok: "builder_ok E B"
  shows "pred_option (\<lambda>B'. keeps E B B' \<and> queue B' = []) (resolve E sch pool B)"
proof -
  let ?blocks = "blocks_of sch (runs_of (sort_queue sch (queue B)))"
  have live: "pr_node p \<in> live (gr B)" if "p \<in> set (concat (concat ?blocks))" for p
    using blocks_of_set [OF sch that] ok by (simp add: builder_ok_def pointers_ok_def)
  have emit: "pred_option (keeps E B) (emitEdgesFor E p B3)"
    if "runs \<in> set ?blocks" "run \<in> set runs" "p \<in> set run" "keeps E B B3" for runs run p B3
    by (rule keeps_chain [OF that(4)], rule emitEdgesFor_keeps [OF keepsD(1) [OF that(4)] keepsD(3) [OF that(4) live]])
      (use that(1-3) in auto)
  have run: "pred_option (keeps E B) (fold_opt (emitEdgesFor E) run B2)"
    if "runs \<in> set ?blocks" "run \<in> set runs" "keeps E B B2" for runs run B2
    by (rule fold_opt_pred [where P = "keeps E B", OF that(3)]) (rule emit [OF that(1,2)])
  have "pred_option (keeps E B) (resolve_block E runs B1)" if "runs \<in> set ?blocks" "keeps E B B1" for runs B1
    unfolding resolve_block_def
    by (rule fold_opt_pred [where P = "keeps E B", OF keeps_trans [OF that(2) clear_cache_keeps [OF keepsD(1) [OF that(2)]]]])
      (rule run [OF that(1)])
  then have "pred_option (keeps E B) (fold_opt (resolve_block E) ?blocks B)"
    by (rule fold_opt_pred [where P = "keeps E B", OF keeps_refl [OF ok]])
  then have "pred_option (\<lambda>B'. keeps E B B' \<and> queue B' = []) (resolveParallel E sch B)"
    unfolding resolveParallel_def by (cases "fold_opt (resolve_block E) ?blocks B") (simp_all add: empty_queue_keeps)
  moreover have "pred_option (\<lambda>B'. keeps E B B' \<and> queue B' = []) (resolveSequential E B)"
    using resolveSequential_keeps [OF ok] unfolding resolveSequential_def
    by (cases "fold_opt (emitEdgesFor E) (queue B) B") simp_all
  ultimately show ?thesis by (simp add: resolve_def)
qed

lemma finalize_keeps:
  assumes "schedule_ok sch" "builder_ok E (the_builder S)"
  shows "pred_option (\<lambda>S'. build_keeps E S S' \<and> queue (the_builder S') = []) (pipeline_finalize E sch S)"
  using resolve_keeps [OF assms, of "threadPool S"] unfolding pipeline_finalize_def on_builder_def
  by (cases "resolve E sch (threadPool S) (the_builder S)") (simp_all add: build_keeps_def)

end

end
