(* ===== verification/Resolution.thy ===== *)
theory Resolution
  imports PipelineFacts Tracker
begin

text \<open>
  What resolving the pending R-values adds to the graph: which nodes become linked, and which bits of the symbol the
  edges carry; the same for the sequential and for the parallel resolution, whatever the scheduler does.
\<close>

section \<open>Links and carried bits\<close>

definition linked :: "('n, 'e) digraph \<Rightarrow> nat \<Rightarrow> nat \<Rightarrow> bool" where
  "linked g s t \<longleftrightarrow> (\<exists>e. edgeAt g e \<noteq> None \<and> esrc g e = s \<and> etgt g e = t)"

text \<open>The bits of the symbol record \<open>r\<close> on the edges from \<open>s\<close> to \<open>t\<close>.\<close>

definition carried :: "range_lib \<Rightarrow> 'c ngraph \<Rightarrow> nat \<Rightarrow> nat \<Rightarrow> nat \<Rightarrow> int set" where
  "carried R g r s t =
     {b. \<exists>e. edgeAt g e \<noteq> None \<and> esrc g e = s \<and> etgt g e = t \<and> symbol (einfo g e) = Some r \<and> b \<in> bits_of R (bounds (einfo g e))}"

lemma in_carried:
  "b \<in> carried R g r s t \<longleftrightarrow> (\<exists>e. edgeAt g e \<noteq> None \<and> esrc g e = s \<and> etgt g e = t \<and>
     symbol (einfo g e) = Some r \<and> b \<in> bits_of R (bounds (einfo g e)))"
  by (simp add: carried_def)

lemma linked_set_einfo [simp]: "linked (set_einfo e i g) = linked g"
  by (simp add: linked_def fun_eq_iff)

lemma linked_new_edge:
  assumes "edgeAt g' = (edgeAt g)(e \<mapsto> \<lparr>sourceNode = s, targetNode = t, elabel = d\<rparr>)" "edgeAt g e = None"
  shows "linked g' x y \<longleftrightarrow> linked g x y \<or> (x = s \<and> y = t)"
proof -
  have "edgeAt g' z \<noteq> None \<and> esrc g' z = x \<and> etgt g' z = y \<longleftrightarrow>
      (if z = e then x = s \<and> y = t else edgeAt g z \<noteq> None \<and> esrc g z = x \<and> etgt g z = y)" for z
    by (auto simp: esrc_def etgt_def assms(1))
  then show ?thesis
    unfolding linked_def using assms(2) by metis
qed

text \<open>A label written on an edge from \<open>s\<close> to \<open>t\<close>, which carried the bits \<open>old\<close> of the symbol before.\<close>

lemma carried_set_einfo:
  assumes "edgeAt g e \<noteq> None" "esrc g e = s" "etgt g e = t" "symbol i = Some r"
    and "bits_of R (bounds i) = old \<union> new"
    and "old = (if symbol (einfo g e) = Some r then bits_of R (bounds (einfo g e)) else {})"
  shows "carried R (set_einfo e i g) r x y = carried R g r x y \<union> (if x = s \<and> y = t then new else {})"
proof (rule set_eqI)
  fix b
  have "b \<in> carried R (set_einfo e i g) r x y \<longleftrightarrow>
      (\<exists>z. z \<noteq> e \<and> edgeAt g z \<noteq> None \<and> esrc g z = x \<and> etgt g z = y \<and> symbol (einfo g z) = Some r \<and>
        b \<in> bits_of R (bounds (einfo g z))) \<or> (x = s \<and> y = t \<and> b \<in> old \<union> new)"
    unfolding in_carried set_einfo_fields einfo_set [OF assms(1)] using assms(1-5) by auto
  also have "\<dots> \<longleftrightarrow> b \<in> carried R g r x y \<union> (if x = s \<and> y = t then new else {})"
    unfolding Un_iff in_carried using assms(1-3,6) by auto
  finally show "b \<in> carried R (set_einfo e i g) r x y \<longleftrightarrow> \<dots>" .
qed

lemma carried_new_edge:
  assumes "edgeAt g' = (edgeAt g)(e \<mapsto> \<lparr>sourceNode = s, targetNode = t, elabel = d\<rparr>)" "edgeAt g e = None" "symbol d = None"
  shows "carried R g' r x y = carried R g r x y"
proof -
  have "(edgeAt g' z \<noteq> None \<and> esrc g' z = x \<and> etgt g' z = y \<and> symbol (einfo g' z) = Some r \<and> b \<in> bits_of R (bounds (einfo g' z)))
      \<longleftrightarrow> (edgeAt g z \<noteq> None \<and> esrc g z = x \<and> etgt g z = y \<and> symbol (einfo g z) = Some r \<and> b \<in> bits_of R (bounds (einfo g z)))" for z b
    using assms(2,3) unfolding esrc_def etgt_def einfo_def assms(1) by (cases "z = e") simp_all
  then show ?thesis
    by (simp add: carried_def)
qed

section \<open>One dependency\<close>

text \<open>
  What a step adds to the graph, and that it changes nothing else: a set of triples, source, target and bit of the
  symbol \<open>r\<close>. A triple also stands for the link of its two nodes.
\<close>

definition adds :: "('m, 'c) env \<Rightarrow> nat \<Rightarrow> ('m, 'c) builder \<Rightarrow> ('m, 'c) builder \<Rightarrow> (nat \<times> nat \<times> int) set \<Rightarrow> bool" where
  "adds E r B B' C \<longleftrightarrow>
     keeps E B B' \<and> (\<exists>g. B' = set_gr g B) \<and> nodes (gr B') = nodes (gr B) \<and> nodeAt (gr B') = nodeAt (gr B) \<and>
     (\<forall>x y. linked (gr B') x y \<longleftrightarrow> linked (gr B) x y \<or> (\<exists>b. (x, y, b) \<in> C)) \<and>
     (\<forall>x y. carried (rlib E) (gr B') r x y = carried (rlib E) (gr B) r x y \<union> {b. (x, y, b) \<in> C})"

lemma addsD:
  assumes "adds E r B B' C"
  shows "keeps E B B'" "\<exists>g. B' = set_gr g B" "nodes (gr B') = nodes (gr B)" "nodeAt (gr B') = nodeAt (gr B)"
    "linked (gr B') x y \<longleftrightarrow> linked (gr B) x y \<or> (\<exists>b. (x, y, b) \<in> C)"
    "carried (rlib E) (gr B') r x y = carried (rlib E) (gr B) r x y \<union> {b. (x, y, b) \<in> C}"
  using assms unfolding adds_def by blast+

lemma adds_nothing: "builder_ok E B \<Longrightarrow> adds E r B B {}"
  by (auto simp: adds_def keeps_refl set_gr_def intro!: exI [of _ "gr B"])

lemma adds_trans:
  assumes "adds E r A B C" "adds E r B B' C'"
  shows "adds E r A B' (C \<union> C')"
proof -
  have "\<exists>g. B' = set_gr g A"
    using addsD(2) [OF assms(1)] addsD(2) [OF assms(2)] by (auto simp: set_gr_def)
  then show ?thesis
    unfolding adds_def using keeps_trans [OF addsD(1) [OF assms(1)] addsD(1) [OF assms(2)]]
    by (auto simp: addsD(3-6) [OF assms(1)] addsD(3-6) [OF assms(2)])
qed

lemma adds_fold:
  assumes "builder_ok E B"
    and "\<And>x B1 D. x \<in> set xs \<Longrightarrow> adds E r B B1 D \<Longrightarrow> \<exists>B2. f x B1 = Some B2 \<and> adds E r B1 B2 (C x)"
  shows "\<exists>B'. fold_opt f xs B = Some B' \<and> adds E r B B' (\<Union> (C ` set xs))"
proof -
  have "\<exists>B'. fold_opt f ys B1 = Some B' \<and> adds E r B1 B' (\<Union> (C ` set ys))"
    if "set ys \<subseteq> set xs" "adds E r B B1 D" for ys B1 D
    using that
  proof (induction ys arbitrary: B1 D)
    case Nil
    then show ?case using adds_nothing keepsD(1) [OF addsD(1) [OF Nil(2)]] by simp
  next
    case (Cons x ys)
    then obtain B2 where 2: "f x B1 = Some B2" "adds E r B1 B2 (C x)"
      using assms(2) by force
    obtain B' where "fold_opt f ys B2 = Some B'" "adds E r B2 B' (\<Union> (C ` set ys))"
      using Cons.IH [OF _ adds_trans [OF Cons.prems(2) 2(2)]] Cons.prems(1) by auto
    then show ?case
      using 2 adds_trans [OF 2(2)] by auto
  qed
  from this [OF subset_refl adds_nothing [OF assms(1)]] show ?thesis .
qed

text \<open>The bits that one dependency puts on the edge.\<close>

definition dep_bits :: "('m, 'c) env \<Rightarrow> 'c ngraph \<Rightarrow> nat \<Rightarrow> nat \<Rightarrow> bit_range \<Rightarrow> (nat \<times> nat \<times> int) set" where
  "dep_bits E g s t bnds = {(x, y, b). x = s \<and> y = t \<and> b \<in> bits_of (rlib E) (edge_bounds (rlib E) g s bnds)}"

lemma dep_bits_nodes: "nodeAt g' = nodeAt g \<Longrightarrow> dep_bits E g' s t bnds = dep_bits E g s t bnds"
  by (simp add: dep_bits_def edge_bounds_def ndata_def)

lemma setVariable_cases:
  assumes "constant_range R"
  obtains (merged) i' where "setVariable R (Some r) eb i = Some (True, i')" "symbol i' = Some r"
      "bits_of R (bounds i') = (if symbol i = Some r then bits_of R (bounds i) else {}) \<union> bits_of R eb"
  | (apart) "setVariable R (Some r) eb i = Some (False, i)" "symbol i = Some r"
proof (cases "symbol i = Some r")
  case True
  show thesis
  proof (cases "isContiguousWith R (bounds i) eb")
    case contiguous: True
    then obtain u where u: "unionWith R (bounds i) eb = Some u"
      by (simp add: unionWith_def)
    then show thesis
      using contiguous True constant_range.unionWith_bits [OF assms u] by (intro merged [of "i\<lparr>bounds := u\<rparr>"]) (simp_all add: setVariable_def)
  next
    case False
    then show thesis using True by (intro apart) (simp_all add: setVariable_def)
  qed
next
  case False
  then show thesis
    by (intro merged [of "i\<lparr>symbol := Some r, bounds := eb\<rparr>"]) (simp_all add: setVariable_def)
qed

text \<open>An edge of the graph that was there or has just been made, with a label that adds the bits \<open>new\<close>.\<close>

lemma labelled_edge:
  assumes "builder_ok E B" "graph_ok g" "nodes g = nodes (gr B)" "nodeAt g = nodeAt (gr B)"
    "symbols_in (length (st_entries (symbolTable (bgraph B)))) g" "r < length (st_entries (symbolTable (bgraph B)))"
    and e: "edgeAt g e \<noteq> None" "esrc g e = s" "etgt g e = t"
    and was: "\<And>x y. linked g x y \<longleftrightarrow> linked (gr B) x y \<or> (x = s \<and> y = t)"
      "\<And>x y. carried (rlib E) g r x y = carried (rlib E) (gr B) r x y"
    and i: "symbol i = Some r"
      "bits_of (rlib E) (bounds i) = (if symbol (einfo g e) = Some r then bits_of (rlib E) (bounds (einfo g e)) else {}) \<union> new"
    and new: "new = bits_of (rlib E) (edge_bounds (rlib E) (gr B) s bnds)" "new \<noteq> {}"
  shows "adds E r B (set_gr (set_einfo e (setSemantics ro pr (setEdgeKind k i)) g) B) (dep_bits E (gr B) s t bnds)"
proof -
  let ?i = "setSemantics ro pr (setEdgeKind k i)" and ?g = "set_einfo e (setSemantics ro pr (setEdgeKind k i)) g"
  have lab: "symbol ?i = symbol i" "bounds ?i = bounds i"
    by (simp_all add: setSemantics_def setEdgeKind_def)
  have "keeps E B (set_gr ?g B)"
    using assms(2-6) i(1) by (intro set_gr_keeps assms(1) set_einfo_ok symbols_in_set) (simp_all add: lab)
  moreover have "carried (rlib E) ?g r x y = carried (rlib E) (gr B) r x y \<union> (if x = s \<and> y = t then new else {})" for x y
    unfolding was(2) [symmetric] using i by (intro carried_set_einfo e) (simp_all add: lab)
  moreover have "gr (set_gr ?g B) = ?g"
    by (simp add: set_gr_def)
  ultimately show ?thesis
    using new by (auto simp: adds_def assms(3,4) was(1) dep_bits_def)
qed

lemma set_einfo_same: "edgeAt g e \<noteq> None \<Longrightarrow> set_einfo e (einfo g e) g = g"
  by (auto simp: set_einfo_def einfo_def fun_upd_idem)

lemma addEdge_links:
  assumes "graph_ok g" "s \<in> set (nodes g)" "t \<in> set (nodes g)" "node_addEdge new_edge s t g = (e, g')"
  shows "esrc g' e = s" "etgt g' e = t" "linked g' x y \<longleftrightarrow> linked g x y \<or> (x = s \<and> y = t)"
    "carried R g' r x y = carried R g r x y"
proof -
  have "esrc g' e = s \<and> etgt g' e = t \<and> (linked g' x y \<longleftrightarrow> linked g x y \<or> (x = s \<and> y = t)) \<and> carried R g' r x y = carried R g r x y"
    using assms
  proof (cases rule: node_addEdge_cases)
    case old
    then have "linked g s t" by (auto simp: linked_def)
    then show ?thesis using old by auto
  next
    case new
    then show ?thesis
      using linked_new_edge [OF new(5,4)] carried_new_edge [OF new(5,4)] by (simp add: esrc_def etgt_def new_edge_def)
  qed
  then show "esrc g' e = s" "etgt g' e = t" "linked g' x y \<longleftrightarrow> linked g x y \<or> (x = s \<and> y = t)"
    "carried R g' r x y = carried R g r x y" by blast+
qed

lemma addDependency_adds:
  assumes R: "constant_range (rlib E)" and ok: "builder_ok E B" and st: "s \<in> set (nodes (gr B))" "t \<in> set (nodes (gr B))"
    and r: "r < length (st_entries (symbolTable (bgraph B)))"
  shows "\<exists>B'. addDependency E s t (Some r) bnds k ro pr B = Some B' \<and> adds E r B B' (dep_bits E (gr B) s t bnds)"
proof -
  let ?eb = "edge_bounds (rlib E) (gr B) s bnds"
  have ne: "bits_of (rlib E) ?eb \<noteq> {}"
    by (rule constant_range.bits_of_nonempty [OF R])
  obtain e g where add: "node_addEdge new_edge s t (gr B) = (e, g)" by fastforce
  note f = addEdge_facts [OF builder_okD(1,2) [OF ok] st add] and l = addEdge_links [OF builder_okD(1) [OF ok] st add]
  show ?thesis
  proof (cases rule: setVariable_cases [OF R, of r ?eb "einfo g e", case_names merged apart])
    case (merged i)
    show ?thesis
      unfolding addDependency_def Let_def add split merged
      using labelled_edge [OF ok f(1-4) r f(5) l merged(2,3) refl ne] by simp
  next
    case apart
    obtain e2 g2 where add2: "node_addNewEdge new_edge s t g = (e2, g2)" by fastforce
    note n = node_addNewEdge_gives [OF f(1) _ _ add2] and f2 = addNewEdge_facts [OF f(1,4) _ _ add2]
    have e2: "edgeAt g e2 = None" "edgeAt g2 = (edgeAt g)(e2 \<mapsto> \<lparr>sourceNode = s, targetNode = t, elabel = new_edge\<rparr>)"
      using n st f(2) by simp_all
    have g2: "graph_ok g2" "nodes g2 = nodes (gr B)" "nodeAt g2 = nodeAt (gr B)"
      "symbols_in (length (st_entries (symbolTable (bgraph B)))) g2" "edgeAt g2 e2 \<noteq> None"
      using f2 st f(2,3) by simp_all
    have l2: "esrc g2 e2 = s" "etgt g2 e2 = t" "linked g2 x y \<longleftrightarrow> linked (gr B) x y \<or> (x = s \<and> y = t)"
      "carried (rlib E) g2 r x y = carried (rlib E) (gr B) r x y" "symbol (einfo g2 e2) = None" for x y
      using linked_new_edge [OF e2(2,1)] carried_new_edge [OF e2(2,1)] l by (auto simp: e2(2) esrc_def etgt_def einfo_def new_edge_def)
    show ?thesis
    proof (cases rule: setVariable_cases [OF R, of r ?eb "einfo g2 e2", case_names merged apart])
      case (merged i)
      show ?thesis
        unfolding addDependency_def Let_def add split apart
        using labelled_edge [OF ok g2(1-4) r g2(5) l2(1-4) merged(2,3) refl ne] by (simp add: set_einfo_same f(5) add2 merged(1))
    qed (simp add: l2(5))
  qed
qed

lemma addDriversToNode_adds:
  assumes R: "constant_range (rlib E)" and ok: "builder_ok E B" and ds: "dl_nodes ds \<subseteq> live (gr B)" and t: "t \<in> set (nodes (gr B))"
    and r: "r < length (st_entries (symbolTable (bgraph B)))"
  shows "\<exists>B'. addDriversToNode E ds t (Some r) bnds k ro pr B = Some B' \<and>
     adds E r B B' (\<Union>s \<in> {s. Some s \<in> dl_nodes ds}. dep_bits E (gr B) s t bnds)"
proof -
  let ?C = "\<lambda>d. case di_node d of None \<Rightarrow> {} | Some s \<Rightarrow> dep_bits E (gr B) s t bnds"
  have "\<exists>B'. fold_opt (\<lambda>d B. case di_node d of None \<Rightarrow> Some B | Some source \<Rightarrow> addDependency E source t (Some r) bnds k ro pr B) ds B = Some B' \<and>
     adds E r B B' (\<Union> (?C ` set ds))"
  proof (rule adds_fold [OF ok])
    fix d B1 D assume d: "d \<in> set ds" and a: "adds E r B B1 D"
    have ok1: "builder_ok E B1" by (rule keepsD(1) [OF addsD(1) [OF a]])
    show "\<exists>B2. (case di_node d of None \<Rightarrow> Some B1 | Some source \<Rightarrow> addDependency E source t (Some r) bnds k ro pr B1) = Some B2 \<and> adds E r B1 B2 (?C d)"
    proof (cases "di_node d")
      case (Some s)
      then have "s \<in> set (nodes (gr B1))"
        using driver_listed [OF d ds] by (simp add: addsD(3) [OF a])
      then show ?thesis
        using addDependency_adds [OF R ok1 _ _ keepsD(4) [OF addsD(1) [OF a] r], of s t bnds k ro pr] t
        by (simp add: Some addsD(3) [OF a] dep_bits_nodes [OF addsD(4) [OF a]])
    qed (simp add: adds_nothing ok1)
  qed
  moreover have "\<Union> (?C ` set ds) = (\<Union>s \<in> {s. Some s \<in> dl_nodes ds}. dep_bits E (gr B) s t bnds)"
    unfolding dl_nodes_def
    by (intro set_eqI iffI; clarsimp split: option.splits) (metis imageI option.simps(5))+
  ultimately show ?thesis
    by (simp add: addDriversToNode_def)
qed

section \<open>One pending R-value\<close>

text \<open>
  The nodes that a read of the bit \<open>b\<close> takes its value from: the variable or state node of exactly the bounds that are
  read, or else the drivers of the bit.
\<close>

definition read_sources :: "('m, 'c) env \<Rightarrow> ('m, 'c) builder \<Rightarrow> pending_rvalue \<Rightarrow> int \<Rightarrow> nat set" where
  "read_sources E B p b =
     (case getVariable E (pr_symbol p) (pr_bounds p) B of
        Some v \<Rightarrow> {v}
      | None \<Rightarrow> {d. Some d \<in> bit_drivers (imap E) (driverMap B, drivers B) (pr_symbol p) b})"

lemma read_sources_cong:
  assumes "rlib E' = rlib E" "imap E' = imap E" "variables B' = variables B" "drivers B' = drivers B" "driverMap B' = driverMap B"
  shows "read_sources E' B' p = read_sources E B p"
proof -
  have "getVariable E' s b B' = getVariable E s b B" for s b
    by (simp add: getVariable_def assms split: option.split)
  then show ?thesis
    by (simp add: fun_eq_iff read_sources_def assms split: option.split)
qed

text \<open>Every interval of the global drivers has its list, and the intervals of one symbol are disjoint.\<close>

definition lists_there :: "('m, 'c) env \<Rightarrow> ('m, 'c) builder \<Rightarrow> bool" where
  "lists_there E B \<longleftrightarrow> (\<forall>dm \<in> set (drivers B). dm_wf (imap E) dm)"

definition intervals_of :: "('m, 'c) env \<Rightarrow> pending_rvalue \<Rightarrow> ('m, 'c) builder \<Rightarrow> (bit_range \<times> nat driver_list option) list" where
  "intervals_of E p B = forEachDriverInterval (rlib E) (imap E) (driverMap B) (drivers B) (pr_symbol p) (pr_bounds p)"

context builder_env
begin

lemma intervals_in:
  assumes "lists_there E B"
  shows "(iv, dl) \<in> set (intervals_of E p B) \<longleftrightarrow>
     (\<exists>i e ds. getSlot (driverMap B) (pr_symbol p) = Some i \<and> i < length (drivers B) \<and> e \<in> set (dm_entries (imap E) (drivers B ! i)) \<and>
        getDriverList (snd e) (drivers B ! i) = Some ds \<and> iv = ivl_range (fst e) \<and> dl = Some ds \<and>
        bits_of (rlib E) iv = {b. ivl_covers e b} \<and> bits_of (rlib E) iv \<inter> bits_of (rlib E) (pr_bounds p) \<noteq> {})"
proof (cases "\<exists>i. valueToSlot (driverMap B) (pr_symbol p) = Some i \<and> i < length (drivers B)")
  case True
  then obtain i where i: "valueToSlot (driverMap B) (pr_symbol p) = Some i" "i < length (drivers B)" by blast
  then have wf: "dm_wf (imap E) (drivers B ! i)"
    using assms by (simp add: lists_there_def)
  have bits: "bits_of (rlib E) (ivl_range (fst e)) = {b. ivl_covers e b}"
    and over: "ivl_overlaps (toPair (rlib E) (pr_bounds p)) e \<longleftrightarrow> bits_of (rlib E) (ivl_range (fst e)) \<inter> bits_of (rlib E) (pr_bounds p) \<noteq> {}"
    if "e \<in> set (dm_entries (imap E) (drivers B ! i))" for e
    using wf_entryD(1) [OF wf that] overlaps_bits [of "ivl_range (fst e)" "pr_bounds p"]
    by (auto simp: bits_of_def ivl_covers_def ivl_overlaps_def toPair_def overlaps_law)
  let ?S = "set (dm_entries (imap E) (drivers B ! i))" and ?dm = "drivers B ! i"
  let ?Q = "\<lambda>e ds. getDriverList (snd e) ?dm = Some ds \<and> iv = ivl_range (fst e) \<and> dl = Some ds \<and>
      bits_of (rlib E) iv = {b. ivl_covers e b} \<and> bits_of (rlib E) iv \<inter> bits_of (rlib E) (pr_bounds p) \<noteq> {}"
  have "(iv, dl) \<in> set (intervals_of E p B) \<longleftrightarrow>
      (\<exists>e \<in> ?S. ivl_overlaps (toPair (rlib E) (pr_bounds p)) e \<and> iv = ivl_range (fst e) \<and> dl = getDriverList (snd e) ?dm)"
    unfolding intervals_of_def forEachDriverInterval_def dm_find_def dm_entries_def using i
    by (simp add: image_iff set_find Bex_def conj_assoc del: split_paired_Ex)
  also have "\<dots> \<longleftrightarrow> (\<exists>e \<in> ?S. \<exists>ds. ?Q e ds)"
  proof (rule bex_cong [OF refl])
    fix e assume e: "e \<in> ?S"
    show "(ivl_overlaps (toPair (rlib E) (pr_bounds p)) e \<and> iv = ivl_range (fst e) \<and> dl = getDriverList (snd e) ?dm) \<longleftrightarrow> (\<exists>ds. ?Q e ds)"
      using wf_entryD(2) [OF wf e] bits [OF e] over [OF e] by auto
  qed
  finally show ?thesis
    using i by (simp add: getSlot_def Bex_def del: split_paired_Ex)
next
  case False
  then show ?thesis
    by (cases "valueToSlot (driverMap B) (pr_symbol p)") (simp_all add: intervals_of_def forEachDriverInterval_def getSlot_def)
qed

lemma intervals_bits:
  assumes "lists_there E B" "b \<in> bits_of (rlib E) (pr_bounds p)"
  shows "Some d \<in> bit_drivers (imap E) (driverMap B, drivers B) (pr_symbol p) b \<longleftrightarrow>
     (\<exists>iv ds. (iv, Some ds) \<in> set (intervals_of E p B) \<and> b \<in> bits_of (rlib E) iv \<and> Some d \<in> dl_nodes ds)"
proof -
  have "Some d \<in> bit_drivers (imap E) (driverMap B, drivers B) (pr_symbol p) b \<longleftrightarrow>
    (\<exists>i e ds. getSlot (driverMap B) (pr_symbol p) = Some i \<and> i < length (drivers B) \<and> e \<in> set (dm_entries (imap E) (drivers B ! i)) \<and>
        ivl_covers e b \<and> getDriverList (snd e) (drivers B ! i) = Some ds \<and> Some d \<in> dl_nodes ds)"
    by (simp add: bit_drivers_def in_drivers_at Bex_def del: split_paired_Ex split: option.split)
  moreover have "bits_of (rlib E) (ivl_range (fst e)) = {b. ivl_covers e b}"
    if "i < length (drivers B)" "e \<in> set (dm_entries (imap E) (drivers B ! i))" for i and e :: "nat entry"
    using wf_entryD(1) [of "imap E" "drivers B ! i" e] assms(1) that
    by (auto simp: lists_there_def bits_of_def ivl_covers_def lower_law upper_law)
  ultimately show ?thesis
    unfolding intervals_in [OF assms(1)] using assms(2) by (intro iffI; clarsimp) blast+
qed

end

text \<open>The triples of one pending R-value.\<close>

definition interval_triples ::
  "('m, 'c) env \<Rightarrow> 'c ngraph \<Rightarrow> pending_rvalue \<Rightarrow> nat \<Rightarrow> bit_range \<times> nat driver_list option \<Rightarrow> (nat \<times> nat \<times> int) set" where
  "interval_triples E g p n x =
     (case (intersection (rlib E) (fst x) (pr_bounds p), snd x) of
        (Some eb, Some ds) \<Rightarrow> \<Union>s \<in> {s. Some s \<in> dl_nodes ds}. dep_bits E g s n eb
      | _ \<Rightarrow> {})"

definition read_triples :: "('m, 'c) env \<Rightarrow> ('m, 'c) builder \<Rightarrow> pending_rvalue \<Rightarrow> (nat \<times> nat \<times> int) set" where
  "read_triples E B p =
     (case pr_node p of None \<Rightarrow> {}
      | Some n \<Rightarrow>
          (case getVariable E (pr_symbol p) (pr_bounds p) B of
             Some v \<Rightarrow> dep_bits E (gr B) v n (pr_bounds p)
           | None \<Rightarrow> \<Union> (interval_triples E (gr B) p n ` set (intervals_of E p B))))"

context builder_env
begin

lemma interval_adds:
  assumes "builder_ok E B" "n \<in> set (nodes (gr B))" "r < length (st_entries (symbolTable (bgraph B)))"
    and "snd x = Some ds" "dl_nodes ds \<subseteq> live (gr B)"
  shows "\<exists>B'. (case intersection (rlib E) (fst x) (pr_bounds p) of
           None \<Rightarrow> Some B
         | Some eb \<Rightarrow> and_then (snd x) (\<lambda>ds. addDriversToNode E ds n (Some r) eb (pr_edgeKind p) (pr_role p) (pr_precision p) B)) = Some B' \<and>
       adds E r B B' (interval_triples E (gr B) p n x)"
proof (cases "intersection (rlib E) (fst x) (pr_bounds p)")
  case None
  then show ?thesis using adds_nothing [OF assms(1)] by (simp add: interval_triples_def)
next
  case (Some eb)
  then show ?thesis
    using addDriversToNode_adds [OF constant_range_axioms assms(1) assms(5,2,3)] by (simp add: interval_triples_def assms(4))
qed

lemma intervals_list:
  assumes "builder_ok E B" "lists_there E B" "x \<in> set (intervals_of E p B)"
  obtains ds where "snd x = Some ds" "dl_nodes ds \<subseteq> live (gr B)"
proof -
  obtain ds where ds: "snd x = Some ds"
    using assms(3) intervals_in [OF assms(2), of "fst x" "snd x" p] by auto
  then have "(fst x, Some ds) \<in> set (intervals_of E p B)"
    using assms(3) by (metis prod.collapse)
  then show thesis
    unfolding intervals_of_def by (rule that [OF ds forEach_nodes [OF assms(1)]])
qed

lemma emit_adds:
  assumes ok: "builder_ok E B" and there: "lists_there E B" and n: "pr_node p = Some n" "n \<in> set (nodes (gr B))"
  shows "\<exists>B'. emitEdgesFor E p B = Some B' \<and>
     adds E (fst (toSymbolRef E (pr_symbol p) B)) (snd (toSymbolRef E (pr_symbol p) B)) B' (read_triples E B p)"
proof -
  obtain r B1 where r: "toSymbolRef E (pr_symbol p) B = (r, B1)" by fastforce
  have t: "builder_ok E B1" "r < length (st_entries (symbolTable (bgraph B1)))"
    using toSymbolRef_keeps [OF ok, of "pr_symbol p"] by (simp_all add: r keepsD(1))
  have same: "gr B1 = gr B" "drivers B1 = drivers B" "driverMap B1 = driverMap B" "variables B1 = variables B"
    using toSymbolRef_fields(1-4) [of E "pr_symbol p" B] by (simp_all add: r)
  have vars: "getVariable E (pr_symbol p) (pr_bounds p) B1 = getVariable E (pr_symbol p) (pr_bounds p) B"
    by (simp add: getVariable_def same)
  show ?thesis
  proof (cases "getVariable E (pr_symbol p) (pr_bounds p) B")
    case (Some v)
    then have "v \<in> set (nodes (gr B1))"
      using getVariable_node [OF ok Some] by (simp add: same)
    then show ?thesis
      using addDependency_adds [OF constant_range_axioms t(1) _ _ t(2), of v n] n
      by (simp add: emitEdgesFor_def r vars Some read_triples_def same)
  next
    case None
    let ?f = "\<lambda>x B. case intersection (rlib E) (fst x) (pr_bounds p) of
           None \<Rightarrow> Some B
         | Some eb \<Rightarrow> and_then (snd x) (\<lambda>ds. addDriversToNode E ds n (Some r) eb (pr_edgeKind p) (pr_role p) (pr_precision p) B)"
    have "\<exists>B'. fold_opt ?f (intervals_of E p B) B1 = Some B' \<and>
        adds E r B1 B' (\<Union> (interval_triples E (gr B) p n ` set (intervals_of E p B)))"
    proof (rule adds_fold [OF t(1)])
      fix x B2 D assume x: "x \<in> set (intervals_of E p B)" and a: "adds E r B1 B2 D"
      obtain ds where ds: "snd x = Some ds" "dl_nodes ds \<subseteq> live (gr B)"
        by (rule intervals_list [OF ok there x])
      have "interval_triples E (gr B2) p n x = interval_triples E (gr B) p n x"
        using dep_bits_nodes [OF addsD(4) [OF a, unfolded same], of E] by (simp add: interval_triples_def split: option.split)
      then show "\<exists>B3. ?f x B2 = Some B3 \<and> adds E r B2 B3 (interval_triples E (gr B) p n x)"
        using interval_adds [OF keepsD(1) [OF addsD(1) [OF a]] _ keepsD(4) [OF addsD(1) [OF a] t(2)] ds(1), of n p]
          n(2) ds(2) by (simp add: addsD(3) [OF a] same live_def)
    qed
    moreover have "(\<lambda>(interval, ds) B. case intersection (rlib E) interval (pr_bounds p) of
           None \<Rightarrow> Some B
         | Some eb \<Rightarrow> and_then ds (\<lambda>ds. addDriversToNode E ds n (Some r) eb (pr_edgeKind p) (pr_role p) (pr_precision p) B)) = ?f"
      by (simp add: fun_eq_iff split_beta)
    ultimately show ?thesis
      by (simp add: emitEdgesFor_def n r vars None read_triples_def intervals_of_def same)
  qed
qed

end

text \<open>What the triples are, bit by bit.\<close>

definition own_bit :: "('m, 'c) env \<Rightarrow> 'c ngraph \<Rightarrow> nat \<Rightarrow> int \<Rightarrow> bool" where
  "own_bit E g d b \<longleftrightarrow> (case getBounds (ndata g d) of None \<Rightarrow> True | Some nb \<Rightarrow> b \<in> bits_of (rlib E) nb)"

context builder_env
begin

lemma edge_bounds_bits:
  "bits_of (rlib E) (edge_bounds (rlib E) g s bnds) =
     (case getBounds (ndata g s) of
        Some nb \<Rightarrow> if bits_of (rlib E) bnds \<inter> bits_of (rlib E) nb \<noteq> {} then bits_of (rlib E) bnds \<inter> bits_of (rlib E) nb else bits_of (rlib E) bnds
      | None \<Rightarrow> bits_of (rlib E) bnds)"
proof (cases "getBounds (ndata g s)")
  case (Some nb)
  show ?thesis
  proof (cases "overlaps_of (rlib E) bnds nb")
    case True
    then have "bits_of (rlib E) (edge_bounds (rlib E) g s bnds) = bits_of (rlib E) bnds \<inter> bits_of (rlib E) nb"
      using intersect_law [OF True] overlaps_law [of bnds nb] by (auto simp: edge_bounds_def Some bits_of_def Let_def)
    then show ?thesis using True by (simp add: Some overlaps_bits)
  qed (auto simp: edge_bounds_def Some overlaps_bits)
qed (simp add: edge_bounds_def)

lemma dep_bits_in: "(x, y, b) \<in> dep_bits E g s t bnds \<Longrightarrow> x = s \<and> y = t \<and> b \<in> bits_of (rlib E) bnds"
  by (auto simp: dep_bits_def edge_bounds_bits split: option.splits if_splits)

lemma dep_bits_own: "b \<in> bits_of (rlib E) bnds \<Longrightarrow> own_bit E g s b \<Longrightarrow> (s, t, b) \<in> dep_bits E g s t bnds"
  by (auto simp: dep_bits_def own_bit_def edge_bounds_bits split: option.splits)

lemma dep_bits_some: "\<exists>b. (s, t, b) \<in> dep_bits E g s t bnds"
proof -
  obtain b where "b \<in> bits_of (rlib E) (edge_bounds (rlib E) g s bnds)"
    using bits_of_nonempty by blast
  then show ?thesis by (auto simp: dep_bits_def)
qed

text \<open>A bit that is read, and a node it is read from: the range of the edge before it is cut to the node's bounds.\<close>

lemma read_sourcesE:
  assumes "lists_there E B" "pr_node p = Some n" "b \<in> bits_of (rlib E) (pr_bounds p)" "d \<in> read_sources E B p b"
  obtains eb where "b \<in> bits_of (rlib E) eb" "dep_bits E (gr B) d n eb \<subseteq> read_triples E B p"
proof (cases "getVariable E (pr_symbol p) (pr_bounds p) B")
  case (Some v)
  then show thesis
    using assms by (intro that [of "pr_bounds p"]) (simp_all add: read_triples_def read_sources_def)
next
  case None
  then obtain iv ds where x: "(iv, Some ds) \<in> set (intervals_of E p B)" "b \<in> bits_of (rlib E) iv" "Some d \<in> dl_nodes ds"
    using assms(4) intervals_bits [OF assms(1,3)] by (auto simp: read_sources_def)
  then obtain eb where eb: "intersection (rlib E) iv (pr_bounds p) = Some eb"
    using assms(3) by (cases "intersection (rlib E) iv (pr_bounds p)") (auto simp: intersection_None)
  have "dep_bits E (gr B) d n eb \<subseteq> interval_triples E (gr B) p n (iv, Some ds)"
    using x(3) by (auto simp: interval_triples_def eb)
  then show thesis
    using x intersection_bits [OF eb] assms(3)
    by (intro that [of eb]) (auto simp: read_triples_def assms(2) None)
qed

lemma read_triples_in:
  assumes "lists_there E B" "(d, m, b) \<in> read_triples E B p"
  shows "pr_node p = Some m \<and> b \<in> bits_of (rlib E) (pr_bounds p) \<and> d \<in> read_sources E B p b"
proof -
  obtain n where n: "pr_node p = Some n"
    using assms(2) by (cases "pr_node p") (simp_all add: read_triples_def)
  show ?thesis
  proof (cases "getVariable E (pr_symbol p) (pr_bounds p) B")
    case (Some v)
    then show ?thesis
      using assms(2) n by (auto simp: read_triples_def read_sources_def dest: dep_bits_in)
  next
    case None
    then obtain x where x: "x \<in> set (intervals_of E p B)" "(d, m, b) \<in> interval_triples E (gr B) p n x"
      using assms(2) n by (auto simp: read_triples_def)
    then obtain eb ds where eb: "intersection (rlib E) (fst x) (pr_bounds p) = Some eb" "snd x = Some ds" "Some d \<in> dl_nodes ds"
        "m = n" "b \<in> bits_of (rlib E) eb"
      by (auto simp: interval_triples_def dest: dep_bits_in split: option.splits)
    then have "b \<in> bits_of (rlib E) (fst x)" "b \<in> bits_of (rlib E) (pr_bounds p)"
      using intersection_bits [OF eb(1)] by auto
    moreover have "(fst x, Some ds) \<in> set (intervals_of E p B)"
      using x(1) eb(2) by (metis prod.collapse)
    ultimately show ?thesis
      using intervals_bits [OF assms(1)] eb n None by (auto simp: read_sources_def)
  qed
qed

lemma read_triples_link:
  assumes "lists_there E B"
  shows "(\<exists>b. (d, m, b) \<in> read_triples E B p) \<longleftrightarrow>
     pr_node p = Some m \<and> (\<exists>b \<in> bits_of (rlib E) (pr_bounds p). d \<in> read_sources E B p b)"
proof
  assume "pr_node p = Some m \<and> (\<exists>b \<in> bits_of (rlib E) (pr_bounds p). d \<in> read_sources E B p b)"
  then obtain b where "pr_node p = Some m" "b \<in> bits_of (rlib E) (pr_bounds p)" "d \<in> read_sources E B p b" by blast
  then obtain eb where "dep_bits E (gr B) d m eb \<subseteq> read_triples E B p"
    using read_sourcesE [OF assms] by blast
  then show "\<exists>b. (d, m, b) \<in> read_triples E B p"
    using dep_bits_some [of d m "gr B" eb] by blast
qed (use read_triples_in [OF assms] in blast)

end

section \<open>The whole queue\<close>

text \<open>What a part of the resolution links; everything that a later R-value looks at stays as it is.\<close>

definition read_links :: "('m, 'c) env \<Rightarrow> ('m, 'c) builder \<Rightarrow> pending_rvalue \<Rightarrow> (nat \<times> nat) set" where
  "read_links E B p =
     {(d, m). pr_node p = Some m \<and> (\<exists>b \<in> bits_of (rlib E) (pr_bounds p). d \<in> read_sources E B p b)}"

definition only_grows :: "('m, 'c) env \<Rightarrow> ('m, 'c) builder \<Rightarrow> ('m, 'c) builder \<Rightarrow> (nat \<times> nat) set \<Rightarrow> bool" where
  "only_grows E B B' L \<longleftrightarrow>
     keeps E B B' \<and> nodes (gr B') = nodes (gr B) \<and> nodeAt (gr B') = nodeAt (gr B) \<and> queue B' = queue B \<and>
     drivers B' = drivers B \<and> driverMap B' = driverMap B \<and> variables B' = variables B \<and>
     (\<forall>x y. linked (gr B') x y \<longleftrightarrow> linked (gr B) x y \<or> (x, y) \<in> L)"

lemma only_growsD:
  assumes "only_grows E B B' L"
  shows "keeps E B B'" "nodes (gr B') = nodes (gr B)" "nodeAt (gr B') = nodeAt (gr B)" "queue B' = queue B" "drivers B' = drivers B"
    "driverMap B' = driverMap B" "variables B' = variables B" "linked (gr B') x y \<longleftrightarrow> linked (gr B) x y \<or> (x, y) \<in> L"
  using assms unfolding only_grows_def by blast+

lemma only_grows_same: "builder_ok E B \<Longrightarrow> only_grows E B B {}"
  by (simp add: only_grows_def keeps_refl)

lemma only_grows_trans: "only_grows E A B L \<Longrightarrow> only_grows E B C M \<Longrightarrow> only_grows E A C (L \<union> M)"
  unfolding only_grows_def by (auto intro: keeps_trans)

lemma only_grows_sources:
  assumes "only_grows E B B' L"
  shows "read_links E B' p = read_links E B p" "lists_there E B' = lists_there E B"
proof -
  note same = only_growsD(5-7) [OF assms]
  have "read_sources E B' p = read_sources E B p"
    by (rule read_sources_cong [OF refl refl same(3,1,2)])
  then show "read_links E B' p = read_links E B p" "lists_there E B' = lists_there E B"
    by (simp_all add: read_links_def lists_there_def same)
qed

lemma only_grows_cache: "builder_ok E B \<Longrightarrow> only_grows E B (clearThreadLocalSymbolRefCache B) {}"
  using clear_cache_keeps [of E B] by (simp add: only_grows_def clearThreadLocalSymbolRefCache_def)

lemma only_grows_fold:
  assumes "only_grows E A B L" and "\<And>x B1 M. x \<in> set xs \<Longrightarrow> only_grows E A B1 M \<Longrightarrow> \<exists>B2. f x B1 = Some B2 \<and> only_grows E B1 B2 (N x)"
  shows "\<exists>B'. fold_opt f xs B = Some B' \<and> only_grows E A B' (L \<union> \<Union> (N ` set xs))"
  using assms
proof (induction xs arbitrary: B L)
  case (Cons x xs)
  obtain B1 where 1: "f x B = Some B1" "only_grows E B B1 (N x)"
    using Cons.prems(2) [OF _ Cons.prems(1)] by auto
  obtain B' where "fold_opt f xs B1 = Some B'" "only_grows E A B' ((L \<union> N x) \<union> \<Union> (N ` set xs))"
    using Cons.IH [OF only_grows_trans [OF Cons.prems(1) 1(2)]] Cons.prems(2) by auto
  then show ?case
    using 1(1) by (simp add: Un_assoc)
qed simp

context builder_env
begin

lemma emit_grows:
  assumes ok: "builder_ok E B" and there: "lists_there E B" and p: "pr_node p \<in> live (gr B)"
  shows "\<exists>B'. emitEdgesFor E p B = Some B' \<and> only_grows E B B' (read_links E B p)"
proof (cases "pr_node p")
  case None
  then show ?thesis
    using only_grows_same [OF ok] by (simp add: emitEdgesFor_def read_links_def)
next
  case (Some n)
  let ?B1 = "snd (toSymbolRef E (pr_symbol p) B)"
  obtain B' where run: "emitEdgesFor E p B = Some B'" and a: "adds E (fst (toSymbolRef E (pr_symbol p) B)) ?B1 B' (read_triples E B p)"
    using emit_adds [OF ok there Some] p Some by auto
  obtain g where "B' = set_gr g ?B1"
    using addsD(2) [OF a] by blast
  then have "queue B' = queue B" "drivers B' = drivers B" "driverMap B' = driverMap B" "variables B' = variables B"
    by (simp_all add: set_gr_def)
  then have "only_grows E B B' (read_links E B p)"
    using keeps_trans [OF toSymbolRef_keeps(1) [OF ok] addsD(1) [OF a]] read_triples_link [OF there]
    by (simp add: only_grows_def addsD(3-5) [OF a] read_links_def)
  then show ?thesis
    using run by blast
qed

lemma fold_emit_grows:
  assumes "builder_ok E A" "lists_there E A" "\<forall>p \<in> set ps. pr_node p \<in> live (gr A)" "only_grows E A B L"
  shows "\<exists>B'. fold_opt (emitEdgesFor E) ps B = Some B' \<and> only_grows E A B' (L \<union> \<Union> (read_links E A ` set ps))"
proof (rule only_grows_fold [OF assms(4)])
  fix p B1 M assume p: "p \<in> set ps" and g: "only_grows E A B1 M"
  show "\<exists>B2. emitEdgesFor E p B1 = Some B2 \<and> only_grows E B1 B2 (read_links E A p)"
    using emit_grows [OF keepsD(1) [OF only_growsD(1) [OF g]], of p] assms(2,3) p keepsD(3) [OF only_growsD(1) [OF g]]
    by (simp add: only_grows_sources [OF g])
qed

lemma resolve_block_grows:
  assumes "builder_ok E A" "lists_there E A" "\<forall>run \<in> set runs. \<forall>p \<in> set run. pr_node p \<in> live (gr A)" "only_grows E A B L"
  shows "\<exists>B'. resolve_block E runs B = Some B' \<and> only_grows E A B' (L \<union> (\<Union>run \<in> set runs. \<Union> (read_links E A ` set run)))"
proof -
  have step: "\<exists>B2. fold_opt (emitEdgesFor E) run B1 = Some B2 \<and> only_grows E B1 B2 (\<Union> (read_links E A ` set run))"
    if run: "run \<in> set runs" and g: "only_grows E A B1 M" for run B1 M
  proof -
    have ok1: "builder_ok E B1" "lists_there E B1"
      using keepsD(1) [OF only_growsD(1) [OF g]] assms(2) by (simp_all add: only_grows_sources [OF g])
    have "\<forall>p \<in> set run. pr_node p \<in> live (gr B1)"
      using assms(3) run keepsD(3) [OF only_growsD(1) [OF g]] by blast
    then show ?thesis
      using fold_emit_grows [OF ok1 _ only_grows_same [OF ok1(1)]] by (simp add: only_grows_sources [OF g])
  qed
  have "only_grows E A (clearThreadLocalSymbolRefCache B) L"
    using only_grows_trans [OF assms(4) only_grows_cache [OF keepsD(1) [OF only_growsD(1) [OF assms(4)]]]] by simp
  then show ?thesis
    unfolding resolve_block_def by (rule only_grows_fold) (rule step)
qed

end

lemma read_links_None: "pr_node p = None \<Longrightarrow> read_links E B p = {}"
  by (simp add: read_links_def)

lemma blocks_links:
  assumes "schedule_ok sch"
  shows "(\<Union>runs \<in> set (blocks_of sch (runs_of (sort_queue sch q))). \<Union>run \<in> set runs. \<Union> (read_links E B ` set run)) =
     \<Union> (read_links E B ` set q)"
proof -
  have s: "set (concat (blocks_of sch rs)) = set rs" "set (sort_queue sch q) = set q" "sorted (map node_key (sort_queue sch q))" for rs
    using assms mset_eq_setD unfolding schedule_ok_def by blast+
  have "set (concat (concat (blocks_of sch (runs_of (sort_queue sch q))))) = {p \<in> set q. pr_node p \<noteq> None}"
    using runs_partition(1) [OF s(3)] by (simp only: set_concat [of "concat _"] s(1) flip: set_concat) (simp add: s(2))
  then have "\<Union> (read_links E B ` set (concat (concat (blocks_of sch (runs_of (sort_queue sch q)))))) = \<Union> (read_links E B ` set q)"
    using read_links_None by fastforce
  then show ?thesis by auto
qed

context builder_env
begin

lemma resolveParallel_grows:
  assumes sch: "schedule_ok sch" and ok: "builder_ok E B" and there: "lists_there E B"
  shows "\<exists>B'. resolveParallel E sch B = Some (B'\<lparr>queue := []\<rparr>) \<and> only_grows E B B' (\<Union> (read_links E B ` set (queue B)))"
proof -
  let ?blocks = "blocks_of sch (runs_of (sort_queue sch (queue B)))"
  let ?N = "\<lambda>runs. \<Union>run \<in> set runs. \<Union> (read_links E B ` set run)"
  have live: "pr_node p \<in> live (gr B)" if "p \<in> set (concat (concat ?blocks))" for p
    using blocks_of_set [OF sch that] ok by (simp add: builder_ok_def pointers_ok_def)
  have "\<exists>B'. fold_opt (resolve_block E) ?blocks B = Some B' \<and> only_grows E B B' ({} \<union> \<Union> (?N ` set ?blocks))"
  proof (rule only_grows_fold [OF only_grows_same [OF ok]])
    fix runs B1 M assume runs: "runs \<in> set ?blocks" and g: "only_grows E B B1 M"
    have ok1: "builder_ok E B1" "lists_there E B1"
      using keepsD(1) [OF only_growsD(1) [OF g]] there by (simp_all add: only_grows_sources [OF g])
    have "\<forall>run \<in> set runs. \<forall>p \<in> set run. pr_node p \<in> live (gr B1)"
      using live runs keepsD(3) [OF only_growsD(1) [OF g]] by fastforce
    then show "\<exists>B2. resolve_block E runs B1 = Some B2 \<and> only_grows E B1 B2 (?N runs)"
      using resolve_block_grows [OF ok1 _ only_grows_same [OF ok1(1)]] by (simp add: only_grows_sources [OF g])
  qed
  then show ?thesis
    unfolding resolveParallel_def using blocks_links [OF sch, of E B "queue B"] by auto
qed

lemma resolve_grows:
  assumes "schedule_ok sch" and ok: "builder_ok E B" and there: "lists_there E B"
  shows "\<exists>B'. resolve E sch pool B = Some (B'\<lparr>queue := []\<rparr>) \<and> only_grows E B B' (\<Union> (read_links E B ` set (queue B)))"
proof -
  have "\<forall>p \<in> set (queue B). pr_node p \<in> live (gr B)"
    using ok by (simp add: builder_ok_def pointers_ok_def)
  then have "\<exists>B'. resolveSequential E B = Some (B'\<lparr>queue := []\<rparr>) \<and> only_grows E B B' (\<Union> (read_links E B ` set (queue B)))"
    using fold_emit_grows [OF ok there _ only_grows_same [OF ok], of "queue B"] unfolding resolveSequential_def by auto
  then show ?thesis
    using resolveParallel_grows [OF assms] by (simp add: resolve_def)
qed

end

context builder_env
begin

lemma read_spec:
  assumes ok: "builder_ok E B" and there: "lists_there E B" and n: "pr_node p = Some n" "n \<in> set (nodes (gr B))"
  shows "\<exists>B'. emitEdgesFor E p B = Some B' \<and> nodes (gr B') = nodes (gr B) \<and>
     (\<forall>d m. linked (gr B') d m \<longleftrightarrow> linked (gr B) d m \<or>
        (m = n \<and> (\<exists>b \<in> bits_of (rlib E) (pr_bounds p). d \<in> read_sources E B p b))) \<and>
     (\<forall>d. let r = fst (toSymbolRef E (pr_symbol p) B); new = {b \<in> bits_of (rlib E) (pr_bounds p). d \<in> read_sources E B p b}
        in carried (rlib E) (gr B) r d n \<union> {b \<in> new. own_bit E (gr B) d b} \<subseteq> carried (rlib E) (gr B') r d n \<and>
           carried (rlib E) (gr B') r d n \<subseteq> carried (rlib E) (gr B) r d n \<union> new)"
proof -
  let ?r = "fst (toSymbolRef E (pr_symbol p) B)" and ?B1 = "snd (toSymbolRef E (pr_symbol p) B)"
  obtain B' where run: "emitEdgesFor E p B = Some B'" and a: "adds E ?r ?B1 B' (read_triples E B p)"
    using emit_adds [OF ok there n] by blast
  have links: "linked (gr B') d m \<longleftrightarrow> linked (gr B) d m \<or>
        (m = n \<and> (\<exists>b \<in> bits_of (rlib E) (pr_bounds p). d \<in> read_sources E B p b))" for d m
    using addsD(5) [OF a] read_triples_link [OF there, of d m p] n(1) by auto
  have own: "(d, n, b) \<in> read_triples E B p"
    if "b \<in> bits_of (rlib E) (pr_bounds p)" "d \<in> read_sources E B p b" "own_bit E (gr B) d b" for d b
    using read_sourcesE [OF there n(1) that(1,2)] dep_bits_own [OF _ that(3)] by blast
  have "carried (rlib E) (gr B') ?r d n = carried (rlib E) (gr B) ?r d n \<union> {b. (d, n, b) \<in> read_triples E B p}" for d
    using addsD(6) [OF a] by simp
  then show ?thesis
    using run links own read_triples_in [OF there] addsD(3) [OF a] unfolding Let_def
    by (intro exI [of _ B'] conjI allI) auto
qed

end

end
