(* ===== verification/FlowProps.thy ===== *)
theory FlowProps
  imports FlowSpec PipelineFacts SliceFacts Serializer Tracker
begin

text \<open>
  The properties of the builder, the data-flow analysis, the ports and the pipeline, with the small designs that witness
  them.
\<close>

lemma case_SomeD: "(case x of None \<Rightarrow> False | Some y \<Rightarrow> P y) \<Longrightarrow> \<exists>y. x = Some y \<and> P y"
  by (cases x) simp_all

section \<open>A small environment\<close>

definition small_env :: "(nat entry list, unit) env" where
  "small_env =
     \<lparr>rlib = std_range, imap = list_imap, slot_order = (\<lambda>slots. slots), sym_kind = (\<lambda>_. SymVariable), sym_name = (\<lambda>_. ''t''),
      sym_path = (\<lambda>s. replicate (Suc s) CHR ''t''), sym_location = (\<lambda>_. None), sym_width = (\<lambda>_. 8),
      portBackrefs = (\<lambda>_. []), expr_location = (\<lambda>_. None), conn_paths = (\<lambda>_. []),
      evaluates = (\<lambda>_. True), is_automatic = (\<lambda>_. False), path_elems = (\<lambda>_. []),
      path_ref = (\<lambda>_. \<lparr>rp_lsp = None, rp_root = None, rp_bounds = mk_range 0 0\<rparr>), visited_paths = (\<lambda>_. []),
      const_zero = (\<lambda>_. ()), const_width = (\<lambda>_. None), const_slice = (\<lambda>v _ _. v),
      resolveAssignBits = True, propCutsAcrossPorts = True, parallel = True, parallelRValueThreshold = 1000,
      blackBoxes = []\<rparr>"

lemma small_libs [simp]: "rlib small_env = std_range" "imap small_env = list_imap"
  by (simp_all add: small_env_def)

lemma small_laws: "constant_range (rlib small_env)" "interval_map (imap small_env)"
  using std.constant_range_axioms list_map.interval_map_axioms by simp_all

interpretation small: builder_env small_env
  by (rule builder_env.intro [OF small_laws])

text \<open>One thread after the other.\<close>

definition in_order :: schedule where
  "in_order = \<lparr>task_order = (\<lambda>n. [0 ..< n]), sort_queue = sort_key node_key, blocks_of = (\<lambda>rs. [rs])\<rparr>"

lemma in_order_ok: "schedule_ok in_order"
  by (simp add: schedule_ok_def in_order_def)

text \<open>\<open>assign t = p;\<close> in a module with an input port: \<open>p\<close> is symbol 1 (its port symbol 2), \<open>t\<close> is symbol 0, both 8 bits.\<close>

definition assign_tp :: "unit assignment_expr" where
  "assign_tp =
     (let i = (\<lambda>n. \<lparr>x_id = n, x_width = 8, x_integral = True, x_signed = False, x_const = None\<rparr>)
      in \<lparr>as_expr = 0, as_left = LspExpr (i 1) \<lparr>vp_expr = 1, rootSymbol = Some 0, lspBounds = (0, 7)\<rparr>,
          as_right = LspExpr (i 2) \<lparr>vp_expr = 2, rootSymbol = Some 1, lspBounds = (0, 7)\<rparr>,
          as_blocking = True, as_isLValueArg = False\<rparr>)"

definition small_design :: "unit design" where
  "small_design =
     Instance \<lparr>uninstantiated = False, definition_name = ''m'', instance_path = ''m'', connections = []\<rparr>
       [PortMember \<lparr>port_id = 2, internalSymbol = Some 1, internal_is_value = True, port_direction = DirIn,
          port_integral = True, port_width = 8, port_drivers = [\<lparr>sd_bounds = (0, 7), isInputPort = True\<rparr>]\<rparr>,
        ContinuousAssign 0]"

definition small_run :: "(nat entry list, unit) visitor" where
  "small_run = (\<lambda>_. handleAssignment small_env (\<lambda>_. Some) assign_tp)"

lemma small_run_traversal: "traversal small_env small_run"
  unfolding small_run_def by (intro traversal.Assignment traversal.Skip)

definition small_netlist :: "unit netlist option" where
  "small_netlist = build_netlist small_env small_run in_order small_design empty_netlist"

section \<open>What is built is well formed\<close>

lemma new_builder_ok: "builder_ok E (new_builder (empty_netlist :: 'c netlist) :: ('m, 'c) builder)"
proof -
  have "graph_ok (dg (empty_netlist :: 'c netlist))" "ft_ok (fileTable (empty_netlist :: 'c netlist))"
    "st_ok (symbolTable (empty_netlist :: 'c netlist))"
    by (simp_all add: empty_netlist_def graph_ok_empty ft_ok_new st_ok_new)
  then show ?thesis
    by (simp add: builder_ok_def net_ok_def pointers_ok_def ids_ok_def new_builder_def empty_netlist_def empty_digraph_def)
qed

text \<open>
  C4. Any build that returns, of any design and for any traversal, thread schedule and interval map that keep their
  contracts, gives a well-formed netlist: the graph's edges, edge lists and edge index agree, its nodes have different
  identifiers, the file and symbol tables are consistent, and every edge's symbol is an entry of the symbol table.
\<close>

theorem build_netlist_well_formed:
  assumes "constant_range (rlib E)" "interval_map (imap E)" "traversal E run" "schedule_ok sch"
    and "build_netlist E run sch root empty_netlist = Some N"
  shows "graph_ok (dg N) \<and> distinct (map (nID (dg N)) (nodes (dg N))) \<and>
     ft_ok (fileTable N) \<and> st_ok (symbolTable N) \<and>
     (\<forall>e p. edgeAt (dg N) e \<noteq> None \<longrightarrow> symbol (einfo (dg N) e) = Some p \<longrightarrow> p < length (st_entries (symbolTable N)))"
proof -
  have env: "builder_env E" by (rule builder_env.intro [OF assms(1,2)])
  obtain S S' where S: "pipeline_run E run sch root (new_build empty_netlist) = Some S"
    "pipeline_finalize E sch S = Some S'" "N = bgraph (the_builder S')"
    using assms(5) unfolding build_netlist_def by (auto simp: bind_eq_Some_conv)
  have "builder_ok E (the_builder (new_build empty_netlist))"
    using new_builder_ok by (simp add: new_build_def)
  from builder_env.pipeline_run_keeps [OF env builder_env.traversal_ok [OF env assms(3)] this, of sch root]
  have "builder_ok E (the_builder S)" using S(1) by (simp add: build_keeps_def keepsD(1))
  from builder_env.finalize_keeps [OF env assms(4) this]
  have "builder_ok E (the_builder S')" using S(2) by (auto simp: build_keeps_def dest: keepsD(1))
  then show ?thesis
    unfolding builder_ok_def net_ok_def ids_ok_def S(3) by blast
qed

text \<open>
  C10. A traversal that calls the analysis through its handlers and keeps any number of states beside the current one,
  copied, reset, joined and met with each other in any order, keeps all of them typed: after it, every node that the
  current state, the kept states, their driver maps, the postponed L-values and the builder refer to is a node of the
  graph, every symbol pointer leads to a record, and the netlist is well formed; nodes are only added.
\<close>

theorem traversal_keeps_state_typed:
  assumes "constant_range (rlib E)" "interval_map (imap E)" "traversal E run" "dfa_ok E D" "run stmt D = Some D'"
  shows "dfa_ok E D' \<and> set (nodes (gr (bld D))) \<subseteq> set (nodes (gr (bld D')))"
proof -
  have env: "builder_env E" by (rule builder_env.intro [OF assms(1,2)])
  show ?thesis
    using visitorD [OF builder_env.traversal_ok [OF env assms(3)] assms(4), of stmt] assms(5) by (simp add: moves_def keeps_def)
qed

lemma small_netlist_runs:
  "case small_netlist of None \<Rightarrow> False
   | Some N \<Rightarrow> nodes (dg N) = [0, 1] \<and> outEdges (dg N) 0 = [0] \<and> etgt (dg N) 0 = 1 \<and> symbol (einfo (dg N) 0) = Some 0"
  by code_simp

theorem build_netlist_well_formed_witness:
  "\<exists>N. small_netlist = Some N \<and> nodes (dg N) = [0, 1] \<and> graph_ok (dg N) \<and> distinct (map (nID (dg N)) (nodes (dg N)))"
proof -
  obtain N where N: "small_netlist = Some N" "nodes (dg N) = [0, 1]"
    using case_SomeD [OF small_netlist_runs] by blast
  then show ?thesis
    using build_netlist_well_formed [OF small_laws small_run_traversal in_order_ok, of small_design N]
    by (auto simp: small_netlist_def)
qed

text \<open>The assignment in two arms, from one kept state; the states at the ends of the arms are met.\<close>

abbreviation then_visit :: "('m, 'c) visitor \<Rightarrow> ('m, 'c) visitor \<Rightarrow> ('m, 'c) visitor" where
  "then_visit f g \<equiv> \<lambda>e D. and_then (f e D) (g e)"

definition met_run :: "(nat entry list, unit) visitor" where
  "met_run =
     then_visit (\<lambda>_. base_step small_env (CopyState (Kept 0) Current))
       (then_visit small_run
         (then_visit (\<lambda>_. base_step small_env (CopyState (Kept 1) Current))
           (then_visit (\<lambda>_. base_step small_env (CopyState Current (Kept 0)))
             (then_visit small_run (\<lambda>_. base_step small_env (MeetState Current (Kept 1)))))))"

lemma met_run_traversal: "traversal small_env met_run"
  unfolding met_run_def by (intro traversal.Seq traversal.State small_run_traversal)

lemma met_run_runs:
  "case met_run 0 (new_dfa None (new_builder empty_netlist)) of None \<Rightarrow> False
   | Some D \<Rightarrow> nodes (gr (bld D)) = [0, 1, 2] \<and> cur_node (flow D) = Some 2"
  by code_simp

theorem traversal_keeps_state_typed_witness:
  "\<exists>D. met_run 0 (new_dfa None (new_builder empty_netlist)) = Some D \<and> nodes (gr (bld D)) = [0, 1, 2] \<and>
     cur_node (flow D) = Some 2 \<and> dfa_ok small_env D"
proof -
  obtain D where D: "met_run 0 (new_dfa None (new_builder empty_netlist)) = Some D" "nodes (gr (bld D)) = [0, 1, 2]"
    "cur_node (flow D) = Some 2"
    using case_SomeD [OF met_run_runs] by blast
  then show ?thesis
    using traversal_keeps_state_typed [OF small_laws met_run_traversal small.new_dfa_ok [OF new_builder_ok] D(1)] by blast
qed

section \<open>The parallel resolution\<close>

text \<open>
  The parallel resolution of pending R-values sorts the queue by target and cuts it into runs: the runs are,
  without repetition, exactly the queue's entries of one target each, in the sorted order, entries without a target are
  left out, and the blocks that the threads take hold every entry with a target exactly once.
\<close>

theorem parallel_runs_partition_targets:
  assumes "schedule_ok sch"
  shows "concat (runs_of (sort_queue sch q)) = filter (\<lambda>p. pr_node p \<noteq> None) (sort_queue sch q) \<and>
     distinct (runs_of (sort_queue sch q)) \<and>
     (\<forall>run \<in> set (runs_of (sort_queue sch q)). run \<noteq> [] \<and> (\<exists>n. run = filter (\<lambda>p. pr_node p = Some n) (sort_queue sch q))) \<and>
     mset (concat (concat (blocks_of sch (runs_of (sort_queue sch q))))) = mset (filter (\<lambda>p. pr_node p \<noteq> None) q)"
proof -
  have sch: "mset (sort_queue sch q) = mset q" "sorted (map node_key (sort_queue sch q))"
    "mset (concat (blocks_of sch rs)) = mset rs" for rs
    using assms by (simp_all add: schedule_ok_def)
  note runs = runs_partition [OF sch(2)]
  have "mset (concat rs) = \<Sum>\<^sub># (image_mset mset (mset rs))" for rs :: "pending_rvalue list list"
    by (induction rs) simp_all
  then have "mset (concat (concat (blocks_of sch (runs_of (sort_queue sch q))))) = mset (concat (runs_of (sort_queue sch q)))"
    by (simp only: sch(3))
  then show ?thesis
    using runs sch(1) by (simp add: mset_filter)
qed

definition pending_to :: "nat option \<Rightarrow> pending_rvalue" where
  "pending_to n = \<lparr>pr_symbol = 0, pr_bounds = mk_range 0 0, pr_lsp = 0, pr_node = n, pr_edgeKind = EdgeNone,
                   pr_role = Data, pr_precision = Exact\<rparr>"

theorem parallel_runs_partition_targets_witness:
  "concat (runs_of (sort_queue in_order (map pending_to [Some 2, None, Some 1, Some 2]))) = map pending_to [Some 1, Some 2, Some 2] \<and>
   length (runs_of (sort_queue in_order (map pending_to [Some 2, None, Some 1, Some 2]))) = 2"
proof -
  have q: "sort_queue in_order (map pending_to [Some 2, None, Some 1, Some 2]) = map pending_to [None, Some 1, Some 2, Some 2]"
    by code_simp
  have "length (runs_of (map pending_to [None, Some 1, Some 2, Some 2])) = 2"
    by code_simp
  then show ?thesis
    using parallel_runs_partition_targets [OF in_order_ok, of "map pending_to [Some 2, None, Some 1, Some 2]"]
    unfolding q by (simp add: pending_to_def)
qed

section \<open>Reads that get no edge\<close>

text \<open>Entering a new assignment.\<close>

definition new_assignment :: "(nat entry list, unit) dfa \<Rightarrow> (nat entry list, unit) dfa" where
  "new_assignment D = (let (n, B) = createAssignment small_env 0 (bld D) in updateNode n False (set_bld D B))"

text \<open>\<open>t[3:0] = ...; ... = t[5:2];\<close> with blocking assignments; \<open>t\<close> is symbol 0.\<close>

definition partial_read :: "(nat entry list, unit) dfa option" where
  "partial_read =
     (let D0 = (new_dfa None (new_builder empty_netlist))\<lparr>isBlocking := True\<rparr>
      in and_then (handleLvalue small_env 0 0 (mk_range 0 3) (new_assignment D0)) (\<lambda>D1.
           handleRvalue small_env 0 0 (mk_range 2 5) (new_assignment D1)))"

text \<open>
  The second assignment reads bits 2 to 5 where the first one wrote bits 0 to 3; bits 2 and 3 are known to be driven by
  node 0, yet there is no edge, and only bits 4 and 5 are pending.
\<close>

lemma partial_read_runs:
  "case partial_read of None \<Rightarrow> False | Some D \<Rightarrow>
     nodes (gr (bld D)) = [0, 1] \<and> outEdges (gr (bld D)) 0 = [] \<and> map pr_bounds (queue (bld D)) = [mk_range 4 5] \<and>
     getDrivers std_range list_imap (valueTracker D) (valueDrivers (flow D)) 0 (mk_range 2 3) =
       Some [\<lparr>di_node = Some 0, di_lsp = Some 0\<rparr>]"
  by code_simp

text \<open>
  \<open>y = (s ? a : b) + c;\<close> read as one expression: the arms of the conditional operator are visited in two copies of the
  state, which are joined before \<open>c\<close> is read. \<open>a\<close>, \<open>b\<close>, \<open>c\<close> are the symbols 1, 2, 3.
\<close>

definition conditional_read :: "(nat entry list, unit) dfa option" where
  "conditional_read =
     (let read = (\<lambda>s _. handleRvalue small_env s s (mk_range 0 7))
      in and_then (branch small_env (read 1) (read 2) 0 (new_assignment (new_dfa None (new_builder empty_netlist)))) (read 3 0))"

text \<open>
  C38. Joining two reachable states with the same current node leaves no current node, and with the same pending
  condition no condition: \<open>mergeNodes\<close> falls through to its last line. So what an expression reads after a conditional
  operator is recorded without the node that reads it, and resolving it adds no edge: in \<open>y = (s ? a : b) + c\<close> the reads
  of \<open>a\<close> and \<open>b\<close> belong to the assignment, the read of \<open>c\<close> to no node.
\<close>

theorem join_of_same_node_loses_it:
  assumes "joinState E result other D = Some (st, D')" "reachable result = reachable other"
    and "cur_node result = cur_node other" "cur_condition result = cur_condition other"
  shows "cur_node st = None \<and> cur_condition st = None \<and>
     (case conditional_read of None \<Rightarrow> False
      | Some D \<Rightarrow> map (\<lambda>p. (pr_symbol p, pr_node p)) (queue (bld D)) = [(1, Some 0), (2, Some 0), (3, None)])"
proof -
  have "case conditional_read of None \<Rightarrow> False
      | Some D \<Rightarrow> map (\<lambda>p. (pr_symbol p, pr_node p)) (queue (bld D)) = [(1, Some 0), (2, Some 0), (3, None)]"
    by code_simp
  then show ?thesis
    using assms by (auto simp: joinState_def mergeStates_def merge_optional_def split_beta Let_def split: option.splits if_splits)
qed

definition at_node :: "nat \<Rightarrow> nat entry list analysis_state" where
  "at_node n = topState\<lparr>cur_node := Some n\<rparr>"

theorem join_of_same_node_loses_it_witness:
  "\<exists>st D. joinState small_env (at_node 0) (at_node 0) (new_dfa None (new_builder empty_netlist)) = Some (st, D) \<and>
     cur_node (at_node 0) = Some 0 \<and> cur_node st = None"
proof -
  have node: "cur_node (at_node 0) = Some 0"
    by (simp add: at_node_def)
  obtain st D where run: "joinState small_env (at_node 0) (at_node 0) (new_dfa None (new_builder empty_netlist)) = Some (st, D)"
    by (simp add: joinState_def mergeStates_def at_node_def topState_def split_beta Let_def)
  show ?thesis
    by (intro exI conjI) (rule run, rule node, rule join_of_same_node_loses_it [OF run refl refl refl, THEN conjunct1])
qed

lemma no_node_no_edge: "pr_node p = None \<Longrightarrow> emitEdgesFor E p B = Some B"
  by (simp add: emitEdgesFor_def)

text \<open>The state of the global drivers is left alone.\<close>

definition same_drivers :: "('m, 'c) builder \<Rightarrow> ('m, 'c) builder \<Rightarrow> bool" where
  "same_drivers B B' \<longleftrightarrow> driverMap B' = driverMap B \<and> drivers B' = drivers B"

lemma same_drivers_refl [simp]: "same_drivers B B"
  by (simp add: same_drivers_def)

lemma same_drivers_trans: "same_drivers A B \<Longrightarrow> pred_option (same_drivers B) x \<Longrightarrow> pred_option (same_drivers A) x"
  by (cases x) (simp_all add: same_drivers_def)

lemma same_drivers_bind:
  "pred_option (same_drivers B) x \<Longrightarrow> (\<And>B1. pred_option (same_drivers B1) (f B1)) \<Longrightarrow> pred_option (same_drivers B) (and_then x f)"
  by (cases x) (auto intro: same_drivers_trans)

lemma same_drivers_fold: "(\<And>x B. pred_option (same_drivers B) (f x B)) \<Longrightarrow> pred_option (same_drivers B) (fold_opt f xs B)"
  by (rule fold_opt_pred) (auto intro: same_drivers_trans)

lemma same_drivers_small [simp]:
  "same_drivers B (set_gr g B')  = same_drivers B B'" "same_drivers B (snd (toSymbolRef E s B')) = same_drivers B B'"
  "same_drivers B (enqueue p B') = same_drivers B B'" "same_drivers B (clock_rvalue E n en B') = same_drivers B B'"
  "same_drivers B (snd (createState E s b B')) = same_drivers B B'"
  by (simp_all add: same_drivers_def set_gr_def enqueue_def clock_rvalue_def createState_def variables_insert_def
      new_node_def split_beta Let_def split: option.split)

lemma addDependency_same [simp]: "pred_option (same_drivers B) (addDependency E s t symb b k ro pr B)"
  by (auto simp: addDependency_def Let_def split_beta intro!: pred_then)

lemma addDriversToNode_same [simp]: "pred_option (same_drivers B) (addDriversToNode E ds n symb b k ro pr B)"
  unfolding addDriversToNode_def by (rule same_drivers_fold) (simp split: option.split)

lemma hookup_same [simp]: "pred_option (same_drivers B) (hookupOutputPort E s b ds B)"
  by (auto simp: hookupOutputPort_def split_beta Let_def intro: same_drivers_trans [OF _ addDriversToNode_same] split: list.split option.split)

lemma clocks_same [simp]: "same_drivers B (fold (clock_rvalue E n) es B') = same_drivers B B'"
  by (induction es arbitrary: B') simp_all

lemma merge_interval_same:
  assumes "sens \<noteq> []"
  shows "pred_option (same_drivers B) (merge_interval E sens s b ds B)"
proof -
  let ?n = "fst (createState E s b B)" and ?B = "snd (toSymbolRef E s (snd (createState E s b B)))"
  have "pred_option (same_drivers ?B) (and_then (addDriversToNode E ds ?n r b EdgeNone Data Range ?B) (\<lambda>B3.
              hookupOutputPort E s b [\<lparr>di_node = Some ?n, di_lsp = None\<rparr>] (fold (clock_rvalue E ?n) sens B3)))" for r
    by (rule same_drivers_bind [OF addDriversToNode_same]) (rule same_drivers_trans [OF _ hookup_same], simp)
  then show ?thesis
    using assms same_drivers_trans [of B ?B] by (simp add: merge_interval_def split_beta)
qed

lemma connect_driver_same: "pred_option (same_drivers B) (connect_driver E s r b d B)"
proof -
  have "pred_option (same_drivers B) (fold_opt (\<lambda>(v, vb) B. case getVariable E v vb B of None \<Rightarrow> Some B
         | Some x \<Rightarrow> addDependency E n x (Some r) vb EdgeNone Data Range B) xs B)" for n xs
    by (rule same_drivers_fold) (simp add: split_beta split: option.split)
  then show ?thesis
    by (simp add: connect_driver_def split: option.split symbol_kind.split)
qed

lemma mergeDrivers_same:
  assumes "sens \<noteq> []"
  shows "pred_option (same_drivers B) (mergeDrivers E vt vds sens B)"
proof -
  have "pred_option (same_drivers B) (merge_entry E sens s dm e B)" for s dm e B
  proof -
    have "pred_option (same_drivers B1) (fold_opt (connect_driver E s (fst (toSymbolRef E s B1)) b) ds (snd (toSymbolRef E s B1)))" for b ds B1
      by (rule same_drivers_trans [OF _ same_drivers_fold [OF connect_driver_same]]) simp
    then show ?thesis
      unfolding merge_entry_def Let_def split_beta
      by (intro pred_then same_drivers_bind merge_interval_same assms)
  qed
  then have "pred_option (same_drivers B) (fold_opt (merge_entry E sens s dm) xs B)" for s dm xs B
    by (rule same_drivers_fold)
  then show ?thesis
    unfolding mergeDrivers_def visitAll_fold by (intro same_drivers_fold) (simp split: option.split)
qed

text \<open>
  C39. A sequential block makes its state nodes known by their exact bounds only: it registers no driver. So a read of a
  symbol that nothing else drives gets no edge unless a node of the symbol has exactly the bounds that are read, even
  where it overlaps a state of the symbol: resolving it leaves the graph as it is.
\<close>

theorem register_part_read_lost:
  assumes "mergeDrivers E vt vds sens B = Some B1" "sens \<noteq> []"
    and "getSlot (driverMap B) (pr_symbol p) = None" "getVariable E (pr_symbol p) (pr_bounds p) B1 = None"
  shows "driverMap B1 = driverMap B \<and> drivers B1 = drivers B \<and> (\<exists>B2. emitEdgesFor E p B1 = Some B2 \<and> gr B2 = gr B1)"
proof -
  have same: "driverMap B1 = driverMap B" "drivers B1 = drivers B"
    using mergeDrivers_same [OF assms(2), of B E vt vds] assms(1) by (simp_all add: same_drivers_def)
  have var: "getVariable E s b (snd (toSymbolRef E t B1)) = getVariable E s b B1" for s b t
    by (simp add: getVariable_def)
  have "emitEdgesFor E p B1 = Some (if pr_node p = None then B1 else snd (toSymbolRef E (pr_symbol p) B1))"
    using assms(3,4) same
    by (simp add: emitEdgesFor_def split_beta var forEachDriverInterval_def getSlot_def split: option.split)
  then show ?thesis
    using same by simp
qed

text \<open>
  \<open>always_ff @(posedge clk) q <= d;\<close> with \<open>q\<close> (symbol 0) and \<open>d\<close> of eight bits and \<open>clk\<close> symbol 3, and a read of bits 0
  to 3 of \<open>q\<close>.
\<close>

definition register_assignment :: "unit assignment_expr" where
  "register_assignment =
     (let part = (\<lambda>n s. LspExpr \<lparr>x_id = n, x_width = 8, x_integral = True, x_signed = False, x_const = None\<rparr>
                     \<lparr>vp_expr = n, rootSymbol = Some s, lspBounds = (0, 7)\<rparr>)
      in \<lparr>as_expr = 0, as_left = part 1 0, as_right = part 2 1, as_blocking = False, as_isLValueArg = False\<rparr>)"

definition register_flow :: "(nat entry list, unit) dfa option" where
  "register_flow =
     and_then (handleAssignment small_env (\<lambda>_. Some) register_assignment (new_dfa None (new_builder empty_netlist)))
       (dfa_finalize small_env)"

definition posedge_clk :: "sensitivity_entry list" where
  "posedge_clk = [\<lparr>se_signal = 3, se_lsp = 9, se_edgeKind = PosEdge\<rparr>]"

definition low_read :: pending_rvalue where
  "low_read = (pending_to (Some 0))\<lparr>pr_bounds := mk_range 0 3\<rparr>"

definition register_merged :: "(nat entry list, unit) dfa \<Rightarrow> (nat entry list, unit) builder option" where
  "register_merged D = mergeDrivers small_env (valueTracker D) (valueDrivers (flow D)) posedge_clk (bld D)"

lemma register_runs:
  "case register_flow of None \<Rightarrow> False
   | Some D \<Rightarrow> getSlot (driverMap (bld D)) 0 = None \<and>
      (case register_merged D of None \<Rightarrow> False
       | Some B \<Rightarrow> getVariable small_env 0 (mk_range 0 7) B = Some 1 \<and> getVariable small_env 0 (mk_range 0 3) B = None)"
  by code_simp

theorem register_part_read_lost_witness:
  "\<exists>D B B2. register_flow = Some D \<and> register_merged D = Some B \<and>
     getVariable small_env 0 (mk_range 0 7) B = Some 1 \<and> overlaps_of std_range (mk_range 0 7) (pr_bounds low_read) \<and>
     emitEdgesFor small_env low_read B = Some B2 \<and> gr B2 = gr B"
proof -
  obtain D where D: "register_flow = Some D" "getSlot (driverMap (bld D)) 0 = None"
    and m: "case register_merged D of None \<Rightarrow> False
       | Some B \<Rightarrow> getVariable small_env 0 (mk_range 0 7) B = Some 1 \<and> getVariable small_env 0 (mk_range 0 3) B = None"
    using case_SomeD [OF register_runs] by blast
  obtain B where B: "register_merged D = Some B" "getVariable small_env 0 (mk_range 0 7) B = Some 1"
    "getVariable small_env 0 (mk_range 0 3) B = None"
    using case_SomeD [OF m] by blast
  have read: "pr_symbol low_read = 0" "pr_bounds low_read = mk_range 0 3" "posedge_clk \<noteq> []"
    by (simp_all add: low_read_def pending_to_def posedge_clk_def)
  show ?thesis
    using register_part_read_lost [OF B(1) [unfolded register_merged_def] read(3), of low_read] D B
    by (auto simp: read std_range_def)
qed

section \<open>Port nodes\<close>

lemma hints_between_filter:
  assumes "sorted_wrt (<) h"
  shows "hints_between lo hi h = filter (\<lambda>c. lo < c \<and> c < hi) h"
  by (rule strict_sorted_equal) (auto simp: hints_between_props [OF assms] assms sorted_wrt_filter)

lemma split_at_bounds:
  "map rg_left (split_at prev cs hi) = map int (prev # cs)" "map rg_right (split_at prev cs hi) = map (\<lambda>c. int c - 1) (cs @ [hi])"
  by (induction cs arbitrary: prev) simp_all

lemma split_at_unique:
  "sorted_wrt (<) (prev # cs @ [hi]) \<Longrightarrow> int prev \<le> b \<Longrightarrow> b < int hi \<Longrightarrow>
   \<exists>!s. s \<in> set (split_at prev cs hi) \<and> rg_left s \<le> b \<and> b \<le> rg_right s"
proof (induction cs arbitrary: prev)
  case (Cons c cs)
  have first: "int c \<le> rg_left s" if s: "s \<in> set (split_at c cs hi)" for s
  proof -
    have "rg_left s \<in> set (map int (c # cs))" using s split_at_bounds(1) [of c cs hi] by (metis image_eqI list.set_map)
    then show ?thesis using Cons.prems(1) by (auto simp: less_imp_le)
  qed
  show ?case
  proof (cases "b < int c")
    case True
    show ?thesis
    proof (rule ex1I [of _ "mk_range (int prev) (int c - 1)"])
      show "s = mk_range (int prev) (int c - 1)"
        if "s \<in> set (split_at prev (c # cs) hi) \<and> rg_left s \<le> b \<and> b \<le> rg_right s" for s
        using that first [of s] True by auto
    qed (use Cons.prems True in simp)
  next
    case False
    have "\<exists>!s. s \<in> set (split_at c cs hi) \<and> rg_left s \<le> b \<and> b \<le> rg_right s"
      using Cons.prems False by (intro Cons.IH) auto
    moreover have "\<not> b \<le> rg_right (mk_range (int prev) (int c - 1))" using False by simp
    ultimately show ?thesis by (metis (no_types, lifting) set_ConsD list.set_intros(2) split_at.simps(2))
  qed
qed auto

text \<open>
  C9. A driver's range of a port is split into nodes that tile it: they start at the range's lower end and at every cut
  point strictly inside the range, each ends where the next one starts, and every bit of the range lies in exactly one.
\<close>

theorem port_segments_tile:
  assumes "sorted_wrt (<) h" and "lo \<le> hi"
  shows "map rg_left (port_segments (Some h) (lo, hi)) = map int (lo # filter (\<lambda>c. lo < c \<and> c \<le> hi) h) \<and>
     map rg_right (port_segments (Some h) (lo, hi)) = map (\<lambda>c. int c - 1) (filter (\<lambda>c. lo < c \<and> c \<le> hi) h @ [hi + 1]) \<and>
     (\<forall>b. int lo \<le> b \<and> b \<le> int hi \<longrightarrow>
        (\<exists>!s. s \<in> set (port_segments (Some h) (lo, hi)) \<and> rg_left s \<le> b \<and> b \<le> rg_right s)) \<and>
     port_segments None (lo, hi) = port_segments (Some []) (lo, hi)"
proof -
  have cuts: "hints_between lo (hi + 1) h = filter (\<lambda>c. lo < c \<and> c \<le> hi) h"
    using hints_between_filter [OF assms(1)] by (simp add: less_Suc_eq_le)
  have "sorted_wrt (<) (lo # filter (\<lambda>c. lo < c \<and> c \<le> hi) h @ [hi + 1])"
    using assms by (auto simp: sorted_wrt_append sorted_wrt_filter)
  note unique = split_at_unique [OF this]
  have segs: "port_segments (Some h) (lo, hi) = split_at lo (filter (\<lambda>c. lo < c \<and> c \<le> hi) h) (hi + 1)"
    by (simp only: port_segments_def option.case fst_conv snd_conv cuts)
  have "port_segments None (lo, hi) = port_segments (Some []) (lo, hi)"
    by (simp add: port_segments_def hints_between_def)
  then show ?thesis
    unfolding segs using split_at_bounds unique by auto
qed

theorem port_segments_tile_witness:
  "map rg_left (port_segments (Some [0, 4, 6, 8]) (2, 7)) = [2, 4, 6] \<and>
   (\<exists>!s. s \<in> set (port_segments (Some [0, 4, 6, 8]) (2, 7)) \<and> rg_left s \<le> 5 \<and> 5 \<le> rg_right s)"
  using port_segments_tile [of "[0, 4, 6, 8]" 2 7] by simp

section \<open>What the analysis computes\<close>


text \<open>\<open>t <= ...; t[3:0] <= ...;\<close> at the nodes 0 and 1.\<close>

definition two_writes :: "(nat entry list, unit) dfa" where
  "two_writes = addNonBlockingLvalue 0 0 (mk_range 0 3) (Some 1) (addNonBlockingLvalue 0 0 (mk_range 0 7) (Some 0)
     (new_dfa None (new_builder empty_netlist)))"



text \<open>Two arms of a condition: \<open>t[3:0] = ...\<close> at node 0 and \<open>t = ...\<close> (bits 2 to 7) at node 1.\<close>

definition arm :: "nat \<Rightarrow> bit_range \<Rightarrow> (nat entry list, unit) dfa \<Rightarrow> (nat entry list, unit) dfa option" where
  "arm n r D = note_drivers small_env 0 r [\<lparr>di_node = Some n, di_lsp = Some 0\<rparr>] D"

definition first_arm :: "(nat entry list, unit) dfa option" where
  "first_arm = arm 0 (mk_range 0 3) (new_dfa None (new_builder empty_netlist))"

definition second_arm :: "(nat entry list, unit) dfa \<Rightarrow> (nat entry list, unit) dfa option" where
  "second_arm D = arm 1 (mk_range 2 7) (D\<lparr>flow := topState\<rparr>)"

lemma arm_facts:
  assumes "tracker_ok list_imap (flow_drivers D)" "cuts_once std_range list_imap (flow_drivers D) 0 r" "arm n r D = Some D'"
  shows "tracker_ok list_imap (flow_drivers D')" "reachable (flow D') = reachable (flow D)"
    "getSlot (valueTracker D) 0 = Some i \<Longrightarrow> valueTracker D' = resizeSlots i (valueTracker D)"
    "bit_drivers list_imap (flow_drivers D') 0 b =
       (if b \<in> bits_of std_range r then {Some n} else bit_drivers list_imap (flow_drivers D) 0 b)"
proof -
  obtain st where st: "addDrivers std_range list_imap 0 r [\<lparr>di_node = Some n, di_lsp = Some 0\<rparr>] False (flow_drivers D) = Some st"
    "D' = D\<lparr>valueTracker := fst st, flow := (flow D)\<lparr>valueDrivers := snd st\<rparr>\<rparr>"
    using assms(3) by (auto simp: arm_def note_drivers_def flow_drivers_def)
  then have D': "flow_drivers D' = st" by (simp add: flow_drivers_def)
  show "tracker_ok list_imap (flow_drivers D')" "bit_drivers list_imap (flow_drivers D') 0 b =
       (if b \<in> bits_of std_range r then {Some n} else bit_drivers list_imap (flow_drivers D) 0 b)"
    using driver_store.addDrivers_ok [OF std_store.driver_store_axioms assms(1), of 0 r "[\<lparr>di_node = Some n, di_lsp = Some 0\<rparr>]" False]
      assms(2) st(1) by (auto simp: D' upd_drivers_def)
  show "reachable (flow D') = reachable (flow D)" by (simp add: st(2))
  show "valueTracker D' = resizeSlots i (valueTracker D)" if "getSlot (valueTracker D) 0 = Some i"
    using addDrivers_known [OF st(1), of i] that by (simp add: st(2) getSlot_def flow_drivers_def)
qed

lemma arms_run:
  "case first_arm of None \<Rightarrow> False
   | Some D1 \<Rightarrow> getSlot (valueTracker D1) 0 = Some 0 \<and> length (valueDrivers (flow D1)) = 1 \<and>
       (case second_arm D1 of None \<Rightarrow> False
        | Some D2 \<Rightarrow> getSymbol (valueTracker D2) 0 = Some 0 \<and>
            calls_clean std_range list_imap (merge_calls list_imap (valueTracker D2) (valueDrivers (flow D1))) (flow_drivers D2))"
  by code_simp


section \<open>Reads that overlap a definition only partly\<close>

text \<open>The entries that wait for the resolution: of the queue, or of the buffer of the task that is running.\<close>

definition waiting :: "('m, 'c) builder \<Rightarrow> pending_rvalue list" where
  "waiting B = (case taskBuffer B of None \<Rightarrow> queue B | Some buf \<Rightarrow> buf)"

lemma enqueue_waiting: "waiting (enqueue p B) = waiting B @ [p]" "gr (enqueue p B) = gr B"
  by (simp_all add: waiting_def enqueue_def split: option.split)

lemma addRvalue_waiting:
  assumes "sym_kind E symb \<noteq> SymModportPort"
  shows "\<exists>B'. fold_opt (\<lambda>b. addRvalue E symb lsp b nd ro pr) bs B = Some B' \<and> gr B' = gr B \<and>
     waiting B' = waiting B @ map (\<lambda>b. \<lparr>pr_symbol = symb, pr_bounds = b, pr_lsp = lsp, pr_node = nd, pr_edgeKind = EdgeNone,
                              pr_role = ro, pr_precision = pr\<rparr>) bs"
proof (induction bs arbitrary: B)
  case (Cons b bs)
  let ?p = "\<lparr>pr_symbol = symb, pr_bounds = b, pr_lsp = lsp, pr_node = nd, pr_edgeKind = EdgeNone, pr_role = ro, pr_precision = pr\<rparr>"
  have "addRvalue E symb lsp b nd ro pr B = Some (enqueue ?p B)"
    using assms by (simp add: addRvalue_def split: option.split)
  then show ?case
    using Cons.IH [of "enqueue ?p B"] by (simp add: enqueue_waiting)
qed simp

sublocale builder_env \<subseteq> driver_store "rlib E" "imap E"
  by unfold_locales

context builder_env
begin

lemma proper_bits:
  "proper es \<Longrightarrow> \<Union> (bits_of (rlib E) ` (\<lambda>e. ivl_range (fst e)) ` set es) = covered es"
  by (force simp: covered_def ivl_covers_def proper_def bits_of_def lower_law upper_law)

lemma outside_parts_bits:
  assumes wf: "dm_wf (imap E) defs"
  shows "\<Union> (bits_of (rlib E) ` set (outside_parts E defs bnds)) =
     (bits_of (rlib E) bnds - covered (dm_entries (imap E) defs)) \<union>
     (if \<exists>e \<in> set (dm_entries (imap E) defs). snd (fst e) = upper_of (rlib E) bnds - 1 \<and> lower_of (rlib E) bnds \<le> snd (fst e)
      then {upper_of (rlib E) bnds} else {})"
proof -
  obtain h and dm :: "('m, nat) driver_map" where dm: "newDriverList (dm_empty (imap E)) = (h, dm)" by fastforce
  let ?first = "driverIntervals (dm_insert (rlib E) (imap E) bnds h dm)"
  have "driverIntervals dm = im_empty (imap E)"
    using dm by (auto simp: newDriverList_def dm_empty_def Let_def)
  then have "mset (im_entries (imap E) ?first) = {#(toPair (rlib E) bnds, h)#}"
    using entries_insert [of "toPair (rlib E) bnds" "im_empty (imap E)" h] by (simp add: dm_insert_def toPair_def entries_empty)
  then have first: "im_entries (imap E) ?first = [(toPair (rlib E) bnds, h)]" by simp
  let ?d = "difference (imap E) ?first (driverIntervals defs)"
  have "proper (im_entries (imap E) ?first)"
    by (simp add: first proper_def toPair_def)
  note proper = difference_proper [OF this, of "driverIntervals defs"]
  have "\<Union> (bits_of (rlib E) ` set (outside_parts E defs bnds)) = covered (im_entries (imap E) ?d)"
    using proper_bits [OF proper] by (simp add: outside_parts_def dm Let_def)
  also have "\<dots> = (covered [(toPair (rlib E) bnds, h)] - covered (dm_entries (imap E) defs)) \<union>
      {snd (fst e) | e e'. e \<in> set [(toPair (rlib E) bnds, h)] \<and> e' \<in> set (dm_entries (imap E) defs) \<and>
         snd (fst e') = snd (fst e) - 1 \<and> fst (fst e) \<le> snd (fst e')}"
    using difference_covers [of "driverIntervals defs" ?first] wf by (simp add: first dm_wf_def dm_entries_def)
  also have "covered [(toPair (rlib E) bnds, h)] = bits_of (rlib E) bnds"
    by (auto simp: covered_def ivl_covers_def toPair_def bits_of_def)
  also have "{snd (fst e) | e e'. e \<in> set [(toPair (rlib E) bnds, h)] \<and> e' \<in> set (dm_entries (imap E) defs) \<and>
         snd (fst e') = snd (fst e) - 1 \<and> fst (fst e) \<le> snd (fst e')} =
      (if \<exists>e \<in> set (dm_entries (imap E) defs). snd (fst e) = upper_of (rlib E) bnds - 1 \<and> lower_of (rlib E) bnds \<le> snd (fst e)
       then {upper_of (rlib E) bnds} else {})"
    by (simp add: toPair_def Bex_def) auto
  finally show ?thesis .
qed

lemma rvalue_loop_partial:
  assumes "\<And>e. e \<in> set es \<Longrightarrow> getDriverList (snd e) defs \<noteq> None \<and>
      \<not> contains_of (rlib E) (ivl_range (fst e)) bnds \<and> \<not> contains_of (rlib E) bnds (ivl_range (fst e))"
  shows "rvalue_loop E defs n ref bnds ro pr es B = Some (False, B)"
  using assms
proof (induction es)
  case (Cons e es)
  obtain ds where "getDriverList (snd e) defs = Some ds" using Cons.prems [of e] by auto
  then show ?case using Cons by simp
qed simp

lemma handleRvalue_partial:
  assumes "tracker_ok (imap E) (valueTracker D, valueDrivers (flow D))"
    and "cur_node (flow D) = Some n" "sym_kind E symb \<noteq> SymModportPort"
    and "getSlot (valueTracker D) symb = Some i" "i < length (valueDrivers (flow D))"
    and "\<forall>e \<in> set (dm_entries (imap E) (valueDrivers (flow D) ! i)). overlaps_of (rlib E) (ivl_range (fst e)) bnds \<longrightarrow>
      \<not> contains_of (rlib E) (ivl_range (fst e)) bnds \<and> \<not> contains_of (rlib E) bnds (ivl_range (fst e))"
  shows "\<exists>D' new. handleRvalue E symb lsp bnds D = Some D' \<and> gr (bld D') = gr (bld D) \<and>
     waiting (bld D') = waiting (bld D) @ new \<and> (\<forall>p \<in> set new. pr_symbol p = symb \<and> pr_node p = Some n) \<and>
     \<Union> (bits_of (rlib E) ` pr_bounds ` set new) =
       (bits_of (rlib E) bnds - covered (dm_entries (imap E) (valueDrivers (flow D) ! i))) \<union>
       (if \<exists>e \<in> set (dm_entries (imap E) (valueDrivers (flow D) ! i)). snd (fst e) = upper_of (rlib E) bnds - 1 \<and>
            lower_of (rlib E) bnds \<le> snd (fst e)
        then {upper_of (rlib E) bnds} else {})"
proof -
  let ?defs = "valueDrivers (flow D) ! i"
  let ?p = "\<lambda>b. \<lparr>pr_symbol = symb, pr_bounds = b, pr_lsp = lsp, pr_node = Some n,
        pr_edgeKind = EdgeNone, pr_role = dependencyRole D, pr_precision = dependencyPrecision D\<rparr>"
  have wf: "dm_wf (imap E) ?defs" using assms(1,5) by (simp add: tracker_ok_slots)
  obtain ref B1 where ref: "toSymbolRef E symb (bld D) = (ref, B1)" by fastforce
  have B1: "gr B1 = gr (bld D)" "waiting B1 = waiting (bld D)"
    using toSymbolRef_fields(1,6,7) [of E symb "bld D"] by (simp_all add: waiting_def ref split: option.split)
  have loop: "rvalue_loop E ?defs n ref bnds ro pr (dm_find (rlib E) (imap E) bnds ?defs) B1 = Some (False, B1)" for ro pr
  proof (rule rvalue_loop_partial)
    fix e assume "e \<in> set (dm_find (rlib E) (imap E) bnds ?defs)"
    then have e: "e \<in> set (dm_entries (imap E) ?defs)" "ivl_overlaps (toPair (rlib E) bnds) e" by (simp_all add: set_dm_find)
    then have "overlaps_of (rlib E) (ivl_range (fst e)) bnds"
      using wf_entryD(1) [OF wf e(1)] by (auto simp: overlaps_law ivl_overlaps_def toPair_def lower_law upper_law)
    then show "getDriverList (snd e) ?defs \<noteq> None \<and> \<not> contains_of (rlib E) (ivl_range (fst e)) bnds \<and>
        \<not> contains_of (rlib E) bnds (ivl_range (fst e))"
      using assms(6) e(1) wf_entryD(2) [OF wf e(1)] by auto
  qed
  obtain B2 where B2: "fold_opt (\<lambda>b. addRvalue E symb lsp b (Some n) (dependencyRole D) (dependencyPrecision D)) (outside_parts E ?defs bnds) B1 = Some B2"
    "gr B2 = gr B1" "waiting B2 = waiting B1 @ map ?p (outside_parts E ?defs bnds)"
    using addRvalue_waiting [OF assms(3), of lsp "Some n"] by blast
  have "handleRvalue E symb lsp bnds D = Some (set_bld D B2)"
    using assms(2,4,5) ref loop B2(1) by (simp add: handleRvalue_def Let_def split_beta)
  moreover have "gr (bld (set_bld D B2)) = gr (bld D)"
    using B1 B2(2) by (simp add: set_bld_def)
  moreover have "waiting (bld (set_bld D B2)) = waiting (bld D) @ map ?p (outside_parts E ?defs bnds)"
    using B1 B2(3) by (simp add: set_bld_def)
  moreover have "\<Union> (bits_of (rlib E) ` pr_bounds ` set (map ?p (outside_parts E ?defs bnds))) =
      \<Union> (bits_of (rlib E) ` set (outside_parts E ?defs bnds))"
    by (simp add: image_image)
  moreover have "\<forall>p \<in> set (map ?p (outside_parts E ?defs bnds)). pr_symbol p = symb \<and> pr_node p = Some n"
    by simp
  ultimately show ?thesis
    unfolding outside_parts_bits [OF wf, of bnds, symmetric] by blast
qed

end


lemma first_arm_runs:
  "case first_arm of None \<Rightarrow> False
   | Some D1 \<Rightarrow> getSlot (valueTracker D1) 0 = Some 0 \<and> length (valueDrivers (flow D1)) = 1 \<and>
       dm_entries list_imap (valueDrivers (flow D1) ! 0) = [((0, 3), 0)]"
  by code_simp


end
