(* ===== verification/ResolutionProps.thy ===== *)
theory ResolutionProps
  imports Resolution FlowProps Queries
begin

text \<open>The properties of the resolution of pending R-values, with small runs that witness them.\<close>

section \<open>Properties\<close>

text \<open>
  C8. In a builder whose invariant holds (\<open>builder_ok\<close>) and whose recorded intervals are disjoint and all have their
  driver list (\<open>lists_there\<close>), resolving a pending R-value (\<open>emitEdgesFor\<close>) always succeeds and adds exactly the
  dependencies of the bits that are read: afterwards two nodes are linked iff they were before or the second is the reader and the first is a source of one of
  the bits - the variable or state node of exactly the bounds read, or else a driver of the bit. The edges to the reader
  carry, of the symbol, each such bit that lies within the source's own bounds, and nothing that is not read from it.
\<close>

theorem read_gets_its_drivers:
  assumes "constant_range (rlib E)" "interval_map (imap E)" "builder_ok E B" "lists_there E B"
    and "pr_node p = Some n" "n \<in> set (nodes (gr B))"
  shows "\<exists>B'. emitEdgesFor E p B = Some B' \<and> nodes (gr B') = nodes (gr B) \<and>
     (\<forall>d m. linked (gr B') d m \<longleftrightarrow> linked (gr B) d m \<or>
        (m = n \<and> (\<exists>b \<in> bits_of (rlib E) (pr_bounds p). d \<in> read_sources E B p b))) \<and>
     (\<forall>d. let r = fst (toSymbolRef E (pr_symbol p) B); new = {b \<in> bits_of (rlib E) (pr_bounds p). d \<in> read_sources E B p b}
        in carried (rlib E) (gr B) r d n \<union> {b \<in> new. own_bit E (gr B) d b} \<subseteq> carried (rlib E) (gr B') r d n \<and>
           carried (rlib E) (gr B') r d n \<subseteq> carried (rlib E) (gr B) r d n \<union> new)"
  using builder_env.read_spec [OF builder_env.intro [OF assms(1,2)] assms(3-6)] .

definition assignments :: "(nat entry list, unit) builder" where
  "assignments = ((snd \<circ> createAssignment small_env 0) ^^ 3) (new_builder empty_netlist)"

text \<open>Node 0 drives bits 0 to 3 of symbol 0; node 1 reads its bits 2 to 5, node 2 its bits 4 and 5.\<close>

definition written :: "(nat entry list, unit) builder option" where
  "written = addDriver small_env 0 None (mk_range 0 3) 0 assignments"

definition read_at :: "nat \<Rightarrow> int \<Rightarrow> int \<Rightarrow> pending_rvalue" where
  "read_at n lo hi = (pending_to (Some n))\<lparr>pr_bounds := mk_range lo hi\<rparr>"

lemma assignments_facts: "builder_ok small_env assignments" "nodes (gr assignments) = [0, 1, 2]" "variables assignments = Map.empty"
  "queue assignments = []" "drivers assignments = []" "driverMap assignments = vt_new" "taskBuffer assignments = None"
proof -
  have "builder_ok small_env (((snd \<circ> createAssignment small_env 0) ^^ k) (new_builder (empty_netlist :: unit netlist)))" for k
    by (induction k) (simp_all add: new_builder_ok keepsD(1) [OF small.create_keeps(1)])
  then show "builder_ok small_env assignments"
    unfolding assignments_def .
  show "nodes (gr assignments) = [0, 1, 2]" by code_simp
  show "queue assignments = []" "drivers assignments = []" "driverMap assignments = vt_new" "taskBuffer assignments = None" "variables assignments = Map.empty"
    by (simp_all add: assignments_def numeral_3_eq_3 createAssignment_def toTextLocation_def small_env_def new_node_def Let_def set_gr_def new_builder_def)
qed

lemma written_facts:
  "\<exists>B. written = Some B \<and> builder_ok small_env B \<and> lists_there small_env B \<and> nodes (gr B) = [0, 1, 2] \<and>
     taskBuffer B = None \<and> queue B = [] \<and> gr B = gr assignments \<and>
     (\<forall>p b. pr_symbol p = 0 \<longrightarrow> read_sources small_env B p b = (if 0 \<le> b \<and> b \<le> 3 then {0} else {}))"
proof -
  note f = assignments_facts
  have st0: "tracker_ok list_imap (driverMap assignments, drivers assignments)" "cuts_once std_range list_imap (driverMap assignments, drivers assignments) 0 r"
    "bit_drivers list_imap (driverMap assignments, drivers assignments) 0 b = {}" for r b
    by (simp_all add: f tracker_ok_slots slots_ok_def cuts_once_def bit_drivers_def getSlot_def vt_new_def)
  let ?ds = "[\<lparr>di_node = Some 0, di_lsp = None\<rparr>] :: nat driver_list"
  obtain st where st: "addDrivers std_range list_imap 0 (mk_range 0 3) ?ds False (driverMap assignments, drivers assignments) = Some st"
    and ok0: "tracker_ok list_imap st"
    and bits: "\<And>s b. bit_drivers list_imap st s b = (if s = 0
        then upd_drivers std_range False ?ds (mk_range 0 3) (bit_drivers list_imap (driverMap assignments, drivers assignments) 0) b
        else bit_drivers list_imap (driverMap assignments, drivers assignments) s b)"
    using driver_store.addDrivers_ok [OF std_store.driver_store_axioms st0(1), of 0 "mk_range 0 3" ?ds False] st0(2) [of "mk_range 0 3"]
    by blast
  let ?B = "assignments\<lparr>driverMap := fst st, drivers := snd st\<rparr>"
  have run: "written = Some ?B"
    by (simp add: written_def addDriver_def add_drivers_def st)
  have "pred_option (keeps small_env assignments) written"
    unfolding written_def addDriver_def using f(2) by (intro small.add_drivers_keeps f(1)) (simp add: dl_nodes_def live_def)
  then have ok: "builder_ok small_env ?B"
    by (simp add: run keepsD(1))
  have "lists_there small_env ?B"
    using ok0 by (simp add: lists_there_def tracker_ok_slots)
  moreover have "read_sources small_env ?B p b = (if 0 \<le> b \<and> b \<le> 3 then {0} else {})" if "pr_symbol p = 0" for p b
    using bits [of 0 b] that by (simp add: read_sources_def getVariable_def f(3) upd_drivers_def st0(3) bits_of_def std_range_def)
  ultimately show ?thesis
    using run ok f by (intro exI [of _ ?B] conjI allI impI) simp_all
qed

lemma assignments_graph: "edgeAt (gr assignments) = Map.empty" "getBounds (ndata (gr assignments) 0) = None"
proof -
  have "edgeAt (gr (((snd \<circ> createAssignment small_env 0) ^^ k) (new_builder (empty_netlist :: unit netlist)))) = Map.empty" for k
  proof (induction k)
    case (Suc k)
    then show ?case
      by (simp add: createAssignment_def small_env_def toTextLocation_def new_node_def split_beta Let_def set_gr_def addNode_keeps_edges)
  qed (simp add: new_builder_def empty_netlist_def empty_digraph_def)
  then show "edgeAt (gr assignments) = Map.empty"
    unfolding assignments_def .
  show "getBounds (ndata (gr assignments) 0) = None"
    by code_simp
qed

lemma read_at_simps [simp]: "pr_symbol (read_at n lo hi) = 0" "pr_bounds (read_at n lo hi) = mk_range lo hi" "pr_node (read_at n lo hi) = Some n"
  by (simp_all add: read_at_def pending_to_def)

lemma no_links: "edgeAt g = Map.empty \<Longrightarrow> \<not> linked g x y" "edgeAt g = Map.empty \<Longrightarrow> carried R g r x y = {}"
  by (simp_all add: linked_def carried_def)

theorem read_gets_its_drivers_witness:
  "\<exists>B B'. written = Some B \<and> emitEdgesFor small_env (read_at 1 2 5) B = Some B' \<and> linked (gr B') 0 1 \<and> \<not> linked (gr B') 0 2 \<and>
     carried std_range (gr B') (fst (toSymbolRef small_env 0 B)) 0 1 = {2, 3}"
proof -
  obtain B where B: "written = Some B" "builder_ok small_env B" "lists_there small_env B" "nodes (gr B) = [0, 1, 2]"
    "gr B = gr assignments" and src: "\<forall>p b. pr_symbol p = 0 \<longrightarrow> read_sources small_env B p b = (if 0 \<le> b \<and> b \<le> 3 then {0} else {})"
    using written_facts by blast
  have bits: "bits_of (rlib small_env) (pr_bounds (read_at 1 2 5)) = {2..5}"
    by (simp add: bits_of_def std_range_def)
  have new: "{b \<in> {2..5}. 0 \<in> read_sources small_env B (read_at 1 2 5) b} = {2, 3}"
    by (auto simp: src)
  have none: "\<not> linked (gr B) x y" "carried R (gr B) r x y = {}" "own_bit small_env (gr B) 0 b" for x y R r b
    using no_links [OF assignments_graph(1)] assignments_graph(2) by (simp_all add: B(5) own_bit_def)
  have some: "\<exists>b \<in> {2..5}. 0 \<in> read_sources small_env B (read_at 1 2 5) b"
    by (rule bexI [of _ 2]) (simp_all add: src)
  obtain B' where run: "emitEdgesFor small_env (read_at 1 2 5) B = Some B'"
    and links: "\<forall>d m. linked (gr B') d m \<longleftrightarrow> linked (gr B) d m \<or>
        (m = 1 \<and> (\<exists>b \<in> bits_of (rlib small_env) (pr_bounds (read_at 1 2 5)). d \<in> read_sources small_env B (read_at 1 2 5) b))"
    and car: "\<forall>d. let r = fst (toSymbolRef small_env (pr_symbol (read_at 1 2 5)) B);
          new = {b \<in> bits_of (rlib small_env) (pr_bounds (read_at 1 2 5)). d \<in> read_sources small_env B (read_at 1 2 5) b}
        in carried (rlib small_env) (gr B) r d 1 \<union> {b \<in> new. own_bit small_env (gr B) d b} \<subseteq> carried (rlib small_env) (gr B') r d 1 \<and>
           carried (rlib small_env) (gr B') r d 1 \<subseteq> carried (rlib small_env) (gr B) r d 1 \<union> new"
    using read_gets_its_drivers [OF small_laws B(2,3), of "read_at 1 2 5" 1] read_at_simps(3) B(4) by auto
  have "carried std_range (gr B') (fst (toSymbolRef small_env 0 B)) 0 1 = {2, 3}"
    using car [rule_format, of 0] unfolding bits Let_def new by (simp add: none) blast
  moreover have "linked (gr B') 0 1" "\<not> linked (gr B') 0 2"
    using links some unfolding bits by (simp_all add: none)
  ultimately show ?thesis
    using B(1) run by blast
qed

text \<open>
  C7. In a builder whose invariant holds (\<open>builder_ok\<close>) and whose recorded intervals are disjoint and all have their
  driver list (\<open>lists_there\<close>), resolving the queue always succeeds, empties it and adds exactly the dependencies of all
  its entries: afterwards two nodes are linked iff they were before or some entry of the second reads a bit of which the first is a source. What is
  on the right does not depend on how it is resolved, so the sequential resolution and the parallel one link the same
  nodes, for every order of the sort, every division of the runs into blocks and every order of the blocks.
\<close>

theorem resolution_links_exactly:
  assumes "constant_range (rlib E)" "interval_map (imap E)" "schedule_ok sch" "builder_ok E B" "lists_there E B"
  shows "\<exists>B'. resolve E sch pool B = Some B' \<and> queue B' = [] \<and> nodes (gr B') = nodes (gr B) \<and>
     (\<forall>d m. linked (gr B') d m \<longleftrightarrow> linked (gr B) d m \<or>
        (\<exists>p \<in> set (queue B). pr_node p = Some m \<and> (\<exists>b \<in> bits_of (rlib E) (pr_bounds p). d \<in> read_sources E B p b)))"
proof -
  obtain B' where run: "resolve E sch pool B = Some (B'\<lparr>queue := []\<rparr>)"
    and g: "only_grows E B B' (\<Union> (read_links E B ` set (queue B)))"
    using builder_env.resolve_grows [OF builder_env.intro [OF assms(1,2)] assms(3-5)] by blast
  have "linked (gr B') d m \<longleftrightarrow> linked (gr B) d m \<or>
        (\<exists>p \<in> set (queue B). pr_node p = Some m \<and> (\<exists>b \<in> bits_of (rlib E) (pr_bounds p). d \<in> read_sources E B p b))" for d m
    using only_growsD(8) [OF g, of d m] by (auto simp: read_links_def)
  then show ?thesis
    using run only_growsD(2) [OF g] by simp
qed

text \<open>The threshold of the parallel resolution lowered, so that a queue of two entries is resolved in parallel.\<close>

definition eager_env :: "(nat entry list, unit) env" where
  "eager_env = small_env\<lparr>parallelRValueThreshold := 0\<rparr>"

lemma eager_same: "rlib eager_env = std_range" "imap eager_env = list_imap" "builder_ok eager_env B = builder_ok small_env B"
  "lists_there eager_env B = lists_there small_env B"
  by (simp_all add: eager_env_def builder_ok_def pointers_ok_def lists_there_def)

theorem resolution_links_exactly_witness:
  "\<exists>B B'. written = Some B \<and> resolves_in_parallel eager_env True (enqueue (read_at 2 4 5) (enqueue (read_at 1 2 5) B)) \<and>
     resolve eager_env in_order True (enqueue (read_at 2 4 5) (enqueue (read_at 1 2 5) B)) = Some B' \<and>
     linked (gr B') 0 1 \<and> \<not> linked (gr B') 0 2"
proof -
  obtain B where B: "written = Some B" "builder_ok small_env B" "lists_there small_env B" "nodes (gr B) = [0, 1, 2]"
    "taskBuffer B = None" "queue B = []" "gr B = gr assignments"
    and src: "\<forall>p b. pr_symbol p = 0 \<longrightarrow> read_sources small_env B p b = (if 0 \<le> b \<and> b \<le> 3 then {0} else {})"
    using written_facts by blast
  let ?Q = "enqueue (read_at 2 4 5) (enqueue (read_at 1 2 5) B)"
  have q: "?Q = B\<lparr>queue := [read_at 1 2 5, read_at 2 4 5]\<rparr>"
    using B(5,6) by (simp add: enqueue_def)
  have "builder_ok eager_env ?Q" "lists_there eager_env ?Q"
    using B(2-4) unfolding eager_same q by (auto simp: builder_ok_def pointers_ok_def ids_ok_def lists_there_def live_def)
  from resolution_links_exactly [OF _ _ in_order_ok this, of True]
  obtain B' where run: "resolve eager_env in_order True ?Q = Some B'"
    and links: "\<forall>d m. linked (gr B') d m \<longleftrightarrow> linked (gr ?Q) d m \<or>
        (\<exists>p \<in> set (queue ?Q). pr_node p = Some m \<and> (\<exists>b \<in> bits_of (rlib eager_env) (pr_bounds p). d \<in> read_sources eager_env ?Q p b))"
    using small_laws unfolding eager_same by auto
  let ?P = "B\<lparr>queue := [read_at 1 2 5, read_at 2 4 5]\<rparr>"
  have sources: "read_sources eager_env (B\<lparr>queue := Q\<rparr>) p b = (if 0 \<le> b \<and> b \<le> 3 then {0} else {})" if "pr_symbol p = 0" for Q p b
    using src that read_sources_cong [of eager_env small_env "B\<lparr>queue := Q\<rparr>" B p] by (simp add: eager_same)
  have bits: "bits_of (rlib eager_env) (mk_range lo hi) = {lo..hi}" if "lo \<le> hi" for lo hi
    using that by (simp add: eager_same bits_of_def std_range_def)
  have "linked (gr B') d m \<longleftrightarrow> d = 0 \<and> m = 1" for d m
  proof -
    have "linked (gr B') d m \<longleftrightarrow> (\<exists>p \<in> {read_at 1 2 5, read_at 2 4 5}. pr_node p = Some m \<and>
        (\<exists>b \<in> bits_of (rlib eager_env) (pr_bounds p). d \<in> read_sources eager_env ?P p b))"
      using links [unfolded q] no_links(1) [OF assignments_graph(1)] by (simp add: B(7))
    also have "\<dots> \<longleftrightarrow> d = 0 \<and> m = 1"
      by (auto simp: sources bits intro!: bexI [of _ 2])
    finally show ?thesis .
  qed
  moreover have "resolves_in_parallel eager_env True ?Q"
    by (simp add: resolves_in_parallel_def eager_env_def small_env_def)
  ultimately show ?thesis
    using B(1) run by auto
qed

section \<open>Two symbols on one edge\<close>

lemma addDependency_overwrites:
  assumes "graph_ok (gr B)" "s \<in> set (nodes (gr B))" "t \<in> set (nodes (gr B))"
    and run: "addDependency E s t (Some r) bnds k ro pr B = Some B'"
    and one: "\<And>x y. edgeAt (gr B) x \<noteq> None \<and> esrc (gr B) x = s \<and> etgt (gr B) x = t \<Longrightarrow>
        edgeAt (gr B) y \<noteq> None \<and> esrc (gr B) y = s \<and> etgt (gr B) y = t \<Longrightarrow> x = y"
    and other: "\<And>x. edgeAt (gr B) x \<noteq> None \<Longrightarrow> esrc (gr B) x = s \<Longrightarrow> etgt (gr B) x = t \<Longrightarrow> symbol (einfo (gr B) x) \<noteq> Some r"
  shows "graph_ok (gr B') \<and> nodes (gr B') = nodes (gr B) \<and>
     (\<exists>e. (\<forall>x. edgeAt (gr B') x \<noteq> None \<and> esrc (gr B') x = s \<and> etgt (gr B') x = t \<longleftrightarrow> x = e) \<and> symbol (einfo (gr B') e) = Some r)"
proof -
  let ?eb = "edge_bounds (rlib E) (gr B) s bnds"
  obtain e g where add: "node_addEdge new_edge s t (gr B) = (e, g)" by fastforce
  have g: "graph_ok g \<and> nodes g = nodes (gr B) \<and> symbol (einfo g e) \<noteq> Some r \<and>
      (\<forall>x. edgeAt g x \<noteq> None \<and> esrc g x = s \<and> etgt g x = t \<longleftrightarrow> x = e)"
    using assms(1-3) add
  proof (cases rule: node_addEdge_cases)
    case old
    then show ?thesis using assms(1) one other by blast
  next
    case new
    have "edgeAt g x \<noteq> None \<and> esrc g x = s \<and> etgt g x = t \<longleftrightarrow> x = e" for x
      using new(4,6) by (cases "x = e") (auto simp: new(5) esrc_def etgt_def)
    then show ?thesis using new(1,2,5) by (simp add: einfo_def new_edge_def)
  qed
  then have e: "edgeAt g e \<noteq> None" by blast
  have "setVariable (rlib E) (Some r) ?eb (einfo g e) = Some (True, (einfo g e)\<lparr>symbol := Some r, bounds := ?eb\<rparr>)"
    using g by (simp add: setVariable_def)
  then obtain i where B': "B' = set_gr (set_einfo e i g) B" and i: "symbol i = Some r"
    using run by (auto simp: addDependency_def Let_def add setSemantics_def setEdgeKind_def)
  then show ?thesis
    using g e by (auto simp: set_gr_def set_einfo_ok einfo_set intro!: exI [of _ e])
qed

text \<open>
  C35. An edge holds one symbol: when a node drives two symbols that the same node reads, the second dependency reuses the
  edge of the first and overwrites its symbol. The nodes stay linked, but no edge carries a bit of the first symbol any
  more, so a query for that signal does not see the dependency.
\<close>

theorem shared_edge_forgets_symbol:
  assumes "graph_ok (gr B)" "s \<in> set (nodes (gr B))" "t \<in> set (nodes (gr B))" "\<not> linked (gr B) s t" "r \<noteq> r'"
    and "addDependency E s t (Some r) bnds k ro pr B = Some B1" "addDependency E s t (Some r') bnds' k' ro' pr' B1 = Some B2"
  shows "carried (rlib E) (gr B2) r s t = {} \<and> linked (gr B1) s t \<and> linked (gr B2) s t \<and>
     (\<exists>e. edgeAt (gr B1) e \<noteq> None \<and> esrc (gr B1) e = s \<and> etgt (gr B1) e = t \<and> symbol (einfo (gr B1) e) = Some r)"
proof -
  have none: "\<not> (edgeAt (gr B) x \<noteq> None \<and> esrc (gr B) x = s \<and> etgt (gr B) x = t)" for x
    using assms(4) by (auto simp: linked_def)
  obtain e where 1: "graph_ok (gr B1)" "nodes (gr B1) = nodes (gr B)" "symbol (einfo (gr B1) e) = Some r"
    "\<And>x. edgeAt (gr B1) x \<noteq> None \<and> esrc (gr B1) x = s \<and> etgt (gr B1) x = t \<longleftrightarrow> x = e"
    using addDependency_overwrites [OF assms(1-3,6)] none by blast
  obtain e' where 2: "symbol (einfo (gr B2) e') = Some r'"
    "\<And>x. edgeAt (gr B2) x \<noteq> None \<and> esrc (gr B2) x = s \<and> etgt (gr B2) x = t \<longleftrightarrow> x = e'"
  proof -
    have "symbol (einfo (gr B1) x) \<noteq> Some r'" if "edgeAt (gr B1) x \<noteq> None" "esrc (gr B1) x = s" "etgt (gr B1) x = t" for x
    proof -
      have "x = e" using 1(4) that by blast
      then show ?thesis using 1(3) assms(5) by simp
    qed
    note other = this
    have nodes1: "s \<in> set (nodes (gr B1))" "t \<in> set (nodes (gr B1))"
      using assms(2,3) 1(2) by simp_all
    have "x = y" if "edgeAt (gr B1) x \<noteq> None \<and> esrc (gr B1) x = s \<and> etgt (gr B1) x = t"
      "edgeAt (gr B1) y \<noteq> None \<and> esrc (gr B1) y = s \<and> etgt (gr B1) y = t" for x y
      using that unfolding 1(4) by simp
    from addDependency_overwrites [OF 1(1) nodes1 assms(7) this other]
    show thesis using that by blast
  qed
  have "x \<notin> carried (rlib E) (gr B2) r s t" for x
  proof
    assume "x \<in> carried (rlib E) (gr B2) r s t"
    then obtain z where "edgeAt (gr B2) z \<noteq> None \<and> esrc (gr B2) z = s \<and> etgt (gr B2) z = t" "symbol (einfo (gr B2) z) = Some r"
      unfolding in_carried by blast
    then show False using 2 assms(5) by simp
  qed
  moreover have "linked (gr B1) s t" "linked (gr B2) s t"
    unfolding linked_def using 1(4) 2(2) by blast+
  ultimately show ?thesis
    using 1(3,4) by blast
qed

text \<open>
  \<open>assign {a, b} = x; assign y = a & b;\<close> without bit alignment: the assignment of node 0 drives symbols 0 and 1 (\<open>a\<close> and
  \<open>b\<close>), the assignment of node 1 reads both.
\<close>

definition concat_read :: "(nat entry list, unit) builder option" where
  "concat_read =
     and_then (addDriver small_env 0 None (mk_range 0 3) 0 assignments) (\<lambda>B.
       and_then (addDriver small_env 1 None (mk_range 0 3) 0 B) (\<lambda>B.
         resolveSequential small_env (enqueue ((read_at 1 0 3)\<lparr>pr_symbol := 1\<rparr>) (enqueue (read_at 1 0 3) B))))"

theorem shared_edge_forgets_symbol_witness:
  "\<exists>B1 B2. addDependency small_env 0 1 (Some 0) (mk_range 0 3) EdgeNone Data Range assignments = Some B1 \<and>
     addDependency small_env 0 1 (Some 1) (mk_range 0 3) EdgeNone Data Range B1 = Some B2 \<and>
     linked (gr B2) 0 1 \<and> carried std_range (gr B2) 0 0 1 = {} \<and>
     (case concat_read of None \<Rightarrow> False
      | Some B \<Rightarrow> hasSignal (sym_path small_env 1) (bgraph B) \<and> \<not> hasSignal (sym_path small_env 0) (bgraph B))"
proof -
  have run: "case concat_read of None \<Rightarrow> False
      | Some B \<Rightarrow> hasSignal (sym_path small_env 1) (bgraph B) \<and> \<not> hasSignal (sym_path small_env 0) (bgraph B)"
    by code_simp
  have ok: "graph_ok (gr assignments)" "0 \<in> set (nodes (gr assignments))" "1 \<in> set (nodes (gr assignments))" "\<not> linked (gr assignments) 0 1"
    using builder_okD(1) [OF assignments_facts(1)] assignments_facts(2) no_links [OF assignments_graph(1)] by simp_all
  have runs: "case addDependency small_env 0 1 (Some 0) (mk_range 0 3) EdgeNone Data Range assignments of None \<Rightarrow> False
      | Some B1 \<Rightarrow> addDependency small_env 0 1 (Some 1) (mk_range 0 3) EdgeNone Data Range B1 \<noteq> None"
    by code_simp
  obtain B1 B2 where B: "addDependency small_env 0 1 (Some 0) (mk_range 0 3) EdgeNone Data Range assignments = Some B1"
    "addDependency small_env 0 1 (Some 1) (mk_range 0 3) EdgeNone Data Range B1 = Some B2"
    using case_SomeD [OF runs] by blast
  then show ?thesis
    using shared_edge_forgets_symbol [OF ok _ B] run by auto
qed

end
