(* ===== verification/Profile.thy ===== *)
theory Profile
  imports FlowProps
begin

text \<open>
  The profile of a build, \<^verbatim>\<open>include/netlist/BuildProfile.hpp\<close>, and where \<^verbatim>\<open>source/BuildPipeline.cpp\<close>,
  \<^verbatim>\<open>source/PendingRvalueQueue.cpp\<close> and \<open>NetlistGraph::build\<close> fill it in.

  Seconds are \<open>double\<close>s. Their arithmetic is a parameter: a record of operations, with as laws what the statistics need of
  it; the readings of the clock are a parameter too. The phases themselves are those of theory Pipeline.
\<close>

section \<open>Seconds\<close>

record 's seconds_ops =
  sec_zero :: 's
  sec_add :: "'s \<Rightarrow> 's \<Rightarrow> 's"
  sec_per :: "'s \<Rightarrow> nat \<Rightarrow> 's"
  sec_half :: "'s \<Rightarrow> 's"
  sec_less :: "'s \<Rightarrow> 's \<Rightarrow> bool"

text \<open>
  Durations are finite: their order is total, and half the sum of two of them, rounded to nearest, lies between them.
\<close>

locale seconds =
  fixes A :: "'s seconds_ops"
  assumes irreflexive: "\<not> sec_less A x x"
    and transitive: "sec_less A x y \<Longrightarrow> sec_less A y z \<Longrightarrow> sec_less A x z"
    and total_order: "sec_less A x y \<or> x = y \<or> sec_less A y x"
    and middle: "\<not> sec_less A y x \<Longrightarrow> \<not> sec_less A (sec_half A (sec_add A x y)) x \<and> \<not> sec_less A y (sec_half A (sec_add A x y))"

definition sec_le :: "'s seconds_ops \<Rightarrow> 's \<Rightarrow> 's \<Rightarrow> bool" where
  "sec_le A x y \<longleftrightarrow> \<not> sec_less A y x"

text \<open>\<open>std::sort\<close> of durations.\<close>

fun insert_seconds :: "'s seconds_ops \<Rightarrow> 's \<Rightarrow> 's list \<Rightarrow> 's list" where
  "insert_seconds A x [] = [x]"
| "insert_seconds A x (y # ys) = (if sec_less A y x then y # insert_seconds A x ys else x # y # ys)"

definition sort_seconds :: "'s seconds_ops \<Rightarrow> 's list \<Rightarrow> 's list" where
  "sort_seconds A xs = foldr (insert_seconds A) xs []"

lemma mset_insert_seconds [simp]: "mset (insert_seconds A x xs) = add_mset x (mset xs)"
  by (induction xs) simp_all

lemma mset_sort_seconds [simp]: "mset (sort_seconds A xs) = mset xs"
  by (induction xs) (simp_all add: sort_seconds_def)

lemma sort_seconds_simps [simp]:
  "set (sort_seconds A xs) = set xs" "length (sort_seconds A xs) = length xs" "sort_seconds A xs = [] \<longleftrightarrow> xs = []"
  using mset_sort_seconds [of A xs] mset_eq_setD mset_eq_length [of "sort_seconds A xs" xs] by (blast, simp, metis mset_zero_iff)

context seconds
begin

lemma sec_le_refl [simp]: "sec_le A x x"
  by (simp add: sec_le_def irreflexive)

lemma sec_le_trans: "sec_le A x y \<Longrightarrow> sec_le A y z \<Longrightarrow> sec_le A x z"
  using total_order [of x y] total_order [of y z] transitive unfolding sec_le_def by metis

lemma insert_sorted: "sorted_wrt (sec_le A) xs \<Longrightarrow> sorted_wrt (sec_le A) (insert_seconds A x xs)"
proof (induction xs)
  case (Cons y ys)
  show ?case
  proof (cases "sec_less A y x")
    case True
    then have "sec_le A y x" using transitive irreflexive by (auto simp: sec_le_def)
    moreover have "set (insert_seconds A x ys) = insert x (set ys)"
      using mset_eq_setD [of "insert_seconds A x ys" "x # ys"] by simp
    ultimately show ?thesis using Cons True by auto
  next
    case False
    then have "sec_le A x y" by (simp add: sec_le_def)
    then show ?thesis using Cons.prems False by (auto intro: sec_le_trans)
  qed
qed simp

lemma sort_sorted: "sorted_wrt (sec_le A) (sort_seconds A xs)"
  unfolding sort_seconds_def by (induction xs) (simp_all add: insert_sorted)

text \<open>The middle of a sorted list, and how many of its elements are on each side of it.\<close>

lemma sorted_median:
  fixes xs
  assumes srt: "sorted_wrt (sec_le A) xs" and ne: "xs \<noteq> []"
  defines "m \<equiv> (if odd (length xs) then xs ! (length xs div 2)
                 else sec_half A (sec_add A (xs ! (length xs div 2 - 1)) (xs ! (length xs div 2))))"
  shows "sec_le A (xs ! ((length xs - 1) div 2)) m" "sec_le A m (xs ! (length xs div 2))"
proof -
  let ?n = "length xs"
  have "sec_le A (xs ! ((?n - 1) div 2)) m \<and> sec_le A m (xs ! (?n div 2))"
  proof (cases "odd ?n")
    case True
    then have "(?n - 1) div 2 = ?n div 2" by (auto elim: oddE)
    then show ?thesis using True by (simp add: m_def)
  next
    case False
    then obtain k where k: "?n = 2 * Suc k"
      using ne by (metis evenE length_0_conv mult_0_right not0_implies_Suc)
    then have idx: "(?n - 1) div 2 = k" "?n div 2 = Suc k" by simp_all
    have m: "m = sec_half A (sec_add A (xs ! k) (xs ! Suc k))"
      using False by (simp add: m_def idx(2))
    have "sec_le A (xs ! k) (xs ! Suc k)"
      using sorted_wrt_nth_less [OF srt, of k "Suc k"] k by simp
    then show ?thesis
      unfolding idx m sec_le_def by (rule middle)
  qed
  then show "sec_le A (xs ! ((?n - 1) div 2)) m" "sec_le A m (xs ! (?n div 2))" by blast+
qed

lemma sorted_nth: "sorted_wrt (sec_le A) xs \<Longrightarrow> i \<le> j \<Longrightarrow> j < length xs \<Longrightarrow> sec_le A (xs ! i) (xs ! j)"
  using sorted_wrt_nth_less [of "sec_le A" xs i j] by (cases "i = j") simp_all

lemma half_below:
  assumes "sorted_wrt (sec_le A) xs" "xs \<noteq> []" "sec_le A (xs ! ((length xs - 1) div 2)) m"
  shows "length xs \<le> 2 * length (filter (\<lambda>t. sec_le A t m) xs)"
proof -
  let ?k = "Suc ((length xs - 1) div 2)"
  have len: "?k \<le> length xs" "length xs \<le> 2 * ?k" using assms(2) by (cases xs; simp)+
  have "sec_le A (xs ! i) m" if "i < ?k" for i
    using sorted_nth [OF assms(1), of i "(length xs - 1) div 2"] that len(1) assms(3) sec_le_trans by simp
  then have "filter (\<lambda>t. sec_le A t m) (take ?k xs) = take ?k xs"
    using len(1) by (auto simp: filter_id_conv in_set_conv_nth)
  then have "length (filter (\<lambda>t. sec_le A t m) (take ?k xs)) = ?k"
    using len(1) by simp
  then have "?k \<le> length (filter (\<lambda>t. sec_le A t m) (take ?k xs @ drop ?k xs))"
    unfolding filter_append length_append by linarith
  then show ?thesis using len(2) unfolding append_take_drop_id by linarith
qed

lemma half_above:
  assumes "sorted_wrt (sec_le A) xs" "xs \<noteq> []" "sec_le A m (xs ! (length xs div 2))"
  shows "length xs \<le> 2 * length (filter (sec_le A m) xs)"
proof -
  let ?k = "length xs div 2"
  have len: "?k < length xs" using assms(2) by (cases xs) simp_all
  have "sec_le A m (xs ! i)" if "?k \<le> i" "i < length xs" for i
    using sorted_nth [OF assms(1) that] assms(3) sec_le_trans by blast
  then have "filter (sec_le A m) (drop ?k xs) = drop ?k xs"
    by (auto simp: filter_id_conv in_set_conv_nth)
  then have "length (filter (sec_le A m) (drop ?k xs)) = length xs - ?k"
    by simp
  then have "length xs - ?k \<le> length (filter (sec_le A m) (take ?k xs @ drop ?k xs))"
    unfolding filter_append length_append by linarith
  then show ?thesis unfolding append_take_drop_id by linarith
qed

end

text \<open>Whole ticks of a clock.\<close>

definition tick_seconds :: "int seconds_ops" where
  "tick_seconds = \<lparr>sec_zero = 0, sec_add = (+), sec_per = (\<lambda>x n. x div int n), sec_half = (\<lambda>x. x div 2), sec_less = (<)\<rparr>"

interpretation ticks: seconds tick_seconds
  by unfold_locales (auto simp: tick_seconds_def)

section \<open>The profile\<close>

record 's build_profile =
  phase1_collectSeconds :: 's
  phase2_parallelSeconds :: 's
  phase3_drainSeconds :: 's
  phase4_rvalueSeconds :: 's
  drain_pendingRValuesSeconds :: 's
  drain_mergesSeconds :: 's
  profile_blocks :: nat
  profile_rvalues :: nat
  taskMinSeconds :: 's
  taskMaxSeconds :: 's
  taskMeanSeconds :: 's
  taskMedianSeconds :: 's
  taskTotalSeconds :: 's
  profile_threads :: nat

definition new_profile :: "'s seconds_ops \<Rightarrow> 's build_profile" where
  "new_profile A =
     (let z = sec_zero A
      in \<lparr>phase1_collectSeconds = z, phase2_parallelSeconds = z, phase3_drainSeconds = z, phase4_rvalueSeconds = z,
          drain_pendingRValuesSeconds = z, drain_mergesSeconds = z, profile_blocks = 0, profile_rvalues = 0,
          taskMinSeconds = z, taskMaxSeconds = z, taskMeanSeconds = z, taskMedianSeconds = z, taskTotalSeconds = z,
          profile_threads = 0\<rparr>)"

definition totalSeconds :: "'s seconds_ops \<Rightarrow> 's build_profile \<Rightarrow> 's" where
  "totalSeconds A p =
     sec_add A (sec_add A (sec_add A (phase1_collectSeconds p) (phase2_parallelSeconds p)) (phase3_drainSeconds p)) (phase4_rvalueSeconds p)"

definition recordTaskStats :: "'s seconds_ops \<Rightarrow> 's list \<Rightarrow> 's build_profile \<Rightarrow> 's build_profile" where
  "recordTaskStats A elapsed p =
     (if elapsed = [] then p
      else
        (let taskTimes = sort_seconds A elapsed;
             sum = foldl (sec_add A) (sec_zero A) taskTimes;
             mid = length taskTimes div 2
         in p\<lparr>taskMinSeconds := hd taskTimes, taskMaxSeconds := last taskTimes, taskTotalSeconds := sum,
              taskMeanSeconds := sec_per A sum (length taskTimes),
              taskMedianSeconds := (if length taskTimes mod 2 = 0
                 then sec_half A (sec_add A (taskTimes ! (mid - 1)) (taskTimes ! mid)) else taskTimes ! mid)\<rparr>))"

text \<open>The readings: how long each phase took, and the task of each deferred block.\<close>

record 's readings =
  collect_time :: 's
  dispatch_time :: 's
  task_time :: "nat \<Rightarrow> 's"
  drain_time :: 's
  resolve_time :: 's

text \<open>
  The phases write the profile and nothing reads it before the build is over, so it is given by the readings and the
  states between the phases. The two counters are those of the pipeline's state.
\<close>

definition phase1_profile :: "'s readings \<Rightarrow> nat \<Rightarrow> ('m, 'c) build_state \<Rightarrow> 's build_profile \<Rightarrow> 's build_profile" where
  "phase1_profile c numThreads S1 p =
     p\<lparr>phase1_collectSeconds := collect_time c, profile_blocks := deferredBlockCount S1, profile_threads := numThreads\<rparr>"

definition drain_profile :: "'s seconds_ops \<Rightarrow> 's readings \<Rightarrow> ('m, 'c) build_state \<Rightarrow> 's build_profile \<Rightarrow> 's build_profile" where
  "drain_profile A c S2 p =
     p\<lparr>profile_rvalues := deferredPendingRValueCount S2, drain_pendingRValuesSeconds := sec_zero A,
       drain_mergesSeconds := sec_zero A, phase3_drainSeconds := drain_time c\<rparr>"

definition phase2_profile ::
  "'s seconds_ops \<Rightarrow> 's readings \<Rightarrow> ('m, 'c) env \<Rightarrow> ('m, 'c) build_state \<Rightarrow> ('m, 'c) build_state \<Rightarrow> 's build_profile \<Rightarrow> 's build_profile" where
  "phase2_profile A c E S1 S2 p =
     (let p1 = p\<lparr>phase2_parallelSeconds := dispatch_time c\<rparr>
      in if parallel E
         then drain_profile A c S2 (recordTaskStats A (map (task_time c) [0 ..< length (deferredBlocks S1)]) p1)
         else p1)"

definition run_profile ::
  "'s seconds_ops \<Rightarrow> 's readings \<Rightarrow> nat \<Rightarrow> ('m, 'c) env \<Rightarrow> ('m, 'c) visitor \<Rightarrow> schedule \<Rightarrow> 'c design
   \<Rightarrow> ('m, 'c) build_state \<Rightarrow> 's build_profile \<Rightarrow> 's build_profile option" where
  "run_profile A c numThreads E run sch root S p =
     and_then (runPhase1 E root S) (\<lambda>S1.
       map_option (\<lambda>S2. phase2_profile A c E S1 S2 (phase1_profile c numThreads S1 p)) (runPhase2 E run sch S1))"

definition finalize_profile :: "'s readings \<Rightarrow> 's build_profile \<Rightarrow> 's build_profile" where
  "finalize_profile c p = p\<lparr>phase4_rvalueSeconds := resolve_time c\<rparr>"

text \<open>\<open>NetlistGraph::build\<close> with the profile that it stores in the graph.\<close>

definition build_with_profile ::
  "'s seconds_ops \<Rightarrow> 's readings \<Rightarrow> nat \<Rightarrow> ('m, 'c) env \<Rightarrow> ('m, 'c) visitor \<Rightarrow> schedule \<Rightarrow> 'c design \<Rightarrow> 'c netlist
   \<Rightarrow> ('c netlist \<times> 's build_profile) option" where
  "build_with_profile A c numThreads E run sch root N =
     and_then (build_netlist E run sch root N) (\<lambda>N'.
       map_option (\<lambda>p. (N', finalize_profile c p)) (run_profile A c numThreads E run sch root (new_build N) (new_profile A)))"

section \<open>What the profile says\<close>

lemma run_tasks_length:
  assumes "run_tasks E run bs order B = Some (allWork, B')"
  shows "length allWork = length bs"
proof -
  let ?f = "\<lambda>i (allWork, B). map_option (\<lambda>(work, B'). (allWork[i := work], B')) (run_task E run (bs ! i) B)"
  have "pred_option (\<lambda>(w, _). length w = n) (fold_opt ?f order (w0, B0))" if "length w0 = n" for n w0 B0 order
    using that by (intro fold_opt_pred) (auto simp: option.pred_map comp_def split_beta pred_option_def split: prod.splits)
  from this [of "replicate (length bs) []" "length bs" order B] assms show ?thesis
    by (simp add: run_tasks_def)
qed

text \<open>Draining appends the work of the tasks, in the order of the blocks; the counter is its length.\<close>

lemma drain_queue: "queue (drain allWork B) = queue B @ concat allWork"
proof -
  have "fold (\<lambda>work q. q @ work) ws q = q @ concat ws" for ws and q :: "pending_rvalue list"
    by (induction ws arbitrary: q) simp_all
  then show ?thesis by (simp add: drain_def)
qed

text \<open>The collecting phase leaves the counter of pending R-values alone.\<close>

definition same_count :: "('m, 'c) build_state \<Rightarrow> ('m, 'c) build_state \<Rightarrow> bool" where
  "same_count S S' \<longleftrightarrow> deferredPendingRValueCount S' = deferredPendingRValueCount S"

lemma on_builder_count: "same_count S S1 \<Longrightarrow> pred_option (same_count S) (on_builder f S1)"
  by (cases "f (the_builder S1)") (simp_all add: on_builder_def same_count_def)

lemma handle_symbol_count: "same_count S0 S \<Longrightarrow> pred_option (same_count S0) (handle_symbol E d S)"
proof (induction E d S arbitrary: S0 rule: handle_symbol.induct)
  case (7 E i members S)
  show ?case
  proof (cases "uninstantiated i")
    case False
    define S1 where "S1 = (if propCutsAcrossPorts E
        then set_builder S (recordCutsFromPortConnections E (port_connections i) (the_builder S)) else S)"
    have 1: "same_count S0 S1" using 7(2) by (simp add: S1_def same_count_def)
    have "pred_option (same_count S0) (fold_opt (handle_symbol E) members S1)"
      if bb: "\<not> isBlackBoxInstance E (definition_name i) (instance_path i)"
      by (rule fold_opt_pred [where P = "same_count S0"]) (auto intro: 1 "7.IH" [OF False S1_def bb])
    then have "pred_option (same_count S0) (and_then
        (if isBlackBoxInstance E (definition_name i) (instance_path i)
         then on_builder (\<lambda>B. fold_opt (materializePortNodes E) (port_members members)
                (B\<lparr>bgraph := addBlackBoxPath (instance_path i) (bgraph B)\<rparr>)) S1
         else fold_opt (handle_symbol E) members S1)
        (on_builder (fold_opt (connect_port E) (connections i))))"
      by (intro pred_bind [where P = "same_count S0"]) (auto intro: on_builder_count 1)
    then show ?thesis
      using False by (simp only: handle_symbol.simps if_False Let_def S1_def [symmetric])
  qed (simp add: 7)
next
  case (5 E isUninstantiated members S)
  then show ?case by (auto intro!: fold_opt_pred [where P = "same_count S0"])
next
  case (6 E members S)
  then show ?case by (auto intro!: fold_opt_pred [where P = "same_count S0"])
qed (auto simp: on_builder_count deferBlock_def require_def same_count_def)

lemma phase1_counts:
  assumes "runPhase1 E root S = Some S1"
  shows "deferredBlockCount S1 = length (deferredBlocks S1)" "deferredPendingRValueCount S1 = deferredPendingRValueCount S"
proof -
  let ?S = "S\<lparr>the_builder := clearThreadLocalSymbolRefCache (the_builder S), collectingPhase := True\<rparr>"
  obtain S' where S': "handle_symbol E root ?S = Some S'"
    "S1 = S'\<lparr>collectingPhase := False, deferredBlockCount := length (deferredBlocks S')\<rparr>"
    using assms by (auto simp: runPhase1_def)
  then show "deferredBlockCount S1 = length (deferredBlocks S1)" "deferredPendingRValueCount S1 = deferredPendingRValueCount S"
    using handle_symbol_count [of ?S ?S E root] by (simp_all add: same_count_def)
qed

lemma phase2_counts:
  assumes "runPhase2Parallel E run sch S1 = Some S2"
  shows "\<exists>allWork B. run_tasks E run (deferredBlocks S1) (task_order sch (length (deferredBlocks S1))) (the_builder S1) = Some (allWork, B) \<and>
     length allWork = length (deferredBlocks S1) \<and> queue (the_builder S2) = queue B @ concat allWork \<and>
     deferredPendingRValueCount S2 = deferredPendingRValueCount S1 + length (concat allWork)"
  using assms by (auto simp: runPhase2Parallel_def drain_queue length_concat run_tasks_length)

text \<open>The statistics of the tasks, for a list of times in sorted order.\<close>

definition stats_of :: "'s seconds_ops \<Rightarrow> 's list \<Rightarrow> 's build_profile \<Rightarrow> bool" where
  "stats_of A xs p \<longleftrightarrow>
     taskMinSeconds p = hd xs \<and> taskMaxSeconds p = last xs \<and>
     taskTotalSeconds p = foldl (sec_add A) (sec_zero A) xs \<and> taskMeanSeconds p = sec_per A (taskTotalSeconds p) (length xs) \<and>
     taskMedianSeconds p = (if odd (length xs) then xs ! (length xs div 2)
       else sec_half A (sec_add A (xs ! (length xs div 2 - 1)) (xs ! (length xs div 2))))"

context seconds
begin

lemma task_stats:
  assumes "ts \<noteq> []"
  shows "\<exists>xs. mset xs = mset ts \<and> sorted_wrt (sec_le A) xs \<and> stats_of A xs (recordTaskStats A ts p)"
    and "length ts \<le> 2 * length (filter (\<lambda>t. sec_le A t (taskMedianSeconds (recordTaskStats A ts p))) ts)"
    and "length ts \<le> 2 * length (filter (sec_le A (taskMedianSeconds (recordTaskStats A ts p))) ts)"
proof -
  let ?xs = "sort_seconds A ts" and ?p = "recordTaskStats A ts p"
  have xs: "?xs \<noteq> []" "sorted_wrt (sec_le A) ?xs" using assms sort_sorted by simp_all
  have stats: "stats_of A ?xs ?p"
    using assms by (simp add: stats_of_def recordTaskStats_def Let_def even_iff_mod_2_eq_zero)
  then show "\<exists>xs. mset xs = mset ts \<and> sorted_wrt (sec_le A) xs \<and> stats_of A xs ?p"
    using xs(2) by (intro exI [of _ ?xs]) simp
  have same: "length (filter Q ?xs) = length (filter Q ts)" for Q
    by (metis mset_filter mset_sort_seconds size_mset)
  have med: "taskMedianSeconds ?p = (if odd (length ?xs) then ?xs ! (length ?xs div 2)
       else sec_half A (sec_add A (?xs ! (length ?xs div 2 - 1)) (?xs ! (length ?xs div 2))))"
    using stats by (simp add: stats_of_def)
  show "length ts \<le> 2 * length (filter (\<lambda>t. sec_le A t (taskMedianSeconds ?p)) ts)"
    using half_below [OF xs(2,1) sorted_median(1) [OF xs(2,1), folded med]] by (simp add: same)
  show "length ts \<le> 2 * length (filter (sec_le A (taskMedianSeconds ?p)) ts)"
    using half_above [OF xs(2,1) sorted_median(2) [OF xs(2,1), folded med]] by (simp add: same)
qed

end

text \<open>
  C28. The profile that a build stores describes the build. The block count is the number of blocks that the first phase
  deferred. In a parallel build the count of pending R-values is the number of entries that the tasks left and that draining appends to
  the queue, in the order of the blocks, whatever order the tasks ran in; and with at least one block the task
  statistics are those of the tasks' times in sorted order: the first, the last, their sum, its mean, and the middle
  one or, for an even number of tasks, half the sum of the middle two; at least half of the tasks took no longer than the median, and at
  least half no less. Otherwise the count and the statistics stay zero.
\<close>

theorem build_profile_describes_run:
  assumes "seconds A" "build_with_profile A c k E run sch root N = Some (N', p)"
  shows "\<exists>S1 S2. runPhase1 E root (new_build N) = Some S1 \<and> runPhase2 E run sch S1 = Some S2 \<and>
     profile_threads p = k \<and> profile_blocks p = length (deferredBlocks S1) \<and>
     (if parallel E
      then \<exists>allWork B. run_tasks E run (deferredBlocks S1) (task_order sch (length (deferredBlocks S1))) (the_builder S1) = Some (allWork, B) \<and>
        length allWork = length (deferredBlocks S1) \<and> queue (the_builder S2) = queue B @ concat allWork \<and>
        profile_rvalues p = length (concat allWork)
      else profile_rvalues p = 0) \<and>
     (let ts = map (task_time c) [0 ..< length (deferredBlocks S1)]
      in if parallel E \<and> ts \<noteq> []
         then (\<exists>xs. mset xs = mset ts \<and> sorted_wrt (sec_le A) xs \<and> stats_of A xs p) \<and>
           length ts \<le> 2 * length (filter (\<lambda>t. sec_le A t (taskMedianSeconds p)) ts) \<and>
           length ts \<le> 2 * length (filter (sec_le A (taskMedianSeconds p)) ts)
         else taskMinSeconds p = sec_zero A \<and> taskMaxSeconds p = sec_zero A \<and> taskTotalSeconds p = sec_zero A \<and>
           taskMeanSeconds p = sec_zero A \<and> taskMedianSeconds p = sec_zero A)"
proof -
  obtain S1 S2 where S: "runPhase1 E root (new_build N) = Some S1" "runPhase2 E run sch S1 = Some S2"
    and p: "p = finalize_profile c (phase2_profile A c E S1 S2 (phase1_profile c k S1 (new_profile A)))"
    using assms(2) by (auto simp: build_with_profile_def run_profile_def bind_eq_Some_conv)
  let ?ts = "map (task_time c) [0 ..< length (deferredBlocks S1)]"
  have S1: "deferredBlockCount S1 = length (deferredBlocks S1)" "deferredPendingRValueCount S1 = 0"
    using phase1_counts [OF S(1)] by (simp_all add: new_build_def)
  have heads: "profile_threads p = k" "profile_blocks p = length (deferredBlocks S1)"
    by (simp_all add: p finalize_profile_def phase2_profile_def phase1_profile_def drain_profile_def recordTaskStats_def S1(1) Let_def)
  show ?thesis
  proof (cases "parallel E")
    case False
    then have "p = (new_profile A)\<lparr>phase1_collectSeconds := collect_time c, profile_blocks := deferredBlockCount S1, profile_threads := k,
        phase2_parallelSeconds := dispatch_time c, phase4_rvalueSeconds := resolve_time c\<rparr>"
      by (simp add: p finalize_profile_def phase2_profile_def phase1_profile_def)
    then show ?thesis
      using S heads False by (intro exI [of _ S1] exI [of _ S2]) (simp add: new_profile_def Let_def)
  next
    case True
    let ?q = "recordTaskStats A ?ts ((phase1_profile c k S1 (new_profile A))\<lparr>phase2_parallelSeconds := dispatch_time c\<rparr>)"
    have p': "p = finalize_profile c (drain_profile A c S2 ?q)"
      using True by (simp add: p phase2_profile_def)
    then have same: "taskMinSeconds p = taskMinSeconds ?q" "taskMaxSeconds p = taskMaxSeconds ?q" "taskTotalSeconds p = taskTotalSeconds ?q"
      "taskMeanSeconds p = taskMeanSeconds ?q" "taskMedianSeconds p = taskMedianSeconds ?q" "profile_rvalues p = deferredPendingRValueCount S2"
      by (simp_all add: finalize_profile_def drain_profile_def)
    note work = phase2_counts [of E run sch S1 S2, unfolded S1(2) add_0]
    have stats: "stats_of A xs p = stats_of A xs ?q" for xs
      by (simp add: stats_of_def same)
    show ?thesis
    proof (cases "deferredBlocks S1 = []")
      case empty: True
      then have "?q = (phase1_profile c k S1 (new_profile A))\<lparr>phase2_parallelSeconds := dispatch_time c\<rparr>"
        by (simp add: recordTaskStats_def)
      then show ?thesis
        using S heads True work same empty by (intro exI [of _ S1] exI [of _ S2]) (simp add: runPhase2_def phase1_profile_def new_profile_def Let_def)
    next
      case False
      then show ?thesis
        using S heads True work same(5,6) stats seconds.task_stats [OF assms(1), of ?ts "(phase1_profile c k S1 (new_profile A))\<lparr>phase2_parallelSeconds := dispatch_time c\<rparr>"]
        by (intro exI [of _ S1] exI [of _ S2]) (simp add: runPhase2_def Let_def)
    qed
  qed
qed

definition one_tick_each :: "int readings" where
  "one_tick_each = \<lparr>collect_time = 1, dispatch_time = 1, task_time = (\<lambda>i. int i + 3), drain_time = 1, resolve_time = 1\<rparr>"

theorem build_profile_describes_run_witness:
  "\<exists>N p. build_with_profile tick_seconds one_tick_each 4 small_env small_run in_order small_design empty_netlist = Some (N, p) \<and>
     totalSeconds tick_seconds p = 4 \<and> profile_blocks p = 1 \<and> taskMinSeconds p = 3 \<and> taskMedianSeconds p = 3 \<and> taskMeanSeconds p = 3"
proof -
  have "case build_with_profile tick_seconds one_tick_each 4 small_env small_run in_order small_design empty_netlist of None \<Rightarrow> False
      | Some (N, p) \<Rightarrow> profile_blocks p = 1 \<and> totalSeconds tick_seconds p = 4"
    by code_simp
  then obtain N p where b: "build_with_profile tick_seconds one_tick_each 4 small_env small_run in_order small_design empty_netlist = Some (N, p)"
    "profile_blocks p = 1" "totalSeconds tick_seconds p = 4"
    by (auto split: option.splits)
  have par: "parallel small_env" "task_time one_tick_each 0 = 3"
    by (simp_all add: small_env_def one_tick_each_def)
  obtain S1 :: "(nat entry list, unit) build_state" where len: "length (deferredBlocks S1) = 1"
    and stats: "let ts = map (task_time one_tick_each) [0 ..< length (deferredBlocks S1)]
      in if parallel small_env \<and> ts \<noteq> [] then (\<exists>xs. mset xs = mset ts \<and> sorted_wrt (sec_le tick_seconds) xs \<and> stats_of tick_seconds xs p) else True"
    using build_profile_describes_run [OF ticks.seconds_axioms b(1)] b(2) by (force simp: Let_def split: if_splits)
  have "\<exists>xs. mset xs = {#3#} \<and> stats_of tick_seconds xs p"
    using stats by (auto simp: len par Let_def)
  then have "stats_of tick_seconds [3] p" by auto
  then show ?thesis
    using b by (auto simp: stats_of_def tick_seconds_def)
qed

end
