(* ===== verification/Canonical.thy ===== *)
theory Canonical
  imports Prelude
begin

text \<open>
  \<open>CanonicalBodyResolver\<close> of \<^verbatim>\<open>source/CanonicalBodyResolver.cpp/.hpp\<close>: slang analyses one body of all equal
  instances, the canonical one; the resolver finds, for a body or a value inside another copy, its counterpart there, by
  walking the two bodies in lockstep, and remembers what it found.

  A body is its identity with the tree of its members; an instance carries its body and the canonical body that slang
  sets on it, if any. The enclosing bodies of a body, from itself outwards, each with the canonical body of its
  instance, are an argument, as is the body that contains a value.
\<close>

section \<open>Model\<close>

datatype paired_scope = GenerateBlock | GenerateBlockArray | InstanceArray

datatype member =
  ValueMember nat
| InstanceMember (instance_body: body) (instance_canonical: "body option")
| ScopeMember paired_scope "member list"
| OtherMember
and body = Body (body_id: nat) (body_members: "member list")

record caches =
  valueCache :: "nat \<rightharpoonup> nat"
  bodyCache :: "nat \<rightharpoonup> body"

definition no_caches :: caches where
  "no_caches = \<lparr>valueCache = Map.empty, bodyCache = Map.empty\<rparr>"

text \<open>\<open>emplace\<close> leaves an existing entry alone.\<close>

definition emplace :: "nat \<Rightarrow> 'a \<Rightarrow> (nat \<rightharpoonup> 'a) \<Rightarrow> (nat \<rightharpoonup> 'a)" where
  "emplace k v m = (if m k = None then m(k \<mapsto> v) else m)"

definition cacheValue :: "nat \<Rightarrow> nat \<Rightarrow> caches \<Rightarrow> caches" where
  "cacheValue v w C = C\<lparr>valueCache := emplace v w (valueCache C)\<rparr>"

definition cacheBody :: "body \<Rightarrow> body \<Rightarrow> caches \<Rightarrow> caches" where
  "cacheBody b c C = C\<lparr>bodyCache := emplace (body_id b) c (bodyCache C)\<rparr>"

definition same_body :: "body \<Rightarrow> body \<Rightarrow> bool" where
  "same_body a b \<longleftrightarrow> body_id a = body_id b"

definition final_body :: "body \<Rightarrow> body option \<Rightarrow> body" where
  "final_body ci canon = (case canon of None \<Rightarrow> ci | Some b \<Rightarrow> b)"

lemma size_body_members: "size_list size (body_members b) \<le> Suc (n + size b + k)"
  by (cases b) simp

function populatePairedBodies :: "member list \<Rightarrow> member list \<Rightarrow> caches \<Rightarrow> caches" where
  "populatePairedBodies (l # ls) (c # cs) C =
     populatePairedBodies ls cs
       (case l of
          ValueMember v \<Rightarrow> (case c of ValueMember w \<Rightarrow> cacheValue v w C | _ \<Rightarrow> C)
        | InstanceMember li _ \<Rightarrow>
            (case c of
               InstanceMember ci canon \<Rightarrow>
                 (let ciBody = final_body ci canon
                  in if \<not> same_body li ciBody
                     then populatePairedBodies (body_members li) (body_members ciBody) (cacheBody li ciBody C)
                     else cacheBody li li C)
             | _ \<Rightarrow> C)
        | ScopeMember k ms \<Rightarrow>
            (case c of ScopeMember k' ms' \<Rightarrow> if k = k' then populatePairedBodies ms ms' C else C | _ \<Rightarrow> C)
        | OtherMember \<Rightarrow> C)"
| "populatePairedBodies [] cs C = C"
| "populatePairedBodies ls [] C = C"
  by pat_completeness auto

termination
  by (relation "measure (\<lambda>(ls, _, _). size_list size ls)")
    (auto simp: less_Suc_eq_le size_body_members)

text \<open>The walk outwards to an enclosing body whose canonical one is known.\<close>

fun find_anchor :: "caches \<Rightarrow> (body \<times> body option) list \<Rightarrow> (body \<times> body) option" where
  "find_anchor C [] = None"
| "find_anchor C ((cur, direct) # rest) =
     (case bodyCache C (body_id cur) of
        Some b \<Rightarrow> Some (cur, b)
      | None \<Rightarrow>
          (case direct of
             None \<Rightarrow> find_anchor C rest
           | Some d \<Rightarrow> if \<not> same_body d cur then Some (cur, d) else find_anchor C rest))"

definition getCanonicalBody :: "(nat \<Rightarrow> (body \<times> body option) list) \<Rightarrow> body \<Rightarrow> caches \<Rightarrow> body \<times> caches" where
  "getCanonicalBody enclosing b C =
     (case bodyCache C (body_id b) of
        Some r \<Rightarrow> (r, C)
      | None \<Rightarrow>
          (case find_anchor C (enclosing (body_id b)) of
             None \<Rightarrow> (b, cacheBody b b C)
           | Some (anchor, canon) \<Rightarrow>
               if same_body canon anchor then (b, cacheBody b b C)
               else
                 (let C1 = populatePairedBodies (body_members anchor) (body_members canon) (cacheBody anchor canon C)
                  in case bodyCache C1 (body_id b) of
                       Some r \<Rightarrow> (r, C1)
                     | None \<Rightarrow> (b, cacheBody b b C1))))"

definition getCanonicalValueSymbol ::
  "(nat \<Rightarrow> (body \<times> body option) list) \<Rightarrow> (nat \<Rightarrow> body option) \<Rightarrow> nat \<Rightarrow> caches \<Rightarrow> nat \<times> caches" where
  "getCanonicalValueSymbol enclosing container v C =
     (case valueCache C v of
        Some w \<Rightarrow> (w, C)
      | None \<Rightarrow>
          (let C1 = (case container v of None \<Rightarrow> C | Some b \<Rightarrow> snd (getCanonicalBody enclosing b C))
           in case valueCache C1 v of
                Some w \<Rightarrow> (w, C1)
              | None \<Rightarrow> (v, cacheValue v v C1)))"

section \<open>The caches only grow\<close>

definition grows :: "caches \<Rightarrow> caches \<Rightarrow> bool" where
  "grows C C' \<longleftrightarrow> valueCache C \<subseteq>\<^sub>m valueCache C' \<and> bodyCache C \<subseteq>\<^sub>m bodyCache C'"

lemma grows_refl [simp]: "grows C C"
  by (simp add: grows_def)

lemma grows_trans [trans]: "grows A B \<Longrightarrow> grows B C \<Longrightarrow> grows A C"
  by (auto simp: grows_def intro: map_le_trans)

lemma emplace_le: "m \<subseteq>\<^sub>m emplace k v m"
  by (auto simp: emplace_def map_le_def)

lemma emplace_at: "emplace k v m k = Some (case m k of None \<Rightarrow> v | Some u \<Rightarrow> u)"
  by (auto simp: emplace_def split: option.split)

lemma grows_cache [simp]: "grows A C \<Longrightarrow> grows A (cacheValue v w C)" "grows A C \<Longrightarrow> grows A (cacheBody b c C)"
proof -
  have "grows C (cacheValue v w C)" "grows C (cacheBody b c C)"
    by (simp_all add: grows_def cacheValue_def cacheBody_def emplace_le)
  then show "grows A C \<Longrightarrow> grows A (cacheValue v w C)" "grows A C \<Longrightarrow> grows A (cacheBody b c C)"
    by (blast intro: grows_trans)+
qed

lemma populate_grows [simp]: "grows A C \<Longrightarrow> grows A (populatePairedBodies ls cs C)"
proof (induction ls cs C rule: populatePairedBodies.induct)
  case (1 l ls c cs C)
  then show ?case
    by (cases l; cases c) (auto simp: Let_def)
qed simp_all

lemma getCanonicalBody_grows: "grows C (snd (getCanonicalBody enclosing b C))"
  by (auto simp: getCanonicalBody_def Let_def split: option.splits)

lemma getCanonicalValueSymbol_grows: "grows C (snd (getCanonicalValueSymbol enclosing container v C))"
proof -
  have "grows C (case container v of None \<Rightarrow> C | Some b \<Rightarrow> snd (getCanonicalBody enclosing b C))"
    by (simp add: getCanonicalBody_grows split: option.split)
  then show ?thesis
    by (auto simp: getCanonicalValueSymbol_def Let_def split: option.splits)
qed

lemma getCanonicalValueSymbol_cached:
  "valueCache (snd (getCanonicalValueSymbol enclosing container v C)) v =
     Some (fst (getCanonicalValueSymbol enclosing container v C))"
  by (auto simp: getCanonicalValueSymbol_def Let_def cacheValue_def emplace_at split: option.splits)

lemma getCanonicalBody_cached:
  "bodyCache (snd (getCanonicalBody enclosing b C)) (body_id b) = Some (fst (getCanonicalBody enclosing b C))"
  by (auto simp: getCanonicalBody_def Let_def cacheBody_def emplace_at split: option.splits)

section \<open>Reference: the value at the same place\<close>

text \<open>\<open>lockstep ls cs v w\<close>: \<open>v\<close> and \<open>w\<close> are at the same place of the two member lists.\<close>

inductive lockstep :: "member list \<Rightarrow> member list \<Rightarrow> nat \<Rightarrow> nat \<Rightarrow> bool" where
  same_place: "i < length ls \<Longrightarrow> i < length cs \<Longrightarrow> ls ! i = ValueMember v \<Longrightarrow> cs ! i = ValueMember w \<Longrightarrow> lockstep ls cs v w"
| in_instance: "i < length ls \<Longrightarrow> i < length cs \<Longrightarrow> ls ! i = InstanceMember li x \<Longrightarrow> cs ! i = InstanceMember ci canon \<Longrightarrow>
    \<not> same_body li (final_body ci canon) \<Longrightarrow> lockstep (body_members li) (body_members (final_body ci canon)) v w \<Longrightarrow>
    lockstep ls cs v w"
| in_scope: "i < length ls \<Longrightarrow> i < length cs \<Longrightarrow> ls ! i = ScopeMember k ms \<Longrightarrow> cs ! i = ScopeMember k ms' \<Longrightarrow>
    lockstep ms ms' v w \<Longrightarrow> lockstep ls cs v w"

inductive_cases lockstepE: "lockstep ls cs v w"

lemma lockstep_Nil [simp]: "\<not> lockstep [] cs v w" "\<not> lockstep ls [] v w"
  by (auto elim: lockstepE)

text \<open>The two first members alone.\<close>

definition heads :: "member \<Rightarrow> member \<Rightarrow> nat \<Rightarrow> nat \<Rightarrow> bool" where
  "heads l c v w \<longleftrightarrow>
     (l = ValueMember v \<and> c = ValueMember w) \<or>
     (\<exists>li x ci canon. l = InstanceMember li x \<and> c = InstanceMember ci canon \<and> \<not> same_body li (final_body ci canon) \<and>
        lockstep (body_members li) (body_members (final_body ci canon)) v w) \<or>
     (\<exists>k ms ms'. l = ScopeMember k ms \<and> c = ScopeMember k ms' \<and> lockstep ms ms' v w)"

lemma lockstep_Cons: "lockstep (l # ls) (c # cs) v w \<longleftrightarrow> heads l c v w \<or> lockstep ls cs v w"
proof
  assume "lockstep (l # ls) (c # cs) v w"
  then show "heads l c v w \<or> lockstep ls cs v w"
  proof cases
    case (same_place i)
    then show ?thesis by (cases i) (simp_all add: heads_def lockstep.same_place)
  next
    case (in_instance i li x ci canon)
    then show ?thesis by (cases i) (simp_all add: heads_def lockstep.in_instance)
  next
    case (in_scope i k ms ms')
    then show ?thesis by (cases i) (simp_all add: heads_def lockstep.in_scope)
  qed
next
  have tail: "lockstep (l # ls) (c # cs) v w" if "lockstep ls cs v w"
    using that
  proof cases
    case (same_place i)
    show ?thesis by (rule lockstep.same_place [of "Suc i"]) (simp_all add: same_place)
  next
    case (in_instance i li x ci canon)
    show ?thesis by (rule lockstep.in_instance [of "Suc i" _ _ li x ci canon]) (simp_all add: in_instance)
  next
    case (in_scope i k ms ms')
    show ?thesis by (rule lockstep.in_scope [of "Suc i" _ _ k ms ms']) (simp_all add: in_scope)
  qed
  have head: "lockstep (l # ls) (c # cs) v w" if "heads l c v w"
    using that unfolding heads_def
  proof (elim disjE exE conjE)
    show "l = ValueMember v \<Longrightarrow> c = ValueMember w \<Longrightarrow> ?thesis"
      by (rule lockstep.same_place [of 0]) simp_all
    show "\<And>li x ci canon. l = InstanceMember li x \<Longrightarrow> c = InstanceMember ci canon \<Longrightarrow> \<not> same_body li (final_body ci canon) \<Longrightarrow>
        lockstep (body_members li) (body_members (final_body ci canon)) v w \<Longrightarrow> ?thesis"
      by (rule lockstep.in_instance [of 0]) simp_all
    show "\<And>k ms ms'. l = ScopeMember k ms \<Longrightarrow> c = ScopeMember k ms' \<Longrightarrow> lockstep ms ms' v w \<Longrightarrow> ?thesis"
      by (rule lockstep.in_scope [of 0]) simp_all
  qed
  assume "heads l c v w \<or> lockstep ls cs v w"
  then show "lockstep (l # ls) (c # cs) v w"
    using tail head by blast
qed

text \<open>What a new entry of the value cache is, and that none is missing.\<close>

definition values_from :: "caches \<Rightarrow> caches \<Rightarrow> (nat \<Rightarrow> nat \<Rightarrow> bool) \<Rightarrow> bool" where
  "values_from C C' r \<longleftrightarrow>
     (\<forall>v. case valueCache C v of
        Some w \<Rightarrow> valueCache C' v = Some w
      | None \<Rightarrow> (case valueCache C' v of None \<Rightarrow> \<forall>w. \<not> r v w | Some w \<Rightarrow> r v w))"

lemma values_from_trans:
  "values_from A B r \<Longrightarrow> values_from B C s \<Longrightarrow> values_from A C (\<lambda>v w. r v w \<or> s v w)"
  unfolding values_from_def
proof
  fix v
  assume a: "\<forall>v. case valueCache A v of
        Some w \<Rightarrow> valueCache B v = Some w
      | None \<Rightarrow> (case valueCache B v of None \<Rightarrow> \<forall>w. \<not> r v w | Some w \<Rightarrow> r v w)"
    and b: "\<forall>v. case valueCache B v of
        Some w \<Rightarrow> valueCache C v = Some w
      | None \<Rightarrow> (case valueCache C v of None \<Rightarrow> \<forall>w. \<not> s v w | Some w \<Rightarrow> s v w)"
  show "case valueCache A v of
        Some w \<Rightarrow> valueCache C v = Some w
      | None \<Rightarrow> (case valueCache C v of None \<Rightarrow> \<forall>w. \<not> (r v w \<or> s v w) | Some w \<Rightarrow> r v w \<or> s v w)"
    using spec [OF a, of v] spec [OF b, of v]
    by (cases "valueCache A v"; cases "valueCache B v"; cases "valueCache C v") auto
qed

lemma values_from_none: "valueCache B = valueCache A \<Longrightarrow> (\<And>v w. \<not> r v w) \<Longrightarrow> values_from A B r"
  by (simp add: values_from_def split: option.split)

lemma valueCache_cacheBody [simp]: "valueCache (cacheBody b c C) = valueCache C"
  by (simp add: cacheBody_def)

lemma values_from_cacheBody [simp]: "values_from (cacheBody b c C) D r = values_from C D r"
  by (simp add: values_from_def)

lemma populate_values: "values_from C (populatePairedBodies ls cs C) (lockstep ls cs)"
proof (induction ls cs C rule: populatePairedBodies.induct)
  case (1 l ls c cs C)
  define C1 where "C1 = (case l of
          ValueMember v \<Rightarrow> (case c of ValueMember w \<Rightarrow> cacheValue v w C | _ \<Rightarrow> C)
        | InstanceMember li _ \<Rightarrow>
            (case c of
               InstanceMember ci canon \<Rightarrow>
                 (let ciBody = final_body ci canon
                  in if \<not> same_body li ciBody
                     then populatePairedBodies (body_members li) (body_members ciBody) (cacheBody li ciBody C)
                     else cacheBody li li C)
             | _ \<Rightarrow> C)
        | ScopeMember k ms \<Rightarrow>
            (case c of ScopeMember k' ms' \<Rightarrow> if k = k' then populatePairedBodies ms ms' C else C | _ \<Rightarrow> C)
        | OtherMember \<Rightarrow> C)"
  have "values_from C C1 (heads l c)"
  proof (cases l)
    case (ValueMember v)
    then show ?thesis
      by (cases c) (auto simp: C1_def heads_def cacheValue_def emplace_def values_from_def split: option.splits)
  next
    case (InstanceMember li x)
    show ?thesis
    proof (cases c)
      case (InstanceMember ci canon)
      have eq: "heads l c = (\<lambda>v w. \<not> same_body li (final_body ci canon) \<and> lockstep (body_members li) (body_members (final_body ci canon)) v w)"
        using \<open>l = _\<close> InstanceMember by (simp add: heads_def fun_eq_iff)
      show ?thesis
        unfolding eq using 1(1) [OF \<open>l = _\<close> InstanceMember refl] \<open>l = _\<close> InstanceMember
        by (simp add: C1_def Let_def values_from_none)
    qed (simp_all add: \<open>l = _\<close> C1_def heads_def values_from_none)
  next
    case (ScopeMember k ms)
    show ?thesis
    proof (cases c)
      case (ScopeMember k' ms')
      have eq: "heads l c = (\<lambda>v w. k = k' \<and> lockstep ms ms' v w)"
        using \<open>l = _\<close> ScopeMember by (auto simp: heads_def fun_eq_iff)
      show ?thesis
        unfolding eq using 1(2) [OF \<open>l = _\<close> ScopeMember] \<open>l = _\<close> ScopeMember
        by (simp add: C1_def values_from_none)
    qed (simp_all add: \<open>l = _\<close> C1_def heads_def values_from_none)
  next
    case OtherMember
    then show ?thesis by (simp add: C1_def heads_def values_from_none)
  qed
  moreover have "values_from C1 (populatePairedBodies ls cs C1) (lockstep ls cs)"
    using 1(3) by (simp add: C1_def)
  ultimately have "values_from C (populatePairedBodies ls cs C1) (\<lambda>v w. heads l c v w \<or> lockstep ls cs v w)"
    by (rule values_from_trans)
  then show ?case
    by (simp add: lockstep_Cons [abs_def] C1_def)
qed (simp_all add: values_from_none)

section \<open>Properties\<close>

text \<open>
  C22. A value inside a copy of an instance resolves to the value at the same place of the canonical body: when neither
  the value nor its body is known yet and the nearest enclosing body with a known canonical one is \<open>a\<close>, with \<open>d\<close>, the
  answer is at the value's place in \<open>d\<close> if it has one there, and the value itself if it has none. The answers are stable:
  after any further queries the value has the same answer, and asking again changes no cache.
\<close>

theorem resolver_finds_counterpart:
  assumes "container v = Some b" "valueCache C v = None" "bodyCache C (body_id b) = None"
    and "find_anchor C (enclosing (body_id b)) = Some (a, d)" "\<not> same_body d a"
    and "getCanonicalValueSymbol enclosing container v C = (w, C1)"
  shows "((\<exists>u. lockstep (body_members a) (body_members d) v u) \<longrightarrow> lockstep (body_members a) (body_members d) v w) \<and>
     ((\<nexists>u. lockstep (body_members a) (body_members d) v u) \<longrightarrow> w = v) \<and>
     (\<forall>vs. let C2 = fold (\<lambda>u C. snd (getCanonicalValueSymbol enclosing container u C)) vs C1
           in getCanonicalValueSymbol enclosing container v C2 = (w, C2))"
proof -
  define P where "P = populatePairedBodies (body_members a) (body_members d) (cacheBody a d C)"
  have vals: "values_from C P (lockstep (body_members a) (body_members d))"
    using populate_values [of "cacheBody a d C"] by (simp add: P_def)
  have "valueCache (snd (getCanonicalBody enclosing b C)) = valueCache P"
    using assms(3-5) by (simp add: getCanonicalBody_def P_def Let_def split: option.split)
  then have w: "w = (case valueCache P v of None \<Rightarrow> v | Some u \<Rightarrow> u)"
    using assms(1,2,6) by (auto simp: getCanonicalValueSymbol_def Let_def split: option.splits)
  have found: "if \<exists>u. lockstep (body_members a) (body_members d) v u
      then lockstep (body_members a) (body_members d) v w else w = v"
    using spec [OF vals [unfolded values_from_def], of v] assms(2) unfolding w by (cases "valueCache P v") auto
  have stable: "getCanonicalValueSymbol enclosing container v C2 = (w, C2)"
    if "C2 = fold (\<lambda>u C. snd (getCanonicalValueSymbol enclosing container u C)) vs C1" for vs C2
  proof -
    have "grows C1 (fold (\<lambda>u C. snd (getCanonicalValueSymbol enclosing container u C)) vs C1)"
      by (rule rev_induct [of _ vs]) (auto intro: grows_trans [OF _ getCanonicalValueSymbol_grows])
    moreover have "valueCache C1 v = Some w"
      using getCanonicalValueSymbol_cached [of enclosing container v C] assms(6) by simp
    ultimately have "valueCache C2 v = Some w"
      using that by (auto simp: grows_def map_le_def dom_def)
    then show ?thesis
      by (simp add: getCanonicalValueSymbol_def)
  qed
  show ?thesis
    using found stable by (auto simp: Let_def split: if_splits)
qed

text \<open>Two instances of one module that holds a value and an instance with a value; the first is the canonical one.\<close>

definition leaf :: "nat \<Rightarrow> nat \<Rightarrow> body" where
  "leaf i v = Body i [ValueMember v]"

definition module_body :: "nat \<Rightarrow> nat \<Rightarrow> nat \<Rightarrow> nat \<Rightarrow> body" where
  "module_body i v j u = Body i [ValueMember v, OtherMember, InstanceMember (leaf j u) None]"

definition chain_of :: "nat \<Rightarrow> (body \<times> body option) list" where
  "chain_of i =
     (if i = 4 then [(leaf 4 14, None), (module_body 3 13 4 14, Some (module_body 1 11 2 12))]
      else if i = 3 then [(module_body 3 13 4 14, Some (module_body 1 11 2 12))] else [])"

theorem resolver_finds_counterpart_witness:
  "\<exists>C1. getCanonicalValueSymbol chain_of (\<lambda>_. Some (leaf 4 14)) 14 no_caches = (12, C1) \<and>
     lockstep (body_members (module_body 3 13 4 14)) (body_members (module_body 1 11 2 12)) 14 12 \<and>
     getCanonicalValueSymbol chain_of (\<lambda>_. Some (leaf 4 14)) 14 (snd (getCanonicalValueSymbol chain_of (\<lambda>_. Some (leaf 4 14)) 13 C1)) =
       (12, snd (getCanonicalValueSymbol chain_of (\<lambda>_. Some (leaf 4 14)) 13 C1))"
proof -
  obtain w C1 where q: "getCanonicalValueSymbol chain_of (\<lambda>_. Some (leaf 4 14)) 14 no_caches = (w, C1)"
    by fastforce
  have "fst (getCanonicalValueSymbol chain_of (\<lambda>_. Some (leaf 4 14)) 14 no_caches) = 12"
    by code_simp
  then have w: "w = 12" using q by simp
  have anchor: "find_anchor no_caches (chain_of (body_id (leaf 4 14))) = Some (module_body 3 13 4 14, module_body 1 11 2 12)"
    by code_simp
  have place: "lockstep (body_members (module_body 3 13 4 14)) (body_members (module_body 1 11 2 12)) 14 12"
    by (auto simp: module_body_def leaf_def lockstep_Cons heads_def final_body_def same_body_def)
  have "\<forall>vs. let C2 = fold (\<lambda>u C. snd (getCanonicalValueSymbol chain_of (\<lambda>_. Some (leaf 4 14)) u C)) vs C1
           in getCanonicalValueSymbol chain_of (\<lambda>_. Some (leaf 4 14)) 14 C2 = (w, C2)"
    using resolver_finds_counterpart [OF refl _ _ anchor _ q]
    by (simp add: no_caches_def same_body_def module_body_def)
  from spec [OF this, of "[13]"] show ?thesis
    using q place unfolding w by (intro exI [of _ C1]) (simp add: Let_def)
qed

end
