(* ===== verification/Tables.thy ===== *)
theory Tables
  imports NetlistTypes
begin

text \<open>
  Text output: \<open>FormatBuffer\<close> of \<^verbatim>\<open>include/common/FormatBuffer.hpp\<close>, locations and tables of
  \<^verbatim>\<open>include/common/Utilities.hpp\<close>. The texts that slang gives to directions, clock edges and constants are arguments,
  and so is the display width that fmt gives to a string when it pads it: it is not the number of bytes, which the
  column widths are computed from, unless the string is ASCII.
\<close>

section \<open>The buffer\<close>

type_synonym format_buffer = string

definition buf_append :: "string \<Rightarrow> format_buffer \<Rightarrow> format_buffer" where
  [model_simps]: "buf_append s buf = buf @ s"

record 'c texts =
  dir_text :: "arg_direction \<Rightarrow> string"
  edge_text :: "edge_kind \<Rightarrow> string"
  const_text :: "'c \<Rightarrow> string"
  display_width :: "string \<Rightarrow> nat"

text \<open>The format \<open>{:<n}\<close>.\<close>

definition pad_right :: "(string \<Rightarrow> nat) \<Rightarrow> nat \<Rightarrow> string \<Rightarrow> string" where
  "pad_right dw n s = s @ replicate (n - dw s) CHR '' ''"

definition locationStr :: "(string \<times> nat \<times> nat) option \<Rightarrow> string" where
  "locationStr loc =
     (case loc of
        None \<Rightarrow> ''?''
      | Some (file, ln, col) \<Rightarrow> file @ '':'' @ show_nat ln @ '':'' @ show_nat col)"

section \<open>Tables\<close>

type_synonym row = "string list"

definition cell :: "row \<Rightarrow> nat \<Rightarrow> string" where
  "cell r col = (if col < length r then r ! col else [])"

definition column_width :: "row \<Rightarrow> row list \<Rightarrow> nat \<Rightarrow> nat" where
  "column_width header rows col =
     fold (\<lambda>r w. if col < length r then max w (length (r ! col)) else w) rows (length (header ! col))"

definition column_widths :: "row \<Rightarrow> row list \<Rightarrow> nat list" where
  "column_widths header rows = map (column_width header rows) [0 ..< length header]"

definition appendRow :: "(string \<Rightarrow> nat) \<Rightarrow> nat \<Rightarrow> nat list \<Rightarrow> row \<Rightarrow> format_buffer \<Rightarrow> format_buffer" where
  "appendRow dw padding widths r buf =
     buf_append [CHR 0x0A]
       (fold (\<lambda>col buf.
          (let buf' = buf_append (pad_right dw (widths ! col) (cell r col)) buf
           in if col + 1 < length widths \<and> padding > 0 then buf_append (replicate padding CHR '' '') buf' else buf'))
         [0 ..< length widths] buf)"

definition formatTable :: "(string \<Rightarrow> nat) \<Rightarrow> row \<Rightarrow> row list \<Rightarrow> nat \<Rightarrow> format_buffer \<Rightarrow> format_buffer" where
  "formatTable dw header rows padding buf =
     (let widths = column_widths header rows
      in fold (appendRow dw padding widths) rows (appendRow dw padding widths header buf))"

section \<open>Alignment\<close>

text \<open>Where a column starts in every line.\<close>

definition column_offset :: "nat \<Rightarrow> nat list \<Rightarrow> nat \<Rightarrow> nat" where
  "column_offset padding widths col = sum_list (take col widths) + col * padding"

definition text_line :: "nat \<Rightarrow> nat list \<Rightarrow> row \<Rightarrow> string" where
  "text_line padding widths r =
     concat (map (\<lambda>col. pad_right length (widths ! col) (cell r col) @
                    (if col + 1 < length widths then replicate padding CHR '' '' else []))
               [0 ..< length widths])"

lemma fold_append_concat: "fold (\<lambda>x buf. buf @ f x) xs buf = buf @ concat (map f xs)"
  by (induction xs arbitrary: buf) simp_all

lemma appendRow_line: "appendRow length padding widths r buf = buf @ text_line padding widths r @ [CHR 0x0A]"
proof -
  have "(\<lambda>col buf. let buf' = buf_append (pad_right length (widths ! col) (cell r col)) buf
           in if col + 1 < length widths \<and> padding > 0 then buf_append (replicate padding CHR '' '') buf' else buf') =
      (\<lambda>col buf. buf @ (pad_right length (widths ! col) (cell r col) @
           (if col + 1 < length widths then replicate padding CHR '' '' else [])))"
    by (auto simp: fun_eq_iff buf_append_def Let_def)
  then show ?thesis
    by (simp only: appendRow_def fold_append_concat text_line_def) (simp add: buf_append_def)
qed

lemma formatTable_lines:
  "formatTable length header rows padding buf =
     buf @ concat (map (\<lambda>r. text_line padding (column_widths header rows) r @ [CHR 0x0A]) (header # rows))"
proof -
  have "fold (appendRow length padding ws) rows b = b @ concat (map (\<lambda>r. text_line padding ws r @ [CHR 0x0A]) rows)" for ws b
    by (induction rows arbitrary: b) (simp_all add: appendRow_line)
  then show ?thesis
    by (simp add: formatTable_def Let_def appendRow_line)
qed

lemma column_width_ge:
  "length (header ! col) \<le> column_width header rows col"
  "r \<in> set rows \<Longrightarrow> col < length r \<Longrightarrow> length (r ! col) \<le> column_width header rows col"
proof -
  define f where "f = (\<lambda>(r :: row) w. if col < length r then max w (length (r ! col)) else w)"
  have grow: "w \<le> fold f rows w" for rows w
  proof (induction rows arbitrary: w)
    case (Cons a rows)
    have "w \<le> f a w" by (simp add: f_def)
    then show ?case using Cons [of "f a w"] by simp
  qed simp
  have "r \<in> set rows \<Longrightarrow> col < length r \<Longrightarrow> length (r ! col) \<le> fold f rows w" for w
  proof (induction rows arbitrary: w)
    case (Cons a rows)
    show ?case
      using Cons grow [of "f a w" rows] by (auto simp: f_def)
  qed simp
  then show "length (header ! col) \<le> column_width header rows col"
    "r \<in> set rows \<Longrightarrow> col < length r \<Longrightarrow> length (r ! col) \<le> column_width header rows col"
    using grow [of "length (header ! col)" rows] by (simp_all add: column_width_def f_def)
qed

lemma column_widths_nth: "col < length header \<Longrightarrow> column_widths header rows ! col = column_width header rows col"
  by (simp add: column_widths_def)

lemma length_column_widths [simp]: "length (column_widths header rows) = length header"
  by (simp add: column_widths_def)

text \<open>What a line holds for one column: the cell, filled up to the column's width, and the gap to the next column.\<close>

definition field :: "nat \<Rightarrow> nat list \<Rightarrow> row \<Rightarrow> nat \<Rightarrow> string" where
  "field padding widths r col =
     pad_right length (widths ! col) (cell r col) @ (if col + 1 < length widths then replicate padding CHR '' '' else [])"

lemma text_line_field: "text_line padding widths r = concat (map (field padding widths r) [0 ..< length widths])"
  by (simp add: text_line_def field_def [abs_def])

lemma prefix_length:
  assumes "\<forall>c < length widths. length (cell r c) \<le> widths ! c" "col < length widths"
  shows "length (concat (map (field padding widths r) [0 ..< col])) = column_offset padding widths col"
  using assms(2)
proof (induction col)
  case (Suc c)
  then have "length (cell r c) \<le> widths ! c"
    using assms(1) by simp
  then show ?case
    using Suc by (simp add: column_offset_def field_def pad_right_def take_Suc_conv_app_nth)
qed (simp add: column_offset_def)

lemma text_line_cell:
  assumes "\<forall>c < length widths. length (cell r c) \<le> widths ! c" "col < length widths"
  shows "take (widths ! col) (drop (column_offset padding widths col) (text_line padding widths r)) =
     cell r col @ replicate (widths ! col - length (cell r col)) CHR '' ''"
proof -
  have "[0 ..< length widths] = [0 ..< col] @ col # [Suc col ..< length widths]"
    using assms(2) by (metis le_add_same_cancel1 less_imp_add_positive upt_add_eq_append upt_conv_Cons zero_le less_imp_le)
  then have "text_line padding widths r =
      concat (map (field padding widths r) [0 ..< col]) @ pad_right length (widths ! col) (cell r col) @
      (if col + 1 < length widths then replicate padding CHR '' '' else []) @ concat (map (field padding widths r) [Suc col ..< length widths])"
    by (simp add: text_line_field field_def)
  then show ?thesis
    using prefix_length [OF assms, of padding] assms by (simp add: pad_right_def)
qed

lemma text_line_length:
  assumes "\<forall>c < length widths. length (cell r c) \<le> widths ! c" "widths \<noteq> []"
  shows "length (text_line padding widths r) = sum_list widths + (length widths - 1) * padding"
proof -
  obtain k where k: "length widths = Suc k"
    using assms(2) by (cases widths) auto
  then have "sum_list widths = sum_list (take k widths) + widths ! k"
    by (metis lessI sum_list_append sum_list.Nil sum_list.Cons take_Suc_conv_app_nth take_all_iff le_refl add_0_right)
  then show ?thesis
    using k prefix_length [OF assms(1), of k padding] assms(1)
    by (simp add: text_line_field field_def column_offset_def pad_right_def)
qed

text \<open>
  A table of ASCII text is aligned: it is one line per row after the header's, all of the same length; in every
  line the text of a column starts at the same place, is followed by blanks up to the column's width, and a row that is
  too short has blanks there. The text is never cut.
\<close>

theorem formatTable_aligned:
  assumes "header \<noteq> []" and "\<forall>r \<in> set rows. length r \<le> length header"
  shows "\<exists>lines. formatTable length header rows padding buf = buf @ concat (map (\<lambda>l. l @ [CHR 0x0A]) lines) \<and>
     length lines = Suc (length rows) \<and>
     (\<forall>l \<in> set lines. length l = sum_list (column_widths header rows) + (length header - 1) * padding) \<and>
     (\<forall>i < length lines. \<forall>col < length header.
        take (column_widths header rows ! col) (drop (column_offset padding (column_widths header rows) col) (lines ! i)) =
          cell ((header # rows) ! i) col @
          replicate (column_widths header rows ! col - length (cell ((header # rows) ! i) col)) CHR '' '' \<and>
        length (cell ((header # rows) ! i) col) \<le> column_widths header rows ! col)"
proof -
  let ?w = "column_widths header rows" and ?all = "header # rows"
  have fits: "r \<in> set ?all \<Longrightarrow> c < length header \<Longrightarrow> length (cell r c) \<le> ?w ! c" for r c
    using column_width_ge(1) [of header c rows] column_width_ge(2) [where r = r and col = c and rows = rows and header = header]
    by (auto simp: cell_def column_widths_nth)
  let ?lines = "map (text_line padding ?w) ?all"
  have len: "\<forall>l \<in> set ?lines. length l = sum_list ?w + (length header - 1) * padding"
  proof
    fix l assume "l \<in> set ?lines"
    then obtain r where r: "r \<in> set ?all" "l = text_line padding ?w r" by auto
    have "?w \<noteq> []" using assms(1) by (metis length_column_widths length_0_conv)
    then show "length l = sum_list ?w + (length header - 1) * padding"
      using text_line_length [of ?w r padding] fits [OF r(1)] r(2) by simp
  qed
  have cells: "\<forall>i < length ?lines. \<forall>col < length header.
      take (?w ! col) (drop (column_offset padding ?w col) (?lines ! i)) =
        cell (?all ! i) col @ replicate (?w ! col - length (cell (?all ! i) col)) CHR '' '' \<and>
      length (cell (?all ! i) col) \<le> ?w ! col"
  proof (intro allI impI)
    fix i col assume i: "i < length ?lines" and col: "col < length header"
    have "?all ! i \<in> set ?all" by (rule nth_mem) (use i in simp)
    then have ok: "\<And>c. c < length header \<Longrightarrow> length (cell (?all ! i) c) \<le> ?w ! c"
      using fits by blast
    have "?lines ! i = text_line padding ?w (?all ! i)"
      by (rule nth_map) (use i in simp)
    then show "take (?w ! col) (drop (column_offset padding ?w col) (?lines ! i)) =
        cell (?all ! i) col @ replicate (?w ! col - length (cell (?all ! i) col)) CHR '' '' \<and>
      length (cell (?all ! i) col) \<le> ?w ! col"
      using text_line_cell [of ?w "?all ! i" col padding] ok col by simp
  qed
  have "formatTable length header rows padding buf = buf @ concat (map (\<lambda>l. l @ [CHR 0x0A]) ?lines)"
    by (simp add: formatTable_lines comp_def)
  then show ?thesis
    using len cells by (intro exI [of _ ?lines] conjI) (simp_all only: length_map list.size)
qed

theorem formatTable_aligned_witness:
  "\<exists>lines. formatTable length [''Name'', ''Width''] [[''data_in'', ''8''], [''q'']] 2 [] = concat (map (\<lambda>l. l @ [CHR 0x0A]) lines) \<and>
     length lines = 3 \<and> (\<forall>l \<in> set lines. length l = 14) \<and> take 7 (drop 0 (lines ! 1)) = ''data_in''"
proof -
  have w: "column_widths [''Name'', ''Width''] [[''data_in'', ''8''], [''q'']] = [7, 5]"
    by code_simp
  obtain lines where l: "formatTable length [''Name'', ''Width''] [[''data_in'', ''8''], [''q'']] 2 [] = [] @ concat (map (\<lambda>l. l @ [CHR 0x0A]) lines)"
      "length lines = Suc 2" "\<forall>l \<in> set lines. length l = sum_list [7, 5] + 1 * 2"
    and cells: "\<And>i col. i < length lines \<Longrightarrow> col < 2 \<Longrightarrow> take ([7, 5] ! col) (drop (column_offset 2 [7, 5] col) (lines ! i)) =
       cell ([[''Name'', ''Width''], [''data_in'', ''8''], [''q'']] ! i) col @
       replicate ([7, 5] ! col - length (cell ([[''Name'', ''Width''], [''data_in'', ''8''], [''q'']] ! i) col)) CHR '' ''"
    using formatTable_aligned [of "[''Name'', ''Width'']" "[[''data_in'', ''8''], [''q'']]" 2 "[]", unfolded w] by auto
  show ?thesis
    using l cells [of 1 0] by (intro exI [of _ lines]) (simp add: cell_def column_offset_def)
qed

end
