(* ===== verification/Dot.thy ===== *)
theory Dot
  imports Tables
begin

text \<open>
  The DOT rendering of a netlist, \<^verbatim>\<open>include/netlist/NetlistDot.hpp\<close>. A node of kind \<open>None\<close> is unreachable in the code:
  \<open>None\<close> here.
\<close>

section \<open>Model\<close>

abbreviation quote_char :: string where
  "quote_char \<equiv> [CHR 0x22]"

abbreviation new_line :: string where
  "new_line \<equiv> [CHR 0x0A]"

fun dot_label :: "'c texts \<Rightarrow> range_lib \<Rightarrow> 'c node_data \<Rightarrow> string option" where
  "dot_label T R (Port name _ _ dir _) = Some (dir_text T dir @ '' port '' @ name)"
| "dot_label T R (Variable name _ _ _) = Some (''Variable '' @ name)"
| "dot_label T R (Assignment _) = Some ''Assignment''"
| "dot_label T R (Case _) = Some ''Case''"
| "dot_label T R (Conditional _) = Some ''Conditional''"
| "dot_label T R Merge = Some ''Merge''"
| "dot_label T R (State name _ _ bnds) = Some (name @ '' '' @ range_toString R bnds)"
| "dot_label T R (Constant v _ _) = Some (''Const '' @ const_text T v)"
| "dot_label T R NoneNode = None"

definition writeNode :: "'c texts \<Rightarrow> range_lib \<Rightarrow> 'c ngraph \<Rightarrow> nat \<Rightarrow> format_buffer \<Rightarrow> format_buffer option" where
  "writeNode T R g n buf =
     map_option (\<lambda>l. buf_append (''  N'' @ show_nat (nID g n) @ '' [label='' @ quote_char @ l @ quote_char @ '']'' @ new_line) buf)
       (dot_label T R (ndata g n))"

text \<open>The symbol of an edge, if it has one with a name.\<close>

definition named_symbol :: "'c netlist \<Rightarrow> nat \<Rightarrow> symbol_reference option" where
  "named_symbol N e =
     (case symbol (einfo (dg N) e) of
        None \<Rightarrow> None
      | Some p \<Rightarrow> (let s = st_entries (symbolTable N) ! p in if sr_name s = [] then None else Some s))"

definition writeEdge :: "range_lib \<Rightarrow> 'c netlist \<Rightarrow> nat \<Rightarrow> nat \<Rightarrow> format_buffer \<Rightarrow> format_buffer" where
  "writeEdge R N n e buf =
     buf_append (''  N'' @ show_nat (nID (dg N) n) @ '' -> N'' @ show_nat (nID (dg N) (etgt (dg N) e)) @
       (case named_symbol N e of
          Some s \<Rightarrow> '' [label='' @ quote_char @ sr_name s @ range_toString R (bounds (einfo (dg N) e)) @ quote_char @ '']''
        | None \<Rightarrow> []) @ new_line) buf"

definition included :: "nat set option \<Rightarrow> nat \<Rightarrow> bool" where
  "included filt n = (case filt of None \<Rightarrow> True | Some ns \<Rightarrow> n \<in> ns)"

primrec write_nodes :: "'c texts \<Rightarrow> range_lib \<Rightarrow> 'c netlist \<Rightarrow> nat set option \<Rightarrow> nat list \<Rightarrow> format_buffer \<Rightarrow> format_buffer option" where
  "write_nodes T R N filt [] buf = Some buf"
| "write_nodes T R N filt (n # ns) buf =
     (if \<not> included filt n then write_nodes T R N filt ns buf
      else and_then (writeNode T R (dg N) n buf) (write_nodes T R N filt ns))"

definition write_edge :: "range_lib \<Rightarrow> 'c netlist \<Rightarrow> nat set option \<Rightarrow> nat \<Rightarrow> nat \<Rightarrow> format_buffer \<Rightarrow> format_buffer" where
  "write_edge R N filt n e buf =
     (if disabled (einfo (dg N) e) then buf
      else if \<not> included filt (etgt (dg N) e) then buf
      else writeEdge R N n e buf)"

definition renderImpl :: "'c texts \<Rightarrow> range_lib \<Rightarrow> 'c netlist \<Rightarrow> nat set option \<Rightarrow> format_buffer \<Rightarrow> format_buffer option" where
  "renderImpl T R N filt buf =
     map_option (\<lambda>buf. buf_append (''}'' @ new_line)
         (fold (\<lambda>n buf. if \<not> included filt n then buf else fold (write_edge R N filt n) (outEdges (dg N) n) buf)
           (nodes (dg N)) buf))
       (write_nodes T R N filt (nodes (dg N))
         (buf_append (''  node [shape=record];'' @ new_line) (buf_append (''digraph {'' @ new_line) buf)))"

definition render :: "'c texts \<Rightarrow> range_lib \<Rightarrow> 'c netlist \<Rightarrow> format_buffer \<Rightarrow> format_buffer option" where
  "render T R N buf = renderImpl T R N None buf"

definition render_nodes :: "'c texts \<Rightarrow> range_lib \<Rightarrow> 'c netlist \<Rightarrow> nat set \<Rightarrow> format_buffer \<Rightarrow> format_buffer option" where
  "render_nodes T R N ns buf = renderImpl T R N (Some ns) buf"

end
