(* ===== verification/Driver.thy ===== *)
theory Driver
  imports Dot Cycles Queries Serializer
begin

text \<open>
  The command-line driver, \<^verbatim>\<open>tools/driver/driver.cpp\<close>, part one: what its commands share. The options are those that
  slang's command-line parser has filled in. What the driver asks of other code is the environment: the texts of slang's
  enumerations, the order in which a hash set is iterated, slang's diagnostic engine, the statistics, the version.

  An exception is \<open>Thrown\<close> with its message; a failed assertion or \<open>SLANG_UNREACHABLE\<close> is \<open>Aborted\<close>.
\<close>

section \<open>Options, environment, results\<close>

record options =
  o_stats :: bool
  statsJson :: bool
  o_format :: "string option"
  maxResults :: "nat option"
  maxDepth :: "nat option"
  crossState :: "string option"
  scopeFilters :: "string list"
  nameFilters :: "string list"
  outputFile :: "string option"
  reportRegisters :: bool
  combLoops :: bool
  netlistDotFile :: "string option"
  fromPointName :: "string option"
  toPointName :: "string option"
  fromNodeId :: "nat option"
  toNodeId :: "nat option"
  fromKind :: "string option"
  toKind :: "string option"
  fanOutName :: "string option"
  fanInName :: "string option"
  sensitivityName :: "string option"
  constantDriversName :: "string option"
  driversName :: "string option"
  findPattern :: "string option"
  findRegexPattern :: "string option"
  saveNetlistFile :: "string option"

datatype diagnostic =
  InputPortDiag string text_location
| OutputPortDiag string text_location
| AssignmentDiag text_location
| ConditionalDiag text_location
| CaseDiag text_location
| ValueDiag string text_location

record 'c tool_env =
  texts :: "'c texts"
  ranges :: range_lib
  hash_order :: "nat list \<Rightarrow> nat list"
  regex_match :: "string \<Rightarrow> string \<Rightarrow> bool"
  has_diagnostics :: bool
  hasSourceLocation :: "text_location \<Rightarrow> bool"
  diag_text :: "diagnostic list \<Rightarrow> string"
  constants :: "'c constant_text"
  dump :: "json \<Rightarrow> string"
  stats_value :: json
  stats_text :: string
  tool_version :: string
  slang_version :: string
  random_id :: string
  range_message :: string

text \<open>An output: where it goes (a file, or the standard output) and a text, or a JSON value that \<open>dump\<close> renders.\<close>

datatype content = PlainText string | JsonText json
datatype tool_output = Output (out_file: "string option") (out_content: content) | ErrorOutput string

datatype failure = Thrown string | Aborted

type_synonym 'a tool = "failure + 'a"

fun bindT :: "'a tool \<Rightarrow> ('a \<Rightarrow> 'b tool) \<Rightarrow> 'b tool" where
  "bindT (Inl err) f = Inl err"
| "bindT (Inr x) f = f x"

lemma bindT_eq_Inr: "bindT r f = Inr y \<longleftrightarrow> (\<exists>x. r = Inr x \<and> f x = Inr y)"
  by (cases r) simp_all

definition asserted :: "'a option \<Rightarrow> 'a tool" where
  "asserted x = (case x of None \<Rightarrow> Inl Aborted | Some y \<Rightarrow> Inr y)"

fun mapT :: "('a \<Rightarrow> 'b tool) \<Rightarrow> 'a list \<Rightarrow> 'b list tool" where
  "mapT f [] = Inr []"
| "mapT f (x # xs) = bindT (f x) (\<lambda>y. bindT (mapT f xs) (\<lambda>ys. Inr (y # ys)))"

datatype out_format = TableFormat | JsonFormat

definition writeOutput :: "options \<Rightarrow> content \<Rightarrow> tool_output" where
  "writeOutput opts c =
     (case outputFile opts of
        Some f \<Rightarrow> if f \<noteq> ''-'' then Output (Some f) c else Output None c
      | None \<Rightarrow> Output None c)"

section \<open>Filters and ranges\<close>

definition passesFilters :: "options \<Rightarrow> string \<Rightarrow> bool" where
  "passesFilters opts path =
     (if scopeFilters opts \<noteq> [] \<and> \<not> list_ex (pathInScope path) (scopeFilters opts) then False
      else if nameFilters opts \<noteq> [] \<and> \<not> list_ex (wildcardMatch path) (nameFilters opts) then False
      else True)"

definition digit_of :: "char \<Rightarrow> nat option" where
  "digit_of c = (let k = of_char c in if 48 \<le> k \<and> k \<le> (57 :: nat) then Some (k - 48) else None)"

fun parse_digits :: "nat \<Rightarrow> string \<Rightarrow> nat option" where
  "parse_digits acc [] = Some acc"
| "parse_digits acc (c # cs) = and_then (digit_of c) (\<lambda>d. parse_digits (10 * acc + d) cs)"

text \<open>\<open>std::from_chars\<close> on the whole text: an optional minus sign, digits, and a value that \<open>int32_t\<close> can hold.\<close>

definition parseInt :: "string \<Rightarrow> int option" where
  "parseInt s =
     (let neg = (s \<noteq> [] \<and> hd s = CHR ''-'');
          ds = (if neg then tl s else s)
      in if ds = [] then None
         else and_then (parse_digits 0 ds) (\<lambda>n.
           let v = (if neg then - int n else int n)
           in if - (2 ^ 31) \<le> v \<and> v < 2 ^ 31 then Some v else None))"

text \<open>\<open>rfind\<close> and \<open>find\<close> of a character, as the text before it and the text after it.\<close>

fun split_first :: "char \<Rightarrow> string \<Rightarrow> (string \<times> string) option" where
  "split_first c [] = None"
| "split_first c (x # xs) = (if x = c then Some ([], xs) else map_option (\<lambda>(a, b). (x # a, b)) (split_first c xs))"

definition split_last :: "char \<Rightarrow> string \<Rightarrow> (string \<times> string) option" where
  "split_last c s = map_option (\<lambda>(a, b). (rev b, rev a)) (split_first c (rev s))"

definition parseNameAndRange :: "string \<Rightarrow> string \<times> bit_range option" where
  "parseNameAndRange spec =
     (if spec = [] \<or> last spec \<noteq> CHR '']'' then (spec, None)
      else case split_last CHR ''['' spec of
             None \<Rightarrow> (spec, None)
           | Some (path, rest) \<Rightarrow>
               (let inner = butlast rest
                in case split_first CHR '':'' inner of
                     None \<Rightarrow> (case parseInt inner of None \<Rightarrow> (spec, None) | Some b \<Rightarrow> (path, Some (mk_range b b)))
                   | Some (h, l) \<Rightarrow>
                       (case (parseInt h, parseInt l) of
                          (Some hi, Some lo) \<Rightarrow> (path, Some (mk_range hi lo))
                        | _ \<Rightarrow> (spec, None))))"

definition full_range :: bit_range where
  "full_range = mk_range 0 2147483647"

section \<open>Nodes and edges as text\<close>

fun describeDriver :: "'c texts \<Rightarrow> 'c node_data \<Rightarrow> string" where
  "describeDriver T (Port n p l dir b) =
     (if dir = DirIn then ''input'' else if dir = DirOut then ''output'' else ''inout'') @ '' port '' @ p"
| "describeDriver T (Variable n p l b) = ''variable '' @ p"
| "describeDriver T (State n p l b) = ''register '' @ p"
| "describeDriver T (Constant v w l) = ''constant '' @ const_text T v"
| "describeDriver T (Assignment l) = ''assignment''"
| "describeDriver T (Conditional l) = ''conditional''"
| "describeDriver T (Case l) = ''case''"
| "describeDriver T Merge = ''merge''"
| "describeDriver T NoneNode = ''unknown''"

definition parseNodeKind :: "string \<Rightarrow> node_kind option" where
  "parseNodeKind s =
     (if s = ''port'' then Some KPort else if s = ''variable'' then Some KVariable
      else if s = ''assignment'' then Some KAssignment else if s = ''conditional'' then Some KConditional
      else if s = ''case'' then Some KCase else if s = ''merge'' then Some KMerge
      else if s = ''state'' then Some KState else if s = ''constant'' then Some KConstant else None)"

text \<open>A location as text; a file index out of range throws.\<close>

definition location_text :: "'c tool_env \<Rightarrow> 'c netlist \<Rightarrow> text_location \<Rightarrow> string tool" where
  "location_text E N loc =
     (case location_toString (fileTable N) loc of None \<Rightarrow> Inl (Thrown (range_message E)) | Some s \<Rightarrow> Inr s)"

definition node_location_text :: "'c tool_env \<Rightarrow> 'c netlist \<Rightarrow> nat \<Rightarrow> string tool" where
  "node_location_text E N n =
     (case getLocation (ndata (dg N) n) of None \<Rightarrow> Inr [] | Some loc \<Rightarrow> location_text E N loc)"

definition node_bounds_text :: "range_lib \<Rightarrow> 'c netlist \<Rightarrow> nat \<Rightarrow> string" where
  "node_bounds_text R N n = (case getBounds (ndata (dg N) n) of None \<Rightarrow> [] | Some b \<Rightarrow> range_toString R b)"

section \<open>Reports of paths\<close>

text \<open>\<open>getNodeLocation\<close>: not every node with a location counts.\<close>

fun getNodeLocation :: "'c node_data \<Rightarrow> text_location option" where
  "getNodeLocation (Port _ _ l _ _) = Some l"
| "getNodeLocation (Assignment l) = Some l"
| "getNodeLocation (Conditional l) = Some l"
| "getNodeLocation (Case l) = Some l"
| "getNodeLocation _ = None"

fun reportNodeDiag :: "'c node_data \<Rightarrow> diagnostic list tool" where
  "reportNodeDiag (Port name _ loc dir _) =
     (if dir = DirIn then Inr [InputPortDiag name loc]
      else if dir = DirOut then Inr [OutputPortDiag name loc] else Inl Aborted)"
| "reportNodeDiag (Assignment loc) = Inr [AssignmentDiag loc]"
| "reportNodeDiag (Conditional loc) = Inr [ConditionalDiag loc]"
| "reportNodeDiag (Case loc) = Inr [CaseDiag loc]"
| "reportNodeDiag _ = Inr []"

definition reportEdgeDiag :: "range_lib \<Rightarrow> 'c netlist \<Rightarrow> nat \<Rightarrow> diagnostic list" where
  "reportEdgeDiag R N e =
     (case named_symbol N e of
        None \<Rightarrow> []
      | Some s \<Rightarrow> [ValueDiag (sr_hierarchicalPath s @ range_toString R (bounds (einfo (dg N) e))) (sr_location s)])"

definition note_line :: "'c tool_env \<Rightarrow> 'c netlist \<Rightarrow> text_location \<Rightarrow> string \<Rightarrow> string tool" where
  "note_line E N loc s = bindT (location_text E N loc) (\<lambda>l. Inr (l @ '': note: '' @ s @ [CHR 0x0A]))"

fun reportNodeText :: "'c tool_env \<Rightarrow> 'c netlist \<Rightarrow> 'c node_data \<Rightarrow> string tool" where
  "reportNodeText E N (Port name _ loc dir _) =
     bindT (location_text E N loc) (\<lambda>_.
       if dir = DirIn then note_line E N loc (''input port '' @ name)
       else if dir = DirOut then note_line E N loc (''output port '' @ name) else Inl Aborted)"
| "reportNodeText E N (Assignment loc) = note_line E N loc ''assignment''"
| "reportNodeText E N (Conditional loc) = note_line E N loc ''conditional statement''"
| "reportNodeText E N (Case loc) = note_line E N loc ''case statement''"
| "reportNodeText E N _ = Inr []"

definition reportEdgeText :: "'c tool_env \<Rightarrow> 'c netlist \<Rightarrow> nat \<Rightarrow> string tool" where
  "reportEdgeText E N e =
     (case named_symbol N e of
        None \<Rightarrow> Inr []
      | Some s \<Rightarrow> note_line E N (sr_location s)
                   (''value '' @ sr_hierarchicalPath s @ range_toString (ranges E) (bounds (einfo (dg N) e))))"

text \<open>The steps of a path: every node with the first edge to the next one, then the last node.\<close>

fun report_steps :: "'c netlist \<Rightarrow> (nat \<Rightarrow> 'a list tool) \<Rightarrow> (nat \<Rightarrow> 'a list tool) \<Rightarrow> nat list \<Rightarrow> 'a list tool" where
  "report_steps N nodeRep edgeRep [] = Inl Aborted"
| "report_steps N nodeRep edgeRep [n] = nodeRep n"
| "report_steps N nodeRep edgeRep (a # b # ns) =
     bindT (asserted (findEdgeTo (dg N) a b)) (\<lambda>e.
     bindT (nodeRep a) (\<lambda>x.
     bindT (edgeRep e) (\<lambda>y.
     bindT (report_steps N nodeRep edgeRep (b # ns)) (\<lambda>zs. Inr (x @ y @ zs)))))"

definition use_diagnostics :: "'c tool_env \<Rightarrow> 'c netlist \<Rightarrow> nat list \<Rightarrow> bool" where
  "use_diagnostics E N path =
     (has_diagnostics E \<and>
      (case List.map_filter (\<lambda>n. getNodeLocation (ndata (dg N) n)) path of
         [] \<Rightarrow> False | loc # _ \<Rightarrow> hasSourceLocation E loc))"

definition reportPath :: "'c tool_env \<Rightarrow> 'c netlist \<Rightarrow> nat list \<Rightarrow> string tool" where
  "reportPath E N path =
     (if use_diagnostics E N path
      then bindT (report_steps N (\<lambda>n. reportNodeDiag (ndata (dg N) n)) (\<lambda>e. Inr (reportEdgeDiag (ranges E) N e)) path)
             (\<lambda>ds. Inr (diag_text E ds))
      else report_steps N (\<lambda>n. reportNodeText E N (ndata (dg N) n)) (reportEdgeText E N) path)"

section \<open>Nodes and edges as JSON\<close>

definition locationJson :: "'c tool_env \<Rightarrow> 'c netlist \<Rightarrow> text_location option \<Rightarrow> json tool" where
  "locationJson E N loc =
     (case loc of
        None \<Rightarrow> Inr JNull
      | Some l \<Rightarrow>
          (case getFilename (fileTable N) (fileIndex l) of
             None \<Rightarrow> Inl (Thrown (range_message E))
           | Some f \<Rightarrow> Inr (JObject [(''file'', JString f), (''line'', JInt (int (line l))), (''column'', JInt (int (column l)))])))"

definition optional_json :: "string option \<Rightarrow> json" where
  "optional_json s = (case s of None \<Rightarrow> JNull | Some p \<Rightarrow> JString p)"

definition bounds_json :: "range_lib \<Rightarrow> bit_range \<Rightarrow> json" where
  "bounds_json R b = JArray [JInt (lower_of R b), JInt (upper_of R b)]"

definition coverage_text :: "black_box_coverage \<Rightarrow> string" where
  "coverage_text c = (case c of Boundary_of_box \<Rightarrow> ''boundary'' | Contained \<Rightarrow> ''contained'' | Outside \<Rightarrow> ''outside'')"

definition value_json :: "'c texts \<Rightarrow> 'c node_data \<Rightarrow> (string \<times> json) list" where
  "value_json T d = (case d of Constant v _ _ \<Rightarrow> [(''value'', JString (const_text T v))] | _ \<Rightarrow> [])"

definition nodeJson :: "'c tool_env \<Rightarrow> 'c netlist \<Rightarrow> nat \<Rightarrow> json tool" where
  "nodeJson E N n =
     (let d = ndata (dg N) n
      in bindT (locationJson E N (getLocation d)) (\<lambda>loc. Inr (JObject (
         [(''id'', JInt (int (nID (dg N) n))),
          (''kind'', JString (kind_toString (data_kind d))),
          (''path'', optional_json (getHierarchicalPath d)),
          (''bounds'', case getBounds d of None \<Rightarrow> JNull | Some b \<Rightarrow> bounds_json (ranges E) b),
          (''location'', loc),
          (''name'', optional_json (getHierarchicalPath d)),
          (''black_box_coverage'', JString (coverage_text (getBlackBoxCoverage n N)))] @
         value_json (texts E) d))))"

definition edgeJson :: "'c tool_env \<Rightarrow> 'c netlist \<Rightarrow> nat \<Rightarrow> json" where
  "edgeJson E N e =
     (let i = einfo (dg N) e
      in JObject
        [(''source'', JInt (int (nID (dg N) (esrc (dg N) e)))),
         (''target'', JInt (int (nID (dg N) (etgt (dg N) e)))),
         (''symbol'', optional_json (symbol_path N e)),
         (''bounds'', bounds_json (ranges E) (bounds i)),
         (''edge_kind'', JString (edge_text (texts E) (edgeKind i))),
         (''role'', JString (role_toString (role i))),
         (''precision'', JString (precision_toString (precision i))),
         (''disabled'', JBool (disabled i))])"

text \<open>The nodes of a path and the first edge between each node and the next, if there is one.\<close>

fun path_edges :: "'c ngraph \<Rightarrow> nat list \<Rightarrow> nat list" where
  "path_edges g (a # b # ns) = (case findEdgeTo g a b of None \<Rightarrow> [] | Some e \<Rightarrow> [e]) @ path_edges g (b # ns)"
| "path_edges g _ = []"

section \<open>Envelopes\<close>

fun json_put :: "string \<Rightarrow> json \<Rightarrow> (string \<times> json) list \<Rightarrow> (string \<times> json) list" where
  "json_put k v [] = [(k, v)]"
| "json_put k v ((q, w) # kvs) = (if q = k then (k, v) # kvs else (q, w) # json_put k v kvs)"

definition artifact :: "'c tool_env \<Rightarrow> 'c netlist \<Rightarrow> json" where
  "artifact E N = JString (fst (getArtifactId (random_id E) N))"

definition tool_json :: "'c tool_env \<Rightarrow> json" where
  "tool_json E =
     JObject [(''name'', JString ''slang-netlist''), (''version'', JString (tool_version E)),
              (''slang_version'', JString (slang_version E)), (''graph_schema_version'', JInt formatVersion)]"

definition status_text :: "bool \<Rightarrow> nat \<Rightarrow> string" where
  "status_text complete returned = (if \<not> complete then ''truncated'' else if returned = 0 then ''empty'' else ''ok'')"

definition summary_json :: "string \<Rightarrow> bool \<Rightarrow> nat \<Rightarrow> nat \<Rightarrow> json" where
  "summary_json status complete returned whole =
     JObject [(''status'', JString status), (''complete'', JBool complete),
              (''returned'', JInt (int returned)), (''total'', JInt (int whole))]"

type_synonym envelope = "(string \<times> json) list"

definition setEnvelope :: "'c tool_env \<Rightarrow> 'c netlist \<Rightarrow> string \<Rightarrow> json \<Rightarrow> json \<Rightarrow> nat \<Rightarrow> nat \<Rightarrow> bool \<Rightarrow> envelope" where
  "setEnvelope E N command query data returned whole complete =
     [(''schema_version'', JInt 1), (''tool'', tool_json E), (''artifact_id'', artifact E N), (''command'', JString command),
      (''query'', query), (''data'', data), (''diagnostics'', JArray []),
      (''summary'', summary_json (status_text complete returned) complete returned whole)]"

text \<open>What \<open>printStats\<close> writes, given the envelope that is pending.\<close>

definition printStats :: "'c tool_env \<Rightarrow> options \<Rightarrow> out_format \<Rightarrow> 'c netlist \<Rightarrow> envelope option \<Rightarrow> tool_output list" where
  "printStats E opts fmt N pending =
     (if o_stats opts \<and> fmt = TableFormat then [ErrorOutput (stats_text E)] else []) @
     (case pending of
        None \<Rightarrow> []
      | Some env \<Rightarrow>
          (let env1 = json_put ''artifact_id'' (artifact E N) env;
               env2 = (if o_stats opts \<or> statsJson opts then json_put ''stats'' (stats_value E) env1 else env1)
           in [writeOutput opts (JsonText (JObject env2))]))"

definition result_count :: "options \<Rightarrow> nat \<Rightarrow> nat" where
  "result_count opts n =
     (let limit = (case maxResults opts of None \<Rightarrow> 200 | Some m \<Rightarrow> m)
      in if limit = 0 then n else min n limit)"

definition exit_status :: "bool \<Rightarrow> nat \<Rightarrow> nat" where
  "exit_status complete shown_n = (if complete then if shown_n = 0 then 3 else 0 else 4)"

definition edges_between :: "'c ngraph \<Rightarrow> nat set \<Rightarrow> nat list \<Rightarrow> nat list" where
  "edges_between g ns order = concat (map (\<lambda>n. filter (\<lambda>e. etgt g e \<in> ns) (outEdges g n)) order)"

definition emitNodeGraph ::
  "'c tool_env \<Rightarrow> options \<Rightarrow> 'c netlist \<Rightarrow> string \<Rightarrow> json \<Rightarrow> nat list \<Rightarrow> nat option \<Rightarrow> (nat \<times> tool_output list) tool" where
  "emitNodeGraph E opts N command query input knownTotal =
     (let shown_n = result_count opts (length input);
          shown = take shown_n input
      in bindT (mapT (nodeJson E N) shown) (\<lambda>nodes.
         let edges = map (edgeJson E N) (edges_between (dg N) (set shown) (hash_order E shown));
             whole = (case knownTotal of None \<Rightarrow> length input | Some t \<Rightarrow> t);
             complete = (shown_n = length input \<and> whole = length input)
         in Inr (exit_status complete shown_n,
              printStats E opts JsonFormat N (Some (setEnvelope E N command query
                (JObject [(''nodes'', JArray nodes), (''edges'', JArray edges), (''items'', JArray nodes)]) shown_n whole complete)))))"

section \<open>Tables\<close>

definition lower_case :: "char \<Rightarrow> char" where
  "lower_case c = (let k = of_char c in if 65 \<le> k \<and> k \<le> (90 :: nat) then char_of (k + 32) else c)"

definition row_json :: "row \<Rightarrow> row \<Rightarrow> json" where
  "row_json header r =
     JObject (fold (\<lambda>i kvs. json_put (map lower_case (header ! i)) (JString (r ! i)) kvs) [0 ..< min (length header) (length r)] [])"

text \<open>
  \<open>emitTable\<close>: the outputs, the pending envelope and the exit code of the JSON branch (every caller returns before this
  call when the format is JSON, so the branch is not reached from the commands).
\<close>

definition emitTable ::
  "'c tool_env \<Rightarrow> options \<Rightarrow> out_format \<Rightarrow> nat option \<Rightarrow> string \<Rightarrow> row \<Rightarrow> row list
   \<Rightarrow> tool_output list \<times> envelope option \<times> nat" where
  "emitTable E opts fmt queryTotal command header table =
     (case fmt of
        JsonFormat \<Rightarrow>
          (let shown_n = result_count opts (length table);
               whole = (case queryTotal of None \<Rightarrow> length table | Some t \<Rightarrow> t);
               truncated = (shown_n < length table \<or> whole > length table)
           in ([],
               Some [(''schema_version'', JInt 1), (''tool'', tool_json E), (''command'', JString command),
                     (''query'', JObject []), (''data'', JObject [(''items'', JArray (map (row_json header) (take shown_n table)))]),
                     (''diagnostics'', JArray []),
                     (''summary'', summary_json (if truncated then ''truncated'' else if table = [] then ''empty'' else ''ok'')
                                     (\<not> truncated) shown_n whole)],
               if truncated then 4 else if table = [] then 3 else 0))
      | TableFormat \<Rightarrow>
          ([writeOutput opts (PlainText (formatTable (display_width (texts E)) header table 2 []))], None, 0))"

definition table_command ::
  "'c tool_env \<Rightarrow> options \<Rightarrow> out_format \<Rightarrow> 'c netlist \<Rightarrow> string \<Rightarrow> row \<Rightarrow> row list \<Rightarrow> nat \<times> tool_output list" where
  "table_command E opts fmt N command header table =
     (let (outs, env, code) = emitTable E opts fmt None command header table
      in (if fmt = JsonFormat then code else 0, outs @ printStats E opts fmt N env))"

end
