(* ===== verification/DriverCommands.thy ===== *)
theory DriverCommands
  imports Driver
begin

text \<open>
  The command-line driver, \<^verbatim>\<open>tools/driver/driver.cpp\<close>, part two: one definition per query command, and the choice of
  the command. A lookup that fills the graph's index gives what it would give again, so the index is not passed on.
  A command gives the outputs it has made and its exit code, or the exception that ended it.
\<close>

type_synonym command_result = "tool_output list \<times> nat tool"

fun completed :: "(nat \<times> tool_output list) tool \<Rightarrow> command_result" where
  "completed (Inl err) = ([], Inl err)"
| "completed (Inr (code, outs)) = (outs, Inr code)"

section \<open>Registers, patterns\<close>

definition node_path :: "'c netlist \<Rightarrow> nat \<Rightarrow> string" where
  "node_path N n = (case getHierarchicalPath (ndata (dg N) n) of None \<Rightarrow> [] | Some p \<Rightarrow> p)"

definition table_of ::
  "'c tool_env \<Rightarrow> options \<Rightarrow> 'c netlist \<Rightarrow> string \<Rightarrow> row \<Rightarrow> ('a \<Rightarrow> row tool) \<Rightarrow> 'a list \<Rightarrow> (nat \<times> tool_output list) tool" where
  "table_of E opts N command header f xs =
     bindT (mapT f xs) (\<lambda>table. Inr (table_command E opts TableFormat N command header table))"

definition registers_command :: "'c tool_env \<Rightarrow> options \<Rightarrow> out_format \<Rightarrow> 'c netlist \<Rightarrow> (nat \<times> tool_output list) tool" where
  "registers_command E opts fmt N =
     (let states = filter (\<lambda>n. passesFilters opts (node_path N n)) (filterNodes KState N)
      in if fmt = JsonFormat then emitNodeGraph E opts N ''registers'' (JObject []) states None
         else table_of E opts N ''registers'' [''Name'', ''Location'']
                (\<lambda>n. bindT (node_location_text E N n) (\<lambda>l. Inr [node_path N n, l])) states)"

definition node_row :: "'c tool_env \<Rightarrow> 'c netlist \<Rightarrow> string \<Rightarrow> nat \<Rightarrow> row tool" where
  "node_row E N name n =
     bindT (node_location_text E N n) (\<lambda>l.
       Inr [show_nat (nID (dg N) n), kind_toString (nkind (dg N) n), name, node_bounds_text (ranges E) N n, l])"

definition node_header :: row where
  "node_header = [''ID'', ''Kind'', ''Name'', ''Bounds'', ''Location'']"

definition unnamed :: "'c netlist \<Rightarrow> nat \<Rightarrow> string" where
  "unnamed N n = (case getHierarchicalPath (ndata (dg N) n) of None \<Rightarrow> ''(unnamed)'' | Some p \<Rightarrow> p)"

definition find_command ::
  "'c tool_env \<Rightarrow> options \<Rightarrow> out_format \<Rightarrow> 'c netlist \<Rightarrow> string \<Rightarrow> string \<Rightarrow> nat list \<Rightarrow> (nat \<times> tool_output list) tool" where
  "find_command E opts fmt N command pattern found =
     (let ns = filter (\<lambda>n. passesFilters opts (node_path N n)) found
      in if fmt = JsonFormat then emitNodeGraph E opts N command (JObject [(''pattern'', JString pattern)]) ns None
         else table_of E opts N command node_header (\<lambda>n. node_row E N (unnamed N n) n) ns)"

section \<open>Fan-in and fan-out\<close>

definition depth_limit :: "options \<Rightarrow> nat" where
  "depth_limit opts = (case maxDepth opts of None \<Rightarrow> 64 | Some d \<Rightarrow> d)"

definition has_filters :: "options \<Rightarrow> bool" where
  "has_filters opts \<longleftrightarrow> scopeFilters opts \<noteq> [] \<or> nameFilters opts \<noteq> []"

definition fan_command ::
  "'c tool_env \<Rightarrow> options \<Rightarrow> out_format \<Rightarrow> 'c netlist \<Rightarrow> string
   \<Rightarrow> (range_lib \<Rightarrow> string \<Rightarrow> bit_range \<Rightarrow> nat \<Rightarrow> 'c netlist \<Rightarrow> nat list option) \<Rightarrow> string \<Rightarrow> (nat \<times> tool_output list) tool" where
  "fan_command E opts fmt N command search spec =
     (let (path, r) = parseNameAndRange spec;
          queryRange = (case r of None \<Rightarrow> full_range | Some b \<Rightarrow> b)
      in if \<not> hasSignal path N then Inl (Thrown (''could not find signal: '' @ path))
         else bindT (asserted (search (ranges E) path queryRange (depth_limit opts) N)) (\<lambda>fan.
           if fmt = JsonFormat then
             bindT (if depth_limit opts \<noteq> 0
                    then bindT (asserted (search (ranges E) path queryRange 0 N)) (\<lambda>all. Inr (Some (length all)))
                    else Inr None) (\<lambda>queryTotal.
               emitNodeGraph E opts N command
                 (JObject [(''signal'', JString spec), (''max_depth'', JInt (int (depth_limit opts)))])
                 (if has_filters opts
                  then filter (\<lambda>n. case getHierarchicalPath (ndata (dg N) n) of None \<Rightarrow> True | Some p \<Rightarrow> passesFilters opts p) fan
                  else fan)
                 queryTotal)
           else
             table_of E opts N command node_header (\<lambda>n. node_row E N (node_path N n) n)
               (filter (\<lambda>n. case getHierarchicalPath (ndata (dg N) n) of None \<Rightarrow> False | Some p \<Rightarrow> passesFilters opts p) fan)))"

section \<open>Loops and DOT files\<close>

definition loop_json :: "'c tool_env \<Rightarrow> 'c netlist \<Rightarrow> nat list \<Rightarrow> json tool" where
  "loop_json E N path =
     bindT (mapT (nodeJson E N) path) (\<lambda>ns.
       Inr (JObject [(''nodes'', JArray ns), (''edges'', JArray (map (edgeJson E N) (path_edges (dg N) path)))]))"

definition stdout_text :: "string \<Rightarrow> tool_output" where
  "stdout_text s = Output None (PlainText s)"

fun print_loops :: "'c tool_env \<Rightarrow> 'c netlist \<Rightarrow> nat list list \<Rightarrow> tool_output list \<times> unit tool" where
  "print_loops E N [] = ([], Inr ())"
| "print_loops E N (c # cs) =
     (let head = stdout_text (''Combinational loop detected:'' @ [CHR 0x0A, CHR 0x0A])
      in case reportPath E N c of
           Inl err \<Rightarrow> ([head], Inl err)
         | Inr s \<Rightarrow> (let (outs, r) = print_loops E N cs in (head # stdout_text (s @ [CHR 0x0A]) # outs, r)))"

definition loops_command :: "'c tool_env \<Rightarrow> options \<Rightarrow> out_format \<Rightarrow> 'c netlist \<Rightarrow> command_result" where
  "loops_command E opts fmt N =
     (case getAllLoops (dg N) of
        None \<Rightarrow> ([], Inl Aborted)
      | Some loops \<Rightarrow>
          if fmt = JsonFormat then
            (let shown = result_count opts (length loops)
             in completed (bindT (mapT (loop_json E N) (take shown loops)) (\<lambda>js.
                  Inr (if loops = [] then 3 else if shown = length loops then 0 else 4,
                    printStats E opts fmt N (Some (setEnvelope E N ''comb-loops'' (JObject []) (JObject [(''loops'', JArray js)])
                      shown (length loops) (shown = length loops)))))))
          else if loops = [] then
            (stdout_text (''No combinational loops detected in the design.'' @ [CHR 0x0A]) # printStats E opts fmt N None, Inr 0)
          else
            (let (outs, r) = print_loops E N loops
             in case r of
                  Inl err \<Rightarrow> (outs, Inl err)
                | Inr _ \<Rightarrow> (outs @ printStats E opts fmt N None, Inr 0)))"

definition requireNode :: "'c netlist \<Rightarrow> string \<Rightarrow> nat tool" where
  "requireNode N name =
     (case fst (lookup name N) of None \<Rightarrow> Inl (Thrown (''could not find node: '' @ name)) | Some n \<Rightarrow> Inr n)"

definition no_path_message :: "string \<Rightarrow> string \<Rightarrow> string" where
  "no_path_message a b = ''no path between '' @ a @ '' and '' @ b"

text \<open>The nodes that a DOT file is restricted to, if it is.\<close>

definition dot_scope :: "options \<Rightarrow> 'c netlist \<Rightarrow> nat set option tool" where
  "dot_scope opts N =
     (case (fanOutName opts, fanInName opts, fromPointName opts, toPointName opts) of
        (Some name, _, _, _) \<Rightarrow>
          bindT (requireNode N name) (\<lambda>n. bindT (asserted (getCombFanOut (dg N) n)) (\<lambda>ns. Inr (Some (insert n (set ns)))))
      | (None, Some name, _, _) \<Rightarrow>
          bindT (requireNode N name) (\<lambda>n. bindT (asserted (getCombFanIn (dg N) n)) (\<lambda>ns. Inr (Some (insert n (set ns)))))
      | (None, None, Some from, Some to) \<Rightarrow>
          bindT (requireNode N from) (\<lambda>a. bindT (requireNode N to) (\<lambda>b.
          bindT (asserted (findPath (dg N) a b)) (\<lambda>path.
            if path = [] then Inl (Thrown (no_path_message from to)) else Inr (Some (set path)))))
      | _ \<Rightarrow> Inr None)"

definition dot_command :: "'c tool_env \<Rightarrow> options \<Rightarrow> out_format \<Rightarrow> 'c netlist \<Rightarrow> string \<Rightarrow> (nat \<times> tool_output list) tool" where
  "dot_command E opts fmt N file =
     bindT (dot_scope opts N) (\<lambda>scope.
     bindT (asserted (case scope of
                        None \<Rightarrow> render (texts E) (ranges E) N []
                      | Some ns \<Rightarrow> render_nodes (texts E) (ranges E) N ns [])) (\<lambda>buf.
       Inr (0, Output (Some file) (PlainText buf) # printStats E opts fmt N None)))"

section \<open>Sensitivity, constants, drivers\<close>

definition add_new :: "'a \<Rightarrow> 'a list \<Rightarrow> 'a list" where
  "add_new x xs = (if x \<in> set xs then xs else xs @ [x])"

definition all_sensitivity :: "'c netlist \<Rightarrow> nat list \<Rightarrow> sensitivity list tool" where
  "all_sensitivity N ns =
     bindT (mapT (\<lambda>n. asserted (getSensitivity (dg N) n)) ns) (\<lambda>srcs. Inr (fold add_new (concat srcs) []))"

definition sensitivity_item :: "'c tool_env \<Rightarrow> 'c netlist \<Rightarrow> sensitivity \<Rightarrow> json tool" where
  "sensitivity_item E N src =
     bindT (nodeJson E N (fst src)) (\<lambda>j.
       Inr (JObject [(''node'', j), (''name'', optional_json (getHierarchicalPath (ndata (dg N) (fst src)))),
                     (''edge'', JString (edge_text (texts E) (snd src))), (''role'', JString ''event'')]))"

text \<open>A JSON answer that is a list of items.\<close>

definition items_command ::
  "'c tool_env \<Rightarrow> options \<Rightarrow> 'c netlist \<Rightarrow> string \<Rightarrow> string \<Rightarrow> ('a \<Rightarrow> json tool) \<Rightarrow> 'a list \<Rightarrow> (nat \<times> tool_output list) tool" where
  "items_command E opts N command signal item xs =
     (let shown = result_count opts (length xs)
      in bindT (mapT item (take shown xs)) (\<lambda>js.
           Inr (if shown = length xs then if shown = 0 then 3 else 0 else 4,
                printStats E opts JsonFormat N (Some (setEnvelope E N command (JObject [(''signal'', JString signal)])
                  (JObject [(''items'', JArray js)]) shown (length xs) (shown = length xs))))))"

definition sensitivity_command ::
  "'c tool_env \<Rightarrow> options \<Rightarrow> out_format \<Rightarrow> 'c netlist \<Rightarrow> string \<Rightarrow> (nat \<times> tool_output list) tool" where
  "sensitivity_command E opts fmt N name =
     (let ns = fst (findNodes name N)
      in if ns = [] then Inl (Thrown (''could not find node: '' @ name))
         else bindT (all_sensitivity N ns) (\<lambda>srcs.
           if fmt = JsonFormat then items_command E opts N ''sensitivity'' name (sensitivity_item E N) srcs
           else table_of E opts N ''sensitivity'' [''Name'', ''Edge'', ''Location'']
                  (\<lambda>src. bindT (node_location_text E N (fst src)) (\<lambda>l.
                     Inr [unnamed N (fst src), edge_text (texts E) (snd src), l]))
                  (filter (\<lambda>src. passesFilters opts (node_path N (fst src))) srcs)))"

definition constants_command ::
  "'c tool_env \<Rightarrow> options \<Rightarrow> out_format \<Rightarrow> 'c netlist \<Rightarrow> string \<Rightarrow> (nat \<times> tool_output list) tool" where
  "constants_command E opts fmt N name =
     bindT (requireNode N name) (\<lambda>n.
     bindT (asserted (getConstantDrivers (dg N) n)) (\<lambda>cs.
       if fmt = JsonFormat then
         emitNodeGraph E opts N ''constant-drivers'' (JObject [(''signal'', JString name)]) cs None
       else table_of E opts N ''constant-drivers'' [''Value'', ''Location'']
              (\<lambda>c. bindT (node_location_text E N c) (\<lambda>l. Inr [const_text (texts E) (nd_value (ndata (dg N) c)), l])) cs))"

definition driver_item :: "'c tool_env \<Rightarrow> 'c netlist \<Rightarrow> bit_driver \<Rightarrow> json tool" where
  "driver_item E N d =
     bindT (nodeJson E N (snd d)) (\<lambda>j.
       Inr (JObject [(''bits'', JString (range_toString (ranges E) (fst d))), (''bounds'', bounds_json (ranges E) (fst d)),
                     (''driver'', j)]))"

definition drivers_command ::
  "'c tool_env \<Rightarrow> options \<Rightarrow> out_format \<Rightarrow> 'c netlist \<Rightarrow> string \<Rightarrow> (nat \<times> tool_output list) tool" where
  "drivers_command E opts fmt N spec =
     (let (path, r) = parseNameAndRange spec
      in if \<not> hasSignal path N then Inl (Thrown (''could not find signal: '' @ path))
         else
           (let ds = (case r of None \<Rightarrow> getAllBitDrivers (ranges E) path N | Some b \<Rightarrow> getBitDrivers (ranges E) path b N)
            in if fmt = JsonFormat then items_command E opts N ''drivers'' path (driver_item E N) ds
               else table_of E opts N ''drivers'' [''Bits'', ''Driver ID'', ''Driver Kind'', ''Driver'', ''Location'']
                      (\<lambda>d. bindT (node_location_text E N (snd d)) (\<lambda>l.
                         Inr [range_toString (ranges E) (fst d), show_nat (nID (dg N) (snd d)),
                              kind_toString (nkind (dg N) (snd d)), describeDriver (texts E) (ndata (dg N) (snd d)), l])) ds))"

section \<open>Paths\<close>

definition resolvePathNode :: "'c netlist \<Rightarrow> string \<Rightarrow> nat option \<Rightarrow> string option \<Rightarrow> string \<Rightarrow> nat tool" where
  "resolvePathNode N name node_id kind label =
     (case node_id of
        Some i \<Rightarrow>
          (case lookupById i N of
             None \<Rightarrow> Inl (Thrown (''could not find '' @ label @ '' node ID: '' @ show_nat i)) | Some n \<Rightarrow> Inr n)
      | None \<Rightarrow>
          (let cands = fst (lookupAll name N)
           in bindT (case kind of
                None \<Rightarrow> Inr cands
              | Some k \<Rightarrow>
                  (case parseNodeKind k of
                     None \<Rightarrow> Inl (Thrown (''invalid '' @ label @ '' node kind: '' @ k))
                   | Some p \<Rightarrow> Inr (filter (\<lambda>n. nkind (dg N) n = p) cands))) (\<lambda>cs.
              case cs of
                [] \<Rightarrow> Inl (Thrown (''could not find '' @ label @ '' point: '' @ name))
              | [n] \<Rightarrow> Inr n
              | _ \<Rightarrow> Inl (Thrown (''ambiguous '' @ label @ '' point: '' @ name @ ''; use --'' @ label @ ''-kind or --'' @ label @ ''-node-id'')))))"

definition signal_starts :: "range_lib \<Rightarrow> 'c netlist \<Rightarrow> string \<Rightarrow> bit_range \<Rightarrow> nat list" where
  "signal_starts R N name r = fold (\<lambda>n res. add_new n res) (signal_consumers R name r N) []"

definition signal_ends :: "range_lib \<Rightarrow> 'c netlist \<Rightarrow> string \<Rightarrow> bit_range \<Rightarrow> nat list" where
  "signal_ends R N name r = fold (\<lambda>d res. add_new (snd d) res) (getBitDrivers R name r N) []"

definition endpoint_range :: "string \<Rightarrow> string \<times> bit_range" where
  "endpoint_range spec = (let (path, r) = parseNameAndRange spec in (path, case r of None \<Rightarrow> full_range | Some b \<Rightarrow> b))"

definition endpoints ::
  "'c tool_env \<Rightarrow> options \<Rightarrow> out_format \<Rightarrow> 'c netlist \<Rightarrow> string \<Rightarrow> string \<Rightarrow> (nat list \<times> nat list) tool" where
  "endpoints E opts fmt N from to =
     (if fmt = JsonFormat \<and> fromNodeId opts = None \<and> toNodeId opts = None \<and> fromKind opts = None \<and> toKind opts = None then
        (let a = endpoint_range from; b = endpoint_range to;
             froms = signal_starts (ranges E) N (fst a) (snd a);
             tos = signal_ends (ranges E) N (fst b) (snd b)
         in if froms = [] \<or> tos = [] then Inl (Thrown ''could not resolve signal endpoint'') else Inr (froms, tos))
      else
        bindT (resolvePathNode N from (fromNodeId opts) (fromKind opts) ''from'') (\<lambda>a.
        bindT (resolvePathNode N to (toNodeId opts) (toKind opts) ''to'') (\<lambda>b. Inr ([a], [b]))))"

text \<open>The first pair of endpoints, in the order of the nested loops, whose search finds a path.\<close>

fun first_path :: "(nat \<times> nat \<Rightarrow> nat list option) \<Rightarrow> (nat \<times> nat) list \<Rightarrow> nat list option" where
  "first_path f [] = Some []"
| "first_path f (p # ps) = and_then (f p) (\<lambda>path. if path \<noteq> [] then Some path else first_path f ps)"

definition all_pairs :: "nat list \<Rightarrow> nat list \<Rightarrow> (nat \<times> nat) list" where
  "all_pairs froms tos = concat (map (\<lambda>a. map (\<lambda>b. (a, b)) tos) froms)"

definition search_path :: "'c netlist \<Rightarrow> string \<Rightarrow> nat list \<Rightarrow> nat list \<Rightarrow> nat list option" where
  "search_path N policy froms tos =
     map_option (\<lambda>path. if policy = ''once'' \<and> length (filter (\<lambda>n. nkind (dg N) n = KState) path) > 1 then [] else path)
       (first_path (\<lambda>(a, b). if policy = ''never'' then findComb (dg N) a b else findPath (dg N) a b) (all_pairs froms tos))"

text \<open>The register that a search across registers would go through first.\<close>

fun first_boundary :: "'c netlist \<Rightarrow> (nat \<times> nat) list \<Rightarrow> nat list option" where
  "first_boundary N [] = Some []"
| "first_boundary N (p # ps) =
     and_then (findPath (dg N) (fst p) (snd p)) (\<lambda>path.
       case filter (\<lambda>n. nkind (dg N) n = KState) path of [] \<Rightarrow> first_boundary N ps | n # _ \<Rightarrow> Some [n])"

definition path_query :: "string \<Rightarrow> string \<Rightarrow> string \<Rightarrow> json" where
  "path_query from to policy =
     JObject [(''from'', JString from), (''to'', JString to), (''cross_state'', JString policy)]"

definition path_data :: "json list \<Rightarrow> json list \<Rightarrow> json list \<Rightarrow> json" where
  "path_data ns es bs = JObject [(''nodes'', JArray ns), (''edges'', JArray es), (''boundaries'', JArray bs)]"

definition path_command ::
  "'c tool_env \<Rightarrow> options \<Rightarrow> out_format \<Rightarrow> string \<Rightarrow> 'c netlist \<Rightarrow> string \<Rightarrow> string \<Rightarrow> (nat \<times> tool_output list) tool" where
  "path_command E opts fmt policy N from to =
     bindT (endpoints E opts fmt N from to) (\<lambda>(froms, tos).
     bindT (asserted (search_path N policy froms tos)) (\<lambda>path.
       if path \<noteq> [] then
         if fmt = JsonFormat then
           bindT (mapT (nodeJson E N) path) (\<lambda>ns.
             Inr (0, printStats E opts fmt N (Some (setEnvelope E N ''path'' (path_query from to policy)
               (path_data ns (map (edgeJson E N) (path_edges (dg N) path)) []) (length path) (length path) True))))
         else
           bindT (reportPath E N path) (\<lambda>s. Inr (0, stdout_text (s @ [CHR 0x0A]) # printStats E opts fmt N None))
       else if fmt = JsonFormat then
         bindT (if policy = ''never'' then asserted (first_boundary N (all_pairs froms tos)) else Inr []) (\<lambda>bs.
         bindT (mapT (nodeJson E N) bs) (\<lambda>js.
           Inr (3, printStats E opts fmt N (Some (setEnvelope E N ''path'' (path_query from to policy)
             (path_data [] [] js) 0 0 True)))))
       else Inl (Thrown (no_path_message from to))))"

section \<open>The driver\<close>

text \<open>A lone end point stands for its cone.\<close>

definition alias_endpoints :: "options \<Rightarrow> options" where
  "alias_endpoints opts =
     (if fromPointName opts \<noteq> None \<and> toPointName opts = None \<and> fanOutName opts = None
      then opts\<lparr>fanOutName := fromPointName opts\<rparr>
      else if toPointName opts \<noteq> None \<and> fromPointName opts = None \<and> fanInName opts = None
      then opts\<lparr>fanInName := toPointName opts\<rparr>
      else opts)"

definition run_command :: "'c tool_env \<Rightarrow> options \<Rightarrow> out_format \<Rightarrow> string \<Rightarrow> 'c netlist \<Rightarrow> command_result" where
  "run_command E opts fmt policy N =
     (if reportRegisters opts then completed (registers_command E opts fmt N)
      else if combLoops opts then loops_command E opts fmt N
      else case netlistDotFile opts of Some file \<Rightarrow> completed (dot_command E opts fmt N file) | None \<Rightarrow>
      case findPattern opts of Some p \<Rightarrow> completed (find_command E opts fmt N ''find'' p (fst (findNodes p N))) | None \<Rightarrow>
      case findRegexPattern opts of
        Some p \<Rightarrow> completed (find_command E opts fmt N ''find-regex'' p (fst (findNodesRegex (regex_match E) p N))) | None \<Rightarrow>
      case fanOutName opts of Some s \<Rightarrow> completed (fan_command E opts fmt N ''fan-out'' getSignalCombFanOut s) | None \<Rightarrow>
      case fanInName opts of Some s \<Rightarrow> completed (fan_command E opts fmt N ''fan-in'' getSignalCombFanIn s) | None \<Rightarrow>
      case sensitivityName opts of Some s \<Rightarrow> completed (sensitivity_command E opts fmt N s) | None \<Rightarrow>
      case constantDriversName opts of Some s \<Rightarrow> completed (constants_command E opts fmt N s) | None \<Rightarrow>
      case driversName opts of Some s \<Rightarrow> completed (drivers_command E opts fmt N s) | None \<Rightarrow>
      case (fromPointName opts, toPointName opts) of
        (Some a, Some b) \<Rightarrow> completed (path_command E opts fmt policy N a b)
      | _ \<Rightarrow> ([], Inl (Thrown ''no action specified'')))"

text \<open>The handler of exceptions; an abort has no exit code.\<close>

definition error_envelope :: "'c tool_env \<Rightarrow> string \<Rightarrow> json" where
  "error_envelope E message =
     JObject
       [(''schema_version'', JInt 1),
        (''tool'', JObject [(''name'', JString ''slang-netlist''), (''version'', JString (tool_version E)),
                            (''graph_schema_version'', JInt formatVersion)]),
        (''command'', JString ''error''), (''query'', JObject []), (''data'', JObject []),
        (''diagnostics'', JArray [JObject [(''severity'', JString ''error''),
           (''code'', JString (if take 10 message = ''ambiguous '' then ''ambiguous_endpoint'' else ''invalid_query'')),
           (''message'', JString message)]]),
        (''summary'', summary_json ''error'' True 0 0)]"

definition handle_result :: "'c tool_env \<Rightarrow> options \<Rightarrow> out_format \<Rightarrow> command_result \<Rightarrow> tool_output list \<times> nat option" where
  "handle_result E opts fmt r =
     (case snd r of
        Inr code \<Rightarrow> (fst r, Some code)
      | Inl Aborted \<Rightarrow> (fst r, None)
      | Inl (Thrown message) \<Rightarrow>
          if fmt = JsonFormat
          then (fst r @ [writeOutput opts (JsonText (error_envelope E message))],
                Some (if take 10 message = ''ambiguous '' then 7 else 6))
          else (fst r @ [ErrorOutput (message @ [CHR 0x0A])], Some 1))"

text \<open>The netlist: loaded from a file (or the message of the exception that this throws), or built from sources.\<close>

datatype 'c tool_source = Loaded "string + 'c netlist" | Built "'c netlist"

definition save_command :: "'c tool_env \<Rightarrow> options \<Rightarrow> out_format \<Rightarrow> 'c netlist \<Rightarrow> string \<Rightarrow> command_result" where
  "save_command E opts fmt N file =
     (Output (Some file) (PlainText (serialize (dump E) (ranges E) (constants E) (random_id E) N)) #
        printStats E opts fmt (snd (getArtifactId (random_id E) N)) None, Inr 0)"

definition run_source :: "'c tool_env \<Rightarrow> options \<Rightarrow> out_format \<Rightarrow> string \<Rightarrow> 'c tool_source \<Rightarrow> command_result" where
  "run_source E opts fmt policy src =
     (case src of
        Loaded (Inl message) \<Rightarrow> ([], Inl (Thrown message))
      | Loaded (Inr N) \<Rightarrow> run_command (E\<lparr>has_diagnostics := False\<rparr>) (alias_endpoints opts) fmt policy N
      | Built N \<Rightarrow>
          (case saveNetlistFile opts of
             Some file \<Rightarrow> save_command E opts fmt N file
           | None \<Rightarrow> run_command (E\<lparr>has_diagnostics := True\<rparr>) (alias_endpoints opts) fmt policy N))"

definition chosen_format :: "options \<Rightarrow> out_format option" where
  "chosen_format opts =
     (case o_format opts of
        None \<Rightarrow> Some (if statsJson opts then JsonFormat else TableFormat)
      | Some f \<Rightarrow>
          if f = ''json'' then Some JsonFormat
          else if f = ''table'' then Some (if statsJson opts then JsonFormat else TableFormat)
          else None)"

definition driver_main :: "'c tool_env \<Rightarrow> options \<Rightarrow> 'c tool_source \<Rightarrow> tool_output list \<times> nat option" where
  "driver_main E opts src =
     (let policy = (case crossState opts of None \<Rightarrow> ''never'' | Some p \<Rightarrow> p)
      in case chosen_format opts of
           None \<Rightarrow>
             ([ErrorOutput (''error: unknown --format value ''  @ [CHR 0x27] @ the (o_format opts) @ [CHR 0x27] @
                ''; expected '' @ [CHR 0x27] @ ''table'' @ [CHR 0x27] @ '' or '' @ [CHR 0x27] @ ''json'' @ [CHR 0x27, CHR 0x0A])], Some 1)
         | Some fmt \<Rightarrow>
             if policy \<notin> {''never'', ''once'', ''unlimited''} then
               ([ErrorOutput (''error: invalid --cross-state value '' @ [CHR 0x27] @ policy @ [CHR 0x27, CHR 0x0A])], Some 2)
             else handle_result E opts fmt (run_source E opts fmt policy src))"

end
