(* ===== verification/Bindings.thy ===== *)
theory Bindings
  imports QueryProps FlowProps
begin

text \<open>
  The Python module, \<^verbatim>\<open>bindings/python/pyslang_netlist.cpp\<close>, with the build options,
  \<^verbatim>\<open>include/netlist/BuilderOptions.hpp\<close>, and \<^verbatim>\<open>include/netlist/VisitAll.hpp\<close>.

  A method takes Python values and gives a Python value or fails. pybind11's conversion of arguments and of returned
  pointers is documented behaviour: an argument that does not fit its C++ type raises \<open>TypeError\<close>, a C++ exception
  becomes a Python one, a node is presented as the class of its kind. A C++ call without defined behaviour is
  \<open>Undefined\<close>, a failed assertion \<open>Aborted_process\<close>.
\<close>

section \<open>Build options\<close>

record builder_options =
  opt_resolveAssignBits :: bool
  opt_propCutsAcrossPorts :: bool
  opt_parallel :: bool
  opt_numThreads :: nat
  opt_parallelRValueThreshold :: nat
  opt_blackBoxes :: "string list"

definition default_options :: builder_options where
  "default_options =
     \<lparr>opt_resolveAssignBits = True, opt_propCutsAcrossPorts = True, opt_parallel = True, opt_numThreads = 0,
      opt_parallelRValueThreshold = 1000, opt_blackBoxes = []\<rparr>"

text \<open>The builder's copy of its options.\<close>

definition with_options :: "builder_options \<Rightarrow> ('m, 'c) env \<Rightarrow> ('m, 'c) env" where
  "with_options opts E =
     E\<lparr>resolveAssignBits := opt_resolveAssignBits opts, propCutsAcrossPorts := opt_propCutsAcrossPorts opts,
       parallel := opt_parallel opts, parallelRValueThreshold := opt_parallelRValueThreshold opts,
       blackBoxes := opt_blackBoxes opts\<rparr>"

section \<open>VisitAll\<close>

text \<open>
  Symbols and statements, numbered: value symbols; instances, with whether they are uninstantiated and what slang's default
  traversal visits below them; declarations of local variables, with whether they are static and their initializer; the
  rest. The state is the count and, in order, the numbers of what was visited.
\<close>

datatype ast_node =
  ValueSymbol nat
| InstanceSymbol nat bool "ast_node list"
| VariableDecl nat bool "ast_node option"
| OtherNode nat "ast_node list"

record visit_all_state =
  va_count :: nat
  va_visited :: "nat list"

definition va_new :: visit_all_state where
  "va_new = \<lparr>va_count = 0, va_visited = []\<rparr>"

definition va_note :: "nat \<Rightarrow> visit_all_state \<Rightarrow> visit_all_state" where
  "va_note i s = s\<lparr>va_visited := va_visited s @ [i]\<rparr>"

fun visit_all :: "ast_node \<Rightarrow> visit_all_state \<Rightarrow> visit_all_state" where
  "visit_all (ValueSymbol i) s = (va_note i s)\<lparr>va_count := va_count s + 1\<rparr>"
| "visit_all (InstanceSymbol i isUninstantiated below) s =
     (if isUninstantiated then va_note i s else fold visit_all below (va_note i s))"
| "visit_all (VariableDecl i isStatic init) s =
     (if isStatic then va_note i s
      else (case init of None \<Rightarrow> va_note i s | Some x \<Rightarrow> visit_all x (va_note i s)))"
| "visit_all (OtherNode i below) s = fold visit_all below (va_note i s)"

section \<open>Python values\<close>

datatype py_value =
  PyNone
| PyBool bool
| PyInt int
| PyStr string
| PyTuple "py_value list"
| PyList "py_value list"
| PyNode nat
| PyRange bit_range
| PyPath "nat list"
| PyNodeKind node_kind
| PyRole dependency_role
| PyPrecision dependency_precision
| PyDirection arg_direction
| PyEdgeKind edge_kind

datatype py_error = TypeError | AttributeError | RaisedException | Undefined | Aborted_process

type_synonym 'a py = "py_error + 'a"

fun py_bind :: "'a py \<Rightarrow> ('a \<Rightarrow> 'b py) \<Rightarrow> 'b py" where
  "py_bind (Inl err) f = Inl err"
| "py_bind (Inr x) f = f x"

definition py_asserted :: "'a option \<Rightarrow> 'a py" where
  [model_simps]: "py_asserted x = (case x of None \<Rightarrow> Inl Aborted_process | Some y \<Rightarrow> Inr y)"

text \<open>The conversions of arguments: \<open>int32_t\<close>, \<open>unsigned\<close>, \<open>size_t\<close>, strings, booleans, references to nodes.\<close>

definition to_int32 :: "py_value \<Rightarrow> int py" where
  "to_int32 v = (case v of PyInt i \<Rightarrow> if - (2 ^ 31) \<le> i \<and> i < 2 ^ 31 then Inr i else Inl TypeError | _ \<Rightarrow> Inl TypeError)"

definition to_unsigned :: "nat \<Rightarrow> py_value \<Rightarrow> nat py" where
  "to_unsigned w v = (case v of PyInt i \<Rightarrow> if 0 \<le> i \<and> i < 2 ^ w then Inr (nat i) else Inl TypeError | _ \<Rightarrow> Inl TypeError)"

definition to_str :: "py_value \<Rightarrow> string py" where
  "to_str v = (case v of PyStr s \<Rightarrow> Inr s | _ \<Rightarrow> Inl TypeError)"

definition to_node :: "py_value \<Rightarrow> nat py" where
  "to_node v = (case v of PyNode n \<Rightarrow> Inr n | _ \<Rightarrow> Inl TypeError)"

definition py_nodes :: "nat list \<Rightarrow> py_value" where
  "py_nodes ns = PyList (map PyNode ns)"

record 'c py_env =
  py_ranges :: range_lib
  width_of :: "bit_range \<Rightarrow> int"
  py_regex :: "string \<Rightarrow> string \<Rightarrow> bool"
  valid_regex :: "string \<Rightarrow> bool"
  constant_string :: "'c \<Rightarrow> string"

section \<open>DriverBitRange\<close>

definition py_range :: "py_value \<Rightarrow> py_value \<Rightarrow> py_value py" where
  "py_range lower upper = py_bind (to_int32 lower) (\<lambda>l. py_bind (to_int32 upper) (\<lambda>u. Inr (PyRange (mk_range l u))))"

definition py_range_attr :: "'c py_env \<Rightarrow> bit_range \<Rightarrow> string \<Rightarrow> py_value py" where
  "py_range_attr P r attr =
     (if attr = ''lower'' then Inr (PyInt (lower_of (py_ranges P) r))
      else if attr = ''upper'' then Inr (PyInt (upper_of (py_ranges P) r))
      else if attr = ''width'' then Inr (PyInt (width_of P r))
      else Inl AttributeError)"

definition py_range_iter :: "'c py_env \<Rightarrow> bit_range \<Rightarrow> py_value list" where
  "py_range_iter P r = [PyInt (lower_of (py_ranges P) r), PyInt (upper_of (py_ranges P) r)]"

definition py_range_repr :: "'c py_env \<Rightarrow> bit_range \<Rightarrow> string" where
  "py_range_repr P r = range_toString (py_ranges P) r"

definition py_visit_all_run :: "ast_node \<Rightarrow> visit_all_state \<Rightarrow> visit_all_state" where
  "py_visit_all_run root self = visit_all root self"

section \<open>NetlistGraph\<close>

text \<open>A method gives a value and the graph, whose name index a lookup may build.\<close>

type_synonym 'c py_method = "'c netlist \<Rightarrow> py_value py \<times> 'c netlist"

definition py_named :: "py_value \<Rightarrow> (string \<Rightarrow> 'c py_method) \<Rightarrow> 'c py_method" where
  "py_named name f N = (case to_str name of Inl err \<Rightarrow> (Inl err, N) | Inr s \<Rightarrow> f s N)"

text \<open>The methods with a name and two bounds; \<open>f\<close> is what is called with them.\<close>

definition py_ranged :: "py_value \<Rightarrow> py_value \<Rightarrow> py_value \<Rightarrow> (string \<Rightarrow> bit_range \<Rightarrow> 'c py_method) \<Rightarrow> 'c py_method" where
  "py_ranged name lower upper f N =
     (case py_bind (to_str name) (\<lambda>s. py_bind (to_int32 lower) (\<lambda>l. py_bind (to_int32 upper) (\<lambda>u. Inr (s, mk_range l u)))) of
        Inl err \<Rightarrow> (Inl err, N)
      | Inr (s, r) \<Rightarrow> f s r N)"

definition py_lookup :: "py_value \<Rightarrow> 'c py_method" where
  "py_lookup name = py_named name (\<lambda>s N.
     (let (node, N') = lookup s N in (Inr (case node of None \<Rightarrow> PyNone | Some n \<Rightarrow> PyNode n), N')))"

definition py_lookup_by_range :: "'c py_env \<Rightarrow> py_value \<Rightarrow> py_value \<Rightarrow> py_value \<Rightarrow> 'c py_method" where
  "py_lookup_by_range P name lower upper = py_ranged name lower upper (\<lambda>s r N.
     (let (ns, N') = lookupRange (py_ranges P) s r N in (Inr (py_nodes ns), N')))"

definition py_lookup_all :: "py_value \<Rightarrow> 'c py_method" where
  "py_lookup_all name = py_named name (\<lambda>s N. (let (ns, N') = lookupAll s N in (Inr (py_nodes ns), N')))"

definition py_lookup_by_id :: "py_value \<Rightarrow> 'c py_method" where
  "py_lookup_by_id i N =
     (py_bind (to_unsigned 64 i) (\<lambda>k. Inr (case lookupById k N of None \<Rightarrow> PyNone | Some n \<Rightarrow> PyNode n)), N)"

definition py_num_nodes :: "'c py_method" where
  "py_num_nodes N = (Inr (PyInt (int (numNodes (dg N)))), N)"

definition py_num_edges :: "'c py_method" where
  "py_num_edges N = (Inr (PyInt (int (numEdges (dg N)))), N)"

definition py_iter_nodes :: "'c netlist \<Rightarrow> py_value list" where
  "py_iter_nodes N = map PyNode (nodes (dg N))"

text \<open>\<open>build\<close>, with the options of its keyword arguments.\<close>

definition py_build ::
  "('m, 'c) env \<Rightarrow> (('m, 'c) env \<Rightarrow> ('m, 'c) visitor) \<Rightarrow> schedule \<Rightarrow> 'c design \<Rightarrow> bool \<Rightarrow> py_value \<Rightarrow> bool \<Rightarrow> bool \<Rightarrow> string list
   \<Rightarrow> 'c py_method" where
  "py_build E run sch root par num_threads resolve_assign_bits prop_cuts_across_ports black_boxes N =
     (case to_unsigned 32 num_threads of
        Inl err \<Rightarrow> (Inl err, N)
      | Inr threads \<Rightarrow>
          (let opts = default_options\<lparr>opt_resolveAssignBits := resolve_assign_bits, opt_propCutsAcrossPorts := prop_cuts_across_ports,
                        opt_parallel := par, opt_numThreads := threads, opt_blackBoxes := black_boxes\<rparr>;
               E' = with_options opts E
           in case build_netlist E' (run E') sch root N of
                None \<Rightarrow> (Inl Aborted_process, N)
              | Some N' \<Rightarrow> (Inr PyNone, N')))"

definition py_get_drivers :: "'c py_env \<Rightarrow> py_value \<Rightarrow> py_value \<Rightarrow> py_value \<Rightarrow> 'c py_method" where
  "py_get_drivers P name lower upper = py_ranged name lower upper (\<lambda>s r N.
     (Inr (py_nodes (graph_getDrivers (py_ranges P) s r N)), N))"

definition py_of_node :: "py_value \<Rightarrow> ('c ngraph \<Rightarrow> nat \<Rightarrow> py_value py) \<Rightarrow> 'c py_method" where
  "py_of_node node f N = (py_bind (to_node node) (f (dg N)), N)"

definition py_get_comb_fan_out :: "py_value \<Rightarrow> 'c py_method" where
  "py_get_comb_fan_out node = py_of_node node (\<lambda>g n. py_bind (py_asserted (getCombFanOut g n)) (\<lambda>ns. Inr (py_nodes ns)))"

definition py_get_comb_fan_in :: "py_value \<Rightarrow> 'c py_method" where
  "py_get_comb_fan_in node = py_of_node node (\<lambda>g n. py_bind (py_asserted (getCombFanIn g n)) (\<lambda>ns. Inr (py_nodes ns)))"

definition py_get_signal_comb_fan_in :: "'c py_env \<Rightarrow> py_value \<Rightarrow> py_value \<Rightarrow> py_value \<Rightarrow> 'c py_method" where
  "py_get_signal_comb_fan_in P name lower upper = py_ranged name lower upper (\<lambda>s r N.
     (py_bind (py_asserted (getSignalCombFanIn (py_ranges P) s r 0 N)) (\<lambda>ns. Inr (py_nodes ns)), N))"

definition py_get_signal_comb_fan_out :: "'c py_env \<Rightarrow> py_value \<Rightarrow> py_value \<Rightarrow> py_value \<Rightarrow> 'c py_method" where
  "py_get_signal_comb_fan_out P name lower upper = py_ranged name lower upper (\<lambda>s r N.
     (py_bind (py_asserted (getSignalCombFanOut (py_ranges P) s r 0 N)) (\<lambda>ns. Inr (py_nodes ns)), N))"

definition py_find_nodes :: "py_value \<Rightarrow> 'c py_method" where
  "py_find_nodes pattern = py_named pattern (\<lambda>s N. (let (ns, N') = findNodes s N in (Inr (py_nodes ns), N')))"

text \<open>A pattern that does not compile throws, after the index has been built.\<close>

definition py_find_nodes_regex :: "'c py_env \<Rightarrow> py_value \<Rightarrow> 'c py_method" where
  "py_find_nodes_regex P pattern = py_named pattern (\<lambda>s N.
     if \<not> valid_regex P s then (Inl RaisedException, buildIndex N)
     else (let (ns, N') = findNodesRegex (py_regex P) s N in (Inr (py_nodes ns), N')))"

definition py_get_sensitivity :: "py_value \<Rightarrow> 'c py_method" where
  "py_get_sensitivity node = py_of_node node (\<lambda>g n. py_bind (py_asserted (getSensitivity g n))
     (\<lambda>ss. Inr (PyList (map (\<lambda>(source, kind). PyTuple [PyNode source, PyEdgeKind kind]) ss))))"

definition py_get_constant_drivers :: "py_value \<Rightarrow> 'c py_method" where
  "py_get_constant_drivers node = py_of_node node (\<lambda>g n. py_bind (py_asserted (getConstantDrivers g n)) (\<lambda>ns. Inr (py_nodes ns)))"

section \<open>Enumerations\<close>

fun py_kind_name :: "node_kind \<Rightarrow> string" where
  "py_kind_name KNone = ''None''"
| "py_kind_name KPort = ''Port''"
| "py_kind_name KVariable = ''Variable''"
| "py_kind_name KAssignment = ''Assignment''"
| "py_kind_name KConditional = ''Conditional''"
| "py_kind_name KCase = ''Case''"
| "py_kind_name KMerge = ''Merge''"
| "py_kind_name KState = ''State''"
| "py_kind_name KConstant = ''Constant''"

fun py_role_name :: "dependency_role \<Rightarrow> string" where
  "py_role_name Data = ''Data''"
| "py_role_name Control = ''Control''"
| "py_role_name Index = ''Index''"
| "py_role_name Address = ''Address''"
| "py_role_name Event = ''Event''"
| "py_role_name Clock = ''Clock''"
| "py_role_name Reset = ''Reset''"
| "py_role_name PortConnection = ''PortConnection''"
| "py_role_name RoleUnknown = ''Unknown''"

fun py_precision_name :: "dependency_precision \<Rightarrow> string" where
  "py_precision_name Exact = ''Exact''"
| "py_precision_name Range = ''Range''"
| "py_precision_name Signal = ''Signal''"
| "py_precision_name PrecisionUnknown = ''Unknown''"

section \<open>Nodes and edges\<close>

text \<open>The attributes of the class of a node; \<open>isDriven\<close> asks the graph.\<close>

fun py_class_attr :: "'c py_env \<Rightarrow> bool \<Rightarrow> 'c node_data \<Rightarrow> string \<Rightarrow> py_value py" where
  "py_class_attr P driven (Port name path loc dir b) attr =
     (if attr = ''name'' then Inr (PyStr name)
      else if attr = ''path'' then Inr (PyStr path)
      else if attr = ''direction'' then Inr (PyDirection dir)
      else if attr = ''bounds'' then Inr (PyRange b)
      else if attr = ''is_input'' then Inr (PyBool (isInput (Port name path loc dir b :: 'c node_data)))
      else if attr = ''is_output'' then Inr (PyBool (isOutput (Port name path loc dir b :: 'c node_data)))
      else if attr = ''is_driven'' then Inr (PyBool driven)
      else Inl AttributeError)"
| "py_class_attr P driven (Variable name path loc b) attr =
     (if attr = ''name'' then Inr (PyStr name)
      else if attr = ''path'' then Inr (PyStr path)
      else if attr = ''bounds'' then Inr (PyRange b)
      else Inl AttributeError)"
| "py_class_attr P driven (State name path loc b) attr =
     (if attr = ''name'' then Inr (PyStr name)
      else if attr = ''path'' then Inr (PyStr path)
      else if attr = ''bounds'' then Inr (PyRange b)
      else Inl AttributeError)"
| "py_class_attr P driven (Constant v w loc) attr =
     (if attr = ''width'' then Inr (PyInt (int w))
      else if attr = ''value'' then Inr (PyStr (constant_string P v))
      else Inl AttributeError)"
| "py_class_attr P driven _ attr = Inl AttributeError"

definition py_node_attr :: "'c py_env \<Rightarrow> 'c netlist \<Rightarrow> nat \<Rightarrow> string \<Rightarrow> py_value py" where
  "py_node_attr P N n attr =
     (if attr = ''ID'' then Inr (PyInt (int (nID (dg N) n)))
      else if attr = ''kind'' then Inr (PyNodeKind (nkind (dg N) n))
      else py_class_attr P (isDriven (dg N) n) (ndata (dg N) n) attr)"

text \<open>The attributes of an edge, which may have no symbol.\<close>

definition py_edge_attr :: "symbol_table \<Rightarrow> edge_info \<Rightarrow> string \<Rightarrow> py_value py" where
  "py_edge_attr t e attr =
     (if attr = ''symbol_name'' then Inr (PyStr (case symbol e of None \<Rightarrow> [] | Some p \<Rightarrow> sr_name (st_entries t ! p)))
      else if attr = ''symbol_path'' then Inr (PyStr (case symbol e of None \<Rightarrow> [] | Some p \<Rightarrow> sr_hierarchicalPath (st_entries t ! p)))
      else if attr = ''bounds'' then Inr (PyRange (bounds e))
      else if attr = ''disabled'' then Inr (PyBool (disabled e))
      else if attr = ''edge_kind'' then Inr (PyEdgeKind (edgeKind e))
      else if attr = ''role'' then Inr (PyRole (role e))
      else if attr = ''precision'' then Inr (PyPrecision (precision e))
      else Inl AttributeError)"

section \<open>Paths\<close>

definition path_size :: "nat list \<Rightarrow> py_value" where
  "path_size p = PyInt (int (length p))"

definition path_empty :: "nat list \<Rightarrow> py_value" where
  "path_empty p = PyBool (p = [])"

text \<open>\<open>std::vector\<close>: \<open>front\<close>, \<open>back\<close> and the index operator check nothing.\<close>

definition path_front :: "nat list \<Rightarrow> py_value py" where
  "path_front p = (if p = [] then Inl Undefined else Inr (PyNode (hd p)))"

definition path_back :: "nat list \<Rightarrow> py_value py" where
  "path_back p = (if p = [] then Inl Undefined else Inr (PyNode (last p)))"

definition path_getitem :: "nat list \<Rightarrow> py_value \<Rightarrow> py_value py" where
  "path_getitem p i = py_bind (to_unsigned 64 i) (\<lambda>k. if k < length p then Inr (PyNode (p ! k)) else Inl Undefined)"

definition path_iter :: "nat list \<Rightarrow> py_value list" where
  "path_iter p = map PyNode p"

text \<open>A path made from a list of nodes.\<close>

fun py_path :: "py_value list \<Rightarrow> py_value py" where
  "py_path [] = Inr (PyPath [])"
| "py_path (v # vs) = py_bind (to_node v) (\<lambda>n. py_bind (py_path vs)
     (\<lambda>p. case p of PyPath ns \<Rightarrow> Inr (PyPath (n # ns)) | _ \<Rightarrow> Inl TypeError))"

definition py_find :: "py_value \<Rightarrow> py_value \<Rightarrow> 'c netlist \<Rightarrow> py_value py" where
  "py_find start_node end_node N =
     py_bind (to_node start_node) (\<lambda>a. py_bind (to_node end_node) (\<lambda>b.
       py_bind (py_asserted (findPath (dg N) a b)) (\<lambda>p. Inr (PyPath p))))"

definition py_find_comb :: "py_value \<Rightarrow> py_value \<Rightarrow> 'c netlist \<Rightarrow> py_value py" where
  "py_find_comb start_node end_node N =
     py_bind (to_node start_node) (\<lambda>a. py_bind (to_node end_node) (\<lambda>b.
       py_bind (py_asserted (findComb (dg N) a b)) (\<lambda>p. Inr (PyPath p))))"

section \<open>Properties\<close>

text \<open>
  C29. In Python, \<open>find_comb\<close> from one node to another returns a path object. If the second node can be reached through
  enabled edges without entering a state node, the path's \<open>front\<close> and \<open>back\<close> are the two nodes, and each index below its size gives
  a node. Otherwise the path is empty, and then \<open>front\<close>, \<open>back\<close> and every index that is accepted read outside the vector:
  nothing raises an exception. Anything but a node as either argument raises \<open>TypeError\<close>.
\<close>

theorem python_path_contract:
  assumes "graph_ok (dg N)"
  shows "\<exists>p. py_find_comb (PyNode a) (PyNode b) N = Inr (PyPath p) \<and>
     (if b \<noteq> a \<and> reaches (dg N) (comb_edge (dg N)) a b
      then path_empty p = PyBool False \<and> path_front p = Inr (PyNode a) \<and> path_back p = Inr (PyNode b) \<and>
        (\<forall>i. 0 \<le> i \<and> i < int (length p) \<and> i < 2 ^ 64 \<longrightarrow> path_getitem p (PyInt i) = Inr (PyNode (p ! nat i)))
      else path_empty p = PyBool True \<and> path_front p = Inl Undefined \<and> path_back p = Inl Undefined \<and>
        (\<forall>i. 0 \<le> i \<and> i < 2 ^ 64 \<longrightarrow> path_getitem p (PyInt i) = Inl Undefined)) \<and>
     (\<forall>v w. (\<forall>n. v \<noteq> PyNode n) \<or> (\<forall>n. w \<noteq> PyNode n) \<longrightarrow> py_find_comb v w N = Inl TypeError)"
proof -
  obtain p where p: "findComb (dg N) a b = Some p"
    and path: "if b \<noteq> a \<and> reaches (dg N) (comb_edge (dg N)) a b then p \<noteq> [] \<and> hd p = a \<and> last p = b else p = []"
  proof -
    from find_path_spec [OF assms, of "comb_edge (dg N)" a b] obtain q where "find_path (dg N) (comb_edge (dg N)) a b = Some q"
      "if b \<noteq> a \<and> reaches (dg N) (comb_edge (dg N)) a b
       then q \<noteq> [] \<and> hd q = a \<and> last q = b \<and> distinct q \<and>
         walk (follows (edges_from Forward (dg N)) (nextNodeOf Forward (dg N)) (comb_edge (dg N))) q
       else q = []" by (elim exE conjE)
    then show thesis
      using that [of q] unfolding findComb_def by presburger
  qed
  have "py_find_comb (PyNode a) (PyNode b) N = Inr (PyPath p)"
    by (simp add: py_find_comb_def to_node_def py_asserted_def p)
  moreover have "py_find_comb v w N = Inl TypeError" if "(\<forall>n. v \<noteq> PyNode n) \<or> (\<forall>n. w \<noteq> PyNode n)" for v w
    using that by (auto simp: py_find_comb_def to_node_def split: py_value.split)
  ultimately show ?thesis
    using path by (intro exI [of _ p]) (auto simp: path_empty_def path_front_def path_back_def path_getitem_def to_unsigned_def)
qed

text \<open>The graph of two variables with an edge each way, as a netlist.\<close>

definition two_vars_netlist :: "unit netlist" where
  "two_vars_netlist = empty_netlist\<lparr>dg := two_vars\<rparr>"

theorem python_path_contract_witness:
  "py_find_comb (PyNode 0) (PyNode 1) two_vars_netlist = Inr (PyPath []) \<and> path_front [] = Inl Undefined \<and>
   path_getitem [] (PyInt 0) = Inl Undefined \<and> py_find_comb (PyNode 0) (PyStr ''b'') two_vars_netlist = Inl TypeError"
proof -
  have "outEdges two_vars = (\<lambda>_. [])"
    by (simp add: two_vars_def addNode_def Let_def empty_digraph_def fun_eq_iff)
  then have none: "\<not> reaches two_vars (comb_edge two_vars) 0 1"
    by (auto simp: follows_def edges_from_def elim: converse_rtranclpE)
  have "graph_ok (dg two_vars_netlist)"
    using two_vars_ok(1) by (simp add: two_vars_netlist_def)
  from python_path_contract [OF this, of 0 1] none show ?thesis
    by (auto simp: two_vars_netlist_def path_empty_def path_front_def)
qed

text \<open>A run of the small design from Python.\<close>

definition py_small_build :: "unit py_method" where
  "py_small_build =
     py_build small_env (\<lambda>E _. handleAssignment E (\<lambda>_. Some) assign_tp) in_order small_design True (PyInt 0) True True []"

text \<open>The build writes the graph and its tables and leaves the name index as it is.\<close>

lemma build_keeps_index:
  assumes "constant_range (rlib E)" "interval_map (imap E)" "traversal E run" "schedule_ok sch" "builder_ok E (new_builder N0)"
    and "build_netlist E run sch root N0 = Some N"
  shows "nodeIndex N = nodeIndex N0"
proof -
  have env: "builder_env E" by (rule builder_env.intro [OF assms(1,2)])
  obtain S S' where S: "pipeline_run E run sch root (new_build N0) = Some S"
    "pipeline_finalize E sch S = Some S'" "N = bgraph (the_builder S')"
    using assms(6) unfolding build_netlist_def by (auto simp: bind_eq_Some_conv)
  have "builder_ok E (the_builder (new_build N0))"
    using assms(5) by (simp add: new_build_def)
  from builder_env.pipeline_run_keeps [OF env builder_env.traversal_ok [OF env assms(3)] this, of sch root]
  have 1: "keeps E (new_builder N0) (the_builder S)" using S(1) by (simp add: build_keeps_def new_build_def)
  from builder_env.finalize_keeps [OF env assms(4) keepsD(1) [OF 1]]
  have "keeps E (the_builder S) (the_builder S')" using S(2) by (auto simp: build_keeps_def)
  with 1 show ?thesis
    by (simp add: keeps_def S(3) new_builder_def)
qed

lemma py_build_keeps_index:
  assumes "constant_range (rlib E)" "interval_map (imap E)" "\<And>E'. traversal E' (run E')" "schedule_ok sch"
    and "\<And>E' :: ('m, 'c) env. builder_ok E' (new_builder N0)"
    and "py_build (E :: ('m, 'c) env) run sch root par k rb pc bb N0 = (r, N)"
  shows "nodeIndex N = nodeIndex N0"
proof -
  have libs: "rlib (with_options opts E) = rlib E" "imap (with_options opts E) = imap E" for opts
    by (simp_all add: with_options_def)
  have "nodeIndex M = nodeIndex N0"
    if "build_netlist (with_options opts E) (run (with_options opts E)) sch root N0 = Some M" for opts M
    by (rule build_keeps_index [OF _ _ assms(3,4,5) that]) (simp_all only: libs assms(1,2))
  then show ?thesis
    using assms(6) by (auto simp: py_build_def Let_def split: sum.splits option.splits)
qed

text \<open>
  C34. The name index of a graph object is built by the first lookup and never again. After a lookup of any name on the
  new, empty object, \<open>build\<close> leaves the empty index in place, whatever the design, the options and the traversal: every later
  lookup by name returns \<open>None\<close>. After a build that no lookup precedes, every node of the graph is found
  by its path.
\<close>

theorem reused_graph_misleads:
  assumes "constant_range (rlib (E :: ('m, 'c) env))" "interval_map (imap E)" "\<And>E'. traversal E' (run E')" "schedule_ok sch"
    and "py_build E run sch root par k rb pc bb (snd (py_lookup (PyStr early) empty_netlist)) = (Inr PyNone, N)"
    and "py_build E run sch root par k rb pc bb empty_netlist = (Inr PyNone, M)"
  shows "fst (py_lookup (PyStr name) N) = Inr PyNone \<and>
     (\<forall>n \<in> set (nodes (dg M)). getHierarchicalPath (ndata (dg M) n) = Some name \<longrightarrow>
        (\<exists>m \<in> set (nodes (dg M)). fst (py_lookup (PyStr name) M) = Inr (PyNode m) \<and> getHierarchicalPath (ndata (dg M) m) = Some name))"
proof
  have early: "snd (py_lookup (PyStr early) empty_netlist) = empty_netlist\<lparr>nodeIndex := Some []\<rparr>"
    by (simp add: py_lookup_def py_named_def to_str_def lookup_def buildIndex_def index_of_nodes_def empty_netlist_def empty_digraph_def Let_def)
  have ok: "builder_ok E' (new_builder (empty_netlist\<lparr>nodeIndex := Some []\<rparr>))" for E' :: "('m, 'c) env"
    using new_builder_ok [of E'] by (simp add: builder_ok_def net_ok_def pointers_ok_def ids_ok_def new_builder_def)
  have "nodeIndex N = Some []"
    using py_build_keeps_index [OF assms(1-4) ok assms(5) [unfolded early]] by simp
  then show "fst (py_lookup (PyStr name) N) = Inr PyNone"
    by (simp add: py_lookup_def py_named_def to_str_def lookup_def buildIndex_def the_index_def Let_def)
  have "nodeIndex M = nodeIndex (empty_netlist :: 'c netlist)"
    using py_build_keeps_index [OF assms(1-4) new_builder_ok assms(6)] by simp
  then have fresh: "index_fresh M" by (simp add: index_fresh_def empty_netlist_def)
  have found: "fst (lookup name M) = (case filter (\<lambda>n. getHierarchicalPath (ndata (dg M) n) = Some name) (nodes (dg M)) of [] \<Rightarrow> None | n # _ \<Rightarrow> Some n)"
    using lookups_find_named_nodes [OF fresh, of name] by simp
  show "\<forall>n \<in> set (nodes (dg M)). getHierarchicalPath (ndata (dg M) n) = Some name \<longrightarrow>
      (\<exists>m \<in> set (nodes (dg M)). fst (py_lookup (PyStr name) M) = Inr (PyNode m) \<and> getHierarchicalPath (ndata (dg M) m) = Some name)"
  proof (intro ballI impI)
    fix n assume "n \<in> set (nodes (dg M))" "getHierarchicalPath (ndata (dg M) n) = Some name"
    then obtain m ms where m: "filter (\<lambda>n. getHierarchicalPath (ndata (dg M) n) = Some name) (nodes (dg M)) = m # ms"
      by (cases "filter (\<lambda>n. getHierarchicalPath (ndata (dg M) n) = Some name) (nodes (dg M))") (auto simp: filter_empty_conv)
    then have "m \<in> set (nodes (dg M))" "getHierarchicalPath (ndata (dg M) m) = Some name"
      by (auto dest: filter_eq_ConsD)
    then show "\<exists>m \<in> set (nodes (dg M)). fst (py_lookup (PyStr name) M) = Inr (PyNode m) \<and> getHierarchicalPath (ndata (dg M) m) = Some name"
      using found m by (intro bexI [of _ m]) (simp_all add: py_lookup_def py_named_def to_str_def split_beta Let_def)
  qed
qed

lemma small_builds_run:
  "fst (py_small_build (snd (py_lookup (PyStr ''tt'') empty_netlist))) = Inr PyNone \<and>
   fst (py_num_nodes (snd (py_small_build (snd (py_lookup (PyStr ''tt'') empty_netlist))))) = Inr (PyInt 2) \<and>
   fst (py_small_build empty_netlist) = Inr PyNone \<and>
   map (\<lambda>n. getHierarchicalPath (ndata (dg (snd (py_small_build empty_netlist))) n)) (nodes (dg (snd (py_small_build empty_netlist)))) = [Some ''tt'', None]"
  by code_simp

theorem reused_graph_misleads_witness:
  "fst (py_lookup (PyStr ''tt'') (snd (py_small_build (snd (py_lookup (PyStr ''tt'') empty_netlist))))) = Inr PyNone \<and>
   fst (py_num_nodes (snd (py_small_build (snd (py_lookup (PyStr ''tt'') empty_netlist))))) = Inr (PyInt 2) \<and>
   fst (py_lookup (PyStr ''tt'') (snd (py_small_build empty_netlist))) \<noteq> Inr PyNone"
proof -
  have run: "traversal E' (\<lambda>_. handleAssignment E' (\<lambda>_. Some) assign_tp)" for E' :: "(nat entry list, unit) env"
    by (intro traversal.Assignment traversal.Skip)
  note r = small_builds_run
  have builds: "py_small_build (snd (py_lookup (PyStr ''tt'') empty_netlist)) = (Inr PyNone, snd (py_small_build (snd (py_lookup (PyStr ''tt'') empty_netlist))))"
    "py_small_build empty_netlist = (Inr PyNone, snd (py_small_build empty_netlist))"
    using r by (simp_all add: prod_eq_iff)
  have "nodes (dg (snd (py_small_build empty_netlist))) \<noteq> []" using r by auto
  then have "getHierarchicalPath (ndata (dg (snd (py_small_build empty_netlist))) (hd (nodes (dg (snd (py_small_build empty_netlist)))))) = Some ''tt''"
    "hd (nodes (dg (snd (py_small_build empty_netlist)))) \<in> set (nodes (dg (snd (py_small_build empty_netlist))))"
    using r by (cases "nodes (dg (snd (py_small_build empty_netlist)))"; simp)+
  with reused_graph_misleads [OF small_laws run in_order_ok builds [unfolded py_small_build_def], folded py_small_build_def, of "''tt''"] r
  show ?thesis by auto
qed

text \<open>
  Every build numbers its nodes from 1: a build into a graph that holds two nodes gives two nodes each identifier.
\<close>

lemma second_build_repeats_identifiers:
  "(case py_small_build empty_netlist of (r, N) \<Rightarrow> r = Inr PyNone \<and> map (nID (dg N)) (nodes (dg N)) = [1, 2]) \<and>
   (case py_small_build two_vars_netlist of (r, N) \<Rightarrow> r = Inr PyNone \<and> map (nID (dg N)) (nodes (dg N)) = [1, 2, 1, 2])"
proof
  show "case py_small_build empty_netlist of (r, N) \<Rightarrow> r = Inr PyNone \<and> map (nID (dg N)) (nodes (dg N)) = [1, 2]"
    by code_simp
  show "case py_small_build two_vars_netlist of (r, N) \<Rightarrow> r = Inr PyNone \<and> map (nID (dg N)) (nodes (dg N)) = [1, 2, 1, 2]"
    by code_simp
qed

end
