(* ===== verification/DriverStart.thy ===== *)
theory DriverStart
  imports DriverCommands Profile Bindings
begin

text \<open>
  The command-line driver, \<^verbatim>\<open>tools/driver/driver.cpp\<close>, part three: from the command line to the netlist, and the
  statistics. The export of the skill directory, help and version, the flags of \<^verbatim>\<open>include/netlist/Debug.hpp\<close>, the options
  of the build, the phases with their times, and the contents of \<open>--stats\<close> and \<open>--stats-json\<close>.

  The file system, slang's command-line parser and compiler, the clock and the texts of times are parameters.
\<close>

section \<open>Effects\<close>

datatype cli_effect = Tool tool_output | StandardOutput string | CopyTree string string

section \<open>Exporting the skill directory\<close>

record file_system =
  path_exists :: "string \<Rightarrow> bool"
  installed_skill :: "string \<Rightarrow> string"
  skill_source :: string
  copy_error :: "string \<Rightarrow> string \<Rightarrow> string option"

definition is_skill_export :: "string list \<Rightarrow> bool" where
  "is_skill_export argv \<longleftrightarrow> length argv = 4 \<and> argv ! 1 = ''skill'' \<and> argv ! 2 = ''export''"

definition skill_export :: "file_system \<Rightarrow> string \<Rightarrow> string list \<Rightarrow> cli_effect list \<times> nat" where
  "skill_export F version argv =
     (let destination = argv ! 3
      in if path_exists F destination
         then ([Tool (ErrorOutput (''error: skill destination already exists: '' @ destination @ [CHR 0x0A]))], 2)
         else
           (let installed = installed_skill F (argv ! 0);
                source = (if path_exists F installed then installed else skill_source F)
            in case copy_error F source destination of
                 Some message \<Rightarrow>
                   ([CopyTree source destination, Tool (ErrorOutput (''error: could not export skill: '' @ message @ [CHR 0x0A]))], 1)
               | None \<Rightarrow>
                   ([CopyTree source destination,
                     StandardOutput (''Exported slang-netlist '' @ version @ '' skill to '' @ destination @ [CHR 0x0A])], 0)))"

section \<open>Flags\<close>

text \<open>\<open>std::optional<bool>\<close> members: given or not, and with what value. A plain \<open>if\<close> on one asks whether it is given.\<close>

record flags =
  f_showHelp :: "bool option"
  f_showVersion :: "bool option"
  f_noColours :: "bool option"
  f_quiet :: "bool option"
  f_stats :: "bool option"
  f_statsJson :: "bool option"
  f_debug :: "bool option"
  f_reportRegisters :: "bool option"
  f_combLoops :: "bool option"
  f_noResolveAssignBits :: "bool option"
  f_noPropCutsAcrossPorts :: "bool option"
  f_blackBoxes :: "string list"
  f_numThreads :: "nat option"

definition given :: "bool option \<Rightarrow> bool" where
  "given f \<longleftrightarrow> f \<noteq> None"

definition value_or :: "'a \<Rightarrow> 'a option \<Rightarrow> 'a" where
  "value_or d f = (case f of None \<Rightarrow> d | Some v \<Rightarrow> v)"

text \<open>The flags as the rest of the driver tests them.\<close>

definition flag_options :: "flags \<Rightarrow> options \<Rightarrow> options" where
  "flag_options f opts =
     opts\<lparr>o_stats := given (f_stats f), statsJson := given (f_statsJson f), reportRegisters := given (f_reportRegisters f),
          combLoops := given (f_combLoops f)\<rparr>"

definition driver_builder_options :: "flags \<Rightarrow> builder_options" where
  "driver_builder_options f =
     default_options\<lparr>opt_resolveAssignBits := \<not> value_or False (f_noResolveAssignBits f),
                     opt_propCutsAcrossPorts := \<not> value_or False (f_noPropCutsAcrossPorts f),
                     opt_numThreads := value_or 0 (f_numThreads f), opt_blackBoxes := f_blackBoxes f\<rparr>"

record config =
  debugEnabled :: bool
  quietEnabled :: bool

definition set_config :: "flags \<Rightarrow> config \<Rightarrow> config" where
  "set_config f c =
     (let c1 = (if given (f_debug f) then c\<lparr>debugEnabled := True\<rparr> else c)
      in if given (f_quiet f) then c1\<lparr>quietEnabled := True\<rparr> else c1)"

text \<open>\<open>file_name\<close>: what follows the last slash.\<close>

definition file_name :: "string \<Rightarrow> string" where
  "file_name file = (if CHR ''/'' \<in> set file then rev (takeWhile (\<lambda>c. c \<noteq> CHR ''/'') (rev file)) else file)"

definition DebugMessage :: "string \<Rightarrow> nat \<Rightarrow> string \<Rightarrow> string" where
  "DebugMessage file ln message = file_name file @ '':'' @ show_nat ln @ '': '' @ message"

definition InfoMessage :: "string \<Rightarrow> string" where
  "InfoMessage message = message"

text \<open>The macros; \<open>debug_build\<close> says whether the tool was compiled with \<open>SLANG_DEBUG\<close>.\<close>

definition DEBUG_PRINT :: "bool \<Rightarrow> config \<Rightarrow> string \<Rightarrow> nat \<Rightarrow> string \<Rightarrow> string list" where
  "DEBUG_PRINT debug_build c file ln message = (if debug_build \<and> debugEnabled c then [DebugMessage file ln message] else [])"

definition INFO_PRINT :: "config \<Rightarrow> string \<Rightarrow> string list" where
  "INFO_PRINT c message = (if \<not> quietEnabled c then [InfoMessage message] else [])"

section \<open>Phases\<close>

type_synonym 's phase_times = "(string \<times> 's) list"

text \<open>What slang's front end says, and how long each phase takes.\<close>

record 's front_end =
  options_ok :: bool
  parse_ok :: bool
  elaboration_ok :: bool
  analysis_ok :: bool
  parsing_time :: 's
  elaboration_time :: 's
  analysis_time :: 's
  netlist_time :: 's

text \<open>The exit code of a compilation that fails, or none, with the phases that were timed.\<close>

definition compile_phases :: "'s front_end \<Rightarrow> nat option \<times> 's phase_times" where
  "compile_phases C =
     (if \<not> options_ok C then (Some 2, [])
      else
        (let t1 = [(''parsing'', parsing_time C)]
         in if \<not> parse_ok C then (Some 1, t1)
            else
              (let t2 = t1 @ [(''elaboration'', elaboration_time C)]
               in if \<not> elaboration_ok C then (Some 1, t2)
                  else
                    (let t3 = t2 @ [(''analysis'', analysis_time C)]
                     in if \<not> analysis_ok C then (Some 1, t3) else (None, t3 @ [(''netlist'', netlist_time C)])))))"

section \<open>Statistics\<close>

text \<open>How times are shown: as a JSON number, as text, and the peak memory in megabytes.\<close>

record 's stats_env =
  arithmetic :: "'s seconds_ops"
  seconds_json :: "'s \<Rightarrow> json"
  seconds_text :: "'s \<Rightarrow> string"
  peak_rss :: nat
  megabytes_text :: "nat \<Rightarrow> string"

definition profile_json :: "'s stats_env \<Rightarrow> 's build_profile \<Rightarrow> json" where
  "profile_json Z bp =
     JObject
       [(''phase1_collect_seconds'', seconds_json Z (phase1_collectSeconds bp)),
        (''phase2_parallel_seconds'', seconds_json Z (phase2_parallelSeconds bp)),
        (''phase3_drain_seconds'', seconds_json Z (phase3_drainSeconds bp)),
        (''phase4_rvalue_seconds'', seconds_json Z (phase4_rvalueSeconds bp)),
        (''drain_pending_rvalues_seconds'', seconds_json Z (drain_pendingRValuesSeconds bp)),
        (''drain_merges_seconds'', seconds_json Z (drain_mergesSeconds bp)),
        (''deferred_block_count'', JInt (int (profile_blocks bp))),
        (''deferred_pending_rvalue_count'', JInt (int (profile_rvalues bp))),
        (''task_min_seconds'', seconds_json Z (taskMinSeconds bp)),
        (''task_max_seconds'', seconds_json Z (taskMaxSeconds bp)),
        (''task_mean_seconds'', seconds_json Z (taskMeanSeconds bp)),
        (''task_median_seconds'', seconds_json Z (taskMedianSeconds bp)),
        (''task_total_seconds'', seconds_json Z (taskTotalSeconds bp)),
        (''num_threads'', JInt (int (profile_threads bp)))]"

text \<open>\<open>result["time_seconds"]\<close> is made by the first phase that is put into it.\<close>

definition makeStatsJson :: "'s stats_env \<Rightarrow> 's phase_times \<Rightarrow> 's build_profile option \<Rightarrow> json" where
  "makeStatsJson Z phaseTimes graph =
     (let result = (if phaseTimes = [] then []
                    else [(''time_seconds'', JObject (fold (\<lambda>(name, t). json_put name (seconds_json Z t)) phaseTimes []))]);
          result = json_put ''peak_rss_bytes'' (JInt (int (peak_rss Z))) result
      in JObject (case graph of None \<Rightarrow> result | Some bp \<Rightarrow> json_put ''netlist_profile'' (profile_json Z bp) result))"

definition phase_table :: "'s stats_env \<Rightarrow> (string \<times> 's) list \<Rightarrow> row list" where
  "phase_table Z rows = map (\<lambda>(name, t). [name, seconds_text Z t]) rows"

definition printStatsHuman :: "(string \<Rightarrow> nat) \<Rightarrow> 's stats_env \<Rightarrow> 's phase_times \<Rightarrow> 's build_profile option \<Rightarrow> string" where
  "printStatsHuman dw Z phaseTimes graph =
     (let sum = fold (\<lambda>(_, t) s. sec_add (arithmetic Z) s t) phaseTimes (sec_zero (arithmetic Z));
          buf = buf_append ([CHR 0x0A] @ ''Phase Timing'' @ [CHR 0x0A]) [];
          buf = formatTable dw [''Phase'', ''Time''] (phase_table Z (phaseTimes @ [(''total'', sum)])) 2 buf;
          buf = (case graph of
                   None \<Rightarrow> buf
                 | Some bp \<Rightarrow>
                     if profile_blocks bp > 0 then
                       (let buf = buf_append ([CHR 0x0A] @ ''Netlist Build ('' @ show_nat (profile_threads bp) @ '' thread'' @
                                    (if profile_threads bp = 1 then [] else ''s'') @ '')'' @ [CHR 0x0A]) buf;
                            buf = formatTable dw [''Phase'', ''Time'']
                              (phase_table Z [(''collect'', phase1_collectSeconds bp), (''parallel DFA'', phase2_parallelSeconds bp),
                                 (''drain'', phase3_drainSeconds bp), (''resolve R-values'', phase4_rvalueSeconds bp),
                                 (''total'', totalSeconds (arithmetic Z) bp)]) 2 buf;
                            buf = buf_append ([CHR 0x0A] @ ''DFA Tasks ('' @ show_nat (profile_blocks bp) @ '' blocks, '' @
                                    show_nat (profile_rvalues bp) @ '' pending R-values)'' @ [CHR 0x0A]) buf
                        in formatTable dw [''Statistic'', ''Time'']
                             (phase_table Z [(''min'', taskMinSeconds bp), (''max'', taskMaxSeconds bp), (''mean'', taskMeanSeconds bp),
                                (''median'', taskMedianSeconds bp)]) 2 buf)
                     else buf)
      in buf_append ([CHR 0x0A] @ ''Peak RSS: '' @ megabytes_text Z (peak_rss Z) @ '' MB'' @ [CHR 0x0A]) buf)"

text \<open>The statistics in the environment of the commands.\<close>

definition with_stats :: "'s stats_env \<Rightarrow> 's phase_times \<Rightarrow> 's build_profile \<Rightarrow> 'c tool_env \<Rightarrow> 'c tool_env" where
  "with_stats Z phaseTimes bp E =
     E\<lparr>stats_value := makeStatsJson Z phaseTimes (Some bp),
       stats_text := printStatsHuman (display_width (texts E)) Z phaseTimes (Some bp)\<rparr>"

section \<open>The whole run\<close>

text \<open>
  Parsing the command line gives the flags, the other options and the netlist file to load; \<open>build_graph\<close> is the build
  of the compiled design with its profile; an abort has no exit code. What slang itself prints is not an effect here.
\<close>

record ('c, 's) cli_env =
  files :: file_system
  tool :: "'c tool_env"
  stats_env :: "'s stats_env"
  help_text :: string
  version_text :: string
  parse_args :: "string list \<Rightarrow> (flags \<times> options \<times> string option) option"
  load_file :: "string \<Rightarrow> string + 'c netlist"
  front :: "'s front_end"
  build_graph :: "builder_options \<Rightarrow> ('c netlist \<times> 's build_profile) option"

definition run_tool :: "'c tool_env \<Rightarrow> options \<Rightarrow> 'c tool_source \<Rightarrow> cli_effect list \<times> nat option" where
  "run_tool E opts src = (case driver_main E opts src of (outs, code) \<Rightarrow> (map Tool outs, code))"

definition valid_choices :: "options \<Rightarrow> bool" where
  "valid_choices opts \<longleftrightarrow> chosen_format opts \<noteq> None \<and> value_or ''never'' (crossState opts) \<in> {''never'', ''once'', ''unlimited''}"

definition cli_main :: "('c, 's) cli_env \<Rightarrow> string list \<Rightarrow> cli_effect list \<times> nat option" where
  "cli_main X argv =
     (if is_skill_export argv then (case skill_export (files X) (tool_version (tool X)) argv of (out, code) \<Rightarrow> (out, Some code))
      else
        (case parse_args X argv of
           None \<Rightarrow> ([], Some 1)
         | Some (f, opts, load) \<Rightarrow>
             if f_showHelp f = Some True then ([StandardOutput (help_text X @ [CHR 0x0A])], Some 0)
             else if f_showVersion f = Some True then ([StandardOutput (version_text X @ [CHR 0x0A])], Some 0)
             else
               (let opts = flag_options f opts; Z = stats_env X
                in if \<not> valid_choices opts then run_tool (tool X) opts (Loaded (Inl []))
                   else
                     (case load of
                        Some file \<Rightarrow> run_tool (with_stats Z [] (new_profile (arithmetic Z)) (tool X)) opts (Loaded (load_file X file))
                      | None \<Rightarrow>
                          (case compile_phases (front X) of
                             (Some code, _) \<Rightarrow> ([], Some code)
                           | (None, phaseTimes) \<Rightarrow>
                               (case build_graph X (driver_builder_options f) of
                                  None \<Rightarrow> ([], None)
                                | Some (N, bp) \<Rightarrow> run_tool (with_stats Z phaseTimes bp (tool X)) opts (Built N)))))))"

end
