(* ===== verification/Reports.thy ===== *)
theory Reports
  imports Driver
begin

text \<open>
  The reporting tool: \<^verbatim>\<open>tools/report/report.cpp\<close> and the visitors of \<^verbatim>\<open>include/report/\<close>. slang's tree appears twice:
  as the tree of scopes that a glob is matched against, and as the symbols that slang's visitor reaches below a symbol
  (\<open>None\<close> for the root), with what the reports ask of each.
\<close>

section \<open>What slang gives\<close>

datatype scope_kind = InstanceScope bool | PlainScope | NotScope

text \<open>A member: the symbol, its path, whether it is a scope (an instance that is not instantiated is not entered).\<close>

datatype scope_member = ScopeMember nat string scope_kind "scope_member list"

type_synonym place = "(string \<times> nat \<times> nat) option"

record reported_driver =
  dr_prefix :: string
  dr_procedural :: bool
  dr_bounds :: bit_range
  dr_location :: place

record value_symbol =
  vs_path :: string
  vs_type :: string
  vs_width :: nat
  vs_drivers :: "reported_driver list"
  vs_location :: place

record reported_port =
  rp_name :: string
  rp_direction :: arg_direction
  rp_width :: nat
  rp_net :: "string option"
  rp_location :: place

datatype reached =
  ReachedPort reported_port
| ReachedVariable value_symbol
| ReachedNet string value_symbol
| ReachedValue value_symbol

record report_options =
  r_ports :: bool
  r_variables :: bool
  r_drivers :: bool
  r_ast :: "string option"
  r_format :: "string option"
  r_scopes :: "string list"
  r_names :: "string list"
  r_output :: "string option"

record report_env =
  root_members :: "scope_member list"
  lookupName :: "string \<Rightarrow> nat option"
  visit_below :: "nat option \<Rightarrow> reached list"
  serialize_ast :: "nat list \<Rightarrow> string"
  analysis_succeeds :: bool
  re_texts :: "unit texts"
  re_ranges :: range_lib
  re_version :: string
  re_slang :: string

section \<open>Scopes\<close>

fun has_dots :: "string \<Rightarrow> bool" where
  "has_dots [] = False"
| "has_dots (c # cs) = (take 3 (c # cs) = ''...'' \<or> has_dots cs)"

definition hasGlobChar :: "string \<Rightarrow> bool" where
  "hasGlobChar s \<longleftrightarrow> CHR ''*'' \<in> set s \<or> CHR ''?'' \<in> set s \<or> has_dots s"

text \<open>The symbols seen and the symbols chosen so far.\<close>

type_synonym chosen = "nat set \<times> nat list"

definition pick_symbol :: "nat \<Rightarrow> chosen \<Rightarrow> chosen" where
  "pick_symbol i st = (if i \<in> fst st then st else (insert i (fst st), snd st @ [i]))"

fun collectGlobMatches :: "string \<Rightarrow> scope_member list \<Rightarrow> chosen \<Rightarrow> chosen" where
  "collectGlobMatches pattern [] st = st"
| "collectGlobMatches pattern (ScopeMember i path k ms # rest) st =
     (let st1 = (if path \<noteq> [] \<and> wildcardMatch path pattern then pick_symbol i st else st)
      in collectGlobMatches pattern rest
           (case k of
              InstanceScope uninstantiated \<Rightarrow> if uninstantiated then st1 else collectGlobMatches pattern ms st1
            | PlainScope \<Rightarrow> collectGlobMatches pattern ms st1
            | NotScope \<Rightarrow> st1))"

definition quoted :: "string \<Rightarrow> string" where
  "quoted s = [CHR 0x27] @ s @ [CHR 0x27]"

definition add_scope :: "report_env \<Rightarrow> string \<Rightarrow> chosen \<Rightarrow> chosen tool" where
  "add_scope E scopeName st =
     (if hasGlobChar scopeName then
        (let st1 = collectGlobMatches scopeName (root_members E) st
         in if length (snd st1) = length (snd st) then Inl (Thrown (''scope '' @ quoted scopeName @ '' matched no symbols''))
            else Inr st1)
      else case lookupName E scopeName of
             None \<Rightarrow> Inl (Thrown (''scope '' @ quoted scopeName @ '' not found''))
           | Some i \<Rightarrow> Inr (pick_symbol i st))"

fun foldT :: "('a \<Rightarrow> 's \<Rightarrow> 's tool) \<Rightarrow> 'a list \<Rightarrow> 's \<Rightarrow> 's tool" where
  "foldT f [] s = Inr s"
| "foldT f (x # xs) s = bindT (f x s) (foldT f xs)"

definition scope_symbols :: "report_env \<Rightarrow> string list \<Rightarrow> nat list tool" where
  "scope_symbols E scopes = bindT (foldT (add_scope E) scopes ({}, [])) (\<lambda>st. Inr (snd st))"

section \<open>The visitors\<close>

definition nameMatches :: "string list \<Rightarrow> string \<Rightarrow> bool" where
  "nameMatches filters name \<longleftrightarrow> filters = [] \<or> list_ex (wildcardMatch name) filters"

text \<open>A report: its header, the items it records for a symbol, and the rows and the object of an item.\<close>

record 'i report =
  tableHeader :: row
  handle_reached :: "(string \<Rightarrow> bool) \<Rightarrow> reached \<Rightarrow> 'i list"
  itemRows :: "'i \<Rightarrow> row list"
  itemJson :: "'i \<Rightarrow> json"

definition portNetTypeName :: "reported_port \<Rightarrow> string" where
  "portNetTypeName p = (case rp_net p of None \<Rightarrow> ''var'' | Some t \<Rightarrow> t)"

definition handle_port :: "(string \<Rightarrow> bool) \<Rightarrow> reached \<Rightarrow> reported_port list" where
  "handle_port keep s = (case s of ReachedPort p \<Rightarrow> if keep (rp_name p) then [p] else [] | _ \<Rightarrow> [])"

definition port_rows :: "unit texts \<Rightarrow> reported_port \<Rightarrow> row list" where
  "port_rows T p = [[dir_text T (rp_direction p), rp_name p, show_nat (rp_width p), portNetTypeName p, locationStr (rp_location p)]]"

definition port_json :: "unit texts \<Rightarrow> reported_port \<Rightarrow> json" where
  "port_json T p =
     JObject [(''name'', JString (rp_name p)), (''direction'', JString (dir_text T (rp_direction p))),
              (''width'', JInt (int (rp_width p))), (''netType'', JString (portNetTypeName p)),
              (''location'', JString (locationStr (rp_location p)))]"

definition report_ports :: "unit texts \<Rightarrow> reported_port report" where
  "report_ports T =
     \<lparr>tableHeader = [''Direction'', ''Name'', ''Width'', ''Net Type'', ''Location''],
      handle_reached = handle_port, itemRows = port_rows T, itemJson = port_json T\<rparr>"

text \<open>A variable or net: the symbol with the name of its kind.\<close>

definition handle_variable :: "(string \<Rightarrow> bool) \<Rightarrow> reached \<Rightarrow> (string \<times> value_symbol) list" where
  "handle_variable keep s =
     (case s of
        ReachedVariable v \<Rightarrow> if keep (vs_path v) then [(''var'', v)] else []
      | ReachedNet t v \<Rightarrow> if keep (vs_path v) then [(t, v)] else []
      | _ \<Rightarrow> [])"

definition variable_rows :: "string \<times> value_symbol \<Rightarrow> row list" where
  "variable_rows i =
     (let v = snd i
      in [[vs_path v, vs_type v, show_nat (vs_width v), fst i, show_nat (length (vs_drivers v)), locationStr (vs_location v)]])"

definition variable_json :: "string \<times> value_symbol \<Rightarrow> json" where
  "variable_json i =
     (let v = snd i
      in JObject [(''name'', JString (vs_path v)), (''type'', JString (vs_type v)), (''width'', JInt (int (vs_width v))),
                  (''kind'', JString (fst i)), (''drivers'', JInt (int (length (vs_drivers v)))),
                  (''location'', JString (locationStr (vs_location v)))])"

definition report_variables :: "(string \<times> value_symbol) report" where
  "report_variables =
     \<lparr>tableHeader = [''Name'', ''Type'', ''Width'', ''Kind'', ''Drivers'', ''Location''],
      handle_reached = handle_variable, itemRows = variable_rows, itemJson = variable_json\<rparr>"

definition handle_value :: "(string \<Rightarrow> bool) \<Rightarrow> reached \<Rightarrow> value_symbol list" where
  "handle_value keep s =
     (case s of
        ReachedPort _ \<Rightarrow> []
      | ReachedVariable v \<Rightarrow> if keep (vs_path v) then [v] else []
      | ReachedNet _ v \<Rightarrow> if keep (vs_path v) then [v] else []
      | ReachedValue v \<Rightarrow> if keep (vs_path v) then [v] else [])"

definition driverKindStr :: "reported_driver \<Rightarrow> string" where
  "driverKindStr d = (if dr_procedural d then ''proc'' else ''cont'')"

text \<open>The arrow that marks a driver's row, in UTF-8: three bytes, one column on the screen.\<close>

definition arrow :: string where
  "arrow = [CHR 0xE2, CHR 0x86, CHR 0xB3]"

definition driver_rows :: "range_lib \<Rightarrow> value_symbol \<Rightarrow> row list" where
  "driver_rows R v =
     [vs_path v, [], [], [], locationStr (vs_location v)] #
     map (\<lambda>d. [arrow, range_toString R (dr_bounds d), dr_prefix d, driverKindStr d, locationStr (dr_location d)]) (vs_drivers v)"

definition driver_json :: "range_lib \<Rightarrow> value_symbol \<Rightarrow> json" where
  "driver_json R v =
     JObject [(''value'', JString (vs_path v)), (''location'', JString (locationStr (vs_location v))),
              (''drivers'', JArray (map (\<lambda>d.
                 JObject [(''range'', JString (range_toString R (dr_bounds d))), (''driver'', JString (dr_prefix d)),
                          (''kind'', JString (driverKindStr d)), (''location'', JString (locationStr (dr_location d)))])
                 (vs_drivers v)))]"

definition report_drivers :: "range_lib \<Rightarrow> value_symbol report" where
  "report_drivers R =
     \<lparr>tableHeader = [''Value'', ''Range'', ''Driver'', ''Type'', ''Location''],
      handle_reached = handle_value, itemRows = driver_rows R, itemJson = driver_json R\<rparr>"

section \<open>The tool\<close>

definition reached_symbols :: "report_env \<Rightarrow> nat list \<Rightarrow> reached list" where
  "reached_symbols E scopes =
     (if scopes = [] then visit_below E None else concat (map (\<lambda>s. visit_below E (Some s)) scopes))"

definition report_items :: "'i report \<Rightarrow> string list \<Rightarrow> reached list \<Rightarrow> 'i list" where
  "report_items rep names syms = concat (map (handle_reached rep (nameMatches names)) syms)"

definition report_table :: "(string \<Rightarrow> nat) \<Rightarrow> 'i report \<Rightarrow> 'i list \<Rightarrow> string" where
  "report_table dw rep items = formatTable dw (tableHeader rep) (concat (map (itemRows rep) items)) 2 []"

definition report_write :: "report_options \<Rightarrow> content \<Rightarrow> tool_output" where
  "report_write opts c =
     (case r_output opts of
        Some f \<Rightarrow> if f \<noteq> ''-'' then Output (Some f) c else Output None c
      | None \<Rightarrow> Output None c)"

definition command_name :: "report_options \<Rightarrow> string" where
  "command_name opts = (if r_ports opts then ''ports'' else if r_variables opts then ''variables'' else ''drivers'')"

definition report_envelope :: "report_env \<Rightarrow> report_options \<Rightarrow> json list \<Rightarrow> json" where
  "report_envelope E opts items =
     JObject
       [(''schema_version'', JInt 1),
        (''tool'', JObject [(''name'', JString ''slang-report''), (''version'', JString (re_version E)),
                            (''slang_version'', JString (re_slang E))]),
        (''command'', JString (command_name opts)),
        (''query'', JObject [(''scopes'', JArray (map JString (r_scopes opts))), (''names'', JArray (map JString (r_names opts)))]),
        (''data'', JObject [(''items'', JArray items)]),
        (''diagnostics'', JArray []),
        (''summary'', summary_json (if items = [] then ''empty'' else ''ok'') True (length items) (length items))]"

definition emit_report ::
  "report_env \<Rightarrow> report_options \<Rightarrow> out_format \<Rightarrow> nat list \<Rightarrow> 'i report \<Rightarrow> nat \<times> tool_output list" where
  "emit_report E opts fmt scopes rep =
     (let items = report_items rep (r_names opts) (reached_symbols E scopes)
      in case fmt of
           JsonFormat \<Rightarrow>
             (if items = [] then 3 else 0, [report_write opts (JsonText (report_envelope E opts (map (itemJson rep) items)))])
         | TableFormat \<Rightarrow> (0, [report_write opts (PlainText (report_table (display_width (re_texts E)) rep items))]))"

definition report_format :: "report_options \<Rightarrow> out_format tool" where
  "report_format opts =
     (case r_format opts of
        None \<Rightarrow> Inr TableFormat
      | Some f \<Rightarrow>
          if f = ''json'' then Inr JsonFormat else if f = ''table'' then Inr TableFormat
          else Inl (Thrown (''unknown --format value '' @ quoted f @ ''; expected '' @ quoted ''table'' @ '' or '' @ quoted ''json'')))"

definition run_report :: "report_env \<Rightarrow> report_options \<Rightarrow> (nat \<times> tool_output list) tool" where
  "run_report E opts =
     bindT (scope_symbols E (r_scopes opts)) (\<lambda>scopes.
       case r_ast opts of
         Some file \<Rightarrow> Inr (0, [Output (Some file) (PlainText (serialize_ast E scopes))])
       | None \<Rightarrow>
           bindT (report_format opts) (\<lambda>fmt.
             if r_ports opts then Inr (emit_report E opts fmt scopes (report_ports (re_texts E)))
             else if r_variables opts \<or> r_drivers opts then
               (if \<not> analysis_succeeds E then Inr (1, [])
                else if r_variables opts then Inr (emit_report E opts fmt scopes report_variables)
                else Inr (emit_report E opts fmt scopes (report_drivers (re_ranges E))))
             else Inl (Thrown ''no action specified; pass --ports, --variables, --drivers, or --ast-json'')))"

definition report_main :: "report_env \<Rightarrow> report_options \<Rightarrow> nat option \<times> tool_output list" where
  "report_main E opts =
     (case run_report E opts of
        Inr (code, outs) \<Rightarrow> (Some code, outs)
      | Inl (Thrown message) \<Rightarrow> (Some 1, [ErrorOutput (message @ [CHR 0x0A])])
      | Inl Aborted \<Rightarrow> (None, []))"

end
