(* ===== verification/ToolProps.thy ===== *)
theory ToolProps
  imports DriverCommands Reports
begin

text \<open>
  The properties of the command-line tools.
\<close>

section \<open>The JSON answers\<close>

text \<open>
  The exit codes of the statuses of an answer. The documentation of the machine output has two more codes, 5 for a
  compilation that fails and 8 for an incompatible graph schema, which the driver never gives.
\<close>

definition status_code :: "string \<Rightarrow> nat set" where
  "status_code status =
     (if status = ''ok'' then {0} else if status = ''empty'' then {3} else if status = ''truncated'' then {4}
      else if status = ''error'' then {6, 7} else {})"

definition json_string :: "json \<Rightarrow> string" where
  "json_string j = (case j of JString s \<Rightarrow> s | _ \<Rightarrow> [])"

definition json_member :: "string \<Rightarrow> json \<Rightarrow> json" where
  "json_member k j = (case j of JObject kvs \<Rightarrow> (case map_of kvs k of None \<Rightarrow> JNull | Some v \<Rightarrow> v) | _ \<Rightarrow> JNull)"

definition answer_status :: "json \<Rightarrow> string" where
  "answer_status j = json_string (json_member ''status'' (json_member ''summary'' j))"

text \<open>One JSON document, with the exit code of its status, that reports at most as many results as it says exist.\<close>

definition one_answer :: "options \<Rightarrow> nat \<Rightarrow> tool_output list \<Rightarrow> bool" where
  "one_answer opts code outs \<longleftrightarrow>
     (\<exists>j. outs = [writeOutput opts (JsonText j)] \<and> code \<in> status_code (answer_status j) \<and>
        json_member ''complete'' (json_member ''summary'' j) = JBool (code \<noteq> 4) \<and>
        json_member ''schema_version'' j = JInt 1)"

lemma map_of_json_put: "map_of (json_put k v kvs) q = (if q = k then Some v else map_of kvs q)"
  by (induction kvs rule: json_put.induct) auto

lemma json_member_put: "json_member q (JObject (json_put k v kvs)) = (if q = k then v else json_member q (JObject kvs))"
  by (simp add: json_member_def map_of_json_put)

lemma summary_members:
  "json_member ''complete'' (summary_json status complete returned whole) = JBool complete"
  "json_member ''status'' (summary_json status complete returned whole) = JString status"
  by (simp_all add: json_member_def summary_json_def)

lemma status_code_text:
  "(if \<not> complete then 4 else if returned = 0 then 3 else 0) \<in> status_code (status_text complete returned)"
  by (simp add: status_code_def status_text_def)

lemma envelope_answer:
  assumes "code = (if \<not> complete then 4 else if returned = 0 then 3 else 0)"
  shows "one_answer opts code (printStats E opts JsonFormat N (Some (setEnvelope E N command query data returned whole complete)))"
proof -
  let ?env = "setEnvelope E N command query data returned whole complete"
  have *: "json_member ''summary'' (JObject ?env) = summary_json (status_text complete returned) complete returned whole"
    "json_member ''schema_version'' (JObject ?env) = JInt 1"
    by (simp_all add: json_member_def setEnvelope_def)
  define put where "put = json_put ''artifact_id'' (artifact E N) ?env"
  define j where "j = JObject (if o_stats opts \<or> statsJson opts then json_put ''stats'' (stats_value E) put else put)"
  have out: "printStats E opts JsonFormat N (Some ?env) = [writeOutput opts (JsonText j)]"
    by (simp add: printStats_def Let_def put_def j_def)
  have j: "json_member ''summary'' j = summary_json (status_text complete returned) complete returned whole"
      "json_member ''schema_version'' j = JInt 1"
    by (simp_all add: j_def put_def json_member_put *)
  have "answer_status j = status_text complete returned"
    by (simp add: answer_status_def j summary_members json_string_def)
  then show ?thesis
    unfolding one_answer_def using out j status_code_text [of complete returned]
    by (intro exI [of _ j]) (simp add: assms summary_members)
qed

definition answers :: "options \<Rightarrow> (nat \<times> tool_output list) tool \<Rightarrow> bool" where
  "answers opts r \<longleftrightarrow> (\<forall>code outs. r = Inr (code, outs) \<longrightarrow> one_answer opts code outs)"

lemma answers_bind: "(\<And>x. answers opts (f x)) \<Longrightarrow> answers opts (bindT r f)"
  by (cases r) (simp_all add: answers_def)

lemma answers_Inl [simp]: "answers opts (Inl err)"
  by (simp add: answers_def)

lemma answers_Inr [simp]: "answers opts (Inr (code, outs)) = one_answer opts code outs"
  by (simp add: answers_def)

lemma result_count_le: "result_count opts n \<le> n"
  by (simp add: result_count_def Let_def split: option.split)

lemma result_count_0: "result_count opts n = 0 \<longleftrightarrow> n = 0"
  by (auto simp: result_count_def Let_def split: option.split)

lemma emitNodeGraph_answers [simp]: "answers opts (emitNodeGraph E opts N command query input known)"
  unfolding emitNodeGraph_def Let_def
  by (rule answers_bind) (auto simp: exit_status_def intro!: envelope_answer)

lemma items_command_answers [simp]: "answers opts (items_command E opts N command signal item xs)"
  unfolding items_command_def Let_def
  by (rule answers_bind) (auto intro!: envelope_answer)

lemma registers_answers [simp]: "answers opts (registers_command E opts JsonFormat N)"
  by (simp add: registers_command_def Let_def)

lemma find_answers [simp]: "answers opts (find_command E opts JsonFormat N command pattern found)"
  by (simp add: find_command_def Let_def)

lemma fan_answers [simp]: "answers opts (fan_command E opts JsonFormat N command search spec)"
  unfolding fan_command_def Let_def split_beta by (auto intro!: answers_bind)

lemma sensitivity_answers [simp]: "answers opts (sensitivity_command E opts JsonFormat N name)"
  unfolding sensitivity_command_def Let_def by (auto intro!: answers_bind)

lemma constants_answers [simp]: "answers opts (constants_command E opts JsonFormat N name)"
  unfolding constants_command_def by (auto intro!: answers_bind)

lemma drivers_answers [simp]: "answers opts (drivers_command E opts JsonFormat N spec)"
  unfolding drivers_command_def Let_def split_beta by auto

lemma path_answers [simp]: "answers opts (path_command E opts JsonFormat policy N from to)"
  unfolding path_command_def by (auto simp: split_beta intro!: answers_bind envelope_answer)

lemma loops_answers: "loops_command E opts JsonFormat N = (outs, Inr code) \<Longrightarrow> one_answer opts code outs"
proof -
  assume run: "loops_command E opts JsonFormat N = (outs, Inr code)"
  obtain loops where "getAllLoops (dg N) = Some loops"
    using run by (auto simp: loops_command_def split: option.splits)
  moreover have "answers opts (bindT (mapT (loop_json E N) (take (result_count opts (length loops)) loops)) (\<lambda>js.
      Inr (if loops = [] then 3 else if result_count opts (length loops) = length loops then 0 else 4,
        printStats E opts JsonFormat N (Some (setEnvelope E N ''comb-loops'' (JObject []) (JObject [(''loops'', JArray js)])
          (result_count opts (length loops)) (length loops) (result_count opts (length loops) = length loops))))))"
    by (rule answers_bind) (auto intro!: envelope_answer simp: result_count_0)
  ultimately show ?thesis
    using run unfolding loops_command_def answers_def Let_def
    by (cases "mapT (loop_json E N) (take (result_count opts (length loops)) loops)") auto
qed

lemma completed_answers: "answers opts r \<Longrightarrow> completed r = (outs, Inr code) \<Longrightarrow> one_answer opts code outs"
  by (cases r) (auto simp: answers_def)

lemma run_command_answers:
  assumes "netlistDotFile opts = None" "run_command E opts JsonFormat policy N = (outs, Inr code)"
  shows "one_answer opts code outs"
  using assms unfolding run_command_def
  by (auto split: if_splits option.splits elim!: completed_answers [rotated] dest: loops_answers)

lemma completed_Inl: "completed r = (outs, Inl err) \<Longrightarrow> outs = []"
  by (cases r) auto

lemma run_command_thrown:
  assumes "run_command E opts JsonFormat policy N = (outs, Inl err)"
  shows "outs = []"
proof -
  have "loops_command E opts JsonFormat N = (outs, Inl err) \<Longrightarrow> outs = []"
    by (auto simp: loops_command_def Let_def split: option.splits dest: completed_Inl)
  then show ?thesis
    using assms unfolding run_command_def by (auto split: if_splits option.splits dest: completed_Inl)
qed

lemma alias_same [simp]:
  "netlistDotFile (alias_endpoints opts) = netlistDotFile opts" "outputFile (alias_endpoints opts) = outputFile opts"
  by (simp_all add: alias_endpoints_def)

lemma writeOutput_alias [simp]: "writeOutput (alias_endpoints opts) c = writeOutput opts c"
  by (simp add: writeOutput_def)

lemma one_answer_alias [simp]: "one_answer (alias_endpoints opts) = one_answer opts"
  by (simp add: one_answer_def fun_eq_iff)

lemma run_source_answers:
  assumes "netlistDotFile opts = None" "saveNetlistFile opts = None" "run_source E opts JsonFormat policy src = (outs, r)"
  shows "case r of Inr code \<Rightarrow> one_answer opts code outs | Inl _ \<Rightarrow> outs = []"
  using assms run_command_answers [of "alias_endpoints opts"] run_command_thrown [of _ "alias_endpoints opts"]
  by (cases r) (auto simp: run_source_def split: tool_source.splits sum.splits)

lemma json_run_answers:
  assumes "chosen_format opts = Some JsonFormat" "netlistDotFile opts = None" "saveNetlistFile opts = None"
    and "crossState opts \<in> {None, Some ''never'', Some ''once'', Some ''unlimited''}"
    and "driver_main E opts src = (outs, Some code)"
  shows "one_answer opts code outs"
proof -
  obtain outs' r where run: "run_source E opts JsonFormat (case crossState opts of None \<Rightarrow> ''never'' | Some p \<Rightarrow> p) src = (outs', r)"
    by fastforce
  have main: "handle_result E opts JsonFormat (outs', r) = (outs, Some code)"
    using assms run by (auto simp: driver_main_def)
  have ok: "case r of Inr code \<Rightarrow> one_answer opts code outs' | Inl _ \<Rightarrow> outs' = []"
    by (rule run_source_answers [OF assms(2,3) run])
  have thrown: "one_answer opts (if take 10 message = ''ambiguous '' then 7 else 6)
      [writeOutput opts (JsonText (error_envelope E message))]" for message
    by (auto simp: one_answer_def error_envelope_def answer_status_def json_member_def summary_json_def json_string_def
        status_code_def)
  show ?thesis
    using main ok thrown by (auto simp: handle_result_def one_answer_def split: sum.splits failure.splits)
qed

text \<open>
  In JSON format, whatever query is asked of whatever netlist, a run that ends leaves exactly one JSON document, on the
  output that was asked for, and its exit code is given by the status in the document: 0 for ok, 3 for empty, 4 for
  truncated, 6 or 7 for an error, whatever the error is; \<open>complete\<close> is false exactly when it is truncated. The commands that write a DOT file or save the netlist give no document and are left out.
\<close>

theorem json_run_contract:
  assumes "chosen_format opts = Some JsonFormat" "netlistDotFile opts = None" "saveNetlistFile opts = None"
    and "crossState opts \<in> {None, Some ''never'', Some ''once'', Some ''unlimited''}"
    and "driver_main E opts src = (outs, Some code)"
  shows "\<exists>j. outs = [writeOutput opts (JsonText j)] \<and> code \<in> status_code (answer_status j) \<and>
     json_member ''complete'' (json_member ''summary'' j) = JBool (code \<noteq> 4) \<and>
     json_member ''schema_version'' j = JInt 1"
  using json_run_answers [OF assms] by (simp add: one_answer_def)

section \<open>Bit ranges in names\<close>

lemma digit_of_digit_char: "d < 10 \<Longrightarrow> digit_of (digit_char d) = Some d"
  by (simp add: digit_of_def digit_char_def Let_def)

lemma parse_digits_append: "parse_digits acc (xs @ ys) = and_then (parse_digits acc xs) (\<lambda>a. parse_digits a ys)"
proof (induction xs arbitrary: acc)
  case (Cons c cs)
  then show ?case by (cases "digit_of c") simp_all
qed simp

lemma parse_show_nat: "parse_digits 0 (show_nat n) = Some n"
proof (induction n rule: show_nat.induct)
  case (1 n)
  show ?case
  proof (cases "n < 10")
    case True
    then show ?thesis
      by (subst show_nat.simps) (simp add: digit_of_digit_char)
  next
    case False
    then show ?thesis
      using 1 by (subst show_nat.simps) (simp add: parse_digits_append digit_of_digit_char)
  qed
qed

lemma show_nat_chars: "show_nat n \<noteq> [] \<and> set (show_nat n) \<subseteq> digit_char ` {..<10}"
proof (induction n rule: show_nat.induct)
  case (1 n)
  then show ?case
    by (subst show_nat.simps, subst show_nat.simps) auto
qed

lemma digit_char_not: "d < 10 \<Longrightarrow> digit_char d \<noteq> CHR ''-'' \<and> digit_char d \<noteq> CHR ''['' \<and> digit_char d \<noteq> CHR '':'' \<and> digit_char d \<noteq> CHR '']''"
proof -
  assume "d < 10"
  then have "digit_of (digit_char d) = Some d" by (rule digit_of_digit_char)
  moreover have "digit_of CHR ''-'' = None" "digit_of CHR ''['' = None" "digit_of CHR '':'' = None" "digit_of CHR '']'' = None"
    by (simp_all add: digit_of_def Let_def)
  ultimately show ?thesis by auto
qed

lemma show_nat_not:
  "CHR ''-'' \<notin> set (show_nat n)" "CHR ''['' \<notin> set (show_nat n)" "CHR '':'' \<notin> set (show_nat n)"
  using show_nat_chars [of n] digit_char_not by fastforce+

lemma parse_show_int: "- (2 ^ 31) \<le> i \<Longrightarrow> i < 2 ^ 31 \<Longrightarrow> parseInt (show_int i) = Some i"
proof (cases "i < 0")
  case False
  assume "- (2 ^ 31) \<le> i" "i < 2 ^ 31"
  moreover have "hd (show_nat (nat i)) \<noteq> CHR ''-''"
    using show_nat_not(1) [of "nat i"] show_nat_chars [of "nat i"] by (metis hd_in_set)
  ultimately show ?thesis
    using False show_nat_chars [of "nat i"] by (simp add: parseInt_def show_int_def parse_show_nat Let_def)
next
  case True
  assume "- (2 ^ 31) \<le> i" "i < 2 ^ 31"
  then show ?thesis
    using True show_nat_chars [of "nat (- i)"] by (simp add: parseInt_def show_int_def parse_show_nat Let_def)
qed

lemma show_int_not: "CHR ''['' \<notin> set (show_int i)" "CHR '':'' \<notin> set (show_int i)"
  using show_nat_not by (auto simp: show_int_def)

lemma split_first_append: "c \<notin> set xs \<Longrightarrow> split_first c (xs @ c # ys) = Some (xs, ys)"
  by (induction xs) auto

lemma split_first_none: "c \<notin> set xs \<Longrightarrow> split_first c xs = None"
  by (induction xs) auto

lemma split_last_append: "c \<notin> set ys \<Longrightarrow> split_last c (xs @ c # ys) = Some (xs, ys)"
  using split_first_append [of c "rev ys" "rev xs"] by (simp add: split_last_def)

text \<open>
  C21. A bit range that follows a name is read back as it is written: the name with the text of any range whose bounds
  fit \<open>int32_t\<close> gives the name, whatever brackets it holds itself, and the same bits; a text that does not end with a
  closing bracket is a name.
\<close>

theorem parseNameAndRange_reads_range:
  assumes "constant_range R" "- (2 ^ 31) \<le> lower_of R r" "upper_of R r < 2 ^ 31"
  shows "parseNameAndRange (name @ range_toString R r) = (name, Some (mk_range (upper_of R r) (lower_of R r))) \<and>
     bits_of R (mk_range (upper_of R r) (lower_of R r)) = bits_of R r \<and>
     (name = [] \<or> last name \<noteq> CHR '']'' \<longrightarrow> parseNameAndRange name = (name, None))"
proof -
  have le: "lower_of R r \<le> upper_of R r"
    by (rule constant_range.lower_le_upper [OF assms(1)])
  have nums: "parseInt (show_int (lower_of R r)) = Some (lower_of R r)" "parseInt (show_int (upper_of R r)) = Some (upper_of R r)"
    using assms(2,3) le by (simp_all add: parse_show_int)
  have "parseNameAndRange (name @ range_toString R r) = (name, Some (mk_range (upper_of R r) (lower_of R r)))"
  proof (cases "lower_of R r = upper_of R r")
    case True
    then have "name @ range_toString R r = name @ CHR ''['' # (show_int (lower_of R r) @ '']'')"
      by (simp add: range_toString_def)
    then show ?thesis
      using split_last_append [of "CHR ''[''" "show_int (lower_of R r) @ '']''" name] nums(1) True
      by (simp add: parseNameAndRange_def show_int_not split_first_none butlast_append)
  next
    case False
    then have "name @ range_toString R r =
        name @ CHR ''['' # (show_int (upper_of R r) @ CHR '':'' # show_int (lower_of R r) @ '']'')"
      by (simp add: range_toString_def)
    then show ?thesis
      using split_last_append [of "CHR ''[''" "show_int (upper_of R r) @ CHR '':'' # show_int (lower_of R r) @ '']''" name] nums
      by (simp add: parseNameAndRange_def show_int_not split_first_append butlast_append)
  qed
  moreover have "bits_of R (mk_range (upper_of R r) (lower_of R r)) = bits_of R r"
    using le constant_range.lower_law [OF assms(1)] constant_range.upper_law [OF assms(1)] by (simp add: bits_of_def min_def max_def)
  moreover have "name = [] \<or> last name \<noteq> CHR '']'' \<longrightarrow> parseNameAndRange name = (name, None)"
    by (auto simp: parseNameAndRange_def)
  ultimately show ?thesis by blast
qed

theorem parseNameAndRange_reads_range_witness:
  "parseNameAndRange (''top.u[0].sig'' @ range_toString std_range (mk_range 0 7)) = (''top.u[0].sig'', Some (mk_range 7 0))"
  using parseNameAndRange_reads_range [OF std.constant_range_axioms, of "mk_range 0 7" "''top.u[0].sig''"]
  by (simp add: std_range_def)

section \<open>Paths across registers\<close>

definition is_register :: "'c netlist \<Rightarrow> nat \<Rightarrow> bool" where
  "is_register N n \<longleftrightarrow> nkind (dg N) n = KState"

lemma first_path_from: "first_path f ps = Some path \<Longrightarrow> path \<noteq> [] \<Longrightarrow> \<exists>p \<in> set ps. f p = Some path"
proof (induction ps)
  case (Cons p ps)
  then show ?case by (cases "f p") (auto split: if_splits)
qed simp

lemma first_path_none: "first_path f ps = Some [] \<Longrightarrow> p \<in> set ps \<Longrightarrow> f p = Some []"
proof (induction ps)
  case (Cons a ps)
  then show ?case by (cases "f a") (auto split: if_splits)
qed simp

lemma first_path_total: "\<forall>p \<in> set ps. f p \<noteq> None \<Longrightarrow> first_path f ps \<noteq> None"
proof (induction ps)
  case (Cons a ps)
  then have "f a \<noteq> None" "first_path f ps \<noteq> None" by simp_all
  then show ?case by (cases "f a") simp_all
qed simp

lemma comb_walk_states: "walk (follows (outEdges g) (etgt g) (comb_edge g)) path \<Longrightarrow> n \<in> set (tl path) \<Longrightarrow> nkind g n \<noteq> KState"
proof (induction path rule: induct_list012)
  case (3 x y zs)
  then show ?case by (auto simp: follows_def comb_edge_def)
qed simp_all

text \<open>The search for one pair of end points, and the edges it follows.\<close>

definition policy_search :: "'c netlist \<Rightarrow> string \<Rightarrow> nat \<times> nat \<Rightarrow> nat list option" where
  "policy_search N policy p =
     (if policy = ''never'' then findComb (dg N) (fst p) (snd p) else findPath (dg N) (fst p) (snd p))"

definition policy_edge :: "'c netlist \<Rightarrow> string \<Rightarrow> nat \<Rightarrow> bool" where
  "policy_edge N policy = (if policy = ''never'' then comb_edge (dg N) else edge_enabled (dg N))"

lemma policy_search_spec:
  assumes "graph_ok (dg N)"
  shows "policy_search N policy (a, b) \<noteq> None"
    and "policy_search N policy (a, b) = Some p \<Longrightarrow> p \<noteq> [] \<Longrightarrow>
       a \<noteq> b \<and> reaches (dg N) (policy_edge N policy) a b \<and> hd p = a \<and> last p = b \<and> distinct p \<and>
       walk (follows (outEdges (dg N)) (etgt (dg N)) (policy_edge N policy)) p"
    and "policy_search N policy (a, b) = Some [] \<Longrightarrow> a = b \<or> \<not> reaches (dg N) (policy_edge N policy) a b"
proof -
  have forward: "edges_from Forward (dg N) = outEdges (dg N)" "nextNodeOf Forward (dg N) = etgt (dg N)"
    by (simp_all add: edges_from_def nextNodeOf_def fun_eq_iff)
  have "\<exists>path. policy_search N policy (a, b) = Some path \<and>
      (if b \<noteq> a \<and> reaches (dg N) (policy_edge N policy) a b
       then path \<noteq> [] \<and> hd path = a \<and> last path = b \<and> distinct path \<and>
         walk (follows (outEdges (dg N)) (etgt (dg N)) (policy_edge N policy)) path
       else path = [])"
    using find_path_spec [OF assms, of "policy_edge N policy" a b] unfolding forward
    by (auto simp: policy_search_def policy_edge_def findComb_def findPath_def)
  then show "policy_search N policy (a, b) \<noteq> None"
    and "policy_search N policy (a, b) = Some p \<Longrightarrow> p \<noteq> [] \<Longrightarrow>
       a \<noteq> b \<and> reaches (dg N) (policy_edge N policy) a b \<and> hd p = a \<and> last p = b \<and> distinct p \<and>
       walk (follows (outEdges (dg N)) (etgt (dg N)) (policy_edge N policy)) p"
    and "policy_search N policy (a, b) = Some [] \<Longrightarrow> a = b \<or> \<not> reaches (dg N) (policy_edge N policy) a b"
    by (auto split: if_splits)
qed

lemma set_all_pairs: "set (all_pairs froms tos) = set froms \<times> set tos"
  by (auto simp: all_pairs_def)

lemma policy_walk_enabled:
  "walk (follows (outEdges (dg N)) (etgt (dg N)) (policy_edge N policy)) path \<Longrightarrow>
   walk (follows (outEdges (dg N)) (etgt (dg N)) (edge_enabled (dg N))) path"
  by (induction path rule: induct_list012)
    (auto simp: policy_edge_def follows_def comb_edge_def edge_enabled_def split: if_splits)

lemma first_path_policy:
  assumes "graph_ok (dg N)"
  obtains path where "first_path (policy_search N policy) (all_pairs froms tos) = Some path"
    and "path \<noteq> [] \<Longrightarrow> hd path \<in> set froms \<and> last path \<in> set tos \<and> distinct path \<and>
      walk (follows (outEdges (dg N)) (etgt (dg N)) (policy_edge N policy)) path"
    and "path = [] \<longleftrightarrow> (\<forall>a \<in> set froms. \<forall>b \<in> set tos. a = b \<or> \<not> reaches (dg N) (policy_edge N policy) a b)"
proof -
  note gives = policy_search_spec [OF assms]
  have "first_path (policy_search N policy) (all_pairs froms tos) \<noteq> None"
    by (rule first_path_total) (use gives(1) in \<open>auto simp: set_all_pairs\<close>)
  then obtain path where run: "first_path (policy_search N policy) (all_pairs froms tos) = Some path" by blast
  have found: "\<exists>a \<in> set froms. \<exists>b \<in> set tos. policy_search N policy (a, b) = Some path" if "path \<noteq> []"
    using first_path_from [OF run that] by (auto simp: set_all_pairs)
  have "path = [] \<longleftrightarrow> (\<forall>a \<in> set froms. \<forall>b \<in> set tos. a = b \<or> \<not> reaches (dg N) (policy_edge N policy) a b)"
  proof
    assume "path = []"
    then show "\<forall>a \<in> set froms. \<forall>b \<in> set tos. a = b \<or> \<not> reaches (dg N) (policy_edge N policy) a b"
      using first_path_none [of "policy_search N policy" "all_pairs froms tos"] run gives(3) by (auto simp: set_all_pairs)
  next
    assume "\<forall>a \<in> set froms. \<forall>b \<in> set tos. a = b \<or> \<not> reaches (dg N) (policy_edge N policy) a b"
    then show "path = []"
      using found gives(2) by blast
  qed
  moreover have "hd path \<in> set froms \<and> last path \<in> set tos \<and> distinct path \<and>
      walk (follows (outEdges (dg N)) (etgt (dg N)) (policy_edge N policy)) path" if "path \<noteq> []"
    using found [OF that] gives(2) that by blast
  ultimately show ?thesis
    using that run by blast
qed

text \<open>
  C20. The search for a path between end points always returns, and respects the policy: under \<open>never\<close> the path goes into
  no register, it is missing exactly when no pair of different end points is joined by a combinational path; under
  \<open>once\<close> at most one register is on it; under \<open>unlimited\<close> it is missing exactly when no pair is joined by enabled edges. A
  path that is returned leads from one of the sources to one of the targets along enabled edges.
\<close>

theorem search_path_policy:
  assumes "graph_ok (dg N)"
  shows "\<exists>path. search_path N policy froms tos = Some path \<and>
     (path \<noteq> [] \<longrightarrow> hd path \<in> set froms \<and> last path \<in> set tos \<and> distinct path \<and>
        walk (follows (outEdges (dg N)) (etgt (dg N)) (edge_enabled (dg N))) path) \<and>
     (policy = ''never'' \<longrightarrow> (\<forall>n \<in> set (tl path). \<not> is_register N n) \<and>
        (path = [] \<longleftrightarrow> (\<forall>a \<in> set froms. \<forall>b \<in> set tos. a = b \<or> \<not> reaches (dg N) (comb_edge (dg N)) a b))) \<and>
     (policy = ''once'' \<longrightarrow> length (filter (is_register N) path) \<le> 1) \<and>
     (policy = ''unlimited'' \<longrightarrow>
        (path = [] \<longleftrightarrow> (\<forall>a \<in> set froms. \<forall>b \<in> set tos. a = b \<or> \<not> reaches (dg N) (edge_enabled (dg N)) a b)))"
proof -
  obtain path where run: "first_path (policy_search N policy) (all_pairs froms tos) = Some path"
    and found: "path \<noteq> [] \<Longrightarrow> hd path \<in> set froms \<and> last path \<in> set tos \<and> distinct path \<and>
      walk (follows (outEdges (dg N)) (etgt (dg N)) (policy_edge N policy)) path"
    and missing: "path = [] \<longleftrightarrow> (\<forall>a \<in> set froms. \<forall>b \<in> set tos. a = b \<or> \<not> reaches (dg N) (policy_edge N policy) a b)"
    using first_path_policy [OF assms] by blast
  define kept where "kept = (if policy = ''once'' \<and> length (filter (is_register N) path) > 1 then [] else path)"
  have split: "(\<lambda>(a, b). if policy = ''never'' then findComb (dg N) a b else findPath (dg N) a b) = policy_search N policy"
    by (auto simp: policy_search_def fun_eq_iff)
  have search: "search_path N policy froms tos = Some kept"
    unfolding search_path_def split by (simp add: run kept_def is_register_def [abs_def])
  have states: "policy = ''never'' \<Longrightarrow> n \<in> set (tl path) \<Longrightarrow> \<not> is_register N n" for n
    using found comb_walk_states [of "dg N" path n] by (cases path) (auto simp: policy_edge_def is_register_def)
  have "kept \<noteq> [] \<longrightarrow> hd kept \<in> set froms \<and> last kept \<in> set tos \<and> distinct kept \<and>
        walk (follows (outEdges (dg N)) (etgt (dg N)) (edge_enabled (dg N))) kept"
    using found policy_walk_enabled [of N policy path] by (simp add: kept_def)
  moreover have "policy \<noteq> ''once'' \<Longrightarrow> kept = path" "policy = ''once'' \<longrightarrow> length (filter (is_register N) kept) \<le> 1"
    by (simp_all add: kept_def)
  ultimately show ?thesis
    using search missing states by (intro exI [of _ kept]) (simp add: policy_edge_def)
qed

text \<open>\<open>a\<close>, the registers \<open>r\<close> and \<open>s\<close>, and \<open>b\<close>: \<open>a\<close> feeds \<open>r\<close>, \<open>r\<close> feeds \<open>s\<close> and \<open>b\<close>, \<open>s\<close> feeds \<open>b\<close>.\<close>

definition register_node :: "nat \<Rightarrow> string \<Rightarrow> unit netlist_node" where
  "register_node i name = \<lparr>ID = i, node_data = State name name no_location (mk_range 0 0)\<rparr>"

definition register_nodes :: "unit ngraph" where
  "register_nodes =
     snd (addNode (var_node 4 ''b'') (snd (addNode (register_node 3 ''s'') (snd (addNode (register_node 2 ''r'')
       (snd (addNode (var_node 1 ''a'') empty_digraph)))))))"

definition registers_net :: "unit netlist" where
  "registers_net = empty_netlist\<lparr>dg :=
     with_edge new_edge 1 3 (with_edge new_edge 2 3 (with_edge new_edge 1 2 (with_edge new_edge 0 1 register_nodes)))\<rparr>"

lemma registers_ok: "graph_ok (dg registers_net)"
proof -
  have "graph_ok register_nodes" "nodes register_nodes = [0, 1, 2, 3]"
    unfolding register_nodes_def by (intro addNode_ok graph_ok_empty) (simp add: addNode_def empty_digraph_def)
  then show ?thesis
    unfolding registers_net_def by (simp add: with_edge_ok)
qed

theorem search_path_policy_witness:
  "\<exists>path. search_path registers_net ''unlimited'' [0] [3] = Some path \<and> hd path = 0 \<and> last path = 3 \<and> distinct path"
proof -
  have "search_path registers_net ''unlimited'' [0] [3] \<noteq> Some []"
    by code_simp
  then show ?thesis
    using search_path_policy [OF registers_ok, of "''unlimited''" "[0]" "[3]"] by auto
qed

text \<open>
  Under the policy \<open>once\<close> a path with one register can be missed: the search finds one path, without regard to the
  registers on it, and that path is dropped when it has more than one. Here the path that is found goes through both
  registers and the answer is that there is none, although the path through \<open>r\<close> alone exists.
\<close>

theorem once_misses_path:
  "search_path registers_net ''once'' [0] [3] = Some [] \<and>
   search_path registers_net ''unlimited'' [0] [3] = Some [0, 1, 2, 3] \<and>
   findEdgeTo (dg registers_net) 0 1 \<noteq> None \<and> findEdgeTo (dg registers_net) 1 3 \<noteq> None \<and>
   edge_enabled (dg registers_net) (the (findEdgeTo (dg registers_net) 0 1)) \<and>
   edge_enabled (dg registers_net) (the (findEdgeTo (dg registers_net) 1 3)) \<and>
   length (filter (is_register registers_net) [0, 1, 3]) = 1"
  by code_simp

section \<open>Small runs\<close>

definition plain_env :: "unit tool_env" where
  "plain_env =
     \<lparr>texts = \<lparr>dir_text = (\<lambda>d. case d of DirIn \<Rightarrow> ''In'' | DirOut \<Rightarrow> ''Out'' | DirInOut \<Rightarrow> ''InOut'' | DirRef \<Rightarrow> ''Ref''),
               edge_text = edgeKindToString, const_text = (\<lambda>_. ''0''), display_width = length\<rparr>,
      ranges = std_range, hash_order = remdups, regex_match = (=), has_diagnostics = False,
      hasSourceLocation = (\<lambda>_. False), diag_text = (\<lambda>_. []),
      constants = \<lparr>cv_toString = (\<lambda>_. ''0''), cv_fromString = (\<lambda>_. Some ()), cv_bad = ()\<rparr>,
      dump = (\<lambda>_. []), stats_value = JNull, stats_text = [],
      tool_version = ''1'', slang_version = ''1'', random_id = ''id'', range_message = []\<rparr>"

definition no_options :: options where
  "no_options =
     \<lparr>o_stats = False, statsJson = False, o_format = Some ''json'', maxResults = None, maxDepth = None, crossState = None,
      scopeFilters = [], nameFilters = [], outputFile = None, reportRegisters = False, combLoops = False,
      netlistDotFile = None, fromPointName = None, toPointName = None, fromNodeId = None, toNodeId = None,
      fromKind = None, toKind = None, fanOutName = None, fanInName = None, sensitivityName = None,
      constantDriversName = None, driversName = None, findPattern = None, findRegexPattern = None, saveNetlistFile = None\<rparr>"

definition find_all :: options where
  "find_all = no_options\<lparr>findPattern := Some ''**'', maxResults := Some 2\<rparr>"

theorem json_run_contract_witness:
  "\<exists>outs j. driver_main plain_env find_all (Loaded (Inr registers_net)) = (outs, Some 4) \<and>
     outs = [writeOutput find_all (JsonText j)] \<and> 4 \<in> status_code (answer_status j) \<and>
     json_member ''complete'' (json_member ''summary'' j) = JBool False"
proof -
  have "snd (driver_main plain_env find_all (Loaded (Inr registers_net))) = Some 4"
    by code_simp
  then obtain outs where run: "driver_main plain_env find_all (Loaded (Inr registers_net)) = (outs, Some 4)"
    by (cases "driver_main plain_env find_all (Loaded (Inr registers_net))") simp
  have opts: "chosen_format find_all = Some JsonFormat" "netlistDotFile find_all = None" "saveNetlistFile find_all = None"
    "crossState find_all \<in> {None, Some ''never'', Some ''once'', Some ''unlimited''}"
    by (simp_all add: find_all_def no_options_def chosen_format_def)
  show ?thesis
    using json_run_contract [OF opts run] run by auto
qed

section \<open>Filters and JSON\<close>

text \<open>
  The filters \<open>--scope\<close> and \<open>--name\<close>, which the documentation gives to these commands, do not act on JSON answers as
  they do on tables: the sensitivity query ignores them, and a fan-in or fan-out cone of which they remove a node is
  always reported as truncated, with exit code 4, although nothing was cut: the number of all results is counted before
  the filters.
\<close>

theorem json_filters:
  assumes "fan_command E opts JsonFormat N command search spec = Inr (code, outs)" "depth_limit opts \<noteq> 0"
    and "search (ranges E) (fst (endpoint_range spec)) (snd (endpoint_range spec)) (depth_limit opts) N = Some fan"
    and "search (ranges E) (fst (endpoint_range spec)) (snd (endpoint_range spec)) 0 N = Some fan"
    and "n \<in> set fan" "getHierarchicalPath (ndata (dg N) n) = Some p" "\<not> passesFilters opts p"
  shows "code = 4 \<and> (\<exists>j. outs = [writeOutput opts (JsonText j)] \<and> answer_status j = ''truncated'') \<and>
     sensitivity_command E (opts\<lparr>scopeFilters := scopes, nameFilters := names\<rparr>) JsonFormat N name =
       sensitivity_command E opts JsonFormat N name"
proof -
  have filters: "has_filters opts"
    using assms(7) by (auto simp: passesFilters_def has_filters_def split: if_splits)
  define kept where "kept = filter (\<lambda>n. case getHierarchicalPath (ndata (dg N) n) of None \<Rightarrow> True | Some p \<Rightarrow> passesFilters opts p) fan"
  have "length kept < length fan"
    unfolding kept_def using assms(5-7) by (intro length_filter_less [of n]) auto
  moreover have emitted: "\<exists>query. emitNodeGraph E opts N command query kept (Some (length fan)) = Inr (code, outs)"
    using assms(1-4) filters
    by (auto simp: fan_command_def endpoint_range_def split_beta Let_def asserted_def kept_def split: if_splits option.splits)
  ultimately have code: "code = 4"
    by (auto simp: emitNodeGraph_def Let_def exit_status_def simp: bindT_eq_Inr)
  have "one_answer opts code outs"
    using emitted emitNodeGraph_answers unfolding answers_def by blast
  then obtain j where j: "outs = [writeOutput opts (JsonText j)]" "4 \<in> status_code (answer_status j)"
    by (auto simp: one_answer_def code)
  then have "answer_status j = ''truncated''"
    by (auto simp: status_code_def split: if_splits)
  moreover have "sensitivity_command E (opts\<lparr>scopeFilters := scopes, nameFilters := names\<rparr>) JsonFormat N name =
       sensitivity_command E opts JsonFormat N name"
    by (simp add: sensitivity_command_def items_command_def result_count_def printStats_def writeOutput_def Let_def)
  ultimately show ?thesis
    using code j by blast
qed

text \<open>\<open>a\<close> drives \<open>m\<close>, \<open>m\<close> drives \<open>b\<close>; the edge out of \<open>a\<close> carries the signal \<open>a\<close>. The filter keeps \<open>b\<close> only.\<close>

definition fan_net :: "unit netlist" where
  "fan_net = empty_netlist\<lparr>dg :=
       with_edge new_edge 1 2 (with_edge (new_edge\<lparr>symbol := Some 0\<rparr>) 0 1
         (snd (addNode (var_node 3 ''b'') (snd (addNode (var_node 2 ''m'') (snd (addNode (var_node 1 ''a'') empty_digraph))))))),
     symbolTable := snd (intern ''a'' ''a'' no_location st_new)\<rparr>"

definition only_b :: options where
  "only_b = no_options\<lparr>scopeFilters := [''b'']\<rparr>"

theorem json_filters_witness:
  "\<exists>code outs j. fan_command plain_env only_b JsonFormat fan_net ''fan-out'' getSignalCombFanOut ''a'' = Inr (code, outs) \<and>
     code = 4 \<and> outs = [writeOutput only_b (JsonText j)] \<and> answer_status j = ''truncated''"
proof -
  have "case fan_command plain_env only_b JsonFormat fan_net ''fan-out'' getSignalCombFanOut ''a'' of Inl _ \<Rightarrow> False | Inr _ \<Rightarrow> True"
    by code_simp
  then obtain code outs where run: "fan_command plain_env only_b JsonFormat fan_net ''fan-out'' getSignalCombFanOut ''a'' = Inr (code, outs)"
    by (auto split: sum.splits)
  have fan: "getSignalCombFanOut (ranges plain_env) (fst (endpoint_range ''a'')) (snd (endpoint_range ''a'')) (depth_limit only_b) fan_net = Some [1, 2]"
    "getSignalCombFanOut (ranges plain_env) (fst (endpoint_range ''a'')) (snd (endpoint_range ''a'')) 0 fan_net = Some [1, 2]"
    by code_simp+
  have m: "getHierarchicalPath (ndata (dg fan_net) 1) = Some ''m''" "\<not> passesFilters only_b ''m''" "depth_limit only_b \<noteq> 0"
    by code_simp+
  show ?thesis
    using json_filters [OF run m(3) fan _ m(1,2)] run by auto
qed

section \<open>Reports\<close>

lemma report_steps_nodes: "report_steps N f h path = Inr zs \<Longrightarrow> n \<in> set path \<Longrightarrow> \<exists>x. f n = Inr x"
proof (induction N f h path arbitrary: zs rule: report_steps.induct)
  case (3 N f h a b ns)
  then show ?case by (auto simp: bindT_eq_Inr)
qed simp_all

text \<open>
  A path through an inout or ref port is never reported as text: printing it ends in \<open>SLANG_UNREACHABLE\<close> (or in
  another failure before it), with slang's diagnostics and without.
\<close>

theorem path_through_inout_not_reported:
  assumes "n \<in> set path" "ndata (dg N) n = Port name p loc dir bnds" "dir \<noteq> DirIn" "dir \<noteq> DirOut"
  shows "\<nexists>s. reportPath E N path = Inr s"
proof -
  have no: "\<nexists>x. reportNodeText E N (ndata (dg N) n) = Inr x" "\<nexists>x. reportNodeDiag (ndata (dg N) n) = Inr x"
    using assms(2-4) by (cases "location_text E N loc"; simp)+
  show ?thesis
  proof
    assume "\<exists>s. reportPath E N path = Inr s"
    then obtain s where s: "reportPath E N path = Inr s" by blast
    show False
    proof (cases "use_diagnostics E N path")
      case True
      then obtain ds where "report_steps N (\<lambda>n. reportNodeDiag (ndata (dg N) n)) (\<lambda>e. Inr (reportEdgeDiag (ranges E) N e)) path = Inr ds"
        using s by (auto simp: reportPath_def simp: bindT_eq_Inr)
      then show False
        using report_steps_nodes [OF _ assms(1)] no(2) by blast
    next
      case False
      then have "report_steps N (\<lambda>n. reportNodeText E N (ndata (dg N) n)) (reportEdgeText E N) path = Inr s"
        using s by (simp add: reportPath_def)
      then show False
        using report_steps_nodes [OF _ assms(1)] no(1) by blast
    qed
  qed
qed

text \<open>An input port that drives an inout port.\<close>

definition port_node :: "nat \<Rightarrow> string \<Rightarrow> arg_direction \<Rightarrow> unit netlist_node" where
  "port_node i name dir = \<lparr>ID = i, node_data = Port name name no_location dir (mk_range 0 0)\<rparr>"

definition inout_net :: "unit netlist" where
  "inout_net = empty_netlist\<lparr>dg := with_edge new_edge 0 1
     (snd (addNode (port_node 2 ''io'' DirInOut) (snd (addNode (port_node 1 ''i'' DirIn) empty_digraph))))\<rparr>"

theorem path_through_inout_not_reported_witness:
  "findPath (dg inout_net) 0 1 = Some [0, 1] \<and> (\<nexists>s. reportPath plain_env inout_net [0, 1] = Inr s)"
proof -
  have "ndata (dg inout_net) 1 = Port ''io'' ''io'' no_location DirInOut (mk_range 0 0)"
    by code_simp
  moreover have "findPath (dg inout_net) 0 1 = Some [0, 1]"
    by code_simp
  ultimately show ?thesis
    using path_through_inout_not_reported [of 1 "[0, 1]" inout_net] by simp
qed

section \<open>Scopes of a report\<close>

text \<open>The members that a walk enters, in its order, with their paths.\<close>

fun walked :: "scope_member list \<Rightarrow> (nat \<times> string) list" where
  "walked [] = []"
| "walked (ScopeMember i path k ms # rest) =
     (i, path) #
     (case k of InstanceScope uninstantiated \<Rightarrow> if uninstantiated then [] else walked ms | PlainScope \<Rightarrow> walked ms | NotScope \<Rightarrow> []) @
     walked rest"

definition matching :: "string \<Rightarrow> scope_member list \<Rightarrow> nat list" where
  "matching pattern ms = map fst (filter (\<lambda>m. snd m \<noteq> [] \<and> wildcardMatch (snd m) pattern) (walked ms))"

lemma matching_simps:
  "matching pattern [] = []"
  "matching pattern (ScopeMember i path k ms # rest) =
     (if path \<noteq> [] \<and> wildcardMatch path pattern then [i] else []) @
     (case k of InstanceScope uninstantiated \<Rightarrow> if uninstantiated then [] else matching pattern ms
      | PlainScope \<Rightarrow> matching pattern ms | NotScope \<Rightarrow> []) @
     matching pattern rest"
  by (simp_all add: matching_def split: scope_kind.split)

lemma collect_fold: "collectGlobMatches pattern ms st = fold pick_symbol (matching pattern ms) st"
proof (induction pattern ms st rule: collectGlobMatches.induct)
  case (2 pattern i path k ms rest st)
  then show ?case
    by (cases k) (auto simp: matching_simps Let_def split: if_splits)
qed (simp add: matching_simps)

definition chosen_ok :: "chosen \<Rightarrow> bool" where
  "chosen_ok st \<longleftrightarrow> fst st = set (snd st) \<and> distinct (snd st)"

lemma pick_all: "chosen_ok st \<Longrightarrow> chosen_ok (fold pick_symbol xs st) \<and> set (snd (fold pick_symbol xs st)) = set (snd st) \<union> set xs"
proof (induction xs arbitrary: st)
  case (Cons x xs)
  have "chosen_ok (pick_symbol x st)" "set (snd (pick_symbol x st)) = insert x (set (snd st))"
    using Cons.prems by (auto simp: pick_symbol_def chosen_ok_def)
  then show ?case using Cons.IH [of "pick_symbol x st"] by simp
qed simp

lemma pick_none: "set xs \<subseteq> fst st \<Longrightarrow> fold pick_symbol xs st = st"
  by (induction xs) (simp_all add: pick_symbol_def)

lemma pick_fresh: "distinct xs \<Longrightarrow> set xs \<inter> fst st = {} \<Longrightarrow> snd (fold pick_symbol xs st) = snd st @ xs"
proof (induction xs arbitrary: st)
  case (Cons x xs)
  then show ?case by (simp add: pick_symbol_def)
qed simp

text \<open>
  A glob given as a scope chooses the members it matches, in the order of the walk, if there are any; but a glob that
  matches only symbols which an earlier scope has chosen is refused as if it matched nothing: giving the same glob twice
  is always an error.
\<close>

theorem repeated_scope_glob_refused:
  assumes "hasGlobChar glob" "distinct (matching glob (root_members E))"
  shows "scope_symbols E [glob] =
       (if matching glob (root_members E) = [] then Inl (Thrown (''scope '' @ quoted glob @ '' matched no symbols''))
        else Inr (matching glob (root_members E))) \<and>
     scope_symbols E [glob, glob] = Inl (Thrown (''scope '' @ quoted glob @ '' matched no symbols''))"
proof -
  let ?st = "fold pick_symbol (matching glob (root_members E)) ({}, [])"
  have list: "snd ?st = matching glob (root_members E)"
    using pick_fresh [OF assms(2), of "({}, [])"] by simp
  have ok: "fst ?st = set (snd ?st)"
    using pick_all [of "({}, [])" "matching glob (root_members E)"] by (simp add: chosen_ok_def)
  have again: "fold pick_symbol (matching glob (root_members E)) ?st = ?st"
    by (rule pick_none) (simp add: ok list)
  show ?thesis
    using list again by (simp add: scope_symbols_def add_scope_def assms(1) collect_fold Let_def)
qed

definition two_scopes :: report_env where
  "two_scopes =
     \<lparr>root_members = [ScopeMember 0 ''t'' (InstanceScope False)
        [ScopeMember 1 ''t.u'' (InstanceScope False) [ScopeMember 2 ''t.u.p'' NotScope []], ScopeMember 3 ''t.v'' NotScope []]],
      lookupName = (\<lambda>_. None), visit_below = (\<lambda>_. []), serialize_ast = (\<lambda>_. []), analysis_succeeds = True,
      re_texts = texts plain_env, re_ranges = std_range, re_version = ''1'', re_slang = ''1''\<rparr>"

theorem repeated_scope_glob_refused_witness:
  "scope_symbols two_scopes [''t.*''] = Inr [1, 3] \<and> (\<exists>message. scope_symbols two_scopes [''t.*'', ''t.*''] = Inl (Thrown message))"
proof -
  have m: "matching ''t.*'' (root_members two_scopes) = [1, 3]"
    by code_simp
  have g: "hasGlobChar ''t.*''"
    by code_simp
  show ?thesis
    using repeated_scope_glob_refused [OF g, of two_scopes] by (simp add: m)
qed

end
