(* ===== verification/StartProps.thy ===== *)
theory StartProps
  imports DriverStart ToolProps
begin

text \<open>
  The properties of a whole run of the command-line driver, from the command line to the exit code.
\<close>

section \<open>Exporting the skill directory\<close>

definition copies :: "cli_effect list \<Rightarrow> (string \<times> string) list" where
  "copies es = concat (map (\<lambda>e. case e of CopyTree s d \<Rightarrow> [(s, d)] | _ \<Rightarrow> []) es)"

text \<open>
  An existing destination is left alone and gives exit code 2; otherwise there is one copy, from the installed directory
  where it exists, and exit code 0 exactly when it succeeds.
\<close>

lemma skill_export_contract:
  assumes "is_skill_export argv" "cli_main X argv = (es, code)"
  defines "F \<equiv> files X"
  defines "source \<equiv> (if path_exists F (installed_skill F (argv ! 0)) then installed_skill F (argv ! 0) else skill_source F)"
  shows "copies es = (if path_exists F (argv ! 3) then [] else [(source, argv ! 3)])"
    "code = Some 2 \<longleftrightarrow> path_exists F (argv ! 3)"
    "code = Some 0 \<longleftrightarrow> \<not> path_exists F (argv ! 3) \<and> copy_error F source (argv ! 3) = None"
  using assms(1,2) unfolding F_def source_def cli_main_def skill_export_def Let_def copies_def
  by (auto split: option.splits prod.splits if_splits)

section \<open>The front end\<close>

lemma compile_phases_fails:
  "compile_phases C = (Some code, ts) \<Longrightarrow> code \<in> {1, 2} \<and> map fst ts \<noteq> [''parsing'', ''elaboration'', ''analysis'', ''netlist'']"
  by (auto simp: compile_phases_def Let_def split: if_splits)

lemma valid_choices_cross:
  "valid_choices opts \<Longrightarrow> crossState opts \<in> {None, Some ''never'', Some ''once'', Some ''unlimited''}"
  by (cases "crossState opts") (auto simp: valid_choices_def value_or_def)

lemma error_status: "answer_status (error_envelope E message) = ''error''"
  by (simp add: error_envelope_def answer_status_def json_member_def summary_json_def json_string_def)

section \<open>Properties\<close>

text \<open>
  C19. A run of the whole command line that was asked for JSON, with valid options and neither help, version, DOT file nor
  saved netlist, does one of three things. It aborts. Or the design does not compile: then the exit code is 1 or 2, the
  netlist is never built and, although JSON was asked for, no document is written; this never happens to a loaded netlist. Or
  it leaves exactly one JSON document, whose status gives the exit code (ok 0, empty 3, truncated 4, error 6 or 7) and
  whose \<open>complete\<close> is false exactly when it is truncated. When the saved netlist is refused, for an unsupported
  schema version too, the status is an error and the code 6, or 7 if the message starts with "ambiguous ". Against
  \<^verbatim>\<open>machine-output.md\<close>, the codes 5 (compilation failed) and 8 (schema incompatible) are never given.
\<close>

theorem command_line_json_contract:
  assumes "\<not> is_skill_export argv" "parse_args X argv = Some (f, opts, load)"
    and "f_showHelp f \<noteq> Some True" "f_showVersion f \<noteq> Some True"
    and "valid_choices (flag_options f opts)" "o_format opts = Some ''json'' \<or> f_statsJson f \<noteq> None"
    and "netlistDotFile opts = None" "saveNetlistFile opts = None"
    and "cli_main X argv = (effects, code)"
  shows "(code = None \<or>
     load = None \<and> code \<in> {Some 1, Some 2} \<and> effects = [] \<and> map fst (snd (compile_phases (front X))) \<noteq> [''parsing'', ''elaboration'', ''analysis'', ''netlist''] \<or>
     (\<exists>j c. code = Some c \<and> effects = [Tool (writeOutput (flag_options f opts) (JsonText j))] \<and> c \<in> status_code (answer_status j) \<and>
        json_member ''complete'' (json_member ''summary'' j) = JBool (c \<noteq> 4) \<and> json_member ''schema_version'' j = JInt 1)) \<and>
     code \<noteq> Some 5 \<and> code \<noteq> Some 8 \<and>
     (\<forall>path message. load = Some path \<and> load_file X path = Inl message \<longrightarrow>
        code = Some (if take 10 message = ''ambiguous '' then 7 else 6) \<and>
        (\<exists>j. effects = [Tool (writeOutput (flag_options f opts) (JsonText j))] \<and> answer_status j = ''error''))"
proof -
  let ?opts = "flag_options f opts"
  have json: "chosen_format ?opts = Some JsonFormat"
    using assms(5,6) by (auto simp: chosen_format_def flag_options_def given_def valid_choices_def split: if_splits option.splits)
  have plain: "netlistDotFile ?opts = None" "saveNetlistFile ?opts = None"
    using assms(7,8) by (simp_all add: flag_options_def)
  have answered: "\<exists>j c. code = Some c \<and> effects = [Tool (writeOutput ?opts (JsonText j))] \<and> c \<in> status_code (answer_status j) \<and>
      json_member ''complete'' (json_member ''summary'' j) = JBool (c \<noteq> 4) \<and> json_member ''schema_version'' j = JInt 1"
    if "run_tool E ?opts src = (effects, Some c)" "code = Some c" for E src c
    using that json_run_answers [OF json plain valid_choices_cross [OF assms(5)], of E src _ c]
    by (auto simp: run_tool_def one_answer_def split: prod.splits)
  have run: "(case load of
      Some path \<Rightarrow> run_tool (with_stats (stats_env X) [] (new_profile (arithmetic (stats_env X))) (tool X)) ?opts (Loaded (load_file X path))
    | None \<Rightarrow> (case compile_phases (front X) of (Some code, _) \<Rightarrow> ([], Some code)
        | (None, phaseTimes) \<Rightarrow> (case build_graph X (driver_builder_options f) of None \<Rightarrow> ([], None)
            | Some (N, bp) \<Rightarrow> run_tool (with_stats (stats_env X) phaseTimes bp (tool X)) ?opts (Built N)))) = (effects, code)"
    using assms by (simp add: cli_main_def Let_def)
  have outcomes: "code = None \<or>
     load = None \<and> code \<in> {Some 1, Some 2} \<and> effects = [] \<and> map fst (snd (compile_phases (front X))) \<noteq> [''parsing'', ''elaboration'', ''analysis'', ''netlist''] \<or>
     (\<exists>j c. code = Some c \<and> effects = [Tool (writeOutput ?opts (JsonText j))] \<and> c \<in> status_code (answer_status j) \<and>
        json_member ''complete'' (json_member ''summary'' j) = JBool (c \<noteq> 4) \<and> json_member ''schema_version'' j = JInt 1)"
  proof (cases code)
    case (Some c)
    show ?thesis
    proof (cases load)
      case (Some path)
      then show ?thesis using run answered \<open>code = Some c\<close> by auto
    next
      case None
      obtain r ts where phases: "compile_phases (front X) = (r, ts)" by fastforce
      show ?thesis
      proof (cases r)
        case (Some c')
        then show ?thesis
          using run None phases compile_phases_fails [of "front X" c' ts] by auto
      next
        case rNone: None
        then show ?thesis
          using run None phases answered \<open>code = Some c\<close> by (auto split: option.splits prod.splits)
      qed
    qed
  qed simp
  then have codes: "code \<noteq> Some 5" "code \<noteq> Some 8"
    by (auto simp: status_code_def split: if_splits)
  have refused: "run_tool E ?opts (Loaded (Inl message)) = ([Tool (writeOutput ?opts (JsonText (error_envelope E message)))],
      Some (if take 10 message = ''ambiguous '' then 7 else 6))" for E message
    using valid_choices_cross [OF assms(5)]
    by (auto simp: run_tool_def driver_main_def run_source_def handle_result_def json)
  have "code = Some (if take 10 message = ''ambiguous '' then 7 else 6) \<and>
      (\<exists>j. effects = [Tool (writeOutput ?opts (JsonText j))] \<and> answer_status j = ''error'')"
    if "load = Some path" "load_file X path = Inl message" for path message
    using run [unfolded that option.case refused, symmetric] error_status by blast
  with outcomes codes show ?thesis by blast
qed

text \<open>A tool whose command line \<open>find\<close> loads a netlist and looks for every node, whose command line \<open>old\<close> loads one
  of another version, and whose other command lines compile a design with an error.\<close>

definition no_flags :: flags where
  "no_flags = \<lparr>f_showHelp = None, f_showVersion = None, f_noColours = None, f_quiet = None, f_stats = None, f_statsJson = None,
     f_debug = None, f_reportRegisters = None, f_combLoops = None, f_noResolveAssignBits = None,
     f_noPropCutsAcrossPorts = None, f_blackBoxes = [], f_numThreads = None\<rparr>"

definition small_tool :: "(unit, int) cli_env" where
  "small_tool =
     \<lparr>files = \<lparr>path_exists = (\<lambda>p. p = ''old''), installed_skill = (\<lambda>_. ''share''), skill_source = ''skill'', copy_error = (\<lambda>_ _. None)\<rparr>,
      tool = plain_env,
      stats_env = \<lparr>arithmetic = tick_seconds, seconds_json = JInt, seconds_text = (\<lambda>_. ''0.000s''), peak_rss = 0, megabytes_text = (\<lambda>_. ''0.0'')\<rparr>,
      help_text = [], version_text = [],
      parse_args = (\<lambda>argv. Some (no_flags, find_all, if argv = [''tool'', ''find''] then Some ''net.json'' else if argv = [''tool'', ''old''] then Some ''old.json'' else None)),
      load_file = (\<lambda>path. if path = ''net.json'' then Inr registers_net else Inl ''Unsupported netlist version''),
      front = \<lparr>options_ok = True, parse_ok = True, elaboration_ok = False, analysis_ok = True, parsing_time = 1,
               elaboration_time = 1, analysis_time = 1, netlist_time = 1\<rparr>,
      build_graph = (\<lambda>_. None)\<rparr>"

theorem command_line_json_contract_witness:
  "(\<exists>effects j. cli_main small_tool [''tool'', ''find''] = (effects, Some 4) \<and>
      effects = [Tool (writeOutput (flag_options no_flags find_all) (JsonText j))] \<and> 4 \<in> status_code (answer_status j)) \<and>
   snd (cli_main small_tool [''tool'', ''old'']) = Some 6 \<and>
   cli_main small_tool [''tool''] = ([], Some 1)"
proof -
  have opts: "valid_choices (flag_options no_flags find_all)" "o_format find_all = Some ''json'' \<or> f_statsJson no_flags \<noteq> None"
    "netlistDotFile find_all = None" "saveNetlistFile find_all = None" "f_showHelp no_flags \<noteq> Some True" "f_showVersion no_flags \<noteq> Some True"
    by code_simp+
  have argv: "\<not> is_skill_export [''tool'', ''find'']" "parse_args small_tool [''tool'', ''find''] = Some (no_flags, find_all, Some ''net.json'')"
    by code_simp+
  have "snd (cli_main small_tool [''tool'', ''find'']) = Some 4"
    by code_simp
  then obtain effects where run: "cli_main small_tool [''tool'', ''find''] = (effects, Some 4)"
    by (cases "cli_main small_tool [''tool'', ''find'']") simp
  have old: "\<not> is_skill_export [''tool'', ''old'']" "parse_args small_tool [''tool'', ''old''] = Some (no_flags, find_all, Some ''old.json'')"
    by code_simp+
  have message: "load_file small_tool ''old.json'' = Inl ''Unsupported netlist version''"
    by (simp add: small_tool_def)
  obtain effects' code' where "cli_main small_tool [''tool'', ''old''] = (effects', code')" by fastforce
  with command_line_json_contract [OF old opts(5,6,1,2,3,4) this] message
  have "snd (cli_main small_tool [''tool'', ''old'']) = Some 6" by simp
  moreover have "cli_main small_tool [''tool''] = ([], Some 1)"
    by code_simp
  ultimately show ?thesis
    using command_line_json_contract [OF argv opts(5,6,1,2,3,4) run] run by auto
qed

end
