(* ===== verification/Spec2Isabelle.thy ===== *)
theory Spec2Isabelle
  imports Tracker TrackerLocks IntervalDiff Wildcard EdgeLocks Cycles QueryProps SliceFacts RoundTripQueries ResolutionProps Profile Canonical
    StartProps
begin

text \<open>
  A verification development for slang-netlist, a program that builds a bit-accurate dependency graph of a
  SystemVerilog design and answers queries on it.

  The program. slang parses and elaborates the design. \<open>NetlistGraph::build\<close> runs \<open>NetlistBuilder\<close> over slang's tree:
  phase 1 creates the nodes of ports and variables, connects ports and defers procedural blocks and continuous
  assignments; phase 2 runs a \<open>DataFlowAnalysis\<close> on each deferred block, in order or on a thread pool, and merges the
  drivers it finds into the builder's driver map; \<open>finalize\<close> resolves the R-values that were left pending. The graph
  is then searched (paths, loops, fan-in, fan-out, drivers, sensitivity), written to JSON and read back.

  Theories and code.

  Data. \<open>BitRange\<close>: \<^verbatim>\<open>include/netlist/DriverBitRange.hpp\<close>. \<open>ExternalManager\<close>, \<open>DriverMap\<close>: the headers of the same
  names under \<^verbatim>\<open>source/\<close>. \<open>IntervalMap\<close>: the contract of slang's interval map. \<open>ValueTracker\<close>:
  \<^verbatim>\<open>source/ValueTracker.cpp/.hpp\<close>, with \<open>TrackerLocks\<close> for its concurrent calls as a step relation. \<open>IntervalDiff\<close>:
  \<^verbatim>\<open>source/IntervalMapUtils.hpp\<close>. \<open>DirectedGraph\<close>: \<^verbatim>\<open>include/netlist/DirectedGraph.hpp\<close>, a record of node and edge
  objects (numbers are the pointers) with every node's edge lists and index; \<open>EdgeLocks\<close> has its two locking protocols
  as a step relation. \<open>NetlistTypes\<close>: the headers of nodes, edges, locations and symbols. \<open>Wildcard\<close>:
  \<^verbatim>\<open>include/common/Wildcard.hpp\<close>. \<open>BitSlices\<close>: \<^verbatim>\<open>source/BitSlice.hpp\<close>, \<^verbatim>\<open>source/BitSliceList.cpp\<close>,
  \<^verbatim>\<open>source/CutRegistry.hpp\<close>.

  Building. \<open>Builder\<close>: the state and helpers of \<^verbatim>\<open>source/NetlistBuilder.cpp/.hpp\<close>, \<^verbatim>\<open>NodeFactory.cpp\<close>,
  \<^verbatim>\<open>VariableTracker.hpp\<close>, \<^verbatim>\<open>PendingRValue.hpp\<close>, \<^verbatim>\<open>PendingRvalueQueue.cpp\<close>. \<open>Flow\<close>:
  \<^verbatim>\<open>source/DataFlowAnalysis.cpp/.hpp\<close>, one definition per handler and lattice operation. \<open>Ports\<close>:
  \<^verbatim>\<open>source/PortConnectionHandler.cpp\<close>. \<open>Pipeline\<close>: the visitors of \<^verbatim>\<open>NetlistBuilder.cpp\<close>, \<^verbatim>\<open>source/BuildPipeline.cpp\<close>
  and \<open>NetlistGraph::build\<close>. \<open>Canonical\<close>: \<^verbatim>\<open>source/CanonicalBodyResolver.cpp\<close>, which finds the symbol that slang keeps
  the drivers of a value with. \<open>Profile\<close>: \<^verbatim>\<open>include/netlist/BuildProfile.hpp\<close> and the places of \<^verbatim>\<open>BuildPipeline.cpp\<close>
  that fill it in.

  Using. \<open>DFS\<close>, \<open>PathFinder\<close>, \<open>Cycles\<close>: \<^verbatim>\<open>source/DepthFirstSearch.hpp\<close>, \<^verbatim>\<open>PathFinder.cpp\<close>, \<^verbatim>\<open>CycleDetector.hpp\<close>,
  \<^verbatim>\<open>CombLoops.cpp\<close>. \<open>Queries\<close>: \<^verbatim>\<open>source/NetlistGraph.cpp\<close>. \<open>Serializer\<close>: \<^verbatim>\<open>source/NetlistSerializer.cpp\<close>.

  Tools. \<open>Tables\<close>: \<^verbatim>\<open>include/common/FormatBuffer.hpp\<close> and \<^verbatim>\<open>Utilities.hpp\<close>. \<open>Dot\<close>: \<^verbatim>\<open>include/netlist/NetlistDot.hpp\<close>.
  \<open>Driver\<close> and \<open>DriverCommands\<close>: \<^verbatim>\<open>tools/driver/driver.cpp\<close>, from the parsed options to the outputs and the exit code,
  one definition per query command; \<open>DriverStart\<close>: the same file from the command line on (export of the skill
  directory, flags, compilation phases, statistics) and \<^verbatim>\<open>include/netlist/Debug.hpp\<close>. \<open>Bindings\<close>: the Python module,
  \<^verbatim>\<open>bindings/python/pyslang_netlist.cpp\<close>, with \<^verbatim>\<open>BuilderOptions.hpp\<close> and \<^verbatim>\<open>VisitAll.hpp\<close>. \<open>Reports\<close>:
  \<^verbatim>\<open>tools/report/report.cpp\<close> and the visitors of \<^verbatim>\<open>include/report/\<close>.

  The other theories hold facts: \<open>IntervalFacts\<close>, \<open>AddDrivers\<close>, \<open>Tracker\<close> (drivers bit by bit), \<open>GraphInv\<close> (the
  container's invariant), \<open>FanFacts\<close>, \<open>QueryFacts\<close>, \<open>QueryProps\<close>, \<open>SliceFacts\<close>, \<open>NetFacts\<close>, \<open>SerializerFacts\<close>,
  \<open>SerializerProps\<close>, \<open>BuilderFacts\<close>, \<open>FlowFacts\<close>, \<open>DfaFacts\<close>, \<open>PipelineFacts\<close> (the builder's invariant through every
  operation and phase), \<open>FlowSpec\<close> and \<open>FlowProps\<close> (the analysis against its abstract state), \<open>Resolution\<close> and
  \<open>ResolutionProps\<close> (the edges that pending reads get; their invariant \<open>lists_there\<close> is a hypothesis, kept by merging
  calls of \<open>addDrivers\<close> but not proved of whole builds), \<open>RoundTripQueries\<close>, \<open>ToolProps\<close>, \<open>StartProps\<close>.

  Conventions. A failed \<open>SLANG_ASSERT\<close>, a dereferenced null pointer and an exception are \<open>None\<close> or an error value. A
  loop whose end is not structural is a \<open>partial_function\<close>, and the properties state that it returns. One loop has
  fuel, the overlap loop of \<open>addDrivers\<close> (\<open>add_loop\<close>): it is given one unit for each interval that overlaps the range, every
  turn that looks the overlaps up again leaves fewer of them, and \<open>loop_correct\<close> shows that this is enough. Interval
  maps, ranges, JSON text, constants and everything asked of slang's tree are arguments (\<open>ops\<close>, \<open>range_lib\<close>, \<open>env\<close>),
  with the laws that the code relies on in the locales \<open>interval_map\<close>, \<open>constant_range\<close>, \<open>builder_env\<close> and \<open>seconds\<close>,
  each interpreted on a concrete instance. Bit positions are integers, far below \<open>2 ^ 31\<close>
  in the code; where the code casts (the serializer), the wrap-around is written out. Iteration orders that the code
  leaves open (hash sets, the slots of a tracker, the thread pool, the unstable sort) are lists, the environment's
  \<open>slot_order\<close> or a \<open>schedule\<close> that the properties quantify over.

  What the lemmas show. The driver map: \<open>addDrivers\<close> and \<open>getDrivers\<close> do on every bit what a map from bits to sets of
  nodes does, except where a recorded interval is cut on both sides; concurrent calls return and have the effect of
  the calls in some order. The container: edge lists and indexes agree after every operation. Searches and queries:
  they return, and return exactly the nodes that a declarative definition names. Slices: aligned segments pair, bit by
  bit, what a reference definition of the expressions pairs. Serializer: a round trip restores nodes, edges and tables
  if there are no parallel edges; any accepted file gives a well-formed netlist; the queries answer on the loaded
  netlist what they answered on the saved one. Builder: every build that returns gives a well-formed netlist, in both
  modes and for any traversal made of the handlers and of copies, joins and meets of any states it keeps; the analysis refines an
  abstract state of drivers per bit for postponed writes and joins; the resolution of the pending reads adds exactly the
  dependencies that a declarative description of the reads and drivers gives, in both modes and for every schedule; the
  profile describes the build. Tools: every JSON run of a command gives one document whose status agrees with the exit
  code, paths respect the policy on registers, and a range in a name is read back as it is written. Several theorems show
  behaviour that the code's comments or documents exclude; their texts say so.

  Not modelled: data races at large (a task of the pool runs as a whole; the calls of \<open>addEdge\<close>, \<open>addNewEdge\<close> and
  \<open>ValueTracker::addDrivers\<close> are interleaved at their locks and atomic operations, not below them); the parsing of
  options, help texts and the compilation of a design, which are slang's; slang's traversal itself (the resolver's
  answers for ports reach the builder as the drivers of a port, an argument); what pybind11 and the JSON library do
  beyond the documented conversions, and JSON numbers with a fraction, which the saved files do not hold; where \<open>DEBUG_PRINT\<close> is called, which changes no state.
\<close>

end
